(* ===== verification/Prelude.thy ===== *)
theory Prelude
  imports Complex_Main "HOL-Library.Word"
begin

text \<open>
  Shared vocabulary of the development: the machine integers of the Rust sources, the error
  values of \<^verbatim>\<open>vm/src/error.rs\<close> with the result type every fallible operation returns, the
  \<open>?\<close> operator, and the generic lemmas on words, bits and lists that the component theories use.

  Arithmetic follows the release profile of \<^verbatim>\<open>Cargo.toml\<close>: \<open>+\<close> and \<open>-\<close> on fixed-width
  integers wrap around and \<^verbatim>\<open>debug_assert!\<close> is not evaluated.  Everything else that aborts the
  Rust program (an index out of range, \<^verbatim>\<open>unwrap\<close> on \<^verbatim>\<open>None\<close>, \<^verbatim>\<open>unreachable!\<close>, \<^verbatim>\<open>assert!\<close>) is the
  value \<open>Panic\<close> of the result type.
\<close>

unbundle bit_operations_syntax

section \<open>Machine integers\<close>

type_synonym u8 = "8 word"
type_synonym u16 = "16 word"
type_synonym u32 = "32 word"
type_synonym u64 = "64 word"

named_theorems result_simps \<open>evaluation of the result type\<close>

section \<open>Errors and results\<close>

text \<open>The enum \<^verbatim>\<open>NexusVMError\<close>. The payloads of the two wrapped foreign errors
  (\<^verbatim>\<open>std::io::Error\<close>, \<^verbatim>\<open>elf::ParseError\<close>) are left out.\<close>

datatype nexus_vm_error =
    PartialInstruction u32
  | InvalidSize u32 u32
  | InvalidInstruction u32 u32
  | UnknownECall u32 u32
  | IOError
  | UnknownMachine string
  | ELFError
  | ELFFormat string
  | Misaligned u32
  | HashError string
  | MaxTraceLengthExceeded nat
  | InvalidProfileLabel

datatype 'a result = Ok (the_ok: 'a) | Err nexus_vm_error | Panic

fun result_bind :: "'a result \<Rightarrow> ('a \<Rightarrow> 'b result) \<Rightarrow> 'b result" where
  "result_bind (Ok a) k = k a"
| "result_bind (Err e) k = Err e"
| "result_bind Panic k = Panic"

text \<open>The \<open>?\<close> operator in a function that mutates \<open>s\<close>: on failure the function returns at once
  and the mutations done so far stay.\<close>

fun attempt :: "'a result \<Rightarrow> 's \<Rightarrow> ('a \<Rightarrow> 's \<times> 'b result) \<Rightarrow> 's \<times> 'b result" where
  "attempt (Ok a) s k = k a"
| "attempt (Err e) s k = (s, Err e)"
| "attempt Panic s k = (s, Panic)"

text \<open>\<^verbatim>\<open>Option::unwrap\<close> and slice indexing.\<close>

fun unwrap :: "'a option \<Rightarrow> 'a result" where
  "unwrap (Some a) = Ok a"
| "unwrap None = Panic"

definition index :: "'a list \<Rightarrow> nat \<Rightarrow> 'a result" where
  "index xs i = (if i < length xs then Ok (xs ! i) else Panic)"

text \<open>Collecting an iterator of results: the first failure wins.\<close>

fun collect :: "'a result list \<Rightarrow> 'a list result" where
  "collect [] = Ok []"
| "collect (r # rs) = result_bind r (\<lambda>a. result_bind (collect rs) (\<lambda>as. Ok (a # as)))"

lemma index_Ok [simp]: "i < length xs \<Longrightarrow> index xs i = Ok (xs ! i)"
  by (simp add: index_def)

lemma result_bind_Ok_iff [result_simps]:
  "result_bind r k = Ok b \<longleftrightarrow> (\<exists>a. r = Ok a \<and> k a = Ok b)"
  by (cases r) auto

lemma attempt_Ok_iff [result_simps]:
  "attempt r s k = (s', Ok b) \<longleftrightarrow> (\<exists>a. r = Ok a \<and> k a = (s', Ok b))"
  by (cases r) auto

lemma attempt_Panic_iff [result_simps]:
  "snd (attempt r s k) = Panic \<longleftrightarrow> r = Panic \<or> (\<exists>a. r = Ok a \<and> snd (k a) = Panic)"
  by (cases r) auto

lemma collect_map_Ok [simp]: "(\<And>x. x \<in> set xs \<Longrightarrow> f x = Ok (g x)) \<Longrightarrow> collect (map f xs) = Ok (map g xs)"
  by (induction xs) auto

lemma collect_Ok_length: "collect rs = Ok as \<Longrightarrow> length as = length rs"
  by (induction rs arbitrary: as) (auto simp: result_simps)

section \<open>Bits of words\<close>

text \<open>A word below \<open>2 ^ m\<close> is one whose bits from position \<open>m\<close> on are all zero.\<close>

lemma less_2p_iff_take_bit:
  assumes "m < LENGTH('a)"
  shows "(x::'a::len word) < 2 ^ m \<longleftrightarrow> take_bit m x = x"
  using assms by (simp add: word_2p_lem word_size take_bit_eq_mask flip: mask_eq_iff)

lemma less_2p_iff_bits:
  assumes "m < LENGTH('a)"
  shows "(x::'a::len word) < 2 ^ m \<longleftrightarrow> (\<forall>n\<ge>m. \<not> bit x n)"
proof -
  have "take_bit m x = x \<longleftrightarrow> (\<forall>n. (n < m \<and> bit x n) = bit x n)"
    by (auto simp: bit_eq_iff bit_take_bit_iff dest: bit_imp_le_length)
  also have "\<dots> \<longleftrightarrow> (\<forall>n\<ge>m. \<not> bit x n)" by (auto simp: not_le [symmetric])
  finally show ?thesis using assms by (simp add: less_2p_iff_take_bit)
qed

lemma bit_above: "x < 2 ^ m \<Longrightarrow> m < LENGTH('a) \<Longrightarrow> m \<le> n \<Longrightarrow> \<not> bit (x::'a::len word) n"
  by (simp add: less_2p_iff_bits)

lemma upt_32: "[0..<32] =
   [0,1,2,3,4,5,6,7,8,9,10,11,12,13,14,15,
    16,17,18,19,20,21,22,23,24,25,26,27,28,29,30,31]"
  by (simp add: upt_conv_Cons)

text \<open>Equality of two words, bit by bit at literal positions: decides field-shuffling equations.\<close>

lemma u32_eq_iff: "(a::u32) = b \<longleftrightarrow> list_all (\<lambda>n. bit a n = bit b n) [0..<32]"
  by (auto simp: list_all_iff intro: bit_word_eqI)

lemmas u32_bitwise = u32_eq_iff upt_32

lemma u32_eqI: "(\<And>n. n < 32 \<Longrightarrow> bit (a::u32) n = bit b n) \<Longrightarrow> a = b"
  by (rule bit_word_eqI) simp

lemma bit_beyond: "8 \<le> n \<Longrightarrow> \<not> bit (b::u8) n" "16 \<le> n \<Longrightarrow> \<not> bit (h::u16) n"
  by (auto dest: bit_imp_le_length)

lemma ucast_ucast_u8 [simp]: "ucast (ucast (b::u8) :: u32) = b"
  by (rule bit_word_eqI) (auto simp: bit_simps)

lemma unat_inject: "unat (a::'a::len word) = unat b \<longleftrightarrow> a = b"
  by (auto dest: unsigned_word_eqI)

lemma unat_drop_bit_div: "unat (drop_bit n (a::'a::len word)) = unat a div 2 ^ n"
  by (simp only: unat_drop_bit_eq) (rule drop_bit_eq_div)

text \<open>A word is its upper and its lower part.\<close>

lemma word_split_iff: "(x::'a::len word) = y \<longleftrightarrow> drop_bit n x = drop_bit n y \<and> take_bit n x = take_bit n y"
  by (metis bits_ident)

end
