(* ===== verification/Rv32.thy ===== *)
theory Rv32
  imports Prelude
begin

text \<open>
  Abstract syntax of the RV32 instruction set (\<^verbatim>\<open>vm/src/rv32.rs\<close>): the operation enums, the
  instruction enum \<^verbatim>\<open>RV32\<close>, the operand accessors, the parsed instruction \<^verbatim>\<open>Inst\<close> and the
  instruction index \<^verbatim>\<open>index_j\<close> that the step circuit selects on.  The constructors \<^verbatim>\<open>OR\<close>, \<^verbatim>\<open>AND\<close> and
  \<^verbatim>\<open>XOR\<close> of the source carry the suffix \<open>_A\<close>, since those names are operators on words here.
\<close>

section \<open>Operations\<close>

datatype bop = BEQ | BNE | BLT | BGE | BLTU | BGEU

datatype lop = LB | LH | LW | LBU | LHU

datatype sop = SB | SH | SW

datatype aop = ADD | SUB | SLT | SLTU | SLL | SRL | SRA | OR_A | AND_A | XOR_A

datatype instruction_set = RV32i | RV32Nexus

section \<open>Instructions\<close>

datatype rv32 =
    LUI u32 u32             \<comment> \<open>rd, imm\<close>
  | AUIPC u32 u32           \<comment> \<open>rd, imm\<close>
  | JAL u32 u32             \<comment> \<open>rd, imm\<close>
  | JALR u32 u32 u32        \<comment> \<open>rd, rs1, imm\<close>
  | BR bop u32 u32 u32      \<comment> \<open>rs1, rs2, imm\<close>
  | LOAD lop u32 u32 u32    \<comment> \<open>rd, rs1, imm\<close>
  | STORE sop u32 u32 u32   \<comment> \<open>rs1, rs2, imm\<close>
  | ALUI aop u32 u32 u32    \<comment> \<open>rd, rs1, imm\<close>
  | ALU aop u32 u32 u32     \<comment> \<open>rd, rs1, rs2\<close>
  | FENCE
  | ECALL u32               \<comment> \<open>rd\<close>
  | EBREAK u32              \<comment> \<open>rd\<close>
  | UNIMP

fun rv32_rd :: "rv32 \<Rightarrow> u32 option" where
  "rv32_rd (LUI rd imm) = Some rd"
| "rv32_rd (AUIPC rd imm) = Some rd"
| "rv32_rd (JAL rd imm) = Some rd"
| "rv32_rd (JALR rd rs1 imm) = Some rd"
| "rv32_rd (ALUI aop rd rs1 imm) = Some rd"
| "rv32_rd (ALU aop rd rs1 rs2) = Some rd"
| "rv32_rd (LOAD lop rd rs1 imm) = Some rd"
| "rv32_rd (ECALL rd) = Some rd"
| "rv32_rd (EBREAK rd) = Some rd"
| "rv32_rd _ = None"

fun rv32_rs1 :: "rv32 \<Rightarrow> u32 option" where
  "rv32_rs1 (JALR rd rs1 imm) = Some rs1"
| "rv32_rs1 (BR bop rs1 rs2 imm) = Some rs1"
| "rv32_rs1 (LOAD lop rd rs1 imm) = Some rs1"
| "rv32_rs1 (STORE sop rs1 rs2 imm) = Some rs1"
| "rv32_rs1 (ALUI aop rd rs1 imm) = Some rs1"
| "rv32_rs1 (ALU aop rd rs1 rs2) = Some rs1"
| "rv32_rs1 _ = None"

fun rv32_rs2 :: "rv32 \<Rightarrow> u32 option" where
  "rv32_rs2 (BR bop rs1 rs2 imm) = Some rs2"
| "rv32_rs2 (STORE sop rs1 rs2 imm) = Some rs2"
| "rv32_rs2 (ALU aop rd rs1 rs2) = Some rs2"
| "rv32_rs2 _ = None"

fun rv32_imm :: "rv32 \<Rightarrow> u32 option" where
  "rv32_imm (LUI rd imm) = Some imm"
| "rv32_imm (AUIPC rd imm) = Some imm"
| "rv32_imm (JAL rd imm) = Some imm"
| "rv32_imm (JALR rd rs1 imm) = Some imm"
| "rv32_imm (BR bop rs1 rs2 imm) = Some imm"
| "rv32_imm (LOAD lop rd rs1 imm) = Some imm"
| "rv32_imm (STORE sop rs1 rs2 imm) = Some imm"
| "rv32_imm (ALUI aop rd rs1 imm) = Some imm"
| "rv32_imm _ = None"

text \<open>The struct \<^verbatim>\<open>Inst\<close>: a parsed instruction with the place it was found at.\<close>

record inst =
  i_pc :: u32
  i_len :: u32
  i_word :: u32
  i_inst :: rv32

definition inst_default :: inst where
  "inst_default = \<lparr>i_pc = 0, i_len = 0, i_word = 0, i_inst = UNIMP\<rparr>"

section \<open>Instruction set and instruction index\<close>

definition MAX_J :: u32 where
  "MAX_J = 42"

fun instruction_set_of :: "rv32 \<Rightarrow> instruction_set" where
  "instruction_set_of (ECALL rd) = RV32Nexus"
| "instruction_set_of (EBREAK rd) = RV32Nexus"
| "instruction_set_of _ = RV32i"

fun index_j :: "rv32 \<Rightarrow> u32" where
  "index_j (LUI _ _) = 1"
| "index_j (AUIPC _ _) = 2"
| "index_j (JAL _ _) = 3"
| "index_j (JALR _ _ _) = 4"
| "index_j (BR BEQ _ _ _) = 5"
| "index_j (BR BNE _ _ _) = 6"
| "index_j (BR BLT _ _ _) = 7"
| "index_j (BR BGE _ _ _) = 8"
| "index_j (BR BLTU _ _ _) = 9"
| "index_j (BR BGEU _ _ _) = 10"
| "index_j (LOAD LB _ _ _) = 11"
| "index_j (LOAD LH _ _ _) = 12"
| "index_j (LOAD LW _ _ _) = 13"
| "index_j (LOAD LBU _ _ _) = 14"
| "index_j (LOAD LHU _ _ _) = 15"
| "index_j (STORE SB _ _ _) = 16"
| "index_j (STORE SH _ _ _) = 17"
| "index_j (STORE SW _ _ _) = 18"
| "index_j (ALUI ADD _ _ _) = 19"
| "index_j (ALUI SUB _ _ _) = 20"
| "index_j (ALUI SLL _ _ _) = 21"
| "index_j (ALUI SLT _ _ _) = 22"
| "index_j (ALUI SLTU _ _ _) = 23"
| "index_j (ALUI XOR_A _ _ _) = 24"
| "index_j (ALUI SRL _ _ _) = 25"
| "index_j (ALUI SRA _ _ _) = 26"
| "index_j (ALUI OR_A _ _ _) = 27"
| "index_j (ALUI AND_A _ _ _) = 28"
| "index_j (ALU ADD _ _ _) = 29"
| "index_j (ALU SUB _ _ _) = 30"
| "index_j (ALU SLL _ _ _) = 31"
| "index_j (ALU SLT _ _ _) = 32"
| "index_j (ALU SLTU _ _ _) = 33"
| "index_j (ALU XOR_A _ _ _) = 34"
| "index_j (ALU SRL _ _ _) = 35"
| "index_j (ALU SRA _ _ _) = 36"
| "index_j (ALU OR_A _ _ _) = 37"
| "index_j (ALU AND_A _ _ _) = 38"
| "index_j FENCE = 39"
| "index_j (ECALL _) = 40"
| "index_j (EBREAK _) = 41"
| "index_j UNIMP = 42"

text \<open>An instruction without its operands: what \<open>index_j\<close> numbers.\<close>

fun erase :: "rv32 \<Rightarrow> rv32" where
  "erase (LUI _ _) = LUI 0 0"
| "erase (AUIPC _ _) = AUIPC 0 0"
| "erase (JAL _ _) = JAL 0 0"
| "erase (JALR _ _ _) = JALR 0 0 0"
| "erase (BR b _ _ _) = BR b 0 0 0"
| "erase (LOAD l _ _ _) = LOAD l 0 0 0"
| "erase (STORE s _ _ _) = STORE s 0 0 0"
| "erase (ALUI a _ _ _) = ALUI a 0 0 0"
| "erase (ALU a _ _ _) = ALU a 0 0 0"
| "erase (ECALL _) = ECALL 0"
| "erase (EBREAK _) = EBREAK 0"
| "erase i = i"

text \<open>The instruction a given index stands for, operands erased.\<close>

definition shapes :: "rv32 list" where
  "shapes =
    [LUI 0 0, AUIPC 0 0, JAL 0 0, JALR 0 0 0]
    @ map (\<lambda>b. BR b 0 0 0) [BEQ, BNE, BLT, BGE, BLTU, BGEU]
    @ map (\<lambda>l. LOAD l 0 0 0) [LB, LH, LW, LBU, LHU]
    @ map (\<lambda>s. STORE s 0 0 0) [SB, SH, SW]
    @ map (\<lambda>a. ALUI a 0 0 0) [ADD, SUB, SLL, SLT, SLTU, XOR_A, SRL, SRA, OR_A, AND_A]
    @ map (\<lambda>a. ALU a 0 0 0) [ADD, SUB, SLL, SLT, SLTU, XOR_A, SRL, SRA, OR_A, AND_A]
    @ [FENCE, ECALL 0, EBREAK 0, UNIMP]"

lemma shapes_index: "map index_j shapes = map (\<lambda>n. word_of_nat (Suc n)) [0..<42]"
  by (simp add: shapes_def upt_rec)

lemma index_j_erase [simp]: "index_j (erase i) = index_j i"
  by (cases i rule: index_j.cases) simp_all

lemma erase_in_shapes: "erase i \<in> set shapes"
  by (cases i rule: index_j.cases) (simp_all add: shapes_def)

lemma shapes_index_inj: "i \<in> set shapes \<Longrightarrow> k \<in> set shapes \<Longrightarrow> index_j i = index_j k \<Longrightarrow> i = k"
proof -
  assume i: "i \<in> set shapes" and k: "k \<in> set shapes" and eq: "index_j i = index_j k"
  have "distinct (map index_j shapes)"
    by (simp add: shapes_def)
  then have "inj_on index_j (set shapes)" by (simp add: distinct_map)
  then show "i = k" using i k eq by (simp add: inj_on_eq_iff)
qed

lemma index_j_eq_iff: "index_j i = index_j k \<longleftrightarrow> erase i = erase k"
  by (metis erase_in_shapes index_j_erase shapes_index_inj)

lemma index_j_range: "1 \<le> index_j i \<and> index_j i \<le> MAX_J"
  by (cases i rule: index_j.cases) (simp_all add: MAX_J_def)

section \<open>Properties\<close>

text \<open>C4: \<^verbatim>\<open>index_j\<close> numbers the instruction kinds without gaps or collisions: the indices are
  exactly \<open>1, \<dots>, MAX_J\<close>, and two instructions share an index just when they differ at most in their
  operands.\<close>

theorem index_j_numbering:
  "(index_j i = index_j k \<longleftrightarrow> erase i = erase k)
   \<and> range (\<lambda>i. unat (index_j i)) = {1 .. unat MAX_J}"
proof
  have "unat (index_j i) \<in> {1 .. unat MAX_J}" for i
    by (cases i rule: index_j.cases) (simp_all add: MAX_J_def)
  moreover have "n \<in> range (\<lambda>i. unat (index_j i))" if n: "n \<in> {1 .. unat MAX_J}" for n
  proof -
    have len: "length shapes = 42"
      using arg_cong [OF shapes_index, of length] by simp
    obtain k where k: "n = Suc k" "k < 42" using n by (cases n) (auto simp: MAX_J_def)
    have "index_j (shapes ! k) = word_of_nat n"
      using arg_cong [OF shapes_index, of "\<lambda>l. l ! k"] k len by simp
    then have "unat (index_j (shapes ! k)) = n"
      using k by (simp add: unat_of_nat del: of_nat_Suc)
    then show ?thesis by (metis rangeI)
  qed
  ultimately show "range (\<lambda>i. unat (index_j i)) = {1 .. unat MAX_J}" by blast
qed (rule index_j_eq_iff)

end
