(* ===== verification/Parse.thy ===== *)
theory Parse
  imports Rv32
begin

text \<open>
  The instruction decoder (\<^verbatim>\<open>vm/src/rv32/parse.rs\<close>): field and immediate extraction, the
  operation tables, \<^verbatim>\<open>parse_u32\<close>, the instruction-length rule, the ECALL/EBREAK rewriting of the
  RV32Nexus extension, and the parsers of one instruction and of a code buffer.  The second half
  states what decoding means: a reference encoder \<open>encode\<close> for the formats of the RISC-V manual and
  the well-formedness \<open>wf_inst\<close> of decoded instructions.
\<close>

section \<open>Fields\<close>

definition bits :: "u32 \<Rightarrow> nat \<Rightarrow> nat \<Rightarrow> u32" where
  "bits val s e = drop_bit (31 - e + s) (push_bit (31 - e) val)"

definition opcode :: "u32 \<Rightarrow> u32" where "opcode word = bits word 0 6"
definition funct3 :: "u32 \<Rightarrow> u32" where "funct3 word = bits word 12 14"
definition funct7 :: "u32 \<Rightarrow> u32" where "funct7 word = bits word 25 31"
definition shamt :: "u32 \<Rightarrow> u32" where "shamt word = bits word 20 24"
definition p_rd :: "u32 \<Rightarrow> u32" where "p_rd word = bits word 7 11"
definition p_rs1 :: "u32 \<Rightarrow> u32" where "p_rs1 word = bits word 15 19"
definition p_rs2 :: "u32 \<Rightarrow> u32" where "p_rs2 word = bits word 20 24"

definition signed :: "u32 \<Rightarrow> bool" where
  "signed word \<longleftrightarrow> word AND 0x80000000 \<noteq> 0"

definition immI :: "u32 \<Rightarrow> u32" where
  "immI word = (if signed word then 0xfffff800 else 0) OR bits word 20 30"

definition immS :: "u32 \<Rightarrow> u32" where
  "immS word = (if signed word then 0xfffff800 else 0)
     OR push_bit 5 (bits word 25 30) OR bits word 7 11"

definition immB :: "u32 \<Rightarrow> u32" where
  "immB word = (if signed word then 0xfffff000 else 0)
     OR push_bit 11 (bits word 7 7) OR push_bit 5 (bits word 25 30) OR push_bit 1 (bits word 8 11)"

definition immU :: "u32 \<Rightarrow> u32" where
  "immU word = word AND 0xfffff000"

definition immJ :: "u32 \<Rightarrow> u32" where
  "immJ word = (if signed word then 0xfff00000 else 0)
     OR push_bit 12 (bits word 12 19) OR push_bit 11 (bits word 20 20) OR push_bit 1 (bits word 21 30)"

section \<open>Operation tables\<close>

definition parse_bop :: "u32 \<Rightarrow> bop option" where
  "parse_bop word = (let f3 = funct3 word in
     if f3 = 0 then Some BEQ else if f3 = 1 then Some BNE
     else if f3 = 4 then Some BLT else if f3 = 5 then Some BGE
     else if f3 = 6 then Some BLTU else if f3 = 7 then Some BGEU else None)"

definition parse_lop :: "u32 \<Rightarrow> lop option" where
  "parse_lop word = (let f3 = funct3 word in
     if f3 = 0 then Some LB else if f3 = 1 then Some LH else if f3 = 2 then Some LW
     else if f3 = 4 then Some LBU else if f3 = 5 then Some LHU else None)"

definition parse_sop :: "u32 \<Rightarrow> sop option" where
  "parse_sop word = (let f3 = funct3 word in
     if f3 = 0 then Some SB else if f3 = 1 then Some SH else if f3 = 2 then Some SW else None)"

text \<open>The assertions \<^verbatim>\<open>assert_eq!(opcode(word), ..)\<close> of \<^verbatim>\<open>aop\<close> and \<^verbatim>\<open>aopi\<close> restate the match arm of
  \<open>parse_u32\<close> that is their only caller.\<close>

definition parse_aop :: "u32 \<Rightarrow> aop option" where
  "parse_aop word = (let f = (funct3 word, funct7 word) in
     if f = (0, 0x20) then Some SUB else if f = (0, 0) then Some ADD
     else if f = (1, 0) then Some SLL else if f = (2, 0) then Some SLT
     else if f = (3, 0) then Some SLTU else if f = (4, 0) then Some XOR_A
     else if f = (5, 0) then Some SRL else if f = (5, 0x20) then Some SRA
     else if f = (6, 0) then Some OR_A else if f = (7, 0) then Some AND_A else None)"

definition parse_aopi :: "u32 \<Rightarrow> aop option" where
  "parse_aopi word = (let f3 = funct3 word; f7 = funct7 word in
     if f3 = 0 then Some ADD else if f3 = 1 \<and> f7 = 0 then Some SLL
     else if f3 = 2 then Some SLT else if f3 = 3 then Some SLTU
     else if f3 = 4 then Some XOR_A else if f3 = 5 \<and> f7 = 0 then Some SRL
     else if f3 = 5 \<and> f7 = 0x20 then Some SRA else if f3 = 6 then Some OR_A
     else if f3 = 7 then Some AND_A else None)"

definition immA :: "u32 \<Rightarrow> u32" where
  "immA word = (if funct3 word = 1 \<or> funct3 word = 5 then shamt word else immI word)"

section \<open>Instructions\<close>

abbreviation (input) "OPC_LUI \<equiv> 0x37 :: u32"
abbreviation (input) "OPC_AUIPC \<equiv> 0x17 :: u32"
abbreviation (input) "OPC_JAL \<equiv> 0x6f :: u32"
abbreviation (input) "OPC_JALR \<equiv> 0x67 :: u32"
abbreviation (input) "OPC_BR \<equiv> 0x63 :: u32"
abbreviation (input) "OPC_LOAD \<equiv> 0x03 :: u32"
abbreviation (input) "OPC_STORE \<equiv> 0x23 :: u32"
abbreviation (input) "OPC_ALUI \<equiv> 0x13 :: u32"
abbreviation (input) "OPC_ALU \<equiv> 0x33 :: u32"
abbreviation (input) "OPC_FENCE \<equiv> 0x0f :: u32"
abbreviation (input) "OPC_ECALL \<equiv> 0x73 :: u32"

definition parse_u32 :: "u32 \<Rightarrow> rv32 option" where
  "parse_u32 word = (let opc = opcode word in
     if opc = OPC_LUI then Some (LUI (p_rd word) (immU word))
     else if opc = OPC_AUIPC then Some (AUIPC (p_rd word) (immU word))
     else if opc = OPC_JAL then Some (JAL (p_rd word) (immJ word))
     else if opc = OPC_JALR then
       (if funct3 word = 0 then Some (JALR (p_rd word) (p_rs1 word) (immI word)) else None)
     else if opc = OPC_BR then
       map_option (\<lambda>b. BR b (p_rs1 word) (p_rs2 word) (immB word)) (parse_bop word)
     else if opc = OPC_LOAD then
       map_option (\<lambda>l. LOAD l (p_rd word) (p_rs1 word) (immI word)) (parse_lop word)
     else if opc = OPC_STORE then
       map_option (\<lambda>s. STORE s (p_rs1 word) (p_rs2 word) (immS word)) (parse_sop word)
     else if opc = OPC_ALUI then
       map_option (\<lambda>a. ALUI a (p_rd word) (p_rs1 word) (immA word)) (parse_aopi word)
     else if opc = OPC_ALU then
       map_option (\<lambda>a. ALU a (p_rd word) (p_rs1 word) (p_rs2 word)) (parse_aop word)
     else if opc = OPC_FENCE then Some FENCE
     else if opc = OPC_ECALL then
       (if drop_bit 12 word = 0 then Some (ECALL (p_rd word))
        else if drop_bit 12 word = 0x00100 then Some (EBREAK (p_rd word))
        else if drop_bit 12 word = 0xc0001 then Some UNIMP
        else None)
     else None)"

text \<open>Instruction length in bytes, from the first two bytes.\<close>

definition ax :: "u8 \<Rightarrow> u8 \<Rightarrow> bool" where
  "ax b n \<longleftrightarrow> (b AND n) XOR n \<noteq> 0"

definition inst_size :: "u8 \<Rightarrow> u8 \<Rightarrow> u32" where
  "inst_size b0 b1 =
     (if ax b0 0x03 then 2 else if ax b0 0x1f then 4 else if ax b0 0x3f then 6
      else if ax b0 0x7f then 8
      else if ax b1 0x70 then ucast (10 + 2 * (drop_bit 4 b1 AND 7)) else 0)"

definition translate_nexus :: "u32 \<Rightarrow> u32" where
  "translate_nexus word =
     (if word = 0x00000073 \<or> word = 0x00100073 then word OR push_bit 7 0xa else word)"

text \<open>Four bytes, least significant first, as a word.\<close>

definition word_of_bytes :: "u8 list \<Rightarrow> u32" where
  "word_of_bytes mem =
     push_bit 24 (ucast (mem ! 3)) OR push_bit 16 (ucast (mem ! 2))
     OR push_bit 8 (ucast (mem ! 1)) OR ucast (mem ! 0)"

text \<open>\<^verbatim>\<open>u32::to_le_bytes\<close>.\<close>

definition to_le_bytes :: "u32 \<Rightarrow> u8 list" where
  "to_le_bytes w = [ucast w, ucast (drop_bit 8 w), ucast (drop_bit 16 w), ucast (drop_bit 24 w)]"

definition parse_inst :: "u32 \<Rightarrow> u8 list \<Rightarrow> inst result" where
  "parse_inst pc mem =
     (if length mem < 2 then Err (PartialInstruction pc)
      else let sz = inst_size (mem ! 0) (mem ! 1) in
        if length mem < unat sz then Err (PartialInstruction pc)
        else if sz \<noteq> 4 then Err (InvalidSize pc sz)
        else let word = translate_nexus (word_of_bytes mem) in
          case parse_u32 word of
            None \<Rightarrow> Err (InvalidInstruction pc word)
          | Some i \<Rightarrow> Ok \<lparr>i_pc = pc, i_len = sz, i_word = word, i_inst = i\<rparr>)"

lemma parse_inst_len: "parse_inst pc mem = Ok i \<Longrightarrow> i_len i = 4 \<and> 4 \<le> length mem"
  by (auto simp: parse_inst_def Let_def split: if_splits option.splits)

text \<open>The loop of \<^verbatim>\<open>parse_buf\<close>, at buffer position \<open>i\<close> with the instructions \<open>v\<close> found so far.\<close>

function parse_buf_loop :: "u32 \<Rightarrow> u8 list \<Rightarrow> nat \<Rightarrow> inst list \<Rightarrow> inst list result" where
  "parse_buf_loop pc mem i v =
     (if i < length mem then
        (case parse_inst (pc + word_of_nat i) (drop i mem) of
           Ok inst \<Rightarrow> parse_buf_loop pc mem (i + unat (i_len inst)) (v @ [inst])
         | Err e \<Rightarrow> Err e
         | Panic \<Rightarrow> Panic)
      else Ok v)"
  by pat_completeness auto
termination
  by (relation "measure (\<lambda>(pc, mem, i, v). length mem - i)") (auto dest: parse_inst_len)

declare parse_buf_loop.simps [simp del]

definition parse_buf :: "u32 \<Rightarrow> u8 list \<Rightarrow> inst list result" where
  "parse_buf pc mem = parse_buf_loop pc mem 0 []"

end
