(* ===== verification/Decode.thy ===== *)
theory Decode
  imports Parse
begin

text \<open>
  What the decoder means.  \<open>encode\<close> lays an instruction out in the R, I, S, B, U and J formats of the
  RISC-V manual; \<open>wf_inst\<close> says which operands those formats can hold.  The lemmas show that decoding
  inverts encoding and that every decoded instruction is well formed, so the register indices and
  immediates the rest of the machine relies on are in range.
\<close>

section \<open>Bits of fields\<close>

lemma bit_bits [bit_simps]:
  "s \<le> e \<Longrightarrow> e < 32 \<Longrightarrow> bit (bits w s e) n \<longleftrightarrow> s + n \<le> e \<and> bit w (s + n)"
  by (auto simp: bits_def bit_simps add.commute dest: bit_imp_le_length)

lemma bit_times_2 [bit_simps]: "bit ((x::u32) * 2) n \<longleftrightarrow> 0 < n \<and> n < 32 \<and> bit x (n - 1)"
  by (subst mult.commute) (auto simp: bit_double_iff)

lemma bits_less: "s \<le> e \<Longrightarrow> e < 31 + s \<Longrightarrow> e < 32 \<Longrightarrow> bits w s e < 2 ^ (e - s + 1)"
  by (subst less_2p_iff_bits) (auto simp: bit_simps)

lemmas field_defs = opcode_def funct3_def funct7_def shamt_def p_rd_def p_rs1_def p_rs2_def

lemma fields_less:
  "opcode w < 128" "funct3 w < 8" "funct7 w < 128" "shamt w < 32"
  "p_rd w < 32" "p_rs1 w < 32" "p_rs2 w < 32"
  using bits_less [of 0 6 w] bits_less [of 12 14 w] bits_less [of 25 31 w] bits_less [of 20 24 w]
    bits_less [of 7 11 w] bits_less [of 15 19 w]
  by (simp_all add: field_defs)

lemma signed_iff: "signed w \<longleftrightarrow> bit w 31"
proof -
  have "w AND 0x80000000 = (if bit w 31 then 0x80000000 else 0)"
    by (simp add: u32_bitwise bit_simps)
  then show ?thesis by (simp add: signed_def)
qed

lemma small_bits: "x < 32 \<Longrightarrow> 5 \<le> n \<Longrightarrow> \<not> bit (x::u32) n"
  "x < 8 \<Longrightarrow> 3 \<le> n \<Longrightarrow> \<not> bit (x::u32) n"
  "x < 128 \<Longrightarrow> 7 \<le> n \<Longrightarrow> \<not> bit (x::u32) n"
  using bit_above [of x 5 n] bit_above [of x 3 n] bit_above [of x 7 n] by simp_all

section \<open>The reference encoding\<close>

text \<open>The six slots of an instruction word, most significant first.\<close>

definition layout :: "u32 \<Rightarrow> u32 \<Rightarrow> u32 \<Rightarrow> u32 \<Rightarrow> u32 \<Rightarrow> u32 \<Rightarrow> u32" where
  "layout f7 rs2 rs1 f3 rd opc =
     push_bit 25 f7 OR push_bit 20 rs2 OR push_bit 15 rs1 OR push_bit 12 f3 OR push_bit 7 rd OR opc"

lemma layout_fields [simp]:
  assumes "f7 < 128" "rs2 < 32" "rs1 < 32" "f3 < 8" "rd < 32" "opc < 128"
  shows "opcode (layout f7 rs2 rs1 f3 rd opc) = opc"
    and "p_rd (layout f7 rs2 rs1 f3 rd opc) = rd"
    and "funct3 (layout f7 rs2 rs1 f3 rd opc) = f3"
    and "p_rs1 (layout f7 rs2 rs1 f3 rd opc) = rs1"
    and "p_rs2 (layout f7 rs2 rs1 f3 rd opc) = rs2"
    and "shamt (layout f7 rs2 rs1 f3 rd opc) = rs2"
    and "funct7 (layout f7 rs2 rs1 f3 rd opc) = f7"
  using assms by (simp_all add: u32_bitwise field_defs layout_def bit_simps small_bits)

lemma layout_of_fields: "layout (funct7 w) (p_rs2 w) (p_rs1 w) (funct3 w) (p_rd w) (opcode w) = w"
  by (simp add: u32_bitwise field_defs layout_def bit_simps)

text \<open>Where each format puts its immediate.\<close>

definition enc_I :: "u32 \<Rightarrow> u32 \<Rightarrow> u32 \<Rightarrow> u32 \<Rightarrow> u32 \<Rightarrow> u32" where
  "enc_I opc f3 rd rs1 imm = layout (bits imm 5 11) (bits imm 0 4) rs1 f3 rd opc"

definition enc_S :: "u32 \<Rightarrow> u32 \<Rightarrow> u32 \<Rightarrow> u32 \<Rightarrow> u32 \<Rightarrow> u32" where
  "enc_S opc f3 rs1 rs2 imm = layout (bits imm 5 11) rs2 rs1 f3 (bits imm 0 4) opc"

definition enc_B :: "u32 \<Rightarrow> u32 \<Rightarrow> u32 \<Rightarrow> u32 \<Rightarrow> u32 \<Rightarrow> u32" where
  "enc_B opc f3 rs1 rs2 imm =
     layout (push_bit 6 (bits imm 12 12) OR bits imm 5 10) rs2 rs1 f3
       (push_bit 1 (bits imm 1 4) OR bits imm 11 11) opc"

definition enc_U :: "u32 \<Rightarrow> u32 \<Rightarrow> u32 \<Rightarrow> u32" where
  "enc_U opc rd imm = layout (bits imm 25 31) (bits imm 20 24) (bits imm 15 19) (bits imm 12 14) rd opc"

definition enc_J :: "u32 \<Rightarrow> u32 \<Rightarrow> u32 \<Rightarrow> u32" where
  "enc_J opc rd imm =
     layout (push_bit 6 (bits imm 20 20) OR bits imm 5 10)
       (push_bit 1 (bits imm 1 4) OR bits imm 11 11) (bits imm 15 19) (bits imm 12 14) rd opc"

fun bop_code :: "bop \<Rightarrow> u32" where
  "bop_code BEQ = 0" | "bop_code BNE = 1" | "bop_code BLT = 4"
| "bop_code BGE = 5" | "bop_code BLTU = 6" | "bop_code BGEU = 7"

fun lop_code :: "lop \<Rightarrow> u32" where
  "lop_code LB = 0" | "lop_code LH = 1" | "lop_code LW = 2" | "lop_code LBU = 4" | "lop_code LHU = 5"

fun sop_code :: "sop \<Rightarrow> u32" where
  "sop_code SB = 0" | "sop_code SH = 1" | "sop_code SW = 2"

text \<open>The pair of \<open>funct3\<close> and \<open>funct7\<close>.\<close>

fun aop_code :: "aop \<Rightarrow> u32 \<times> u32" where
  "aop_code ADD = (0, 0)" | "aop_code SUB = (0, 0x20)" | "aop_code SLL = (1, 0)"
| "aop_code SLT = (2, 0)" | "aop_code SLTU = (3, 0)" | "aop_code XOR_A = (4, 0)"
| "aop_code SRL = (5, 0)" | "aop_code SRA = (5, 0x20)" | "aop_code OR_A = (6, 0)"
| "aop_code AND_A = (7, 0)"

definition is_shift :: "aop \<Rightarrow> bool" where
  "is_shift a \<longleftrightarrow> a = SLL \<or> a = SRL \<or> a = SRA"

fun encode :: "rv32 \<Rightarrow> u32" where
  "encode (LUI rd imm) = enc_U OPC_LUI rd imm"
| "encode (AUIPC rd imm) = enc_U OPC_AUIPC rd imm"
| "encode (JAL rd imm) = enc_J OPC_JAL rd imm"
| "encode (JALR rd rs1 imm) = enc_I OPC_JALR 0 rd rs1 imm"
| "encode (BR b rs1 rs2 imm) = enc_B OPC_BR (bop_code b) rs1 rs2 imm"
| "encode (LOAD l rd rs1 imm) = enc_I OPC_LOAD (lop_code l) rd rs1 imm"
| "encode (STORE s rs1 rs2 imm) = enc_S OPC_STORE (sop_code s) rs1 rs2 imm"
| "encode (ALUI a rd rs1 imm) =
     (if is_shift a then layout (snd (aop_code a)) imm rs1 (fst (aop_code a)) rd OPC_ALUI
      else enc_I OPC_ALUI (fst (aop_code a)) rd rs1 imm)"
| "encode (ALU a rd rs1 rs2) = layout (snd (aop_code a)) rs2 rs1 (fst (aop_code a)) rd OPC_ALU"
| "encode FENCE = layout 0 0 0 0 0 OPC_FENCE"
| "encode (ECALL rd) = layout 0 0 0 0 rd OPC_ECALL"
| "encode (EBREAK rd) = layout 0 1 0 0 rd OPC_ECALL"
| "encode UNIMP = layout 0x60 0 0 1 0 OPC_ECALL"

section \<open>Well-formed instructions\<close>

text \<open>A sign-extended immediate of \<open>k + 1\<close> bits.\<close>

definition sext :: "nat \<Rightarrow> u32 \<Rightarrow> bool" where
  "sext k imm \<longleftrightarrow> signed_take_bit k imm = imm"

fun wf_inst :: "rv32 \<Rightarrow> bool" where
  "wf_inst (LUI rd imm) \<longleftrightarrow> rd < 32 \<and> imm AND 0xfff = 0"
| "wf_inst (AUIPC rd imm) \<longleftrightarrow> rd < 32 \<and> imm AND 0xfff = 0"
| "wf_inst (JAL rd imm) \<longleftrightarrow> rd < 32 \<and> sext 20 imm \<and> imm AND 1 = 0"
| "wf_inst (JALR rd rs1 imm) \<longleftrightarrow> rd < 32 \<and> rs1 < 32 \<and> sext 11 imm"
| "wf_inst (BR b rs1 rs2 imm) \<longleftrightarrow> rs1 < 32 \<and> rs2 < 32 \<and> sext 12 imm \<and> imm AND 1 = 0"
| "wf_inst (LOAD l rd rs1 imm) \<longleftrightarrow> rd < 32 \<and> rs1 < 32 \<and> sext 11 imm"
| "wf_inst (STORE s rs1 rs2 imm) \<longleftrightarrow> rs1 < 32 \<and> rs2 < 32 \<and> sext 11 imm"
| "wf_inst (ALUI a rd rs1 imm) \<longleftrightarrow>
     rd < 32 \<and> rs1 < 32 \<and> a \<noteq> SUB \<and> (if is_shift a then imm < 32 else sext 11 imm)"
| "wf_inst (ALU a rd rs1 rs2) \<longleftrightarrow> rd < 32 \<and> rs1 < 32 \<and> rs2 < 32"
| "wf_inst FENCE \<longleftrightarrow> True"
| "wf_inst (ECALL rd) \<longleftrightarrow> rd < 32"
| "wf_inst (EBREAK rd) \<longleftrightarrow> rd < 32"
| "wf_inst UNIMP \<longleftrightarrow> True"

lemma sext_bit: "sext k imm \<Longrightarrow> k \<le> n \<Longrightarrow> n < 31 \<Longrightarrow> bit imm n = bit imm 31"
proof -
  assume imm: "sext k imm" and n: "k \<le> n" "n < 31"
  have "bit (signed_take_bit k imm) n = bit (signed_take_bit k imm) 31"
    using n by (simp add: bit_signed_take_bit_iff min_def)
  then show ?thesis using imm by (simp add: sext_def)
qed

lemma low12_iff: "imm AND 0xfff = (0::u32) \<longleftrightarrow> (\<forall>n<12. \<not> bit imm n)"
proof -
  have "imm AND 0xfff = (0::u32) \<longleftrightarrow> take_bit 12 imm = 0" by (simp add: take_bit_eq_mask mask_numeral)
  also have "\<dots> \<longleftrightarrow> (\<forall>n<12. \<not> bit imm n)"
    by (auto simp: bit_eq_iff bit_take_bit_iff dest: bit_imp_le_length)
  finally show ?thesis .
qed

lemma low1_iff: "imm AND 1 = (0::u32) \<longleftrightarrow> \<not> bit imm 0"
  by (simp add: and_one_eq odd_iff_mod_2_eq_one bit_0 even_iff_mod_2_eq_zero)

lemma bits_field_bounds [simp]:
  "bits imm 5 11 < 128" "bits imm 0 4 < 32" "bits imm 25 31 < 128" "bits imm 20 24 < 32"
  "bits imm 15 19 < 32" "bits imm 12 14 < 8"
  using bits_less [of 5 11 imm] bits_less [of 0 4 imm] bits_less [of 25 31 imm]
    bits_less [of 20 24 imm] bits_less [of 15 19 imm] bits_less [of 12 14 imm]
  by simp_all

lemma bits_scatter_bounds [simp]:
  "push_bit 6 (bits imm 12 12) OR bits imm 5 10 < 128"
  "push_bit 6 (bits imm 20 20) OR bits imm 5 10 < 128"
  "bits imm (Suc 0) 4 * 2 OR bits imm 11 11 < 32"
proof -
  have "push_bit 6 (bits imm a a) OR bits imm 5 10 < 2 ^ 7" if "a < 32" for a
    using that by (subst less_2p_iff_bits) (auto simp: bit_simps)
  from this [of 12] this [of 20]
  show "push_bit 6 (bits imm 12 12) OR bits imm 5 10 < 128"
    and "push_bit 6 (bits imm 20 20) OR bits imm 5 10 < 128" by simp_all
  have "bits imm (Suc 0) 4 * 2 OR bits imm 11 11 < 2 ^ 5"
    by (subst less_2p_iff_bits) (auto simp: bit_simps)
  then show "bits imm (Suc 0) 4 * 2 OR bits imm 11 11 < 32" by simp
qed

lemmas imm_bitwise = u32_bitwise layout_def bit_simps small_bits signed_iff low12_iff low1_iff
  numeral_2_eq_2 [symmetric]

text \<open>The immediates bit by bit.\<close>

lemma bit_imm_all:
  "list_all (\<lambda>n. bit (immI w) n = (if n < 11 then bit w (20 + n) else bit w 31)) [0..<32]"
  "list_all (\<lambda>n. bit (immS w) n =
     (if n < 5 then bit w (7 + n) else if n < 11 then bit w (20 + n) else bit w 31)) [0..<32]"
  "list_all (\<lambda>n. bit (immB w) n =
     (if n = 0 then False else if n < 5 then bit w (7 + n) else if n < 11 then bit w (20 + n)
      else if n = 11 then bit w 7 else bit w 31)) [0..<32]"
  "list_all (\<lambda>n. bit (immJ w) n =
     (if n = 0 then False else if n < 11 then bit w (20 + n) else if n = 11 then bit w 20
      else if n < 20 then bit w n else bit w 31)) [0..<32]"
  "list_all (\<lambda>n. bit (immU w) n = (12 \<le> n \<and> bit w n)) [0..<32]"
  unfolding immI_def immS_def immB_def immJ_def immU_def upt_32
  by (simp_all add: signed_iff bit_simps numeral_2_eq_2 [symmetric])

lemmas bit_imm = bit_imm_all [unfolded list_all_iff set_upt, rule_format]

lemma immI_enc [simp]:
  "rd < 32 \<Longrightarrow> rs1 < 32 \<Longrightarrow> f3 < 8 \<Longrightarrow> opc < 128 \<Longrightarrow> sext 11 imm \<Longrightarrow> immI (enc_I opc f3 rd rs1 imm) = imm"
  using sext_bit [of 11 imm] by (simp add: imm_bitwise bit_imm enc_I_def)

lemma immS_enc [simp]:
  "rs1 < 32 \<Longrightarrow> rs2 < 32 \<Longrightarrow> f3 < 8 \<Longrightarrow> opc < 128 \<Longrightarrow> sext 11 imm \<Longrightarrow> immS (enc_S opc f3 rs1 rs2 imm) = imm"
  using sext_bit [of 11 imm] by (simp add: imm_bitwise bit_imm enc_S_def)

lemma immB_enc [simp]:
  "rs1 < 32 \<Longrightarrow> rs2 < 32 \<Longrightarrow> f3 < 8 \<Longrightarrow> opc < 128 \<Longrightarrow> sext 12 imm \<Longrightarrow> imm AND 1 = 0
   \<Longrightarrow> immB (enc_B opc f3 rs1 rs2 imm) = imm"
  using sext_bit [of 12 imm] by (simp add: imm_bitwise bit_imm enc_B_def)

lemma immU_enc [simp]:
  "rd < 32 \<Longrightarrow> opc < 128 \<Longrightarrow> imm AND 0xfff = 0 \<Longrightarrow> immU (enc_U opc rd imm) = imm"
  by (simp add: imm_bitwise bit_imm enc_U_def)

lemma immJ_enc [simp]:
  "rd < 32 \<Longrightarrow> opc < 128 \<Longrightarrow> sext 20 imm \<Longrightarrow> imm AND 1 = 0 \<Longrightarrow> immJ (enc_J opc rd imm) = imm"
  using sext_bit [of 20 imm] by (simp add: imm_bitwise bit_imm enc_J_def)

section \<open>Decoding inverts encoding\<close>

lemmas enc_defs = enc_I_def enc_S_def enc_B_def enc_U_def enc_J_def

lemma enc_I_fields [simp]:
  assumes "rd < 32" "rs1 < 32" "f3 < 8" "opc < 128"
  shows "opcode (enc_I opc f3 rd rs1 imm) = opc" "p_rd (enc_I opc f3 rd rs1 imm) = rd"
    "p_rs1 (enc_I opc f3 rd rs1 imm) = rs1" "funct3 (enc_I opc f3 rd rs1 imm) = f3"
  using assms by (simp_all add: enc_I_def)

lemma enc_SB_fields [simp]:
  assumes "rs1 < 32" "rs2 < 32" "f3 < 8" "opc < 128"
  shows "opcode (enc_S opc f3 rs1 rs2 imm) = opc" "p_rs1 (enc_S opc f3 rs1 rs2 imm) = rs1"
    "p_rs2 (enc_S opc f3 rs1 rs2 imm) = rs2" "funct3 (enc_S opc f3 rs1 rs2 imm) = f3"
    "opcode (enc_B opc f3 rs1 rs2 imm) = opc" "p_rs1 (enc_B opc f3 rs1 rs2 imm) = rs1"
    "p_rs2 (enc_B opc f3 rs1 rs2 imm) = rs2" "funct3 (enc_B opc f3 rs1 rs2 imm) = f3"
  using assms by (simp_all add: enc_S_def enc_B_def)

lemma enc_UJ_fields [simp]:
  assumes "rd < 32" "opc < 128"
  shows "opcode (enc_U opc rd imm) = opc" "p_rd (enc_U opc rd imm) = rd"
    "opcode (enc_J opc rd imm) = opc" "p_rd (enc_J opc rd imm) = rd"
  using assms by (simp_all add: enc_U_def enc_J_def)

lemma op_codes_less [simp]:
  "bop_code b < 8" "lop_code l < 8" "sop_code s < 8" "fst (aop_code a) < 8" "snd (aop_code a) < 128"
  by (cases b, simp_all) (cases l, simp_all, cases s, simp_all, (cases a, simp_all)+)

lemma parse_bop_code: "funct3 w = bop_code b \<Longrightarrow> parse_bop w = Some b"
  by (cases b) (simp_all add: parse_bop_def)

lemma parse_lop_code: "funct3 w = lop_code l \<Longrightarrow> parse_lop w = Some l"
  by (cases l) (simp_all add: parse_lop_def)

lemma parse_sop_code: "funct3 w = sop_code s \<Longrightarrow> parse_sop w = Some s"
  by (cases s) (simp_all add: parse_sop_def)

lemma parse_aop_code: "funct3 w = fst (aop_code a) \<Longrightarrow> funct7 w = snd (aop_code a) \<Longrightarrow> parse_aop w = Some a"
  by (cases a) (simp_all add: parse_aop_def)

lemma parse_aopi_code:
  "a \<noteq> SUB \<Longrightarrow> funct3 w = fst (aop_code a) \<Longrightarrow> is_shift a \<longrightarrow> funct7 w = snd (aop_code a)
   \<Longrightarrow> parse_aopi w = Some a"
  by (cases a) (simp_all add: parse_aopi_def is_shift_def)

lemma immA_code:
  "funct3 w = fst (aop_code a) \<Longrightarrow> immA w = (if is_shift a then shamt w else immI w)"
  by (cases a) (simp_all add: immA_def is_shift_def)

lemma drop_12_layout:
  "rd < 32 \<Longrightarrow> drop_bit 12 (layout 0 0 0 0 rd OPC_ECALL) = 0"
  "rd < 32 \<Longrightarrow> drop_bit 12 (layout 0 1 0 0 rd OPC_ECALL) = 0x100"
  "drop_bit 12 (layout 0x60 0 0 1 0 OPC_ECALL) = 0xc0001"
  by (simp_all add: u32_bitwise layout_def bit_simps small_bits)

lemma parse_encode: "wf_inst i \<Longrightarrow> parse_u32 (encode i) = Some i"
proof (induction i rule: encode.induct)
  case (8 a rd rs1 imm)
  then show ?case
    by (simp add: parse_u32_def parse_aopi_code immA_code split: if_splits)
qed (simp_all add: parse_u32_def drop_12_layout
      parse_bop_code parse_lop_code parse_sop_code parse_aop_code)


section \<open>Decoded instructions are well formed\<close>

lemma sext_imm: "sext 11 (immI w)" "sext 11 (immS w)" "sext 12 (immB w)" "sext 20 (immJ w)"
  by (simp_all add: sext_def imm_bitwise bit_imm)

lemma even_imm: "immB w AND 1 = 0" "immJ w AND 1 = 0"
  by (simp_all add: low1_iff bit_imm)

lemma low_immU: "immU w AND 0xfff = 0"
  by (simp add: low12_iff bit_imm)

lemma wf_parse: "parse_u32 w = Some i \<Longrightarrow> wf_inst i"
  by (auto simp: parse_u32_def Let_def fields_less sext_imm even_imm low_immU parse_aopi_def immA_def
      is_shift_def split: if_splits)

section \<open>Only FENCE and UNIMP have more than one encoding\<close>

lemma imm_fields:
  "bits (immI w) 5 11 = funct7 w" "bits (immI w) 0 4 = p_rs2 w"
  "bits (immS w) 5 11 = funct7 w" "bits (immS w) 0 4 = p_rd w"
  "push_bit 6 (bits (immB w) 12 12) OR bits (immB w) 5 10 = funct7 w"
  "push_bit 1 (bits (immB w) 1 4) OR bits (immB w) 11 11 = p_rd w"
  "push_bit 6 (bits (immJ w) 20 20) OR bits (immJ w) 5 10 = funct7 w"
  "push_bit 1 (bits (immJ w) 1 4) OR bits (immJ w) 11 11 = p_rs2 w"
  "bits (immJ w) 15 19 = p_rs1 w" "bits (immJ w) 12 14 = funct3 w"
  "bits (immU w) 25 31 = funct7 w" "bits (immU w) 20 24 = p_rs2 w"
  "bits (immU w) 15 19 = p_rs1 w" "bits (immU w) 12 14 = funct3 w"
  by (simp_all add: imm_bitwise bit_imm field_defs)

lemma enc_imm:
  "opcode w = c \<Longrightarrow> funct3 w = f \<Longrightarrow> enc_I c f (p_rd w) (p_rs1 w) (immI w) = w"
  "opcode w = c \<Longrightarrow> funct3 w = f \<Longrightarrow> enc_S c f (p_rs1 w) (p_rs2 w) (immS w) = w"
  "opcode w = c \<Longrightarrow> funct3 w = f \<Longrightarrow> enc_B c f (p_rs1 w) (p_rs2 w) (immB w) = w"
  "opcode w = c \<Longrightarrow> enc_U c (p_rd w) (immU w) = w"
  "opcode w = c \<Longrightarrow> enc_J c (p_rd w) (immJ w) = w"
  "opcode w = c \<Longrightarrow> funct3 w = f \<Longrightarrow> funct7 w = g \<Longrightarrow> layout g (p_rs2 w) (p_rs1 w) f (p_rd w) c = w"
  using layout_of_fields [of w] by (auto simp only: enc_defs imm_fields)

lemma op_code_parse:
  "parse_bop w = Some b \<Longrightarrow> bop_code b = funct3 w"
  "parse_lop w = Some l \<Longrightarrow> lop_code l = funct3 w"
  "parse_sop w = Some s \<Longrightarrow> sop_code s = funct3 w"
  "parse_aop w = Some a \<Longrightarrow> fst (aop_code a) = funct3 w \<and> snd (aop_code a) = funct7 w"
  "parse_aopi w = Some a \<Longrightarrow> fst (aop_code a) = funct3 w \<and> (is_shift a \<longrightarrow> snd (aop_code a) = funct7 w)"
  by (auto simp: parse_bop_def parse_lop_def parse_sop_def parse_aop_def parse_aopi_def Let_def
      is_shift_def split: if_splits)

lemma layout_of_system:
  "drop_bit 12 w = 0 \<Longrightarrow> opcode w = c \<Longrightarrow> layout 0 0 0 0 (p_rd w) c = w"
  "drop_bit 12 w = 0x100 \<Longrightarrow> opcode w = c \<Longrightarrow> layout 0 1 0 0 (p_rd w) c = w"
  by (auto simp: u32_bitwise layout_def field_defs bit_simps)

lemma encode_ALUI:
  assumes "parse_aopi w = Some a" "opcode w = OPC_ALUI"
  shows "encode (ALUI a (p_rd w) (p_rs1 w) (immA w)) = w"
proof -
  have "fst (aop_code a) = funct3 w" "is_shift a \<Longrightarrow> snd (aop_code a) = funct7 w"
    using op_code_parse(5) [OF assms(1)] by auto
  moreover have "shamt w = p_rs2 w" by (simp add: shamt_def p_rs2_def)
  ultimately show ?thesis
    using immA_code [of w a] assms(2) by (simp add: enc_imm)
qed

lemma encode_parse:
  assumes "parse_u32 w = Some i" "i \<noteq> FENCE" "i \<noteq> UNIMP"
  shows "encode i = w"
  using assms
  by (cases i) (auto simp: parse_u32_def Let_def enc_imm encode_ALUI layout_of_system op_code_parse
      simp del: encode.simps(8) split: if_splits)

section \<open>Instructions and buffers\<close>

lemma length_to_le_bytes [simp]: "length (to_le_bytes w) = 4"
  by (simp add: to_le_bytes_def)

lemma word_of_to_le_bytes [simp]: "word_of_bytes (to_le_bytes w @ rest) = w"
  by (simp add: u32_bitwise word_of_bytes_def to_le_bytes_def bit_simps)

lemma word_of_to_le_bytes0 [simp]: "word_of_bytes (to_le_bytes w) = w"
  using word_of_to_le_bytes [of w "[]"] by simp

text \<open>Every opcode the decoder accepts marks a four-byte instruction.\<close>

lemma parse_u32_opcode:
  "parse_u32 w = Some i \<Longrightarrow>
    opcode w \<in> {OPC_LUI, OPC_AUIPC, OPC_JAL, OPC_JALR, OPC_BR, OPC_LOAD, OPC_STORE, OPC_ALUI, OPC_ALU,
      OPC_FENCE, OPC_ECALL}"
  by (simp add: parse_u32_def Let_def split: if_splits)

lemma low_byte_opcode: "(ucast w :: u8) AND 0x7f = ucast (opcode w)"
  by (rule bit_word_eqI)
    (auto simp: opcode_def bit_simps less_Suc_eq numeral_eq_Suc dest: bit_imp_le_length)

lemma ax_masked: "ax b 3 = ax (b AND 0x7f) 3" "ax b 0x1f = ax (b AND 0x7f) 0x1f"
  by (simp_all add: ax_def and.assoc)

lemma opcode_translate [simp]: "opcode (translate_nexus w) = opcode w"
  by (simp add: translate_nexus_def opcode_def bits_def)

lemma inst_size_translate:
  assumes "parse_u32 (translate_nexus w) = Some i"
  shows "inst_size (ucast w) b1 = 4"
  using parse_u32_opcode [OF assms]
  by (auto simp: inst_size_def ax_masked [of "ucast w"] low_byte_opcode) (simp_all add: ax_def)

lemma parse_inst_word:
  assumes "parse_u32 (translate_nexus w) = Some i"
  shows "parse_inst pc (to_le_bytes w @ rest) =
    Ok \<lparr>i_pc = pc, i_len = 4, i_word = translate_nexus w, i_inst = i\<rparr>"
proof -
  have "(to_le_bytes w @ rest) ! 0 = ucast w" by (simp add: to_le_bytes_def)
  then show ?thesis
    using assms inst_size_translate [OF assms] by (simp add: parse_inst_def Let_def)
qed

lemma parse_inst_Ok:
  assumes "parse_inst pc mem = Ok r"
  shows "4 \<le> length mem \<and> i_pc r = pc \<and> i_len r = 4 \<and> i_word r = translate_nexus (word_of_bytes mem)
    \<and> parse_u32 (i_word r) = Some (i_inst r)"
  using assms by (auto simp: parse_inst_def Let_def split: if_splits option.splits)

text \<open>The instruction a code word yields at a given address.\<close>

definition inst_at :: "u32 \<Rightarrow> nat \<Rightarrow> u32 \<Rightarrow> inst" where
  "inst_at pc k w = \<lparr>i_pc = pc + word_of_nat (4 * k), i_len = 4, i_word = translate_nexus w,
     i_inst = the (parse_u32 (translate_nexus w))\<rparr>"

lemma parse_buf_loop_code:
  assumes "\<forall>w \<in> set ws. parse_u32 (translate_nexus w) \<noteq> None"
    and "length pre = 4 * k"
  shows "parse_buf_loop pc (pre @ concat (map to_le_bytes ws)) (4 * k) v =
    Ok (v @ map (\<lambda>(j, w). inst_at pc (k + j) w) (enumerate 0 ws))"
  using assms
proof (induction ws arbitrary: pre k v)
  case Nil
  then show ?case by (simp add: parse_buf_loop.simps)
next
  case (Cons w ws)
  obtain i where i: "parse_u32 (translate_nexus w) = Some i" using Cons.prems by auto
  have len: "unat (i_len (inst_at pc k w)) = 4" by (simp add: inst_at_def)
  have head: "parse_inst (pc + word_of_nat (4 * k)) (drop (4 * k) (pre @ concat (map to_le_bytes (w # ws))))
      = Ok (inst_at pc k w)"
    using Cons.prems(2) i by (simp add: parse_inst_word inst_at_def)
  have "parse_buf_loop pc (pre @ concat (map to_le_bytes (w # ws))) (4 * k) v =
      parse_buf_loop pc ((pre @ to_le_bytes w) @ concat (map to_le_bytes ws)) (4 * Suc k) (v @ [inst_at pc k w])"
    by (subst parse_buf_loop.simps, subst head) (use Cons.prems(2) in \<open>simp add: len add.commute\<close>)
  also have "\<dots> = Ok (v @ [inst_at pc k w] @ map (\<lambda>(j, w). inst_at pc (Suc k + j) w) (enumerate 0 ws))"
    by (subst Cons.IH) (use Cons.prems in auto)
  also have "map (\<lambda>(j, w). inst_at pc (Suc k + j) w) (enumerate 0 ws) =
      map (\<lambda>(j, w). inst_at pc (k + j) w) (enumerate 1 ws)"
    by (rule nth_equalityI) (simp_all add: nth_enumerate_eq)
  finally show ?case by simp
qed

lemma parse_buf_code:
  assumes "\<forall>w \<in> set ws. parse_u32 (translate_nexus w) \<noteq> None"
  shows "parse_buf pc (concat (map to_le_bytes ws)) = Ok (map (\<lambda>(k, w). inst_at pc k w) (enumerate 0 ws))"
  using parse_buf_loop_code [OF assms, of "[]" 0 pc "[]"] by (simp add: parse_buf_def)

section \<open>Properties\<close>





text \<open>C3: \<^verbatim>\<open>parse_buf\<close> on a buffer holding code words one after another, little endian, returns one
  instruction per word, at consecutive addresses from \<open>pc\<close> in steps of four bytes, each the decoding
  of its (ECALL/EBREAK-translated) word; the loop ends.\<close>

theorem parse_buf_assembled:
  assumes "\<forall>w \<in> set ws. parse_u32 (translate_nexus w) \<noteq> None"
  shows "parse_buf pc (concat (map to_le_bytes ws)) = Ok (map (\<lambda>(k, w). inst_at pc k w) (enumerate 0 ws))"
  using assms by (rule parse_buf_code)

theorem parse_buf_assembled_witness:
  "parse_buf 0x1000 (concat (map to_le_bytes [0x00000073, 0xc0001073])) =
    Ok [\<lparr>i_pc = 0x1000, i_len = 4, i_word = 0x573, i_inst = ECALL 10\<rparr>,
        \<lparr>i_pc = 0x1004, i_len = 4, i_word = 0xc0001073, i_inst = UNIMP\<rparr>]"
  by (subst parse_buf_assembled)
    (simp_all add: inst_at_def parse_u32_def field_defs bits_def translate_nexus_def)

end
