(* ===== verification/Cacheline.thy ===== *)
theory Cacheline
  imports Decode
begin

text \<open>
  Memory cache lines (\<^verbatim>\<open>vm/src/memory/cacheline.rs\<close>).  The union \<^verbatim>\<open>CacheLine\<close> is its 32 bytes; the
  \<^verbatim>\<open>halfs\<close> and \<^verbatim>\<open>words\<close> views read and write them little endian, as on the supported hosts.  Loads return
  a result; stores return the line, which an error leaves as it was, and a result.  The second part
  relates the operations to a byte-addressed specification of RISC-V loads and stores.
\<close>

section \<open>The union and its views\<close>

datatype cacheline = CacheLine (cl_bytes: "u8 list")

definition wf_cl :: "cacheline \<Rightarrow> bool" where
  "wf_cl cl \<longleftrightarrow> length (cl_bytes cl) = 32"

definition CACHE_BITS :: nat where "CACHE_BITS = 5"
definition CACHE_LOG :: nat where "CACHE_LOG = 32 - CACHE_BITS"

definition cl_zero :: cacheline where
  "cl_zero = CacheLine (replicate 32 0)"

definition cl_half :: "cacheline \<Rightarrow> nat \<Rightarrow> u16" where
  "cl_half cl i = ucast (cl_bytes cl ! (2 * i)) OR push_bit 8 (ucast (cl_bytes cl ! (2 * i + 1)))"

definition cl_word :: "cacheline \<Rightarrow> nat \<Rightarrow> u32" where
  "cl_word cl i = word_of_bytes (drop (4 * i) (cl_bytes cl))"

definition cl_set_byte :: "cacheline \<Rightarrow> nat \<Rightarrow> u8 \<Rightarrow> cacheline" where
  "cl_set_byte cl i v = CacheLine ((cl_bytes cl)[i := v])"

definition cl_set_half :: "cacheline \<Rightarrow> nat \<Rightarrow> u16 \<Rightarrow> cacheline" where
  "cl_set_half cl i v =
     CacheLine ((cl_bytes cl)[2 * i := ucast v, 2 * i + 1 := ucast (drop_bit 8 v)])"

definition cl_set_word :: "cacheline \<Rightarrow> nat \<Rightarrow> u32 \<Rightarrow> cacheline" where
  "cl_set_word cl i v =
     CacheLine ((cl_bytes cl)[4 * i := ucast v, 4 * i + 1 := ucast (drop_bit 8 v),
       4 * i + 2 := ucast (drop_bit 16 v), 4 * i + 3 := ucast (drop_bit 24 v)])"

text \<open>\<^verbatim>\<open>F::from_le_bytes_mod_order\<close>: the little-endian number, in the field.\<close>

fun le_nat :: "u8 list \<Rightarrow> nat" where
  "le_nat [] = 0"
| "le_nat (b # bs) = unat b + 256 * le_nat bs"

definition scalars :: "cacheline \<Rightarrow> 'f::field \<times> 'f" where
  "scalars cl = (of_nat (le_nat (take 16 (cl_bytes cl))), of_nat (le_nat (drop 16 (cl_bytes cl))))"

section \<open>Loads and stores\<close>

definition cl_lbu :: "cacheline \<Rightarrow> u32 \<Rightarrow> u32 result" where
  "cl_lbu cl addr = Ok (ucast (cl_bytes cl ! unat (addr AND 31)))"

definition cl_lhu :: "cacheline \<Rightarrow> u32 \<Rightarrow> u32 result" where
  "cl_lhu cl addr = (if addr AND 1 \<noteq> 0 then Err (Misaligned addr)
     else Ok (ucast (cl_half cl (unat (drop_bit 1 addr AND 15)))))"

definition cl_lw :: "cacheline \<Rightarrow> u32 \<Rightarrow> u32 result" where
  "cl_lw cl addr = (if addr AND 3 \<noteq> 0 then Err (Misaligned addr)
     else Ok (cl_word cl (unat (drop_bit 2 addr AND 7))))"

definition cl_lb :: "cacheline \<Rightarrow> u32 \<Rightarrow> u32 result" where
  "cl_lb cl addr = result_bind (cl_lbu cl addr)
     (\<lambda>val. if val AND 0x80 = 0 then Ok val else Ok (0xffffff00 OR val))"

definition cl_lh :: "cacheline \<Rightarrow> u32 \<Rightarrow> u32 result" where
  "cl_lh cl addr = result_bind (cl_lhu cl addr)
     (\<lambda>val. if val AND 0x8000 = 0 then Ok val else Ok (0xffff0000 OR val))"

definition cl_sb :: "cacheline \<Rightarrow> u32 \<Rightarrow> u8 \<Rightarrow> cacheline \<times> unit result" where
  "cl_sb cl addr val = (cl_set_byte cl (unat (addr AND 31)) val, Ok ())"

definition cl_sh :: "cacheline \<Rightarrow> u32 \<Rightarrow> u16 \<Rightarrow> cacheline \<times> unit result" where
  "cl_sh cl addr val = (if addr AND 1 \<noteq> 0 then (cl, Err (Misaligned addr))
     else (cl_set_half cl (unat (drop_bit 1 addr AND 15)) val, Ok ()))"

definition cl_sw :: "cacheline \<Rightarrow> u32 \<Rightarrow> u32 \<Rightarrow> cacheline \<times> unit result" where
  "cl_sw cl addr val = (if addr AND 3 \<noteq> 0 then (cl, Err (Misaligned addr))
     else (cl_set_word cl (unat (drop_bit 2 addr AND 7)) val, Ok ()))"

fun cl_load :: "cacheline \<Rightarrow> lop \<Rightarrow> u32 \<Rightarrow> u32 result" where
  "cl_load cl LB addr = cl_lb cl addr"
| "cl_load cl LH addr = cl_lh cl addr"
| "cl_load cl LW addr = cl_lw cl addr"
| "cl_load cl LBU addr = cl_lbu cl addr"
| "cl_load cl LHU addr = cl_lhu cl addr"

fun cl_store :: "cacheline \<Rightarrow> sop \<Rightarrow> u32 \<Rightarrow> u32 \<Rightarrow> cacheline \<times> unit result" where
  "cl_store cl SB addr val = cl_sb cl addr (ucast val)"
| "cl_store cl SH addr val = cl_sh cl addr (ucast val)"
| "cl_store cl SW addr val = cl_sw cl addr val"

section \<open>The byte-addressed specification\<close>

text \<open>Number of bytes an access touches, and natural alignment.\<close>

fun lop_width :: "lop \<Rightarrow> nat" where
  "lop_width LB = 1" | "lop_width LBU = 1" | "lop_width LH = 2" | "lop_width LHU = 2" | "lop_width LW = 4"

fun sop_width :: "sop \<Rightarrow> nat" where
  "sop_width SB = 1" | "sop_width SH = 2" | "sop_width SW = 4"

definition aligned :: "nat \<Rightarrow> u32 \<Rightarrow> bool" where
  "aligned w addr \<longleftrightarrow> unat addr mod w = 0"

text \<open>The value a load returns, given the byte stored at every address: bytes little endian, signed
  loads sign-extended.\<close>

fun load_spec :: "lop \<Rightarrow> (u32 \<Rightarrow> u8) \<Rightarrow> u32 \<Rightarrow> u32" where
  "load_spec LB f a = scast (f a)"
| "load_spec LBU f a = ucast (f a)"
| "load_spec LH f a = scast (ucast (f a) OR push_bit 8 (ucast (f (a + 1))) :: u16)"
| "load_spec LHU f a = ucast (ucast (f a) OR push_bit 8 (ucast (f (a + 1))) :: u16)"
| "load_spec LW f a = word_of_bytes [f a, f (a + 1), f (a + 2), f (a + 3)]"

text \<open>The \<open>k\<close>-th byte of the stored value goes to address \<open>a + k\<close>.\<close>

definition val_byte :: "u32 \<Rightarrow> nat \<Rightarrow> u8" where
  "val_byte v k = ucast (drop_bit (8 * k) v)"

text \<open>The bytes of a line as seen from an address, and a line after an aligned store.\<close>

definition line_byte :: "cacheline \<Rightarrow> u32 \<Rightarrow> u8" where
  "line_byte cl a = cl_bytes cl ! unat (a AND 31)"

definition store_line :: "cacheline \<Rightarrow> nat \<Rightarrow> u32 \<Rightarrow> u32 \<Rightarrow> cacheline" where
  "store_line cl w a v = (let off = unat (a AND 31) in
     CacheLine (map (\<lambda>k. if off \<le> k \<and> k < off + w then val_byte v (k - off) else cl_bytes cl ! k) [0..<32]))"

section \<open>Offsets\<close>

lemma unat_and_mask:
  "unat (a AND 31 :: u32) = unat a mod 32" "unat (a AND 1 :: u32) = unat a mod 2"
  "unat (a AND 3 :: u32) = unat a mod 4"
  "unat (drop_bit 1 a AND 15 :: u32) = unat a div 2 mod 16"
  "unat (drop_bit 2 a AND 7 :: u32) = unat a div 4 mod 8"
proof -
  have m: "unat (x AND mask n :: u32) = unat x mod 2 ^ n" for x :: u32 and n
    by (simp only: take_bit_eq_mask [symmetric] unsigned_take_bit_eq) (rule take_bit_eq_mod)
  have d: "unat (drop_bit n x :: u32) = unat x div 2 ^ n" for x :: u32 and n
    by (simp only: unat_drop_bit_eq) (rule drop_bit_eq_div)
  show "unat (a AND 31) = unat a mod 32" using m [of a 5] by (simp add: mask_numeral)
  show "unat (a AND 1) = unat a mod 2" using m [of a 1] by simp
  show "unat (a AND 3) = unat a mod 4" using m [of a 2] by (simp add: mask_numeral)
  show "unat (drop_bit 1 a AND 15) = unat a div 2 mod 16"
    using m [of "drop_bit 1 a" 4] d [of 1 a] by (simp add: mask_numeral)
  show "unat (drop_bit 2 a AND 7) = unat a div 4 mod 8"
    using m [of "drop_bit 2 a" 3] d [of 2 a] by (simp add: mask_numeral)
qed

lemma misaligned_iff:
  "a AND 1 = (0::u32) \<longleftrightarrow> aligned 2 a" "a AND 3 = (0::u32) \<longleftrightarrow> aligned 4 a" "aligned (Suc 0) a"
  using unat_and_mask(2,3) [of a] by (auto simp: aligned_def unat_eq_0 [symmetric] simp del: unat_eq_0)

lemma div2_offset: "n mod 2 = 0 \<Longrightarrow> 2 * (n div 2 mod 16) = n mod (32::nat)"
  using mult_mod_right [of 2 "n div 2" 16] mult_div_mod_eq [of 2 n] by simp

lemma div4_offset: "n mod 4 = 0 \<Longrightarrow> 4 * (n div 4 mod 8) = n mod (32::nat)"
  using mult_mod_right [of 4 "n div 4" 8] mult_div_mod_eq [of 4 n] by simp

lemma aligned_offset:
  "aligned 2 a \<Longrightarrow> 2 * unat (drop_bit 1 a AND 15) = unat (a AND 31)"
  "aligned 4 a \<Longrightarrow> 4 * unat (drop_bit 2 a AND 7) = unat (a AND 31)"
  unfolding unat_and_mask aligned_def by (rule div2_offset div4_offset, assumption)+

lemma aligned_room:
  "aligned w a \<Longrightarrow> w dvd 32 \<Longrightarrow> 0 < w \<Longrightarrow> unat (a AND 31) + w \<le> 32"
proof -
  assume a: "aligned w a" and w: "w dvd 32" "0 < w"
  obtain q where q: "unat a = w * q" using a by (auto simp: aligned_def)
  obtain r where r: "32 = w * r" using w by (auto simp: dvd_def)
  have "unat a mod 32 = w * (q mod r)" by (simp add: q r)
  moreover have "w * (q mod r) + w \<le> w * r"
    using r w(2) by (metis Suc_leI mod_less_divisor mult_Suc_right mult_le_mono2 add.commute nat_0_less_mult_iff zero_less_numeral)
  ultimately show ?thesis by (simp add: unat_and_mask r)
qed

lemma offset_add:
  fixes a :: u32
  assumes "unat (a AND 31) + k < 32"
  shows "unat ((a + word_of_nat k) AND 31) = unat (a AND 31) + k"
proof -
  have k: "k < 32" using assms by simp
  then have "unat (word_of_nat k :: u32) = k" by (simp add: unat_of_nat)
  then have "unat (a + word_of_nat k) mod 32 = (unat a + k) mod 2 ^ 32 mod 32"
    by (simp add: unat_word_ariths)
  also have "\<dots> = (unat a + k) mod 32" by (simp add: mod_mod_cancel)
  also have "\<dots> = (unat a mod 32 + k) mod 32" by (simp add: mod_add_left_eq)
  also have "\<dots> = unat a mod 32 + k" using assms unfolding unat_and_mask by (rule mod_less)
  finally show ?thesis by (simp add: unat_and_mask)
qed

section \<open>Loads and stores meet the specification\<close>

lemma line_byte_add:
  "unat (a AND 31) + k < 32 \<Longrightarrow> line_byte cl (a + word_of_nat k) = cl_bytes cl ! (unat (a AND 31) + k)"
  by (simp add: line_byte_def offset_add)

lemma sign_extend8: "(if (ucast b :: u32) AND 0x80 = 0 then ucast b else 0xffffff00 OR ucast b) = (scast (b::u8) :: u32)"
proof -
  have "(ucast b :: u32) AND 0x80 = 0 \<longleftrightarrow> \<not> bit b 7" by (simp add: u32_bitwise bit_simps)
  then show ?thesis by (simp add: u32_bitwise bit_simps bit_beyond)
qed

lemma sign_extend16: "(if (ucast h :: u32) AND 0x8000 = 0 then ucast h else 0xffff0000 OR ucast h) = (scast (h::u16) :: u32)"
proof -
  have "(ucast h :: u32) AND 0x8000 = 0 \<longleftrightarrow> \<not> bit h 15" by (simp add: u32_bitwise bit_simps)
  then show ?thesis by (simp add: u32_bitwise bit_simps bit_beyond)
qed

lemma cl_half_spec:
  assumes "wf_cl cl" "aligned 2 a"
  shows "cl_half cl (unat (drop_bit 1 a AND 15)) =
    (ucast (line_byte cl a) OR push_bit 8 (ucast (line_byte cl (a + 1))))"
  using aligned_offset(1) [OF assms(2)] aligned_room [OF assms(2)] line_byte_add [of a 1 cl]
  by (simp add: cl_half_def line_byte_def)

lemma cl_word_spec:
  assumes "wf_cl cl" "aligned 4 a"
  shows "cl_word cl (unat (drop_bit 2 a AND 7)) =
    word_of_bytes [line_byte cl a, line_byte cl (a + 1), line_byte cl (a + 2), line_byte cl (a + 3)]"
  using aligned_offset(2) [OF assms(2)] aligned_room [OF assms(2)] assms(1)
    line_byte_add [of a 1 cl] line_byte_add [of a 2 cl] line_byte_add [of a 3 cl]
  by (simp add: cl_word_def line_byte_def wf_cl_def word_of_bytes_def)

lemma cl_load_spec:
  assumes "wf_cl cl"
  shows "cl_load cl lop a =
    (if aligned (lop_width lop) a then Ok (load_spec lop (line_byte cl) a) else Err (Misaligned a))"
proof (cases lop)
  case LB
  then show ?thesis
    using sign_extend8 [of "line_byte cl a"]
    by (auto simp: cl_lb_def cl_lbu_def misaligned_iff line_byte_def)
next
  case LH
  then show ?thesis
    using sign_extend16 [of "cl_half cl (unat (drop_bit 1 a AND 15))"] cl_half_spec [OF assms, of a]
    by (auto simp: cl_lh_def cl_lhu_def misaligned_iff split: if_splits)
next
  case LW
  then show ?thesis using cl_word_spec [OF assms, of a] by (simp add: cl_lw_def misaligned_iff)
next
  case LBU
  then show ?thesis by (simp add: cl_lbu_def misaligned_iff line_byte_def)
next
  case LHU
  then show ?thesis using cl_half_spec [OF assms, of a] by (simp add: cl_lhu_def misaligned_iff)
qed

lemma ucast_half:
  "ucast (ucast (v::u32) :: u16) = (ucast v :: u8)"
  "ucast (drop_bit 8 (ucast (v::u32) :: u16)) = (ucast (drop_bit 8 v) :: u8)"
  by (rule bit_word_eqI; auto simp: bit_simps)+

lemma four_cases: "n \<le> i \<Longrightarrow> i < n + 4 \<Longrightarrow> i = n \<or> i = Suc n \<or> i = Suc (Suc n) \<or> i = n + 3"
  by arith

lemma cl_set_spec:
  assumes "wf_cl cl"
  shows "cl_set_byte cl (unat (a AND 31)) (ucast v) = store_line cl 1 a v"
    and "aligned 2 a \<Longrightarrow> cl_set_half cl (unat (drop_bit 1 a AND 15)) (ucast v) = store_line cl 2 a v"
    and "aligned 4 a \<Longrightarrow> cl_set_word cl (unat (drop_bit 2 a AND 7)) v = store_line cl 4 a v"
proof -
  show "cl_set_byte cl (unat (a AND 31)) (ucast v) = store_line cl 1 a v"
    using assms
    by (auto simp: cl_set_byte_def store_line_def Let_def wf_cl_def val_byte_def nth_list_update
        intro!: nth_equalityI)
  assume "aligned 2 a"
  from aligned_offset(1) [OF this]
  show "cl_set_half cl (unat (drop_bit 1 a AND 15)) (ucast v) = store_line cl 2 a v"
    using assms
    by (auto simp: cl_set_half_def store_line_def Let_def wf_cl_def val_byte_def nth_list_update
        less_Suc_eq numeral_2_eq_2 ucast_half intro!: nth_equalityI)
next
  assume "aligned 4 a"
  from aligned_offset(2) [OF this]
  show "cl_set_word cl (unat (drop_bit 2 a AND 7)) v = store_line cl 4 a v"
    using assms
    by (auto simp: cl_set_word_def store_line_def Let_def wf_cl_def val_byte_def nth_list_update
        intro!: nth_equalityI dest!: four_cases)
qed

lemma cl_store_spec:
  assumes "wf_cl cl"
  shows "cl_store cl sop a v =
    (if aligned (sop_width sop) a then (store_line cl (sop_width sop) a v, Ok ()) else (cl, Err (Misaligned a)))"
  using cl_set_spec [OF assms, of a v]
  by (cases sop) (auto simp: cl_sb_def cl_sh_def cl_sw_def misaligned_iff)

lemma wf_store_line [simp]: "wf_cl (store_line cl w a v)"
  by (simp add: wf_cl_def store_line_def Let_def)

lemma wf_cl_zero [simp]: "wf_cl cl_zero"
  by (simp add: wf_cl_def cl_zero_def)

lemma line_byte_zero [simp]: "line_byte cl_zero a = 0"
  by (simp add: line_byte_def cl_zero_def unat_and_mask)

lemma line_byte_store:
  "line_byte (store_line cl w a v) b =
    (if unat (a AND 31) \<le> unat (b AND 31) \<and> unat (b AND 31) < unat (a AND 31) + w
     then val_byte v (unat (b AND 31) - unat (a AND 31)) else line_byte cl b)"
  by (simp add: line_byte_def store_line_def Let_def unat_and_mask)

end
