(* ===== verification/Memory.thy ===== *)
theory Memory
  imports Cacheline
begin

text \<open>
  The memory-controller interface (\<^verbatim>\<open>vm/src/memory.rs\<close>).  The traits \<^verbatim>\<open>Memory\<close> and \<^verbatim>\<open>MemoryProof\<close> are
  records of operations that the virtual machine is given; the provided methods of \<^verbatim>\<open>Memory\<close> are
  definitions over such a record.  The locale \<open>memory_controller\<close> is the contract: an abstraction of
  the memory to one cache line per address, what \<^verbatim>\<open>query\<close> and \<^verbatim>\<open>update\<close> do to it, and which addresses
  share a byte.  Its lemmas give the byte-level meaning of loads and stores for every controller.
\<close>

section \<open>The traits\<close>

text \<open>An \<^verbatim>\<open>update\<close> mutates the memory even when it fails, so it returns both.\<close>

record ('m, 'p) memory_ops =
  mem_default :: 'm
  mem_query :: "'m \<Rightarrow> u32 \<Rightarrow> (cacheline \<times> 'p) result"
  mem_update :: "'m \<Rightarrow> u32 \<Rightarrow> (cacheline \<Rightarrow> cacheline \<times> unit result) \<Rightarrow> 'm \<times> 'p result"

record ('p, 'f) proof_ops =
  proof_default :: 'p
  proof_commit :: "'p \<Rightarrow> 'f"
  proof_data :: "'p \<Rightarrow> 'f \<times> 'f"

section \<open>The provided methods\<close>

definition mem_read_inst :: "('m, 'p) memory_ops \<Rightarrow> 'm \<Rightarrow> u32 \<Rightarrow> (u32 \<times> 'p) result" where
  "mem_read_inst ops m addr = result_bind (mem_query ops m addr) (\<lambda>(cl, path).
     result_bind (cl_lw cl addr) (\<lambda>v. Ok (v, path)))"

definition mem_write_inst :: "('m, 'p) memory_ops \<Rightarrow> 'm \<Rightarrow> u32 \<Rightarrow> u32 \<Rightarrow> 'm \<times> unit result" where
  "mem_write_inst ops m addr val = (case mem_update ops m addr (\<lambda>cl. cl_sw cl addr val) of
     (m', r) \<Rightarrow> (m', result_bind r (\<lambda>_. Ok ())))"

definition mem_load :: "('m, 'p) memory_ops \<Rightarrow> 'm \<Rightarrow> lop \<Rightarrow> u32 \<Rightarrow> (u32 \<times> 'p) result" where
  "mem_load ops m lop addr = result_bind (mem_query ops m addr) (\<lambda>(cl, path).
     result_bind (cl_load cl lop addr) (\<lambda>v. Ok (v, path)))"

text \<open>The half-open range \<^verbatim>\<open>address..address + len\<close>, empty when the wrapped end is not above the start.\<close>

definition addr_range :: "u32 \<Rightarrow> u32 \<Rightarrow> u32 list" where
  "addr_range start end' = map word_of_nat [unat start ..< unat end']"

definition mem_load_n :: "('m, 'p) memory_ops \<Rightarrow> 'm \<Rightarrow> u32 \<Rightarrow> u32 \<Rightarrow> u8 list result" where
  "mem_load_n ops m address len =
     collect (map (\<lambda>addr. result_bind (mem_load ops m LBU addr) (\<lambda>b. Ok (ucast (fst b))))
       (addr_range address (address + len)))"

definition mem_store :: "('m, 'p) memory_ops \<Rightarrow> 'm \<Rightarrow> sop \<Rightarrow> u32 \<Rightarrow> u32 \<Rightarrow> 'm \<times> 'p result" where
  "mem_store ops m sop addr val = mem_update ops m addr (\<lambda>cl. cl_store cl sop addr val)"

section \<open>Aligned accesses stay inside a 16-byte block\<close>

lemma aligned_mod_room:
  assumes "aligned w a" "w dvd n" "k < w" "0 < n"
  shows "unat a mod n + k < n"
proof -
  obtain q where q: "unat a = w * q" using assms(1) by (auto simp: aligned_def)
  obtain r where r: "n = w * r" using assms(2) by (auto simp: dvd_def)
  have "q mod r + 1 \<le> r" using r assms(4) by (simp add: Suc_leI)
  then have "w * (q mod r) + w \<le> w * r" by (metis mult_le_mono2 distrib_left mult.right_neutral)
  moreover have "unat a mod n = w * (q mod r)" by (simp add: q r)
  ultimately show ?thesis using assms(3) r by simp
qed

lemma unat_add_small:
  assumes "aligned w a" "w dvd 16" "k < w"
  shows "unat (a + word_of_nat k) = unat a + k"
proof -
  have k: "k < 16" using assms dvd_imp_le [of w 16] by simp
  have "w dvd 2 ^ 32" using assms(2) dvd_trans [of w 16 "2 ^ 32"] by simp
  then have "unat a mod 2 ^ 32 + k < 2 ^ 32" using assms by (intro aligned_mod_room) auto
  moreover have "unat a < 2 ^ 32" using unsigned_less [of a] by simp
  ultimately show ?thesis using k by (simp add: unat_word_ariths unat_of_nat)
qed

lemma aligned_block:
  assumes "aligned w a" "w dvd 16" "k < w"
  shows "drop_bit 4 (a + word_of_nat k) = drop_bit 4 a"
proof -
  have "unat a mod 16 + k < 16" using assms by (intro aligned_mod_room) auto
  moreover have "(16 * q + (r + k)) div 16 = q" if "r + k < 16" for q r :: nat using that by simp
  ultimately have "(16 * (unat a div 16) + (unat a mod 16 + k)) div 16 = unat a div 16" by blast
  moreover have "unat a + k = 16 * (unat a div 16) + (unat a mod 16 + k)" by simp
  ultimately have "(unat a + k) div 16 = unat a div 16" by (simp only:)
  then have "unat (drop_bit 4 (a + word_of_nat k)) = unat (drop_bit 4 a)"
    unfolding unat_drop_bit_div unat_add_small [OF assms] by simp
  then show ?thesis by (simp only: unat_inject)
qed

lemma access_width: "lop_width lop dvd 16" "sop_width sop dvd 16" "0 < lop_width lop" "0 < sop_width sop"
  by (cases lop, simp_all, cases sop, simp_all) (cases lop, simp_all, cases sop, simp_all)

lemma load_spec_cong:
  assumes "\<And>k. k < lop_width lop \<Longrightarrow> f (a + word_of_nat k) = g (a + word_of_nat k)"
  shows "load_spec lop f a = load_spec lop g a"
  using assms assms [of 0] assms [of 1] assms [of 2] assms [of 3]
  by (cases lop) simp_all

section \<open>The contract\<close>

text \<open>The byte an address holds, and the bytes after a store: address \<open>b\<close> is written when it is, up to
  the aliasing \<open>canon\<close> of the controller, one of the \<open>w\<close> addresses from \<open>a\<close> on.\<close>

definition mem_byte :: "('m \<Rightarrow> u32 \<Rightarrow> cacheline) \<Rightarrow> 'm \<Rightarrow> u32 \<Rightarrow> u8" where
  "mem_byte line m a = line_byte (line m a) a"

definition store_spec :: "(u32 \<Rightarrow> u32) \<Rightarrow> nat \<Rightarrow> (u32 \<Rightarrow> u8) \<Rightarrow> u32 \<Rightarrow> u32 \<Rightarrow> u32 \<Rightarrow> u8" where
  "store_spec canon w f a v b =
     (case find (\<lambda>k. canon b = canon (a + word_of_nat k)) [0..<w] of
        Some k \<Rightarrow> val_byte v k | None \<Rightarrow> f b)"

text \<open>The unsigned load of the same width as a store.\<close>

fun unsigned_load :: "sop \<Rightarrow> lop" where
  "unsigned_load SB = LBU" | "unsigned_load SH = LHU" | "unsigned_load SW = LW"

lemma unsigned_load_width [simp]: "lop_width (unsigned_load sop) = sop_width sop"
  by (cases sop) simp_all

lemma load_spec_val_bytes:
  assumes "\<And>k. k < sop_width sop \<Longrightarrow> f (a + word_of_nat k) = val_byte v k"
  shows "load_spec (unsigned_load sop) f a = take_bit (8 * sop_width sop) v"
proof -
  have f: "k < sop_width sop \<Longrightarrow> f (a + word_of_nat k) = ucast (drop_bit (8 * k) v)" for k
    using assms by (simp add: val_byte_def)
  show ?thesis
    using f [of 0] f [of 1] f [of 2] f [of 3]
    by (cases sop) (simp_all add: u32_bitwise word_of_bytes_def bit_simps bit_beyond)
qed

locale memory_controller =
  fixes ops :: "('m, 'p) memory_ops"
    and inv :: "'m \<Rightarrow> bool"
    and line :: "'m \<Rightarrow> u32 \<Rightarrow> cacheline"
    and same_line :: "u32 \<Rightarrow> u32 \<Rightarrow> bool"
    and canon :: "u32 \<Rightarrow> u32"
  assumes query_ok: "inv m \<Longrightarrow> \<exists>p. mem_query ops m a = Ok (line m a, p)"
    and update_ok: "inv m \<Longrightarrow> f (line m a) = (cl', Ok ()) \<Longrightarrow> wf_cl cl' \<Longrightarrow>
      \<exists>m' p. mem_update ops m a f = (m', Ok p) \<and> inv m'
        \<and> (\<forall>b. line m' b = (if same_line a b then cl' else line m b))"
    and update_err: "inv m \<Longrightarrow> f (line m a) = (cl', Err e) \<Longrightarrow> \<exists>m'. mem_update ops m a f = (m', Err e)"
    and line_wf: "inv m \<Longrightarrow> wf_cl (line m a)"
    and line_same: "inv m \<Longrightarrow> same_line a b \<Longrightarrow> line m a = line m b"
    and same_line_equiv: "equivp same_line"
    and same_line_block: "drop_bit 4 a = drop_bit 4 b \<Longrightarrow> same_line a b"
    and canon_iff: "canon a = canon b \<longleftrightarrow> same_line a b \<and> a AND 31 = b AND 31"
begin

lemma same_line_sym: "same_line a b \<Longrightarrow> same_line b a"
  using same_line_equiv by (meson equivp_symp)

lemma same_line_trans: "same_line a b \<Longrightarrow> same_line b c \<Longrightarrow> same_line a c"
  using same_line_equiv by (meson equivp_transp)

lemma same_line_refl: "same_line a a"
  by (rule same_line_block) simp

lemma same_line_aligned: "aligned w a \<Longrightarrow> w dvd 16 \<Longrightarrow> k < w \<Longrightarrow> same_line a (a + word_of_nat k)"
  by (rule same_line_block) (simp add: aligned_block)

text \<open>Loads: the specification over the bytes of the memory, or the alignment error.\<close>

lemma load_ok:
  assumes "inv m" "aligned (lop_width lop) a"
  shows "\<exists>p. mem_load ops m lop a = Ok (load_spec lop (mem_byte line m) a, p)"
proof -
  obtain p where p: "mem_query ops m a = Ok (line m a, p)" using query_ok [OF assms(1)] by blast
  have "line m (a + word_of_nat k) = line m a" if "k < lop_width lop" for k
    using line_same [OF assms(1)] same_line_aligned [OF assms(2) access_width(1) that] by metis
  then have "load_spec lop (line_byte (line m a)) a = load_spec lop (mem_byte line m) a"
    by (intro load_spec_cong) (simp add: mem_byte_def)
  then show ?thesis
    using p assms(2) by (simp add: mem_load_def cl_load_spec line_wf assms(1))
qed

lemma load_misaligned:
  assumes "inv m" "\<not> aligned (lop_width lop) a"
  shows "mem_load ops m lop a = Err (Misaligned a)"
proof -
  obtain p where "mem_query ops m a = Ok (line m a, p)" using query_ok [OF assms(1)] by blast
  then show ?thesis using assms by (simp add: mem_load_def cl_load_spec line_wf)
qed

text \<open>An instruction read is a word load.\<close>

lemma read_inst_eq: "mem_read_inst ops m a = mem_load ops m LW a"
  by (simp add: mem_read_inst_def mem_load_def)

lemma load_n_ok:
  assumes "inv m"
  shows "mem_load_n ops m a len = Ok (map (mem_byte line m) (addr_range a (a + len)))"
  unfolding mem_load_n_def
proof (rule collect_map_Ok)
  fix b
  obtain p where "mem_load ops m LBU b = Ok (ucast (mem_byte line m b), p)"
    using load_ok [OF assms, of LBU b] by (auto simp: aligned_def)
  then show "result_bind (mem_load ops m LBU b) (\<lambda>b. Ok (ucast (fst b))) = Ok (mem_byte line m b)"
    by simp
qed

text \<open>Stores: the bytes change as specified, or the alignment error is returned.\<close>

lemma same_line_offset:
  assumes "aligned w a" "w dvd 16" "k < w"
  shows "canon b = canon (a + word_of_nat k) \<longleftrightarrow> same_line a b \<and> unat (b AND 31) = unat (a AND 31) + k"
proof -
  have "unat a mod 32 + k < 32"
    using assms dvd_trans [OF assms(2), of 32] by (intro aligned_mod_room) auto
  then have off: "unat ((a + word_of_nat k) AND 31) = unat (a AND 31) + k"
    by (intro offset_add) (simp add: unat_and_mask)
  have "same_line a (a + word_of_nat k)" using assms by (rule same_line_aligned)
  then have "same_line b (a + word_of_nat k) \<longleftrightarrow> same_line a b"
    using same_line_sym same_line_trans by blast
  moreover have "b AND 31 = (a + word_of_nat k) AND 31 \<longleftrightarrow> unat (b AND 31) = unat (a AND 31) + k"
    using off by (simp only: unat_inject [symmetric])
  ultimately show ?thesis by (simp add: canon_iff)
qed

lemma store_bytes:
  assumes "inv m" "aligned w a" "w dvd 16"
    and "\<forall>b. line m' b = (if same_line a b then store_line (line m a) w a v else line m b)"
  shows "mem_byte line m' b = store_spec canon w (mem_byte line m) a v b"
proof (cases "\<exists>k<w. canon b = canon (a + word_of_nat k)")
  case True
  then obtain k where k: "k < w" "same_line a b" "unat (b AND 31) = unat (a AND 31) + k"
    using same_line_offset [OF assms(2,3)] by blast
  have "find (\<lambda>k. canon b = canon (a + word_of_nat k)) [0..<w] = Some k"
    using k by (auto simp: find_Some_iff same_line_offset [OF assms(2,3)] intro!: exI [of _ k])
  then show ?thesis
    using assms(4) k by (simp add: store_spec_def mem_byte_def line_byte_store)
next
  case False
  then have "find (\<lambda>k. canon b = canon (a + word_of_nat k)) [0..<w] = None"
    by (auto simp: find_None_iff)
  moreover have "line_byte (line m' b) b = line_byte (line m b) b"
  proof (cases "same_line a b")
    case True
    have "\<not> (unat (a AND 31) \<le> unat (b AND 31) \<and> unat (b AND 31) < unat (a AND 31) + w)"
    proof
      assume *: "unat (a AND 31) \<le> unat (b AND 31) \<and> unat (b AND 31) < unat (a AND 31) + w"
      then obtain k where "unat (b AND 31) = unat (a AND 31) + k" "k < w"
        using le_Suc_ex by fastforce
      then show False using False True same_line_offset [OF assms(2,3), of k b] by blast
    qed
    then show ?thesis using True assms(4) line_same [OF assms(1) True] by (auto simp: line_byte_store)
  qed (simp add: assms(4))
  ultimately show ?thesis by (simp add: store_spec_def mem_byte_def)
qed

lemma store_ok:
  assumes "inv m" "aligned (sop_width sop) a"
  shows "\<exists>m' p. mem_store ops m sop a v = (m', Ok p) \<and> inv m'
    \<and> mem_byte line m' = store_spec canon (sop_width sop) (mem_byte line m) a v"
proof -
  have "cl_store (line m a) sop a v = (store_line (line m a) (sop_width sop) a v, Ok ())"
    using assms by (simp add: cl_store_spec line_wf)
  from update_ok [of m "\<lambda>cl. cl_store cl sop a v" a, OF assms(1) this wf_store_line] obtain m' p where
    "mem_store ops m sop a v = (m', Ok p)" "inv m'"
    "\<forall>b. line m' b = (if same_line a b then store_line (line m a) (sop_width sop) a v else line m b)"
    unfolding mem_store_def by blast
  with store_bytes [OF assms access_width(2)] show ?thesis by blast
qed

text \<open>What was stored is loaded again, at the address stored to or at an alias of it.\<close>

lemma store_spec_hit:
  assumes "aligned w a" "aligned w b" "w dvd 16" "canon b = canon a" "k < w"
  shows "store_spec canon w f a v (b + word_of_nat k) = val_byte v k"
proof -
  have off: "canon b' = canon (a + word_of_nat j) \<longleftrightarrow> same_line a b' \<and> unat (b' AND 31) = unat (a AND 31) + j"
    if "j < w" for b' j using assms(1,3) that by (rule same_line_offset)
  have "same_line a (a + word_of_nat k)" "unat ((a + word_of_nat k) AND 31) = unat (a AND 31) + k"
    using off [OF assms(5), of "a + word_of_nat k"] by blast+
  moreover have "same_line b a" "b AND 31 = a AND 31" using assms(4) canon_iff by blast+
  ultimately have "canon (a + word_of_nat k) = canon (b + word_of_nat k)"
    using same_line_offset [OF assms(2,3,5), of "a + word_of_nat k"] same_line_trans [of b a] by metis
  then have "find (\<lambda>j. canon (b + word_of_nat k) = canon (a + word_of_nat j)) [0..<w] = Some k"
    using assms(5) off [of _ "b + word_of_nat k"] by (simp add: find_Some_iff) (rule exI [of _ k], force)
  then show ?thesis by (simp add: store_spec_def)
qed

lemma store_load:
  assumes "inv m" "aligned (sop_width sop) a" "aligned (sop_width sop) b" "canon b = canon a"
  shows "\<exists>m' p q. mem_store ops m sop a v = (m', Ok p) \<and> inv m'
    \<and> mem_load ops m' (unsigned_load sop) b = Ok (take_bit (8 * sop_width sop) v, q)"
proof -
  obtain m' p where st: "mem_store ops m sop a v = (m', Ok p)" "inv m'"
    "mem_byte line m' = store_spec canon (sop_width sop) (mem_byte line m) a v"
    using store_ok [OF assms(1,2)] by blast
  have "load_spec (unsigned_load sop) (mem_byte line m') b = take_bit (8 * sop_width sop) v"
    unfolding st(3) by (rule load_spec_val_bytes) (rule store_spec_hit [OF assms(2,3) access_width(2) assms(4)])
  then show ?thesis using load_ok [OF st(2), of "unsigned_load sop" b] assms(3) st(1,2) by auto
qed

lemma store_misaligned:
  assumes "inv m" "\<not> aligned (sop_width sop) a"
  shows "\<exists>m'. mem_store ops m sop a v = (m', Err (Misaligned a))"
  using update_err [OF assms(1), of "\<lambda>cl. cl_store cl sop a v" a "line m a" "Misaligned a"] assms
  by (simp add: cl_store_spec line_wf mem_store_def)

end

end
