(* ===== verification/Syscalls.thy ===== *)
theory Syscalls
  imports Memory
begin

text \<open>
  System calls (\<^verbatim>\<open>vm/src/syscalls.rs\<close>).  The record is \<^verbatim>\<open>struct Syscalls\<close> with two more fields for the
  outside world: the bytes written to standard output so far, and whether writing to it fails.
\<close>

record syscalls =
  to_stdout :: bool
  log_buffer :: "u8 list list"
  sc_input :: "u8 list"
  sc_output :: "u8 list"
  sc_label :: "u8 list list"
  stdout :: "u8 list"
  stdout_fails :: bool

definition syscalls_default :: syscalls where
  "syscalls_default = \<lparr>to_stdout = False, log_buffer = [], sc_input = [], sc_output = [], sc_label = [],
     stdout = [], stdout_fails = False\<rparr>"

datatype syscall_code = WriteLog | ReadFromPrivateInput | WriteToOutput | ProfileCycles

fun syscall_code_u32 :: "syscall_code \<Rightarrow> u32" where
  "syscall_code_u32 WriteLog = 1"
| "syscall_code_u32 ReadFromPrivateInput = 2"
| "syscall_code_u32 WriteToOutput = 3"
| "syscall_code_u32 ProfileCycles = 5"

definition syscall_try_from :: "u32 \<Rightarrow> u32 \<Rightarrow> syscall_code result" where
  "syscall_try_from pc syscode =
     (if syscode = 1 then Ok WriteLog
      else if syscode = 2 then Ok ReadFromPrivateInput
      else if syscode = 3 then Ok WriteToOutput
      else if syscode = 5 then Ok ProfileCycles
      else Err (UnknownECall pc syscode))"

section \<open>Operations\<close>

definition enable_stdout :: "syscalls \<Rightarrow> syscalls" where
  "enable_stdout s = s\<lparr>to_stdout := True\<rparr>"

definition disable_stdout :: "syscalls \<Rightarrow> syscalls" where
  "disable_stdout s = s\<lparr>to_stdout := False\<rparr>"

definition set_input :: "syscalls \<Rightarrow> u8 list \<Rightarrow> syscalls" where
  "set_input s bytes = s\<lparr>sc_input := bytes\<rparr>"

definition get_output :: "syscalls \<Rightarrow> u8 list" where
  "get_output s = sc_output s"

definition get_log_buffer :: "syscalls \<Rightarrow> u8 list list" where
  "get_log_buffer s = log_buffer s"

definition get_label :: "syscalls \<Rightarrow> syscalls \<times> u8 list option" where
  "get_label s = (if sc_label s = [] then (s, None)
     else (s\<lparr>sc_label := butlast (sc_label s)\<rparr>, Some (last (sc_label s))))"

definition writelog :: "syscalls \<Rightarrow> u32 \<Rightarrow> u32 \<Rightarrow> ('m, 'p) memory_ops \<Rightarrow> 'm \<Rightarrow> syscalls \<times> u32 result" where
  "writelog s source len ops m = attempt (mem_load_n ops m source len) s (\<lambda>nxt.
     if to_stdout s
     then if stdout_fails s then (s, Err IOError) else (s\<lparr>stdout := stdout s @ nxt\<rparr>, Ok 0)
     else (s\<lparr>log_buffer := log_buffer s @ [nxt]\<rparr>, Ok 0))"

definition read_from_private_input :: "syscalls \<Rightarrow> syscalls \<times> u32 result" where
  "read_from_private_input s = (case sc_input s of
     [] \<Rightarrow> (s, Ok 0xffffffff)
   | b # rest \<Rightarrow> (s\<lparr>sc_input := rest\<rparr>, Ok (ucast b)))"

definition write_to_output :: "syscalls \<Rightarrow> u32 \<Rightarrow> u32 \<Rightarrow> ('m, 'p) memory_ops \<Rightarrow> 'm \<Rightarrow> syscalls \<times> u32 result" where
  "write_to_output s source len ops m = attempt (mem_load_n ops m source len) s (\<lambda>buf.
     (s\<lparr>sc_output := sc_output s @ buf\<rparr>, Ok 0))"

definition profile_cycles :: "syscalls \<Rightarrow> u32 \<Rightarrow> u32 \<Rightarrow> ('m, 'p) memory_ops \<Rightarrow> 'm \<Rightarrow> syscalls \<times> u32 result" where
  "profile_cycles s source len ops m = attempt (mem_load_n ops m source len) s (\<lambda>buf.
     (s\<lparr>sc_label := sc_label s @ [buf]\<rparr>, Ok (syscall_code_u32 ProfileCycles)))"

definition syscall :: "syscalls \<Rightarrow> u32 \<Rightarrow> u32 list \<Rightarrow> ('m, 'p) memory_ops \<Rightarrow> 'm \<Rightarrow> syscalls \<times> u32 result" where
  "syscall s pc regs ops m =
     attempt (result_bind (index regs 18) (syscall_try_from pc)) s (\<lambda>code.
     attempt (index regs 11) s (\<lambda>rs1.
     attempt (index regs 12) s (\<lambda>rs2.
     case code of
       WriteLog \<Rightarrow> writelog s rs1 rs2 ops m
     | ReadFromPrivateInput \<Rightarrow> read_from_private_input s
     | WriteToOutput \<Rightarrow> write_to_output s rs1 rs2 ops m
     | ProfileCycles \<Rightarrow> profile_cycles s rs1 rs2 ops m)))"

section \<open>What a call does, on a memory given by its bytes\<close>

fun syscall_spec :: "syscalls \<Rightarrow> syscall_code \<Rightarrow> u8 list \<Rightarrow> syscalls \<times> u32 result" where
  "syscall_spec s WriteLog buf =
     (if \<not> to_stdout s then (s\<lparr>log_buffer := log_buffer s @ [buf]\<rparr>, Ok 0)
      else if stdout_fails s then (s, Err IOError) else (s\<lparr>stdout := stdout s @ buf\<rparr>, Ok 0))"
| "syscall_spec s ReadFromPrivateInput buf =
     (s\<lparr>sc_input := tl (sc_input s)\<rparr>, Ok (if sc_input s = [] then 0xffffffff else ucast (hd (sc_input s))))"
| "syscall_spec s WriteToOutput buf = (s\<lparr>sc_output := sc_output s @ buf\<rparr>, Ok 0)"
| "syscall_spec s ProfileCycles buf = (s\<lparr>sc_label := sc_label s @ [buf]\<rparr>, Ok 5)"

lemma syscall_try_from_not_Panic [simp]: "syscall_try_from pc c \<noteq> Panic"
  by (simp add: syscall_try_from_def)

lemma syscall_try_from_Ok: "syscall_try_from pc c = Ok code \<longleftrightarrow> c = syscall_code_u32 code"
  by (cases code) (auto simp: syscall_try_from_def)

lemma syscall_code_u32_inj: "syscall_code_u32 a = syscall_code_u32 b \<longleftrightarrow> a = b"
  by (cases a; cases b) auto

lemma read_input_spec: "read_from_private_input s =
   (s\<lparr>sc_input := tl (sc_input s)\<rparr>, Ok (if sc_input s = [] then 0xffffffff else ucast (hd (sc_input s))))"
  by (simp add: read_from_private_input_def split: list.splits)

context memory_controller
begin

lemma syscall_eq:
  assumes "inv m" "length regs = 32"
  shows "syscall s pc regs ops m = (case syscall_try_from pc (regs ! 18) of
     Ok code \<Rightarrow> syscall_spec s code (map (mem_byte line m) (addr_range (regs ! 11) (regs ! 11 + regs ! 12)))
   | Err e \<Rightarrow> (s, Err e) | Panic \<Rightarrow> (s, Panic))"
  using assms
  by (cases "syscall_try_from pc (regs ! 18)")
    (auto simp: syscall_def load_n_ok writelog_def write_to_output_def profile_cycles_def
      read_input_spec split: syscall_code.splits)

end

end
