(* ===== verification/Eval.thy ===== *)
theory Eval
  imports Parse Syscalls "HOL-Library.AList"
begin

text \<open>
  The evaluator (\<^verbatim>\<open>vm/src/eval.rs\<close>): the machine state, register access, the arithmetic and branch
  operations, cycle profiling and \<^verbatim>\<open>eval_inst\<close>.  The memory and its proofs are given by operation
  records.  The map of profiled functions is an association list with distinct keys.  \<^verbatim>\<open>trace_len\<close> (a \<^verbatim>\<open>usize\<close>) is a natural number; the cycle counters keep their width.
\<close>

section \<open>State\<close>

record regs =
  r_pc :: u32
  r_x :: "u32 list"

record ('m, 'p) nexus_vm =
  vm_regs :: regs
  vm_syscalls :: syscalls
  vm_inst :: inst
  vm_Z :: u32
  vm_instruction_sets :: "instruction_set set"
  vm_mem :: 'm
  vm_pc_proof :: 'p
  vm_read_proof :: "'p option"
  vm_write_proof :: "'p option"
  vm_trace_len :: nat
  vm_max_trace_len :: "nat option"
  vm_cycle_count :: u64
  vm_cycle_tracker :: "(u8 list \<times> u64 \<times> u32) list"

definition regs_default :: regs where
  "regs_default = \<lparr>r_pc = 0, r_x = replicate 32 0\<rparr>"

definition vm_default :: "('m, 'p) memory_ops \<Rightarrow> ('p, 'f) proof_ops \<Rightarrow> ('m, 'p) nexus_vm" where
  "vm_default ops pops =
     \<lparr>vm_regs = regs_default, vm_syscalls = syscalls_default, vm_inst = inst_default, vm_Z = 0,
      vm_instruction_sets = {}, vm_mem = mem_default ops, vm_pc_proof = proof_default pops,
      vm_read_proof = None, vm_write_proof = None, vm_trace_len = 0, vm_max_trace_len = None,
      vm_cycle_count = 0, vm_cycle_tracker = []\<rparr>"

definition vm_new :: "('m, 'p) memory_ops \<Rightarrow> ('p, 'f) proof_ops \<Rightarrow> u32 \<Rightarrow> ('m, 'p) nexus_vm" where
  "vm_new ops pops pc = (let vm = vm_default ops pops in
     vm\<lparr>vm_regs := (vm_regs vm)\<lparr>r_pc := pc\<rparr>, vm_instruction_sets := {}, vm_cycle_count := 0\<rparr>)"

definition get_reg :: "('m, 'p) nexus_vm \<Rightarrow> u32 \<Rightarrow> u32 result" where
  "get_reg vm r = (if r = 0 then Ok 0 else index (r_x (vm_regs vm)) (unat r))"

definition set_reg :: "('m, 'p) nexus_vm \<Rightarrow> u32 \<Rightarrow> u32 \<Rightarrow> ('m, 'p) nexus_vm \<times> unit result" where
  "set_reg vm r val =
     (if r \<noteq> 0
      then if unat r < length (r_x (vm_regs vm))
           then (vm\<lparr>vm_regs := (vm_regs vm)\<lparr>r_x := (r_x (vm_regs vm))[unat r := val]\<rparr>\<rparr>, Ok ())
           else (vm, Panic)
      else (vm, Ok ()))"

text \<open>The loop of \<^verbatim>\<open>init_memory\<close>; \<open>i\<close> is the index of the next byte.\<close>

fun init_memory_loop ::
  "('m, 'p) memory_ops \<Rightarrow> ('m, 'p) nexus_vm \<Rightarrow> u32 \<Rightarrow> nat \<Rightarrow> u8 list \<Rightarrow> ('m, 'p) nexus_vm \<times> unit result" where
  "init_memory_loop ops vm addr i [] = (vm, Ok ())"
| "init_memory_loop ops vm addr i (b # bytes) =
     (let (m, r) = mem_store ops (vm_mem vm) SB (addr + word_of_nat i) (ucast b); vm = vm\<lparr>vm_mem := m\<rparr> in
      attempt r vm (\<lambda>_. init_memory_loop ops vm addr (Suc i) bytes))"

definition init_memory ::
  "('m, 'p) memory_ops \<Rightarrow> ('m, 'p) nexus_vm \<Rightarrow> u32 \<Rightarrow> u8 list \<Rightarrow> ('m, 'p) nexus_vm \<times> unit result" where
  "init_memory ops vm addr bytes = init_memory_loop ops vm addr 0 bytes"

definition set_max_trace_len :: "('m, 'p) nexus_vm \<Rightarrow> nat \<Rightarrow> ('m, 'p) nexus_vm" where
  "set_max_trace_len vm n = vm\<lparr>vm_max_trace_len := Some n\<rparr>"

section \<open>Operations on words\<close>

definition add32 :: "u32 \<Rightarrow> u32 \<Rightarrow> u32" where
  "add32 a b = a + b"

definition sub32 :: "u32 \<Rightarrow> u32 \<Rightarrow> u32" where
  "sub32 a b = a - b"

fun br_op :: "bop \<Rightarrow> u32 \<Rightarrow> u32 \<Rightarrow> bool" where
  "br_op BEQ x y = (x = y)"
| "br_op BNE x y = (x \<noteq> y)"
| "br_op BLT x y = (sint x < sint y)"
| "br_op BGE x y = (sint x \<ge> sint y)"
| "br_op BLTU x y = (x < y)"
| "br_op BGEU x y = (x \<ge> y)"

definition alu_op :: "aop \<Rightarrow> u32 \<Rightarrow> u32 \<Rightarrow> u32" where
  "alu_op aop x y = (let shamt = unat (y AND 0x1f) in
     case aop of
       ADD \<Rightarrow> add32 x y
     | SUB \<Rightarrow> sub32 x y
     | SLT \<Rightarrow> of_bool (sint x < sint y)
     | SLTU \<Rightarrow> of_bool (x < y)
     | SLL \<Rightarrow> push_bit shamt x
     | SRL \<Rightarrow> drop_bit shamt x
     | SRA \<Rightarrow> signed_drop_bit shamt x
     | AND_A \<Rightarrow> x AND y
     | OR_A \<Rightarrow> x OR y
     | XOR_A \<Rightarrow> x XOR y)"

section \<open>The peephole optimiser\<close>

fun const_prop :: "inst list \<Rightarrow> inst list option" where
  "const_prop (i1 # i2 # rest) = (case (i_inst i1, i_inst i2) of
     (AUIPC rd1 imm1, JALR rd2 rs1 imm2) \<Rightarrow>
       if rd1 = rs1
       then let target = add32 (add32 (i_pc i1) imm1) imm2 in
         Some [\<lparr>i_pc = i_pc i1, i_len = 4, i_word = 0, i_inst = ALUI ADD 0 0 0\<rparr>,
               \<lparr>i_pc = i_pc i2, i_len = 4, i_word = 0, i_inst = JALR rd2 0 target\<rparr>]
       else None
   | _ \<Rightarrow> None)"
| "const_prop _ = None"

definition overwrite :: "'a list \<Rightarrow> nat \<Rightarrow> 'a list \<Rightarrow> 'a list" where
  "overwrite xs i v = fold (\<lambda>(j, y) zs. zs[i + j := y]) (enumerate 0 v) xs"

definition peephole :: "inst list \<Rightarrow> inst list" where
  "peephole insn = fold (\<lambda>i insn. case const_prop (drop i insn) of None \<Rightarrow> insn | Some v \<Rightarrow> overwrite insn i v)
     [0..<length insn] insn"

section \<open>Profiling\<close>

text \<open>\<^verbatim>\<open>std::str::from_utf8\<close>: the number of bytes of the first code point, 0 if it is malformed.\<close>

definition utf8_cont :: "u8 list \<Rightarrow> nat \<Rightarrow> bool" where
  "utf8_cont bs k \<longleftrightarrow> k < length bs \<and> 0x80 \<le> bs ! k \<and> bs ! k \<le> 0xbf"

definition utf8_width :: "u8 list \<Rightarrow> nat" where
  "utf8_width bs = (let b0 = hd bs; b1 = bs ! 1 in
     if b0 < 0x80 then 1
     else if 0xc2 \<le> b0 \<and> b0 \<le> 0xdf then if utf8_cont bs 1 then 2 else 0
     else if 0xe0 \<le> b0 \<and> b0 \<le> 0xef
       then if utf8_cont bs 1 \<and> (b0 = 0xe0 \<longrightarrow> 0xa0 \<le> b1) \<and> (b0 = 0xed \<longrightarrow> b1 \<le> 0x9f) \<and> utf8_cont bs 2 then 3 else 0
     else if 0xf0 \<le> b0 \<and> b0 \<le> 0xf4
       then if utf8_cont bs 1 \<and> (b0 = 0xf0 \<longrightarrow> 0x90 \<le> b1) \<and> (b0 = 0xf4 \<longrightarrow> b1 \<le> 0x8f)
              \<and> utf8_cont bs 2 \<and> utf8_cont bs 3 then 4 else 0
     else 0)"

function utf8_valid :: "u8 list \<Rightarrow> bool" where
  "utf8_valid bs =
     (if bs = [] then True
      else if utf8_width bs = 0 then False else utf8_valid (drop (utf8_width bs) bs))"
  by auto
termination by (relation "measure length") auto

declare utf8_valid.simps [simp del]

text \<open>\<^verbatim>\<open>label.split('#').last()\<close>: what follows the last \<open>#\<close> (byte \<open>0x23\<close>), everything if there is none.\<close>

definition after_last_hash :: "u8 list \<Rightarrow> u8 list" where
  "after_last_hash bs = rev (takeWhile (\<lambda>b. b \<noteq> 0x23) (rev bs))"

definition start_profile :: "('m, 'p) nexus_vm \<Rightarrow> u8 list \<Rightarrow> ('m, 'p) nexus_vm" where
  "start_profile vm fn_name =
     (let (clk, counter) = (case map_of (vm_cycle_tracker vm) fn_name of None \<Rightarrow> (vm_cycle_count vm, 0) | Some e \<Rightarrow> e)
      in vm\<lparr>vm_cycle_tracker := AList.update fn_name (clk, counter + 1) (vm_cycle_tracker vm)\<rparr>)"

definition end_profile :: "('m, 'p) nexus_vm \<Rightarrow> u8 list \<Rightarrow> ('m, 'p) nexus_vm \<times> unit result" where
  "end_profile vm fn_name = (case map_of (vm_cycle_tracker vm) fn_name of
     None \<Rightarrow> (vm, Err InvalidProfileLabel)
   | Some (clk, counter) \<Rightarrow>
       let counter = counter - 1; clk = (if counter = 0 then vm_cycle_count vm - clk else clk)
       in (vm\<lparr>vm_cycle_tracker := AList.update fn_name (clk, counter) (vm_cycle_tracker vm)\<rparr>, Ok ()))"

definition handle_profile_cycles :: "('m, 'p) nexus_vm \<Rightarrow> ('m, 'p) nexus_vm \<times> unit result" where
  "handle_profile_cycles vm =
     (let (sc, l) = get_label (vm_syscalls vm); vm = vm\<lparr>vm_syscalls := sc\<rparr> in
      case l of None \<Rightarrow> (vm, Err InvalidProfileLabel)
      | Some label \<Rightarrow>
          if \<not> utf8_valid label then (vm, Err InvalidProfileLabel)
          else let fn_name = after_last_hash label in
            case label of
              [] \<Rightarrow> (vm, Err InvalidProfileLabel)
            | c # _ \<Rightarrow>
                if c = 0x5e then (start_profile vm fn_name, Ok ())
                else if c = 0x24 then end_profile vm fn_name
                else (vm, Err InvalidProfileLabel))"

section \<open>One instruction\<close>

fun store_lop :: "sop \<Rightarrow> lop" where
  "store_lop SB = LB" | "store_lop SH = LH" | "store_lop SW = LW"

text \<open>The match on the instruction: the new state with the destination register and the next
  program counter (0 for none).\<close>

fun exec_inst :: "('m, 'p) memory_ops \<Rightarrow> ('m, 'p) nexus_vm \<Rightarrow> rv32 \<Rightarrow> ('m, 'p) nexus_vm \<times> (u32 \<times> u32) result" where
  "exec_inst ops vm (LUI rd imm) = (vm\<lparr>vm_Z := imm\<rparr>, Ok (rd, 0))"
| "exec_inst ops vm (AUIPC rd imm) = (vm\<lparr>vm_Z := add32 (r_pc (vm_regs vm)) imm\<rparr>, Ok (rd, 0))"
| "exec_inst ops vm (JAL rd imm) =
     (vm\<lparr>vm_Z := add32 (r_pc (vm_regs vm)) 4\<rparr>, Ok (rd, add32 (r_pc (vm_regs vm)) imm))"
| "exec_inst ops vm (JALR rd rs1 imm) = attempt (get_reg vm rs1) vm (\<lambda>X.
     (vm\<lparr>vm_Z := add32 (r_pc (vm_regs vm)) 4\<rparr>, Ok (rd, add32 X imm)))"
| "exec_inst ops vm (BR bop rs1 rs2 imm) = attempt (get_reg vm rs1) vm (\<lambda>X. attempt (get_reg vm rs2) vm (\<lambda>Y.
     (vm, Ok (0, if br_op bop X Y then add32 (r_pc (vm_regs vm)) imm else 0))))"
| "exec_inst ops vm (LOAD lop rd rs1 imm) = attempt (get_reg vm rs1) vm (\<lambda>X.
     let addr = add32 X imm in
     attempt (mem_load ops (vm_mem vm) lop addr) vm (\<lambda>(val, proof).
     (vm\<lparr>vm_read_proof := Some proof, vm_Z := val\<rparr>, Ok (rd, 0))))"
| "exec_inst ops vm (STORE sop rs1 rs2 imm) = attempt (get_reg vm rs1) vm (\<lambda>X. attempt (get_reg vm rs2) vm (\<lambda>Y.
     let addr = add32 X imm in
     attempt (mem_load ops (vm_mem vm) (store_lop sop) addr) vm (\<lambda>(_, proof).
     let vm = vm\<lparr>vm_read_proof := Some proof\<rparr>;
         (m, r) = mem_store ops (vm_mem vm) sop addr Y; vm = vm\<lparr>vm_mem := m\<rparr> in
     attempt r vm (\<lambda>proof. (vm\<lparr>vm_write_proof := Some proof\<rparr>, Ok (0, 0))))))"
| "exec_inst ops vm (ALUI aop rd rs1 imm) = attempt (get_reg vm rs1) vm (\<lambda>X.
     (vm\<lparr>vm_Z := alu_op aop X imm\<rparr>, Ok (rd, 0)))"
| "exec_inst ops vm (ALU aop rd rs1 rs2) = attempt (get_reg vm rs1) vm (\<lambda>X. attempt (get_reg vm rs2) vm (\<lambda>Y.
     (vm\<lparr>vm_Z := alu_op aop X Y\<rparr>, Ok (rd, 0))))"
| "exec_inst ops vm FENCE = (vm, Ok (0, 0))"
| "exec_inst ops vm (EBREAK rd) = (vm, Ok (0, 0))"
| "exec_inst ops vm (ECALL rd) =
     (let (sc, r) = syscall (vm_syscalls vm) (r_pc (vm_regs vm)) (r_x (vm_regs vm)) ops (vm_mem vm);
          vm = vm\<lparr>vm_syscalls := sc\<rparr> in
      attempt r vm (\<lambda>z. let vm = vm\<lparr>vm_Z := z\<rparr> in
      attempt (index (r_x (vm_regs vm)) 18) vm (\<lambda>code.
      if code = syscall_code_u32 ProfileCycles
      then let (vm, r) = handle_profile_cycles vm in attempt r vm (\<lambda>_. (vm, Ok (rd, 0)))
      else (vm, Ok (rd, 0)))))"
| "exec_inst ops vm UNIMP = (vm, Ok (0, i_pc (vm_inst vm)))"

fun inst_cycles :: "rv32 \<Rightarrow> u64" where
  "inst_cycles (LOAD _ _ _ _) = 3"
| "inst_cycles (STORE _ _ _ _) = 3"
| "inst_cycles (BR _ _ _ _) = 2"
| "inst_cycles (LUI _ _) = 1"
| "inst_cycles (AUIPC _ _) = 1"
| "inst_cycles (JAL _ _) = 1"
| "inst_cycles (JALR _ _ _) = 1"
| "inst_cycles (ALUI _ _ _ _) = 1"
| "inst_cycles (ALU _ _ _ _) = 1"
| "inst_cycles (ECALL _) = 4"
| "inst_cycles (EBREAK _) = 4"
| "inst_cycles _ = 0"

definition eval_inst :: "('m, 'p) memory_ops \<Rightarrow> ('m, 'p) nexus_vm \<Rightarrow> ('m, 'p) nexus_vm \<times> unit result" where
  "eval_inst ops vm =
     (if (case vm_max_trace_len vm of None \<Rightarrow> False | Some limit \<Rightarrow> limit \<le> vm_trace_len vm)
      then (vm, Err (MaxTraceLengthExceeded (vm_trace_len vm)))
      else
        attempt (mem_read_inst ops (vm_mem vm) (r_pc (vm_regs vm))) vm (\<lambda>(word, proof).
        attempt (parse_inst (r_pc (vm_regs vm)) (to_le_bytes word)) vm (\<lambda>inst.
        let vm = vm\<lparr>vm_inst := inst, vm_Z := 0, vm_pc_proof := proof, vm_read_proof := None, vm_write_proof := None,
              vm_instruction_sets := insert (instruction_set_of (i_inst inst)) (vm_instruction_sets vm)\<rparr>;
            (vm, r) = exec_inst ops vm (i_inst inst)
        in attempt r vm (\<lambda>(RD, PC).
           let cycles = inst_cycles (i_inst (vm_inst vm));
               PC = (if PC = 0 then add32 (i_pc (vm_inst vm)) (i_len (vm_inst vm)) else PC);
               (vm, r) = set_reg vm RD (vm_Z vm)
           in attempt r vm (\<lambda>_.
              (vm\<lparr>vm_regs := (vm_regs vm)\<lparr>r_pc := PC\<rparr>, vm_trace_len := vm_trace_len vm + 1,
                  vm_cycle_count := vm_cycle_count vm + cycles\<rparr>, Ok ()))))))"

end
