(* ===== verification/Machines.thy ===== *)
theory Machines
  imports Eval
begin

text \<open>
  The test machines (\<^verbatim>\<open>vm/src/machines.rs\<close>): their code, their expected final registers, lookup by name
  and assembly into a machine.
\<close>

section \<open>Assembly\<close>

text \<open>The loop of \<^verbatim>\<open>assemble\<close>: the word at position \<open>i\<close> is stored at \<open>4 * i\<close>; a failing store is unwrapped.\<close>

fun assemble_loop :: "('m, 'p) memory_ops \<Rightarrow> ('m, 'p) nexus_vm \<Rightarrow> nat \<Rightarrow> u32 list \<Rightarrow> ('m, 'p) nexus_vm result" where
  "assemble_loop ops vm i [] = Ok vm"
| "assemble_loop ops vm i (w # words) =
     (case mem_store ops (vm_mem vm) SW (word_of_nat i * 4) w of
        (m, Ok _) \<Rightarrow> assemble_loop ops (vm\<lparr>vm_mem := m\<rparr>) (Suc i) words
      | (m, _) \<Rightarrow> Panic)"

definition assemble :: "('m, 'p) memory_ops \<Rightarrow> ('p, 'f) proof_ops \<Rightarrow> u32 list \<Rightarrow> ('m, 'p) nexus_vm result" where
  "assemble ops pops words = assemble_loop ops (vm_new ops pops 0) 0 words"

section \<open>Programs and expected results\<close>

definition regs_of :: "u32 \<Rightarrow> (nat \<times> u32) list \<Rightarrow> regs" where
  "regs_of pc xs = \<lparr>r_pc = pc, r_x = fold (\<lambda>(i, v) x. x[i := v]) xs (r_x regs_default)\<rparr>"

definition nop_code :: "nat \<Rightarrow> u32 list" where
  "nop_code k = replicate k 0x13 @ [0xc0001073]"

definition nop_result :: "nat \<Rightarrow> regs" where
  "nop_result k = regs_of (word_of_nat k * 4) []"

definition loop_code :: "nat \<Rightarrow> u32 list result" where
  "loop_code k = (if k < 2 ^ 31
     then let hi = word_of_nat k AND 0xfffff000; lo = word_of_nat (push_bit 20 (k AND 0xfff)) in
       Ok [hi OR 0x137, lo OR 0x10113, 0x00000093, 0x00108093, 0xfe209ee3, 0xc0001073]
     else Panic)"

definition loop_result :: "nat \<Rightarrow> regs" where
  "loop_result k = regs_of (5 * 4) [(1, word_of_nat k), (2, word_of_nat k)]"

definition nop_vm :: "('m, 'p) memory_ops \<Rightarrow> ('p, 'f) proof_ops \<Rightarrow> nat \<Rightarrow> ('m, 'p) nexus_vm result" where
  "nop_vm ops pops k = assemble ops pops (nop_code k)"

definition loop_vm :: "('m, 'p) memory_ops \<Rightarrow> ('p, 'f) proof_ops \<Rightarrow> nat \<Rightarrow> ('m, 'p) nexus_vm result" where
  "loop_vm ops pops k = result_bind (loop_code k) (assemble ops pops)"

definition fib31_code :: "u32 list" where
  "fib31_code =
     [0x00100093, 0x00008133, 0x001101b3, 0x00218233, 0x003202b3, 0x00428333,
      0x005303b3, 0x00638433, 0x007404b3, 0x00848533, 0x009505b3, 0x00a58633,
      0x00b606b3, 0x00c68733, 0x00d707b3, 0x00e78833, 0x00f808b3, 0x01088933,
      0x011909b3, 0x01298a33, 0x013a0ab3, 0x014a8b33, 0x015b0bb3, 0x016b8c33,
      0x017c0cb3, 0x018c8d33, 0x019d0db3, 0x01ad8e33, 0x01be0eb3, 0x01ce8f33,
      0x01df0fb3, 0xc0001073]"

definition fib31_result :: regs where
  "fib31_result = \<lparr>r_pc = 31 * 4,
     r_x = fold (\<lambda>i x. x[i := x ! (i - 1) + x ! (i - 2)]) [2..<32] ((r_x regs_default)[1 := 1])\<rparr>"

definition bitop_code :: "u32 list" where
  "bitop_code =
     [0xaaaab0b7, 0xfaa08093, 0x55555137, 0x55510113, 0x0020f1b3, 0x0ff0f213,
      0x0020e2b3, 0x0ff0e313, 0x0020c3b3, 0x0ff0c413, 0xc0001073]"

definition bitop_result :: regs where
  "bitop_result = (let x1 = 0xaaaaafaa; x2 = 0x55555555 in
     regs_of (10 * 4) [(1, x1), (2, x2), (3, x1 AND x2), (4, x1 AND 255), (5, x1 OR x2), (6, x1 OR 255),
       (7, x1 XOR x2), (8, x1 XOR 255)])"

definition branch_code :: "u32 list" where
  "branch_code =
     [0x00100093, 0x00200113, 0x00208663, 0x00108463, 0xc0001073, 0x00109663,
      0x00209463, 0xc0001073, 0xfff00193, 0x00114863, 0x0030c663, 0x0011c463,
      0xc0001073, 0x0001d863, 0x0020d663, 0x00315463, 0xc0001073, 0x00116863,
      0x0001e663, 0x00316463, 0xc0001073, 0x00307863, 0x00317663, 0x0031f463,
      0xc0001073, 0x00100513, 0x00100593, 0xc0001073]"

definition branch_result :: regs where
  "branch_result = regs_of (27 * 4) [(1, 1), (2, 2), (3, - 1), (10, 1), (11, 1)]"

definition jump_code :: "u32 list" where
  "jump_code =
     [0x008000ef, 0xc0001073, 0x008000ef, 0xc0001073, 0x0080016f, 0xc0001073,
      0x00000097, 0x00c081e7, 0xc0001073, 0xfe1ff06f, 0xc0001073]"

definition jump_result :: regs where
  "jump_result = regs_of 4 [(1, 6 * 4), (2, 5 * 4), (3, 8 * 4)]"

definition ldst_code :: "u32 list" where
  "ldst_code =
     [0xfff00293, 0x00502223, 0x005000a3, 0xfe502e23, 0x00402083, 0xffc02103,
      0x00100183, 0x00104203, 0xc0001073]"

definition ldst_result :: regs where
  "ldst_result = regs_of (8 * 4) [(1, - 1), (2, - 1), (3, - 1), (4, 255), (5, - 1)]"

definition shift_code :: "u32 list" where
  "shift_code =
     [0xfaaab0b7, 0xaaa08093, 0x00500113, 0x002091b3, 0x0020d233, 0x4020d2b3,
      0x00009313, 0x00109393, 0x00a09413, 0x01f09493, 0x0000d513, 0x0010d593,
      0x00a0d613, 0x01f0d693, 0x4000d713, 0x4010d793, 0x40a0d813, 0x41f0d893,
      0xc0001073]"

definition shift_result :: regs where
  "shift_result = (let x1 = 0xfaaaaaaa; sra = (\<lambda>y. signed_drop_bit y x1) in
     regs_of (18 * 4) [(1, x1), (2, 5), (3, push_bit 5 x1), (4, drop_bit 5 x1), (5, sra 5),
       (6, push_bit 0 x1), (7, push_bit 1 x1), (8, push_bit 0xa x1), (9, push_bit 0x1f x1),
       (10, drop_bit 0 x1), (11, drop_bit 1 x1), (12, drop_bit 0xa x1), (13, drop_bit 0x1f x1),
       (14, sra 0), (15, sra 1), (16, sra 0xa), (17, sra 0x1f)])"

definition sub_code :: "u32 list" where
  "sub_code =
     [0x00100093, 0xfff00113, 0x40008233, 0x40208233, 0x40110233, 0x0000a233,
      0x04021463, 0x00102233, 0x04020063, 0x00112233, 0x02020c63, 0x00113233,
      0x02021863, 0x00112213, 0x02020463, 0xffd12213, 0x02021063, 0x00113213,
      0x00021c63, 0xffd13213, 0x00021863, 0xfff0b213, 0x00020463, 0x00100513,
      0xc0001073]"

definition sub_result :: regs where
  "sub_result = regs_of (24 * 4) [(1, 1), (2, - 1), (4, 1), (10, 1)]"

definition priv_code :: "u32 list" where
  "priv_code =
     [0x00290913, 0x000001f3, 0x00000273, 0x000002f3, 0xc0001073]"

definition priv_input :: "u8 list" where
  "priv_input = [42, 43, 44]"

definition priv_result :: regs where
  "priv_result = regs_of (4 * 4) [(18, 2), (3, 42), (4, 43), (5, 44)]"

section \<open>Lookup\<close>

type_synonym test_machine = "string \<times> u32 list result \<times> regs \<times> u8 list"

definition MACHINES :: "test_machine list" where
  "MACHINES =
    [(''nop10'', Ok (nop_code 10), nop_result 10, []),
     (''loop10'', loop_code 10, loop_result 10, []),
     (''fib31'', Ok fib31_code, fib31_result, []),
     (''bitop'', Ok bitop_code, bitop_result, []),
     (''branch'', Ok branch_code, branch_result, []),
     (''jump'', Ok jump_code, jump_result, []),
     (''ldst'', Ok ldst_code, ldst_result, []),
     (''shift'', Ok shift_code, shift_result, []),
     (''sub'', Ok sub_code, sub_result, []),
     (''priv'', Ok priv_code, priv_result, priv_input)]"

fun lookup_in :: "test_machine list \<Rightarrow> string \<Rightarrow> test_machine option" where
  "lookup_in [] name = None"
| "lookup_in (m # ms) name = (if fst m = name then Some m else lookup_in ms name)"

definition lookup_test :: "string \<Rightarrow> test_machine option" where
  "lookup_test name = lookup_in MACHINES name"

definition lookup_test_code :: "string \<Rightarrow> u32 list result option" where
  "lookup_test_code name = map_option (\<lambda>(_, f, _, _). f) (lookup_test name)"

definition lookup_test_input :: "string \<Rightarrow> u8 list option" where
  "lookup_test_input name = map_option (\<lambda>(_, _, _, i). i) (lookup_test name)"

definition lookup_test_machine ::
  "('m, 'p) memory_ops \<Rightarrow> ('p, 'f) proof_ops \<Rightarrow> string \<Rightarrow> ('m, 'p) nexus_vm result option" where
  "lookup_test_machine ops pops name =
     (case lookup_test_code name of None \<Rightarrow> None
      | Some code \<Rightarrow> (case lookup_test_input name of None \<Rightarrow> None
        | Some input \<Rightarrow> Some (result_bind code (\<lambda>test_code.
            result_bind (assemble ops pops test_code) (\<lambda>vm.
            Ok (vm\<lparr>vm_syscalls := set_input (vm_syscalls vm) input\<rparr>))))))"

end
