(* ===== verification/Vm_Lib.thy ===== *)
theory Vm_Lib
  imports Machines
begin

text \<open>
  Loading and running programs (\<^verbatim>\<open>vm/src/lib.rs\<close>): building a machine from the loadable segments of an ELF
  file, the options that select a machine, and the evaluation loop.  The ELF parser and the file system
  are parameters; printing is left out.
\<close>

section \<open>ELF images\<close>

text \<open>What the code reads of a parsed ELF file: the entry point and the program headers, if any.\<close>

record phdr =
  p_type :: u32
  p_offset :: u64
  p_filesz :: u64
  p_vaddr :: u64

record elf_file =
  e_entry :: u64
  segments :: "phdr list option"

definition PT_LOAD :: u32 where "PT_LOAD = 1"

fun load_segments ::
  "('m, 'p) memory_ops \<Rightarrow> u8 list \<Rightarrow> ('m, 'p) nexus_vm \<Rightarrow> phdr list \<Rightarrow> ('m, 'p) nexus_vm result" where
  "load_segments ops data vm [] = Ok vm"
| "load_segments ops data vm (p # ps) =
     (let s = unat (p_offset p); e = unat (p_offset p + p_filesz p) in
      if s \<le> e \<and> e \<le> length data
      then let (vm, r) = init_memory ops vm (ucast (p_vaddr p)) (take (e - s) (drop s data)) in
        result_bind r (\<lambda>_. load_segments ops data vm ps)
      else Panic)"

definition init_vm ::
  "('m, 'p) memory_ops \<Rightarrow> ('p, 'f) proof_ops \<Rightarrow> elf_file \<Rightarrow> u8 list \<Rightarrow> ('m, 'p) nexus_vm result" where
  "init_vm ops pops elf data = result_bind (unwrap (segments elf)) (\<lambda>phdrs.
     load_segments ops data (vm_new ops pops (ucast (e_entry elf))) (filter (\<lambda>p. p_type p = PT_LOAD) phdrs))"

definition parse_elf_bytes :: "(u8 list \<Rightarrow> elf_file option) \<Rightarrow> u8 list \<Rightarrow> elf_file result" where
  "parse_elf_bytes minimal_parse bytes = (case minimal_parse bytes of Some file \<Rightarrow> Ok file | None \<Rightarrow> Err ELFError)"

definition parse_elf ::
  "('m, 'p) memory_ops \<Rightarrow> ('p, 'f) proof_ops \<Rightarrow> (u8 list \<Rightarrow> elf_file option) \<Rightarrow> u8 list \<Rightarrow> ('m, 'p) nexus_vm result" where
  "parse_elf ops pops minimal_parse bytes =
     result_bind (parse_elf_bytes minimal_parse bytes) (\<lambda>file. init_vm ops pops file bytes)"

definition load_elf ::
  "('m, 'p) memory_ops \<Rightarrow> ('p, 'f) proof_ops \<Rightarrow> (u8 list \<Rightarrow> elf_file option) \<Rightarrow> (string \<Rightarrow> u8 list option) \<Rightarrow> string
   \<Rightarrow> ('m, 'p) nexus_vm result" where
  "load_elf ops pops minimal_parse read_file path =
     (case read_file path of Some bytes \<Rightarrow> parse_elf ops pops minimal_parse bytes | None \<Rightarrow> Err IOError)"

section \<open>Options\<close>

record vm_opts =
  opt_k :: nat
  opt_machine :: "string option"
  opt_file :: "string option"

definition load_vm ::
  "('m, 'p) memory_ops \<Rightarrow> ('p, 'f) proof_ops \<Rightarrow> (u8 list \<Rightarrow> elf_file option) \<Rightarrow> (string \<Rightarrow> u8 list option) \<Rightarrow> vm_opts
   \<Rightarrow> ('m, 'p) nexus_vm result" where
  "load_vm ops pops minimal_parse read_file opts = (case opt_machine opts of
     Some m \<Rightarrow> (case lookup_test_machine ops pops m of Some vm \<Rightarrow> vm | None \<Rightarrow> Err (UnknownMachine m))
   | None \<Rightarrow> result_bind (unwrap (opt_file opts)) (load_elf ops pops minimal_parse read_file))"

section \<open>The evaluation loop\<close>

text \<open>The loop ends after an \<^verbatim>\<open>unimp\<close> or an error; \<open>None\<close> is a loop that never ends.\<close>

partial_function (option) eval_loop ::
  "('m, 'p) memory_ops \<Rightarrow> ('m, 'p) nexus_vm \<Rightarrow> (('m, 'p) nexus_vm \<times> unit result) option" where
  "eval_loop ops vm =
     (case eval_inst ops vm of (vm, r) \<Rightarrow>
        (case r of
           Ok _ \<Rightarrow> if i_inst (vm_inst vm) = UNIMP then Some (vm, Ok ()) else eval_loop ops vm
         | Err e \<Rightarrow> Some (vm, Err e)
         | Panic \<Rightarrow> Some (vm, Panic)))"

declare eval_loop.simps [code]

text \<open>The summary printed at the end divides by the cycle count and asserts that every profiled
  function was left as often as it was entered.\<close>

definition summary_ok :: "('m, 'p) nexus_vm \<Rightarrow> bool" where
  "summary_ok vm \<longleftrightarrow> vm_cycle_tracker vm = [] \<or>
     vm_cycle_count vm \<noteq> 0 \<and> list_all (\<lambda>(_, clk, cnt). cnt = 0) (vm_cycle_tracker vm)"

definition eval :: "('m, 'p) memory_ops \<Rightarrow> ('m, 'p) nexus_vm \<Rightarrow> bool \<Rightarrow> (('m, 'p) nexus_vm \<times> unit result) option" where
  "eval ops vm show' =
     (let vm = (if show' then vm\<lparr>vm_syscalls := enable_stdout (vm_syscalls vm)\<rparr> else vm) in
      case eval_loop ops vm of None \<Rightarrow> None
      | Some (vm, r) \<Rightarrow> Some (attempt r vm (\<lambda>_. if summary_ok vm then (vm, Ok ()) else (vm, Panic))))"

definition run_vm ::
  "('m, 'p) memory_ops \<Rightarrow> ('p, 'f) proof_ops \<Rightarrow> (u8 list \<Rightarrow> elf_file option) \<Rightarrow> (string \<Rightarrow> u8 list option) \<Rightarrow> vm_opts
   \<Rightarrow> bool \<Rightarrow> unit result option" where
  "run_vm ops pops minimal_parse read_file opts show' =
     (case load_vm ops pops minimal_parse read_file opts of
        Ok vm \<Rightarrow> map_option snd (eval ops vm show')
      | Err e \<Rightarrow> Some (Err e) | Panic \<Rightarrow> Some Panic)"

end
