(* ===== verification/Trace.thy ===== *)
theory Trace
  imports Vm_Lib
begin

text \<open>
  Program traces (\<^verbatim>\<open>vm/src/trace.rs\<close>): recording the steps of a run in blocks, selecting blocks and
  subtraces, and reconstructing from a block the witness of each of its steps.
\<close>

section \<open>Traces, blocks and steps\<close>

record 'p step =
  st_inst :: u32
  st_Z :: u32
  st_PC :: "u32 option"
  st_pc_proof :: 'p
  st_read_proof :: "'p option"
  st_write_proof :: "'p option"

record 'p block =
  bl_regs :: regs
  bl_steps :: "'p step list"

record 'p trace_rec =
  tr_k :: nat
  tr_start :: nat
  tr_blocks :: "'p block list"

text \<open>\<^verbatim>\<open>slice::chunks\<close>, which panics on a chunk size of 0.\<close>

fun chunks :: "nat \<Rightarrow> 'a list \<Rightarrow> 'a list list" where
  "chunks n [] = []"
| "chunks n (x # xs) = take (Suc n) (x # xs) # chunks n (drop n xs)"

definition split_by :: "'p trace_rec \<Rightarrow> nat \<Rightarrow> 'p trace_rec list result" where
  "split_by t n = (case n of
     0 \<Rightarrow> Panic
   | Suc n' \<Rightarrow> Ok (map (\<lambda>(i, bs). \<lparr>tr_k = tr_k t, tr_start = i * n, tr_blocks = bs\<rparr>)
       (enumerate 0 (chunks n' (tr_blocks t)))))"

definition block_at :: "'p trace_rec \<Rightarrow> nat \<Rightarrow> 'p block option" where
  "block_at t n =
     (if tr_start t > n \<or> tr_start t + length (tr_blocks t) \<le> n then None
      else Some (tr_blocks t ! (n - tr_start t)))"

definition trace_get :: "'p trace_rec \<Rightarrow> nat \<Rightarrow> 'p trace_rec option" where
  "trace_get t n = (case block_at t n of None \<Rightarrow> None
     | Some b \<Rightarrow> Some \<lparr>tr_k = tr_k t, tr_start = n, tr_blocks = [b]\<rparr>)"

text \<open>The circuit input of a block: program counter, registers and the memory commitment.  Indexing the
  first step of a block without steps panics.\<close>

definition trace_input :: "('p, 'f::field) proof_ops \<Rightarrow> 'p trace_rec \<Rightarrow> nat \<Rightarrow> 'f list option result" where
  "trace_input pops t n = (case block_at t n of None \<Rightarrow> Ok None
     | Some b \<Rightarrow> result_bind (index (bl_steps b) 0) (\<lambda>s.
         Ok (Some (of_nat (unat (r_pc (bl_regs b))) # map (\<lambda>x. of_nat (unat x)) (r_x (bl_regs b))
           @ [proof_commit pops (st_pc_proof s)]))))"

section \<open>Recording\<close>

definition trace_step :: "('m, 'p) memory_ops \<Rightarrow> ('m, 'p) nexus_vm \<Rightarrow> ('m, 'p) nexus_vm \<times> 'p step result" where
  "trace_step ops vm =
     (let pc = r_pc (vm_regs vm); (vm, r) = eval_inst ops vm in
      attempt r vm (\<lambda>_. (vm, Ok
        \<lparr>st_inst = i_word (vm_inst vm), st_Z = vm_Z vm,
         st_PC = (if r_pc (vm_regs vm) = pc + 4 then None else Some (r_pc (vm_regs vm))),
         st_pc_proof = vm_pc_proof vm, st_read_proof = vm_read_proof vm, st_write_proof = vm_write_proof vm\<rparr>)))"

fun k_step_loop ::
  "('m, 'p) memory_ops \<Rightarrow> ('m, 'p) nexus_vm \<Rightarrow> nat \<Rightarrow> 'p block \<Rightarrow> ('m, 'p) nexus_vm \<times> 'p block result" where
  "k_step_loop ops vm 0 block = (vm, Ok block)"
| "k_step_loop ops vm (Suc k) block =
     (let (vm, r) = trace_step ops vm in
      attempt r vm (\<lambda>s. k_step_loop ops vm k (block\<lparr>bl_steps := bl_steps block @ [s]\<rparr>)))"

definition k_step :: "('m, 'p) memory_ops \<Rightarrow> ('m, 'p) nexus_vm \<Rightarrow> nat \<Rightarrow> ('m, 'p) nexus_vm \<times> 'p block result" where
  "k_step ops vm k = k_step_loop ops vm k \<lparr>bl_regs = vm_regs vm, bl_steps = []\<rparr>"

text \<open>\<^verbatim>\<open>usize::next_power_of_two\<close>.\<close>

function next_pow2_from :: "nat \<Rightarrow> nat \<Rightarrow> nat" where
  "next_pow2_from p n = (if p = 0 \<or> n \<le> p then p else next_pow2_from (2 * p) n)"
  by auto
termination by (relation "measure (\<lambda>(p, n). n - p)") auto

declare next_pow2_from.simps [simp del]

definition next_power_of_two :: "nat \<Rightarrow> nat" where
  "next_power_of_two n = next_pow2_from 1 n"

text \<open>The loop of \<^verbatim>\<open>trace\<close>; \<open>None\<close> is a loop that never ends.\<close>

partial_function (option) trace_loop ::
  "('m, 'p) memory_ops \<Rightarrow> nat \<Rightarrow> bool \<Rightarrow> ('m, 'p) nexus_vm \<Rightarrow> 'p trace_rec
   \<Rightarrow> (('m, 'p) nexus_vm \<times> 'p trace_rec result) option" where
  "trace_loop ops k pow vm t =
     (case k_step ops vm k of (vm, r) \<Rightarrow>
        (case r of
           Err e \<Rightarrow> Some (vm, Err e)
         | Panic \<Rightarrow> Some (vm, Panic)
         | Ok block \<Rightarrow>
             let t = t\<lparr>tr_blocks := tr_blocks t @ [block]\<rparr>; count = length (tr_blocks t) in
             if i_inst (vm_inst vm) = UNIMP \<and> (pow \<longrightarrow> next_power_of_two count = count + 1)
             then Some (vm, Ok t)
             else trace_loop ops k pow vm t))"

definition trace :: "('m, 'p) memory_ops \<Rightarrow> ('m, 'p) nexus_vm \<Rightarrow> nat \<Rightarrow> bool \<Rightarrow> (('m, 'p) nexus_vm \<times> 'p trace_rec result) option" where
  "trace ops vm k pow = trace_loop ops k pow vm \<lparr>tr_k = k, tr_start = 0, tr_blocks = []\<rparr>"

definition trace_vm ::
  "('m, 'p) memory_ops \<Rightarrow> ('p, 'f) proof_ops \<Rightarrow> (u8 list \<Rightarrow> elf_file option) \<Rightarrow> (string \<Rightarrow> u8 list option) \<Rightarrow> vm_opts
   \<Rightarrow> bool \<Rightarrow> bool \<Rightarrow> 'p trace_rec result option" where
  "trace_vm ops pops minimal_parse read_file opts pow show' =
     (case load_vm ops pops minimal_parse read_file opts of
        Ok vm \<Rightarrow> map_option snd (trace ops
          (if show' then vm\<lparr>vm_syscalls := enable_stdout (vm_syscalls vm)\<rparr> else vm) (opt_k opts) pow)
      | Err e \<Rightarrow> Some (Err e) | Panic \<Rightarrow> Some Panic)"

section \<open>Witnesses\<close>

record 'p witness =
  w_regs :: regs
  w_inst :: u32
  w_J :: u32
  w_shamt :: u32
  w_rs1 :: u32
  w_rs2 :: u32
  w_rd :: u32
  w_I :: u32
  w_X :: u32
  w_Y :: u32
  w_Z :: u32
  w_PC :: u32
  w_pc_proof :: 'p
  w_read_proof :: 'p
  w_write_proof :: 'p

definition witness_default :: "('p, 'f) proof_ops \<Rightarrow> 'p witness" where
  "witness_default pops = \<lparr>w_regs = regs_default, w_inst = 0, w_J = 0, w_shamt = 0, w_rs1 = 0, w_rs2 = 0, w_rd = 0,
     w_I = 0, w_X = 0, w_Y = 0, w_Z = 0, w_PC = 0, w_pc_proof = proof_default pops,
     w_read_proof = proof_default pops, w_write_proof = proof_default pops\<rparr>"

definition parse_alt :: "('p, 'f) proof_ops \<Rightarrow> regs \<Rightarrow> u32 \<Rightarrow> 'p witness result" where
  "parse_alt pops regs word =
     (let w = witness_default pops; opc = opcode word in
      if opc = OPC_LUI then Ok (w\<lparr>w_rd := p_rd word, w_I := immU word\<rparr>)
      else if opc = OPC_AUIPC then Ok (w\<lparr>w_rd := p_rd word, w_I := immU word\<rparr>)
      else if opc = OPC_JAL then Ok (w\<lparr>w_rd := p_rd word, w_I := immJ word\<rparr>)
      else if opc = OPC_JALR then Ok (w\<lparr>w_rd := p_rd word, w_rs1 := p_rs1 word, w_I := immI word\<rparr>)
      else if opc = OPC_BR then Ok (w\<lparr>w_rs1 := p_rs1 word, w_rs2 := p_rs2 word, w_I := immB word\<rparr>)
      else if opc = OPC_LOAD then Ok (w\<lparr>w_rd := p_rd word, w_rs1 := p_rs1 word, w_I := immI word\<rparr>)
      else if opc = OPC_STORE then Ok (w\<lparr>w_rs1 := p_rs1 word, w_rs2 := p_rs2 word, w_I := immS word\<rparr>)
      else if opc = OPC_ALUI then
        Ok (w\<lparr>w_rd := p_rd word, w_rs1 := p_rs1 word, w_I := immA word, w_shamt := immA word AND 0x1f\<rparr>)
      else if opc = OPC_ALU then
        result_bind (index (r_x regs) (unat (p_rs2 word))) (\<lambda>y.
        Ok (w\<lparr>w_rd := p_rd word, w_rs1 := p_rs1 word, w_rs2 := p_rs2 word, w_shamt := y AND 0x1f\<rparr>))
      else if opc = OPC_ECALL then Ok (w\<lparr>w_rd := p_rd word\<rparr>)
      else Ok w)"

text \<open>One step of \<^verbatim>\<open>BlockIter\<close>: the witness of a recorded step from the registers before it, and the
  registers after it.\<close>

definition iter_next :: "('p, 'f) proof_ops \<Rightarrow> regs \<Rightarrow> 'p step \<Rightarrow> ('p witness \<times> regs) result" where
  "iter_next pops regs s =
     result_bind (unwrap (parse_u32 (st_inst s))) (\<lambda>inst.
     result_bind (parse_alt pops regs (st_inst s)) (\<lambda>w.
     result_bind (index (r_x regs) (unat (w_rs1 w))) (\<lambda>X.
     result_bind (index (r_x regs) (unat (w_rs2 w))) (\<lambda>Y.
     let PC = (case st_PC s of Some pc \<Rightarrow> pc | None \<Rightarrow> r_pc regs + 4);
         pc_proof = st_pc_proof s;
         read_proof = (case st_read_proof s of Some p \<Rightarrow> p | None \<Rightarrow> pc_proof);
         write_proof = (case st_write_proof s of Some p \<Rightarrow> p | None \<Rightarrow> read_proof);
         w = w\<lparr>w_regs := regs, w_inst := st_inst s, w_J := index_j inst, w_X := X, w_Y := Y, w_Z := st_Z s,
               w_PC := PC, w_pc_proof := pc_proof, w_read_proof := read_proof, w_write_proof := write_proof\<rparr>
     in if w_rd w > 0
        then if unat (w_rd w) < length (r_x regs)
             then Ok (w, \<lparr>r_pc = PC, r_x = (r_x regs)[unat (w_rd w) := w_Z w]\<rparr>)
             else Panic
        else Ok (w, regs\<lparr>r_pc := PC\<rparr>)))))"

text \<open>Running the iterator to the end: the witnesses and the final registers.\<close>

fun iter_all :: "('p, 'f) proof_ops \<Rightarrow> regs \<Rightarrow> 'p step list \<Rightarrow> ('p witness list \<times> regs) result" where
  "iter_all pops regs [] = Ok ([], regs)"
| "iter_all pops regs (s # ss) =
     result_bind (iter_next pops regs s) (\<lambda>(w, regs).
     result_bind (iter_all pops regs ss) (\<lambda>(ws, regs). Ok (w # ws, regs)))"

definition block_iter :: "('p, 'f) proof_ops \<Rightarrow> 'p block \<Rightarrow> ('p witness list \<times> regs) result" where
  "block_iter pops b = iter_all pops (bl_regs b) (bl_steps b)"

end
