(* ===== verification/Paged.thy ===== *)
theory Paged
  imports Memory
begin

text \<open>
  The paged memory without proofs (\<^verbatim>\<open>vm/src/memory/paged.rs\<close>): a map from page numbers to pages of 128
  cache lines.  The interpretation at the end shows that it meets the memory-controller contract with
  no aliasing: two addresses share a byte only when they are equal.
\<close>

record paged =
  tree :: "u32 \<rightharpoonup> cacheline list"

record 'f unchecked_memory =
  um_data :: "'f \<times> 'f"

definition paged_default :: paged where
  "paged_default = \<lparr>tree = Map.empty\<rparr>"

definition unchecked_ops :: "('f::field unchecked_memory, 'f) proof_ops" where
  "unchecked_ops = \<lparr>proof_default = \<lparr>um_data = (0, 0)\<rparr>, proof_commit = (\<lambda>_. 0), proof_data = um_data\<rparr>"

definition page_of :: "u32 \<Rightarrow> u32" where
  "page_of addr = drop_bit 12 addr"

definition offset_of :: "u32 \<Rightarrow> nat" where
  "offset_of addr = unat (drop_bit 5 addr AND 0x7f)"

definition paged_query :: "paged \<Rightarrow> u32 \<Rightarrow> (cacheline \<times> 'f::field unchecked_memory) result" where
  "paged_query m addr =
     (let cl = (case tree m (page_of addr) of None \<Rightarrow> cl_zero | Some arr \<Rightarrow> arr ! offset_of addr)
      in Ok (cl, \<lparr>um_data = scalars cl\<rparr>))"

definition paged_update ::
  "paged \<Rightarrow> u32 \<Rightarrow> (cacheline \<Rightarrow> cacheline \<times> unit result) \<Rightarrow> paged \<times> 'f::field unchecked_memory result" where
  "paged_update m addr f =
     (let arr = (case tree m (page_of addr) of None \<Rightarrow> replicate 128 cl_zero | Some arr \<Rightarrow> arr);
          (cl, r) = f (arr ! offset_of addr);
          m' = m\<lparr>tree := (tree m)(page_of addr \<mapsto> arr[offset_of addr := cl])\<rparr>
      in attempt r m' (\<lambda>_. (m', Ok \<lparr>um_data = scalars cl\<rparr>)))"

definition paged_ops :: "(paged, 'f::field unchecked_memory) memory_ops" where
  "paged_ops = \<lparr>mem_default = paged_default, mem_query = paged_query, mem_update = paged_update\<rparr>"

section \<open>Invariant and abstraction\<close>

definition paged_inv :: "paged \<Rightarrow> bool" where
  "paged_inv m \<longleftrightarrow> (\<forall>arr \<in> ran (tree m). length arr = 128 \<and> list_all wf_cl arr)"

definition paged_line :: "paged \<Rightarrow> u32 \<Rightarrow> cacheline" where
  "paged_line m addr = (case tree m (page_of addr) of None \<Rightarrow> cl_zero | Some arr \<Rightarrow> arr ! offset_of addr)"

definition paged_same_line :: "u32 \<Rightarrow> u32 \<Rightarrow> bool" where
  "paged_same_line a b \<longleftrightarrow> drop_bit 5 a = drop_bit 5 b"

lemma offset_of_less [simp]: "offset_of a < 128"
proof -
  have "unat (drop_bit 5 a AND 0x7f) \<le> unat (0x7f :: u32)"
    by (simp only: word_le_nat_alt [symmetric] word_and_le1)
  then show ?thesis by (simp add: offset_of_def)
qed

lemma paged_same_line_iff: "paged_same_line a b \<longleftrightarrow> page_of a = page_of b \<and> offset_of a = offset_of b"
proof -
  have "x AND 0x7f = take_bit 7 x" for x :: u32 by (simp add: take_bit_eq_mask mask_numeral)
  moreover have "drop_bit 12 x = drop_bit 7 (drop_bit 5 x)" for x :: u32 by simp
  ultimately show ?thesis
    unfolding paged_same_line_def page_of_def offset_of_def unat_inject
    by (simp only: word_split_iff [of "drop_bit 5 a" "drop_bit 5 b" 7])
qed

lemma paged_line_wf: "paged_inv m \<Longrightarrow> wf_cl (paged_line m a)"
  by (auto simp: paged_inv_def paged_line_def ran_def list_all_length split: option.splits)

lemma paged_line_same: "paged_same_line a b \<Longrightarrow> paged_line m a = paged_line m b"
  by (auto simp: paged_same_line_iff paged_line_def split: option.splits)

lemma paged_default_inv [simp]: "paged_inv paged_default" "paged_line paged_default a = cl_zero"
  by (simp_all add: paged_inv_def paged_default_def paged_line_def)

lemma paged_query_line: "paged_query m a = Ok (paged_line m a, \<lparr>um_data = scalars (paged_line m a)\<rparr>)"
  by (simp add: paged_query_def paged_line_def Let_def)

text \<open>The state after running \<open>f\<close> on the line at \<open>a\<close>, whether \<open>f\<close> fails or not.\<close>

lemma paged_update_cases:
  assumes "paged_inv m" "f (paged_line m a) = (cl, r)" "wf_cl cl"
  obtains m' where "paged_update m a f = attempt r m' (\<lambda>_. (m', Ok \<lparr>um_data = scalars cl\<rparr>))"
    "paged_inv m'" "\<forall>b. paged_line m' b = (if paged_same_line a b then cl else paged_line m b)"
proof -
  define arr where "arr = (case tree m (page_of a) of None \<Rightarrow> replicate 128 cl_zero | Some arr \<Rightarrow> arr)"
  define m' where "m' = m\<lparr>tree := (tree m)(page_of a \<mapsto> arr[offset_of a := cl])\<rparr>"
  have arr: "length arr = 128" "list_all wf_cl arr"
    using assms(1) by (auto simp: arr_def paged_inv_def ran_def list_all_length split: option.splits)
  have line: "arr ! offset_of b = paged_line m b" if "page_of b = page_of a" for b
    using that by (auto simp: arr_def paged_line_def split: option.splits)
  have "paged_update m a f = attempt r m' (\<lambda>_. (m', Ok \<lparr>um_data = scalars cl\<rparr>))"
    using assms(2) line [of a] by (simp add: paged_update_def arr_def m'_def Let_def)
  moreover have "paged_inv m'"
    using assms(1,3) arr
    by (auto simp: paged_inv_def m'_def ran_def list_all_length nth_list_update split: if_splits)
  moreover have "paged_line m' b = (if paged_same_line a b then cl else paged_line m b)" for b
    using arr line [of b] by (auto simp: paged_line_def m'_def paged_same_line_iff nth_list_update)
  ultimately show thesis using that by blast
qed

interpretation paged: memory_controller "paged_ops :: (paged, 'f::field unchecked_memory) memory_ops"
  paged_inv paged_line paged_same_line id
proof
  fix m a
  assume "paged_inv m"
  then show "\<exists>p. mem_query paged_ops m a = Ok (paged_line m a, p :: 'f::field unchecked_memory)"
    by (simp add: paged_ops_def paged_query_line)
next
  fix m f a cl'
  assume "paged_inv m" "f (paged_line m a) = (cl', Ok ())" "wf_cl cl'"
  then obtain m' where
    "paged_update m a f = attempt (Ok ()) m' (\<lambda>_. (m', Ok \<lparr>um_data = scalars cl' :: 'f::field \<times> 'f\<rparr>))" "paged_inv m'"
    "\<forall>b. paged_line m' b = (if paged_same_line a b then cl' else paged_line m b)"
    by (rule paged_update_cases) blast
  then show "\<exists>m' p. mem_update paged_ops m a f = (m', Ok (p :: 'f::field unchecked_memory)) \<and> paged_inv m'
      \<and> (\<forall>b. paged_line m' b = (if paged_same_line a b then cl' else paged_line m b))"
    by (intro exI [of _ m']) (simp add: paged_ops_def)
next
  fix m a cl' e and f :: "cacheline \<Rightarrow> cacheline \<times> unit result"
  assume "paged_inv m" "f (paged_line m a) = (cl', Err e)"
  then show "\<exists>m'. mem_update paged_ops m a f = (m', Err e :: 'f::field unchecked_memory result)"
    by (auto simp: paged_ops_def paged_update_def paged_line_def Let_def split: option.splits)
next
  fix a b :: u32
  show "equivp paged_same_line"
    by (auto simp: paged_same_line_def intro!: equivpI reflpI sympI transpI)
  show "id a = id b \<longleftrightarrow> paged_same_line a b \<and> a AND 31 = b AND 31"
    using word_split_iff [of a b 5] by (simp add: paged_same_line_def take_bit_eq_mask mask_numeral)
  assume "drop_bit 4 a = drop_bit 4 b"
  then have "drop_bit 1 (drop_bit 4 a) = drop_bit 1 (drop_bit 4 b)" by (rule arg_cong)
  then show "paged_same_line a b" by (simp add: paged_same_line_def)
qed (auto simp: paged_line_wf paged_line_same)

end
