(* ===== verification/Trie.thy ===== *)
theory Trie
  imports Path
begin

text \<open>
  The Merkle trie of cache lines (\<^verbatim>\<open>vm/src/memory/trie.rs\<close>): nodes with digests, the descent by address
  bits in \<^verbatim>\<open>query_inner\<close> and \<^verbatim>\<open>update_inner\<close>, and the controller built on them.  The recursion argument
  \<open>rem\<close> is the number of levels still to go, \<^verbatim>\<open>CACHE_LOG - level\<close>.  \<^verbatim>\<open>unreachable!\<close>, the \<^verbatim>\<open>panic!\<close> of
  \<^verbatim>\<open>descend\<close> and the indexing of \<^verbatim>\<open>zeros\<close> are \<open>Panic\<close>.
\<close>

section \<open>Nodes\<close>

datatype 'f node = Node (node_digest: 'f) (node_data: "'f node_data")
  and 'f node_data = Branch "'f node option" "'f node option" | Leaf cacheline

record 'f merkle_trie =
  trie_root :: "'f node option"
  trie_zeros :: "'f list"
  trie_params :: "'f params"

definition new_leaf :: "'f::field node" where
  "new_leaf = Node 0 (Leaf cl_zero)"

definition new_node :: "'f::field node" where
  "new_node = Node 0 (Branch None None)"

fun nd_leaf :: "'f node_data \<Rightarrow> cacheline result" where
  "nd_leaf (Leaf val) = Ok val"
| "nd_leaf (Branch l r) = Panic"

fun nd_left :: "'f node_data \<Rightarrow> 'f node option result" where
  "nd_left (Branch l r) = Ok l"
| "nd_left (Leaf val) = Panic"

fun nd_right :: "'f node_data \<Rightarrow> 'f node option result" where
  "nd_right (Branch l r) = Ok r"
| "nd_right (Leaf val) = Panic"

text \<open>\<^verbatim>\<open>descend\<close> hands out a mutable reference to a child, allocating it first if it is missing: here the
  child, and \<open>put_child\<close> for what the caller leaves in its place.\<close>

fun descend :: "'f::field node \<Rightarrow> bool \<Rightarrow> bool \<Rightarrow> 'f node result" where
  "descend (Node d (Branch l r)) left leaf =
     (case if left then l else r of
        None \<Rightarrow> Ok (if leaf then new_leaf else new_node)
      | Some b \<Rightarrow> Ok b)"
| "descend (Node d (Leaf val)) left leaf = Panic"

fun put_child :: "'f node \<Rightarrow> bool \<Rightarrow> 'f node \<Rightarrow> 'f node" where
  "put_child (Node d (Branch l r)) left b =
     Node d (if left then Branch (Some b) r else Branch l (Some b))"
| "put_child (Node d (Leaf val)) left b = Node d (Leaf val)"

fun node_leaf :: "'f node option \<Rightarrow> cacheline result" where
  "node_leaf None = Ok cl_zero"
| "node_leaf (Some n) = nd_leaf (node_data n)"

fun node_child :: "'f node option \<Rightarrow> bool \<Rightarrow> 'f node option result" where
  "node_child None left = Ok None"
| "node_child (Some n) left = (if left then nd_left (node_data n) else nd_right (node_data n))"

definition node_sibling :: "'f node \<Rightarrow> bool \<Rightarrow> 'f node option result" where
  "node_sibling n left = (if left then nd_right (node_data n) else nd_left (node_data n))"

fun set_digest :: "'f node \<Rightarrow> 'f \<Rightarrow> 'f node" where
  "set_digest (Node d x) d' = Node d' x"

section \<open>Digests, queries and updates\<close>

fun trie_digest :: "'f list \<Rightarrow> nat \<Rightarrow> 'f node option \<Rightarrow> 'f result" where
  "trie_digest zeros level None = index zeros level"
| "trie_digest zeros level (Some n) = Ok (node_digest n)"

definition trie_root_digest :: "'f merkle_trie \<Rightarrow> 'f result" where
  "trie_root_digest t = trie_digest (trie_zeros t) 0 (trie_root t)"

fun query_inner ::
  "'f list \<Rightarrow> nat \<Rightarrow> 'f node option \<Rightarrow> (bool \<times> 'f) list \<Rightarrow> u32 \<Rightarrow> (cacheline \<times> (bool \<times> 'f) list) result" where
  "query_inner zeros 0 node auth addr = result_bind (node_leaf node) (\<lambda>cl. Ok (cl, auth))"
| "query_inner zeros (Suc rem) node auth addr =
     (let level = CACHE_LOG - rem; addr = drop_bit 1 addr; is_left = (addr AND 1 = 0) in
      result_bind (node_child node is_left) (\<lambda>child.
      result_bind (query_inner zeros rem child auth addr) (\<lambda>(cl, auth).
      result_bind (node_child node (\<not> is_left)) (\<lambda>sibling.
      result_bind (trie_digest zeros level sibling) (\<lambda>d.
      Ok (cl, auth @ [(is_left, d)]))))))"

definition trie_query :: "'f::field merkle_trie \<Rightarrow> u32 \<Rightarrow> (cacheline \<times> 'f path) result" where
  "trie_query t addr =
     result_bind (query_inner (trie_zeros t) CACHE_LOG (trie_root t) [] (word_reverse addr)) (\<lambda>(cl, auth).
     result_bind (trie_root_digest t) (\<lambda>rt.
     Ok (cl, path_new rt (scalars cl) auth)))"

fun update_inner ::
  "'f::field params \<Rightarrow> 'f list \<Rightarrow> nat \<Rightarrow> 'f node \<Rightarrow> (bool \<times> 'f) list \<Rightarrow> u32
   \<Rightarrow> (cacheline \<Rightarrow> cacheline \<times> unit result) \<Rightarrow> 'f node \<times> (('f \<times> 'f) \<times> (bool \<times> 'f) list) result" where
  "update_inner params zeros 0 node auth addr f =
     attempt (nd_leaf (node_data node)) node (\<lambda>val.
       let (cl, r) = f val; node = Node (node_digest node) (Leaf cl) in
       attempt r node (\<lambda>_.
       attempt (hash_memory params cl) node (\<lambda>d.
       (set_digest node d, Ok (scalars cl, auth)))))"
| "update_inner params zeros (Suc rem) node auth addr f =
     (let level = CACHE_LOG - rem; addr = drop_bit 1 addr; is_left = (addr AND 1 = 0) in
      attempt (descend node is_left (level = CACHE_LOG)) node (\<lambda>b.
        let (b, res) = update_inner params zeros rem b auth addr f; node = put_child node is_left b in
        attempt res node (\<lambda>(cl, auth).
        attempt (node_sibling node is_left) node (\<lambda>sibling.
        attempt (trie_digest zeros level sibling) node (\<lambda>s.
        attempt (result_bind (nd_left (node_data node)) (trie_digest zeros level)) node (\<lambda>lh.
        attempt (result_bind (nd_right (node_data node)) (trie_digest zeros level)) node (\<lambda>rh.
        attempt (compress params lh rh) node (\<lambda>d.
        (set_digest node d, Ok (cl, auth @ [(is_left, s)]))))))))))"

definition trie_update ::
  "'f::field merkle_trie \<Rightarrow> u32 \<Rightarrow> (cacheline \<Rightarrow> cacheline \<times> unit result) \<Rightarrow> 'f merkle_trie \<times> 'f path result" where
  "trie_update t addr f =
     (let b = (case trie_root t of None \<Rightarrow> new_node | Some b \<Rightarrow> b);
          (b, res) = update_inner (trie_params t) (trie_zeros t) CACHE_LOG b [] (word_reverse addr) f;
          t = t\<lparr>trie_root := Some b\<rparr>
      in attempt res t (\<lambda>(cl, auth).
         attempt (trie_root_digest t) t (\<lambda>rt. (t, Ok (path_new rt cl auth)))))"

text \<open>\<^verbatim>\<open>Default\<close>, for given hash parameters; \<^verbatim>\<open>compute_zeros(..).unwrap()\<close> panics on a hash error.\<close>

definition trie_default :: "'f::field params \<Rightarrow> 'f merkle_trie result" where
  "trie_default params = (case compute_zeros params of
     Ok zeros \<Rightarrow> Ok \<lparr>trie_root = None, trie_zeros = zeros, trie_params = params\<rparr>
   | _ \<Rightarrow> Panic)"

definition trie_ops :: "'f::field params \<Rightarrow> ('f merkle_trie, 'f path) memory_ops" where
  "trie_ops params = \<lparr>mem_default = the_ok (trie_default params), mem_query = trie_query, mem_update = trie_update\<rparr>"

end
