(* ===== verification/Trie_Correct.thy ===== *)
theory Trie_Correct
  imports Trie
begin

text \<open>
  Correctness of the Merkle trie: the invariant that every allocated node carries the hash of its
  children, the abstraction to one cache line per path, and the interpretation of the memory-controller
  contract.  The trie selects a line by the address bits 30 down to 4, so it aliases addresses that
  differ in bit 31 only.  The hash functions are assumed total where a property needs it
  (\<open>hash_total\<close>, part of the invariant).
\<close>

section \<open>Total hash functions\<close>

definition hash_total :: "'f params \<Rightarrow> bool" where
  "hash_total P \<longleftrightarrow> (\<forall>l. \<exists>d. crh_evaluate P l = Inr d) \<and> (\<forall>a b. \<exists>d. tto_compress P a b = Inr d)"

text \<open>The digest of a leaf, of a pair, and of a default tree of height \<open>n\<close>.\<close>

definition leaf_digest :: "'f::field params \<Rightarrow> cacheline \<Rightarrow> 'f" where
  "leaf_digest P cl = the_ok (hash_memory P cl)"

definition pair_digest :: "'f params \<Rightarrow> 'f \<Rightarrow> 'f \<Rightarrow> 'f" where
  "pair_digest P a b = the_ok (compress P a b)"

primrec zero_digest :: "'f::field params \<Rightarrow> nat \<Rightarrow> 'f" where
  "zero_digest P 0 = leaf_digest P cl_zero"
| "zero_digest P (Suc n) = pair_digest P (zero_digest P n) (zero_digest P n)"

lemma hash_memory_total: "hash_total P \<Longrightarrow> hash_memory P cl = Ok (leaf_digest P cl)"
  unfolding hash_total_def leaf_digest_def hash_memory_def hash_leaf_def
  by (metis hash_result.simps(1) result.sel)

lemma compress_total: "hash_total P \<Longrightarrow> compress P a b = Ok (pair_digest P a b)"
  unfolding hash_total_def pair_digest_def compress_def by (metis hash_result.simps(1) result.sel)

lemma compute_zeros_f_total:
  "hash_total P \<Longrightarrow> compute_zeros_f P v n = Ok (v @ map (zero_digest P) [0..<n], zero_digest P n)"
  by (induction n) (simp_all add: hash_memory_total compress_total)

lemma compute_zeros_total:
  "hash_total P \<Longrightarrow> compute_zeros P = Ok (rev (map (zero_digest P) [0..<Suc CACHE_LOG]))"
  by (simp add: compute_zeros_def compute_zeros_f_total)

definition zeros_of :: "'f::field params \<Rightarrow> 'f list" where
  "zeros_of P = rev (map (zero_digest P) [0..<Suc CACHE_LOG])"

lemma zeros_of_nth: "n \<le> CACHE_LOG \<Longrightarrow> index (zeros_of P) (CACHE_LOG - n) = Ok (zero_digest P n)"
  by (simp add: zeros_of_def index_def rev_nth del: upt_Suc)

section \<open>Invariant and abstraction\<close>

text \<open>The digest of an optional subtree of height \<open>n\<close>.\<close>

fun opt_digest :: "'f::field params \<Rightarrow> nat \<Rightarrow> 'f node option \<Rightarrow> 'f" where
  "opt_digest P n None = zero_digest P n"
| "opt_digest P n (Some t) = node_digest t"

primrec wf_opt :: "'f::field params \<Rightarrow> nat \<Rightarrow> 'f node option \<Rightarrow> bool" where
  "wf_opt P 0 t = (case t of None \<Rightarrow> True
     | Some (Node d (Leaf cl)) \<Rightarrow> wf_cl cl \<and> d = leaf_digest P cl
     | Some (Node d (Branch l r)) \<Rightarrow> False)"
| "wf_opt P (Suc n) t = (case t of None \<Rightarrow> True
     | Some (Node d (Leaf cl)) \<Rightarrow> False
     | Some (Node d (Branch l r)) \<Rightarrow>
         wf_opt P n l \<and> wf_opt P n r \<and> d = pair_digest P (opt_digest P n l) (opt_digest P n r))"

text \<open>A node whose children are in order but whose own digest is still to be computed.\<close>

fun wf_data :: "'f::field params \<Rightarrow> nat \<Rightarrow> 'f node_data \<Rightarrow> bool" where
  "wf_data P 0 (Leaf cl) = wf_cl cl"
| "wf_data P 0 (Branch l r) = False"
| "wf_data P (Suc n) (Leaf cl) = False"
| "wf_data P (Suc n) (Branch l r) \<longleftrightarrow> wf_opt P n l \<and> wf_opt P n r"

text \<open>The directions (\<open>True\<close> is left) the descent takes from a bit-reversed address, and the line a
  path of directions leads to.\<close>

primrec dirs :: "nat \<Rightarrow> u32 \<Rightarrow> bool list" where
  "dirs 0 addr = []"
| "dirs (Suc n) addr = (drop_bit 1 addr AND 1 = 0) # dirs n (drop_bit 1 addr)"

fun lookup :: "'f node option \<Rightarrow> bool list \<Rightarrow> cacheline" where
  "lookup (Some (Node d (Leaf cl))) ds = cl"
| "lookup (Some (Node d (Branch l r))) (b # ds) = lookup (if b then l else r) ds"
| "lookup _ ds = cl_zero"

lemma wf_data_node: "wf_opt P n (Some t) \<Longrightarrow> wf_data P n (node_data t)"
  by (cases t; cases n) (auto split: node_data.splits)

lemma wf_data_new [simp]: "wf_data P 0 (node_data new_leaf)" "wf_data P (Suc n) (node_data new_node)"
  by (simp_all add: new_leaf_def new_node_def split: option.splits, cases n, simp_all)

lemma wf_opt_None [simp]: "wf_opt P n None"
  by (cases n) simp_all

lemma lookup_None [simp]: "lookup None ds = cl_zero"
  by (cases ds) simp_all

lemma lookup_wf: "wf_opt P n t \<Longrightarrow> wf_cl (lookup t ds)"
proof (induction t ds arbitrary: n rule: lookup.induct)
  case (2 d l r b ds)
  then obtain k where "n = Suc k" by (cases n) auto
  with 2 show ?case by auto
qed (auto split: nat.splits, case_tac n, auto)

lemma length_dirs [simp]: "length (dirs n a) = n"
  by (induction n arbitrary: a) simp_all

lemma dirs_bits: "dirs n a = map (\<lambda>i. \<not> bit a (Suc i)) [0..<n]"
proof (induction n arbitrary: a)
  case (Suc n)
  have "drop_bit 1 a AND 1 = 0 \<longleftrightarrow> \<not> bit a 1"
    by (simp add: low1_iff bit_simps)
  moreover have "map (\<lambda>i. \<not> bit (drop_bit 1 a) (Suc i)) [0..<n] = map (\<lambda>i. \<not> bit a (Suc i)) [1..<Suc n]"
    by (simp only: map_Suc_upt [symmetric] list.map_comp One_nat_def) (simp add: comp_def bit_simps)
  ultimately show ?case by (simp add: Suc upt_conv_Cons del: upt_Suc)
qed simp

section \<open>Queries\<close>

lemma path_fold_append:
  "path_fold P h (xs @ ys) = result_bind (path_fold P h xs) (\<lambda>h. path_fold P h ys)"
proof (induction P h xs rule: path_fold.induct)
  case (2 P h b s xs)
  then show ?case by (cases "if b then compress P h s else compress P s h") auto
qed simp

lemma trie_digest_opt:
  "n \<le> CACHE_LOG \<Longrightarrow> trie_digest (zeros_of P) (CACHE_LOG - n) t = Ok (opt_digest P n t)"
  by (cases t) (simp_all add: zeros_of_nth)

lemma node_child_wf:
  assumes "wf_opt P (Suc n) t"
  obtains c s where "\<And>b. node_child t b = Ok (if b then c else s)" "wf_opt P n c" "wf_opt P n s"
    "opt_digest P (Suc n) t = pair_digest P (opt_digest P n c) (opt_digest P n s)"
    "\<And>b ds. lookup t (b # ds) = lookup (if b then c else s) ds"
proof (cases t)
  case None
  then show ?thesis using that [of None None] by simp
next
  case (Some x)
  then obtain d l r where "t = Some (Node d (Branch l r))" using assms
    by (auto split: node.splits node_data.splits)
  then show ?thesis using that [of l r] assms by simp
qed

lemma query_inner_ok:
  assumes "hash_total P" "wf_opt P n t" "n \<le> CACHE_LOG"
  shows "\<exists>sibs. query_inner (zeros_of P) n t auth a = Ok (lookup t (dirs n a), auth @ sibs)
    \<and> map fst sibs = rev (dirs n a)
    \<and> path_fold P (leaf_digest P (lookup t (dirs n a))) sibs = Ok (opt_digest P n t)"
  using assms(2,3)
proof (induction n arbitrary: t a)
  case 0
  then show ?case
    by (cases t) (auto split: node.splits node_data.splits)
next
  case (Suc n)
  from Suc.prems(1) obtain c s where t: "\<And>b. node_child t b = Ok (if b then c else s)" "wf_opt P n c" "wf_opt P n s"
    "opt_digest P (Suc n) t = pair_digest P (opt_digest P n c) (opt_digest P n s)"
    "\<And>b ds. lookup t (b # ds) = lookup (if b then c else s) ds"
    by (rule node_child_wf) blast
  define b where "b \<longleftrightarrow> drop_bit 1 a AND 1 = 0"
  define k where "k = (if b then c else s)"
  have "wf_opt P n k" "n \<le> CACHE_LOG" using t(2,3) Suc.prems(2) by (simp_all add: k_def)
  then obtain sibs where IH:
    "query_inner (zeros_of P) n k auth (drop_bit 1 a) = Ok (lookup k (dirs n (drop_bit 1 a)), auth @ sibs)"
    "map fst sibs = rev (dirs n (drop_bit 1 a))"
    "path_fold P (leaf_digest P (lookup k (dirs n (drop_bit 1 a)))) sibs = Ok (opt_digest P n k)"
    using Suc.IH by blast
  let ?sibs = "sibs @ [(b, opt_digest P n (if b then s else c))]"
  have d: "dirs (Suc n) a = b # dirs n (drop_bit 1 a)" by (simp add: b_def)
  have "query_inner (zeros_of P) (Suc n) t auth a = Ok (lookup t (dirs (Suc n) a), auth @ ?sibs)"
    unfolding query_inner.simps Let_def b_def [symmetric] d t(5) t(1) k_def [symmetric]
    using \<open>n \<le> CACHE_LOG\<close> by (simp add: k_def [symmetric] IH(1) [simplified] trie_digest_opt)
  moreover have "path_fold P (leaf_digest P (lookup t (dirs (Suc n) a))) ?sibs = Ok (opt_digest P (Suc n) t)"
    unfolding d t(4) t(5) k_def [symmetric] path_fold_append IH(3)
    by (simp add: k_def compress_total [OF assms(1)])
  ultimately show ?case using IH(2) unfolding d by (intro exI [of _ ?sibs]) simp
qed

section \<open>Updates\<close>

lemma lookup_new [simp]: "lookup (Some new_leaf) ds = cl_zero" "lookup (Some new_node) ds = cl_zero"
  by (simp add: new_leaf_def, cases ds, simp_all add: new_node_def)

lemma descend_wf:
  assumes "wf_opt P n (if b then l else r)"
  obtains ch where "descend (Node d (Branch l r)) b (n = 0) = Ok ch" "wf_data P n (node_data ch)"
    "\<And>ds. lookup (Some ch) ds = lookup (if b then l else r) ds"
proof (cases "if b then l else r")
  case None
  then show ?thesis using that [of "if n = 0 then new_leaf else new_node"]
    by (cases n) simp_all
next
  case (Some ch)
  then show ?thesis using that [of ch] wf_data_node [of P n ch] assms by simp
qed

lemma wf_data_Suc:
  assumes "wf_data P (Suc n) (node_data node)"
  obtains d l r where "node = Node d (Branch l r)" "wf_opt P n l" "wf_opt P n r"
  using assms that by (cases node; cases "node_data node") auto

lemma CACHE_LOG_eq: "CACHE_LOG = 27"
  by (simp add: CACHE_LOG_def CACHE_BITS_def)

lemma level_iff: "n \<le> CACHE_LOG \<Longrightarrow> CACHE_LOG - n = CACHE_LOG \<longleftrightarrow> n = 0"
  by (auto simp: CACHE_LOG_eq)

lemma wf_data_root:
  "wf_opt P CACHE_LOG t \<Longrightarrow> wf_data P CACHE_LOG (node_data (case t of None \<Rightarrow> new_node | Some b \<Rightarrow> b))"
  using wf_data_new(2) [of P 26] by (auto simp: wf_data_node CACHE_LOG_eq split: option.splits)

lemma update_inner_ok:
  assumes "hash_total P" "wf_data P n (node_data node)" "n \<le> CACHE_LOG"
    and "f (lookup (Some node) (dirs n a)) = (cl, Ok ())" "wf_cl cl"
  shows "\<exists>node' sibs. update_inner P (zeros_of P) n node auth a f = (node', Ok (scalars cl, auth @ sibs))
    \<and> wf_opt P n (Some node')
    \<and> (\<forall>ds. length ds = n \<longrightarrow>
         lookup (Some node') ds = (if ds = dirs n a then cl else lookup (Some node) ds))
    \<and> map fst sibs = rev (dirs n a)
    \<and> path_fold P (leaf_digest P cl) sibs = Ok (node_digest node')"
  using assms(2-4)
proof (induction n arbitrary: node a)
  case 0
  then obtain d val where "node = Node d (Leaf val)"
    by (cases node; cases "node_data node") auto
  with 0 assms(1,5) show ?case by (simp add: hash_memory_total)
next
  case (Suc n)
  from Suc.prems(1) obtain d l r where node: "node = Node d (Branch l r)" "wf_opt P n l" "wf_opt P n r"
    by (rule wf_data_Suc)
  define a' where "a' = drop_bit 1 a"
  define b where "b \<longleftrightarrow> a' AND 1 = 0"
  have n: "n \<le> CACHE_LOG" using Suc.prems(2) by simp
  have "wf_opt P n (if b then l else r)" using node by simp
  then obtain ch where ch: "descend (Node d (Branch l r)) b (n = 0) = Ok ch" "wf_data P n (node_data ch)"
    "\<And>ds. lookup (Some ch) ds = lookup (if b then l else r) ds" by (rule descend_wf [where d = d]) blast
  have dirs: "dirs (Suc n) a = b # dirs n a'" by (simp add: b_def a'_def)
  have "f (lookup (Some ch) (dirs n a')) = (cl, Ok ())"
    using Suc.prems(3) unfolding dirs node(1) ch(3) by simp
  then obtain ch' sibs where IH:
    "update_inner P (zeros_of P) n ch auth a' f = (ch', Ok (scalars cl, auth @ sibs))"
    "wf_opt P n (Some ch')"
    "\<And>ds. length ds = n \<Longrightarrow> lookup (Some ch') ds = (if ds = dirs n a' then cl else lookup (Some ch) ds)"
    "map fst sibs = rev (dirs n a')" "path_fold P (leaf_digest P cl) sibs = Ok (node_digest ch')"
    using Suc.IH [OF ch(2) n] by blast
  let ?l = "if b then Some ch' else l" and ?r = "if b then r else Some ch'"
  let ?node' = "Node (pair_digest P (opt_digest P n ?l) (opt_digest P n ?r)) (Branch ?l ?r)"
  let ?sibs = "sibs @ [(b, opt_digest P n (if b then r else l))]"
  have "update_inner P (zeros_of P) (Suc n) node auth a f = (?node', Ok (scalars cl, auth @ ?sibs))"
    unfolding update_inner.simps Let_def a'_def [symmetric] b_def [symmetric] node(1) level_iff [OF n] ch(1)
    using n by (simp add: IH(1) node_sibling_def trie_digest_opt compress_total [OF assms(1)])
  moreover have "wf_opt P (Suc n) (Some ?node')" using node(2,3) IH(2) by simp
  moreover have "lookup (Some ?node') ds = (if ds = dirs (Suc n) a then cl else lookup (Some node) ds)"
    if "length ds = Suc n" for ds
    using that IH(3) [of "tl ds"] ch(3) unfolding dirs node(1) by (cases ds) auto
  moreover have "path_fold P (leaf_digest P cl) ?sibs = Ok (node_digest ?node')"
    by (simp add: path_fold_append IH(5) compress_total [OF assms(1)])
  ultimately show ?case using IH(4) unfolding dirs by (intro exI [of _ ?node'] exI [of _ ?sibs]) simp
qed

text \<open>A failing closure fails the update with its error.\<close>

lemma update_inner_err:
  assumes "wf_data P n (node_data node)" "n \<le> CACHE_LOG" "f (lookup (Some node) (dirs n a)) = (cl, Err e)"
  shows "\<exists>node'. update_inner P (zeros_of P) n node auth a f = (node', Err e)"
  using assms
proof (induction n arbitrary: node a)
  case 0
  then obtain d val where "node = Node d (Leaf val)"
    by (cases node; cases "node_data node") auto
  with 0 show ?case by simp
next
  case (Suc n)
  from Suc.prems(1) obtain d l r where node: "node = Node d (Branch l r)" "wf_opt P n l" "wf_opt P n r"
    by (rule wf_data_Suc)
  define a' where "a' = drop_bit 1 a"
  define b where "b \<longleftrightarrow> a' AND 1 = 0"
  have n: "n \<le> CACHE_LOG" using Suc.prems(2) by simp
  have "wf_opt P n (if b then l else r)" using node by simp
  then obtain ch where ch: "descend (Node d (Branch l r)) b (n = 0) = Ok ch" "wf_data P n (node_data ch)"
    "\<And>ds. lookup (Some ch) ds = lookup (if b then l else r) ds" by (rule descend_wf [where d = d]) blast
  have dirs: "dirs (Suc n) a = b # dirs n a'" by (simp add: b_def a'_def)
  have "f (lookup (Some ch) (dirs n a')) = (cl, Err e)"
    using Suc.prems(3) unfolding dirs node(1) ch(3) by simp
  then obtain ch' where "update_inner P (zeros_of P) n ch auth a' f = (ch', Err e)"
    using Suc.IH [OF ch(2) n] by blast
  then show ?case
    unfolding update_inner.simps Let_def a'_def [symmetric] b_def [symmetric] node(1) level_iff [OF n] ch(1)
    by simp
qed

section \<open>The controller\<close>

definition trie_inv :: "'f::field params \<Rightarrow> 'f merkle_trie \<Rightarrow> bool" where
  "trie_inv P t \<longleftrightarrow> hash_total P \<and> trie_params t = P \<and> trie_zeros t = zeros_of P
     \<and> wf_opt P CACHE_LOG (trie_root t)"

definition trie_line :: "'f merkle_trie \<Rightarrow> u32 \<Rightarrow> cacheline" where
  "trie_line t addr = lookup (trie_root t) (dirs CACHE_LOG (word_reverse addr))"

definition trie_same_line :: "u32 \<Rightarrow> u32 \<Rightarrow> bool" where
  "trie_same_line a b \<longleftrightarrow> drop_bit 4 (take_bit 31 a) = drop_bit 4 (take_bit 31 b)"

definition trie_canon :: "u32 \<Rightarrow> u32" where
  "trie_canon a = take_bit 31 a"

lemma dirs_reverse: "dirs CACHE_LOG (word_reverse a) = map (\<lambda>i. \<not> bit a (30 - i)) [0..<27]" for a :: u32
  unfolding dirs_bits CACHE_LOG_eq by (rule map_cong) (auto simp: bit_word_reverse_iff)

lemma trie_same_line_bits: "trie_same_line a b \<longleftrightarrow> (\<forall>i. 4 \<le> i \<and> i < 31 \<longrightarrow> bit a i = bit b i)"
proof
  assume *: "trie_same_line a b"
  show "\<forall>i. 4 \<le> i \<and> i < 31 \<longrightarrow> bit a i = bit b i"
  proof (intro allI impI)
    fix i :: nat assume "4 \<le> i \<and> i < 31"
    moreover have "bit (drop_bit 4 (take_bit 31 a)) (i - 4) = bit (drop_bit 4 (take_bit 31 b)) (i - 4)"
      using * by (simp only: trie_same_line_def)
    ultimately show "bit a i = bit b i" by (simp add: bit_simps)
  qed
qed (auto simp: trie_same_line_def bit_simps intro!: bit_word_eqI)

lemma trie_same_line_dirs:
  "trie_same_line a b \<longleftrightarrow> dirs CACHE_LOG (word_reverse b) = dirs CACHE_LOG (word_reverse a)"
proof -
  have "(\<forall>i. 4 \<le> i \<and> i < 31 \<longrightarrow> bit a i = bit b i) \<longleftrightarrow> (\<forall>j<27. bit a (30 - j) = bit b (30 - j))"
  proof (rule iffI)
    assume *: "\<forall>j<27. bit a (30 - j) = bit b (30 - j)"
    show "\<forall>i. 4 \<le> i \<and> i < 31 \<longrightarrow> bit a i = bit b i"
    proof (intro allI impI)
      fix i :: nat assume "4 \<le> i \<and> i < 31"
      then have "30 - i < 27" "30 - (30 - i) = i" by auto
      then show "bit a i = bit b i" using * [rule_format, of "30 - i"] by simp
    qed
  next
    assume *: "\<forall>i. 4 \<le> i \<and> i < 31 \<longrightarrow> bit a i = bit b i"
    show "\<forall>j<27. bit a (30 - j) = bit b (30 - j)"
    proof (intro allI impI)
      fix j :: nat assume "j < 27"
      then have "4 \<le> 30 - j \<and> 30 - j < 31" by arith
      then show "bit a (30 - j) = bit b (30 - j)" using * by blast
    qed
  qed
  then show ?thesis unfolding trie_same_line_bits dirs_reverse by (auto simp: list_eq_iff_nth_eq)
qed

lemma trie_default_Ok:
  "hash_total P \<Longrightarrow> trie_default P = Ok \<lparr>trie_root = None, trie_zeros = zeros_of P, trie_params = P\<rparr>"
  by (simp add: trie_default_def compute_zeros_total zeros_of_def)

lemma trie_default_inv:
  "hash_total P \<Longrightarrow> trie_inv P (mem_default (trie_ops P))"
  "hash_total P \<Longrightarrow> trie_line (mem_default (trie_ops P)) a = cl_zero"
  by (simp_all add: trie_ops_def trie_default_Ok trie_inv_def trie_line_def)

lemma trie_root_digest_inv: "trie_inv P t \<Longrightarrow> trie_root_digest t = Ok (opt_digest P CACHE_LOG (trie_root t))"
  using trie_digest_opt [of CACHE_LOG P "trie_root t"] by (simp add: trie_root_digest_def trie_inv_def)

text \<open>A path proves a line when its leaf is the line's scalars, it commits to the given root, its
  directions are those of the address and it verifies.\<close>

definition path_proves :: "'f::field params \<Rightarrow> 'f \<Rightarrow> u32 \<Rightarrow> cacheline \<Rightarrow> 'f path \<Rightarrow> bool" where
  "path_proves P rt a cl p \<longleftrightarrow> path_root p = rt \<and> path_leaf p = scalars cl
     \<and> map fst (path_auth p) = rev (dirs CACHE_LOG (word_reverse a)) \<and> path_verify P p = Ok True"

lemma path_provesI:
  assumes "hash_total P" "map fst sibs = rev (dirs CACHE_LOG (word_reverse a))"
    "path_fold P (leaf_digest P cl) sibs = Ok rt"
  shows "path_proves P rt a cl (path_new rt (scalars cl) sibs)"
  using assms hash_memory_total [of P cl]
  by (simp add: path_proves_def path_new_def path_verify_def hash_memory_def)

lemma trie_query_ok:
  assumes "trie_inv P t"
  shows "\<exists>p. trie_query t a = Ok (trie_line t a, p)
    \<and> path_proves P (opt_digest P CACHE_LOG (trie_root t)) a (trie_line t a) p"
proof -
  have "hash_total P" "wf_opt P CACHE_LOG (trie_root t)" using assms by (simp_all add: trie_inv_def)
  then obtain sibs where
    "query_inner (zeros_of P) CACHE_LOG (trie_root t) [] (word_reverse a) = Ok (trie_line t a, [] @ sibs)"
    "map fst sibs = rev (dirs CACHE_LOG (word_reverse a))"
    "path_fold P (leaf_digest P (trie_line t a)) sibs = Ok (opt_digest P CACHE_LOG (trie_root t))"
    using query_inner_ok [of P CACHE_LOG "trie_root t" "[]" "word_reverse a"] unfolding trie_line_def by blast
  then show ?thesis using assms path_provesI [OF \<open>hash_total P\<close>]
    by (simp add: trie_query_def trie_root_digest_inv) (simp add: trie_inv_def)
qed

lemma trie_update_ok:
  assumes "trie_inv P t" "f (trie_line t a) = (cl, Ok ())" "wf_cl cl"
  shows "\<exists>t' p. trie_update t a f = (t', Ok p) \<and> trie_inv P t'
    \<and> (\<forall>b. trie_line t' b = (if trie_same_line a b then cl else trie_line t b))
    \<and> path_proves P (opt_digest P CACHE_LOG (trie_root t')) a cl p"
proof -
  have P: "hash_total P" "trie_params t = P" "trie_zeros t = zeros_of P" "wf_opt P CACHE_LOG (trie_root t)"
    using assms(1) by (simp_all add: trie_inv_def)
  define node where "node = (case trie_root t of None \<Rightarrow> new_node | Some b \<Rightarrow> b)"
  have node: "wf_data P CACHE_LOG (node_data node)"
    using P(4) unfolding node_def by (rule wf_data_root)
  have look: "lookup (Some node) ds = lookup (trie_root t) ds" for ds
    by (simp add: node_def split: option.splits)
  obtain node' sibs where u:
    "update_inner P (zeros_of P) CACHE_LOG node [] (word_reverse a) f = (node', Ok (scalars cl, [] @ sibs))"
    "wf_opt P CACHE_LOG (Some node')"
    "\<And>ds. length ds = CACHE_LOG \<Longrightarrow> lookup (Some node') ds =
       (if ds = dirs CACHE_LOG (word_reverse a) then cl else lookup (Some node) ds)"
    "map fst sibs = rev (dirs CACHE_LOG (word_reverse a))"
    "path_fold P (leaf_digest P cl) sibs = Ok (node_digest node')"
    using update_inner_ok [OF P(1) node, of f "word_reverse a" cl "[]"] assms(2,3)
    unfolding trie_line_def look by blast
  let ?t = "t\<lparr>trie_root := Some node'\<rparr>"
  have inv: "trie_inv P ?t" using P u(2) by (simp add: trie_inv_def)
  have "trie_update t a f = (?t, Ok (path_new (node_digest node') (scalars cl) sibs))"
    using u(1) trie_root_digest_inv [OF inv] by (simp add: trie_update_def node_def [symmetric] P)
  moreover have "\<forall>b. trie_line ?t b = (if trie_same_line a b then cl else trie_line t b)"
    using u(3) look by (simp add: trie_line_def trie_same_line_dirs)
  ultimately show ?thesis using inv path_provesI [OF P(1) u(4,5)] by simp
qed

lemma trie_update_err:
  assumes "trie_inv P t" "f (trie_line t a) = (cl, Err e)"
  shows "\<exists>t'. trie_update t a f = (t', Err e)"
proof -
  have P: "trie_params t = P" "trie_zeros t = zeros_of P" "wf_opt P CACHE_LOG (trie_root t)"
    using assms(1) by (simp_all add: trie_inv_def)
  define node where "node = (case trie_root t of None \<Rightarrow> new_node | Some b \<Rightarrow> b)"
  have node: "wf_data P CACHE_LOG (node_data node)"
    using P(3) unfolding node_def by (rule wf_data_root)
  have look: "lookup (Some node) ds = lookup (trie_root t) ds" for ds
    by (simp add: node_def split: option.splits)
  obtain node' where
    "update_inner P (zeros_of P) CACHE_LOG node [] (word_reverse a) f = (node', Err e)"
    using update_inner_err [OF node, of f "word_reverse a" cl e "[]"] assms(2)
    unfolding trie_line_def look by blast
  then show ?thesis by (simp add: trie_update_def node_def [symmetric] P)
qed

section \<open>The contract\<close>

interpretation trie: memory_controller "trie_ops P" "trie_inv P" trie_line trie_same_line trie_canon
  for P :: "'f::field params"
proof
  fix t a
  assume "trie_inv P t"
  then show "\<exists>p. mem_query (trie_ops P) t a = Ok (trie_line t a, p)"
    using trie_query_ok [of P t a] by (auto simp: trie_ops_def)
  then show "wf_cl (trie_line t a)"
    using \<open>trie_inv P t\<close> lookup_wf by (auto simp: trie_inv_def trie_line_def)
next
  fix t f a cl'
  assume "trie_inv P t" "f (trie_line t a) = (cl', Ok ())" "wf_cl cl'"
  then show "\<exists>t' p. mem_update (trie_ops P) t a f = (t', Ok p) \<and> trie_inv P t'
      \<and> (\<forall>b. trie_line t' b = (if trie_same_line a b then cl' else trie_line t b))"
    using trie_update_ok [of P t f a cl'] by (auto simp: trie_ops_def)
next
  fix t a cl' e and f :: "cacheline \<Rightarrow> cacheline \<times> unit result"
  assume "trie_inv P t" "f (trie_line t a) = (cl', Err e)"
  then show "\<exists>t'. mem_update (trie_ops P) t a f = (t', Err e)"
    using trie_update_err [of P t f a cl' e] by (simp add: trie_ops_def)
next
  fix t :: "'f merkle_trie" and a b :: u32
  show "equivp trie_same_line"
    by (auto simp: trie_same_line_def intro!: equivpI reflpI sympI transpI)
  show "trie_same_line a b \<Longrightarrow> trie_line t a = trie_line t b"
    by (simp add: trie_same_line_dirs trie_line_def)
  have low: "x AND 31 = take_bit 5 x" for x :: u32 by (simp add: take_bit_eq_mask mask_numeral)
  show "trie_canon a = trie_canon b \<longleftrightarrow> trie_same_line a b \<and> a AND 31 = b AND 31"
    unfolding trie_canon_def low trie_same_line_bits
  proof (safe)
    fix i :: nat
    assume *: "take_bit 31 a = take_bit 31 b"
    have i: "bit (take_bit 31 a) i = bit (take_bit 31 b) i" for i by (simp only: *)
    have "bit a j = bit b j" if "j < 31" for j using i [of j] that by (simp add: bit_simps)
    then show "take_bit 5 a = take_bit 5 b" by (intro bit_word_eqI) (auto simp: bit_simps)
    show "bit a i \<Longrightarrow> 4 \<le> i \<Longrightarrow> i < 31 \<Longrightarrow> bit b i" "bit b i \<Longrightarrow> 4 \<le> i \<Longrightarrow> i < 31 \<Longrightarrow> bit a i"
      using i [of i] by (auto simp: bit_simps)
  next
    assume h: "\<forall>i. 4 \<le> i \<and> i < 31 \<longrightarrow> bit a i = bit b i" and l: "take_bit 5 a = take_bit 5 b"
    have "bit (take_bit 5 a) i = bit (take_bit 5 b) i" for i by (simp only: l)
    then have "bit a i = bit b i" if "i < 31" for i
      using h that by (cases "i < 5") (auto simp: bit_simps)
    then show "take_bit 31 a = take_bit 31 b"
      by (intro bit_word_eqI) (auto simp: bit_simps)
  qed
  assume *: "drop_bit 4 a = drop_bit 4 b"
  have "bit a i = bit b i" if "4 \<le> i" for i
  proof -
    have "bit (drop_bit 4 a) (i - 4) = bit (drop_bit 4 b) (i - 4)" by (simp only: *)
    with that show ?thesis by (simp add: bit_simps)
  qed
  then show "trie_same_line a b" by (simp add: trie_same_line_bits)
qed

section \<open>Properties\<close>

lemma aligned_low:
  assumes "take_bit 31 b = take_bit 31 a" "w dvd 16"
  shows "aligned w b \<longleftrightarrow> aligned w a"
proof -
  have "w dvd 2 ^ 31" using assms(2) dvd_trans [of w 16 "2 ^ 31"] by simp
  moreover have "unat (take_bit 31 b) = unat (take_bit 31 a)" by (simp only: assms(1))
  then have "unat b mod 2 ^ 31 = unat a mod 2 ^ 31"
    unfolding unsigned_take_bit_eq by (simp add: take_bit_eq_mod)
  moreover have "n mod 2 ^ 31 mod w = n mod w" if "w dvd 2 ^ 31" for n using that by (rule mod_mod_cancel)
  ultimately show ?thesis unfolding aligned_def by metis
qed

lemma sample_total: "hash_total sample_params"
  by (simp add: hash_total_def sample_params_def)

text \<open>C6: a query on a trie that satisfies the invariant returns the line stored under the address,
  with a path that verifies against the trie's root digest, carries that line and follows the
  directions of the address.\<close>

theorem query_proof:
  assumes "trie_inv P t"
  shows "\<exists>p rt. trie_query t a = Ok (trie_line t a, p) \<and> trie_root_digest t = Ok rt
    \<and> path_proves P rt a (trie_line t a) p"
  using trie_query_ok [OF assms] trie_root_digest_inv [OF assms] by blast

theorem query_proof_witness:
  "\<exists>p rt. trie_query (mem_default (trie_ops sample_params)) 40 = Ok (cl_zero, p)
    \<and> trie_root_digest (mem_default (trie_ops sample_params)) = Ok rt
    \<and> path_proves sample_params rt 40 cl_zero p"
  using query_proof [OF trie_default_inv(1) [OF sample_total], of 40]
  by (simp only: trie_default_inv(2) [OF sample_total])

text \<open>C7: a successful update keeps the Merkle invariant, replaces exactly the line the address selects
  and returns a path that verifies the new line against the new root digest.\<close>

theorem update_proof:
  assumes "trie_inv P t" "f (trie_line t a) = (cl, Ok ())" "wf_cl cl"
  shows "\<exists>t' p rt. trie_update t a f = (t', Ok p) \<and> trie_inv P t'
    \<and> (\<forall>b. trie_line t' b = (if trie_same_line a b then cl else trie_line t b))
    \<and> trie_root_digest t' = Ok rt \<and> path_proves P rt a cl p"
  using trie_update_ok [of P t f a cl] assms trie_root_digest_inv [of P] by blast

theorem update_proof_witness:
  "\<exists>t' p rt. trie_update (mem_default (trie_ops sample_params)) 40 (\<lambda>cl. cl_sb cl 40 7) = (t', Ok p)
    \<and> trie_inv sample_params t' \<and> trie_root_digest t' = Ok rt
    \<and> path_proves sample_params rt 40 (fst (cl_sb cl_zero 40 7)) p"
proof -
  have sb: "cl_sb cl_zero 40 7 = (store_line cl_zero 1 40 7, Ok ())"
    using cl_store_spec [of cl_zero SB 40 7] by (simp add: aligned_def)
  then show ?thesis
    using update_proof [OF trie_default_inv(1) [OF sample_total],
        of "\<lambda>cl. cl_sb cl 40 7" 40 "store_line cl_zero 1 40 7"]
    by (simp add: trie_default_inv(2) [OF sample_total]) blast
qed

text \<open>C8: the Merkle trie distinguishes addresses by their lower 31 bits only. A value stored at an
  aligned address is read back at that address, and also at the address that differs from it in the top
  bit.\<close>

theorem trie_aliases:
  assumes "trie_inv P t" "aligned (sop_width sop) a" "b = a \<or> b = a XOR 0x80000000"
  shows "\<exists>t' p q. mem_store (trie_ops P) t sop a v = (t', Ok p) \<and> trie_inv P t'
    \<and> mem_load (trie_ops P) t' (unsigned_load sop) b = Ok (take_bit (8 * sop_width sop) v, q)"
proof -
  have low: "take_bit 31 (a XOR 0x80000000) = take_bit 31 a" for a :: u32
    by (simp add: take_bit_xor)
  have b: "take_bit 31 b = take_bit 31 a" using assms(3) low by auto
  have "aligned (sop_width sop) b"
    using assms(2) aligned_low [OF b access_width(2)] by simp
  then show ?thesis
    using trie.store_load [OF assms(1,2)] b by (simp add: trie_canon_def)
qed

theorem trie_aliases_witness:
  "\<exists>t' p q. mem_store (trie_ops sample_params) (mem_default (trie_ops sample_params)) SW 0x1000 77 = (t', Ok p)
    \<and> mem_load (trie_ops sample_params) t' LW 0x80001000 = Ok (77, q)"
  using trie_aliases [where P = sample_params and t = "mem_default (trie_ops sample_params)" and sop = SW
      and a = "0x1000" and b = "0x80001000" and v = 77]
    trie_default_inv(1) [OF sample_total]
  by (auto simp: aligned_def)

end
