(* ===== verification/Eval_Correct.thy ===== *)
theory Eval_Correct
  imports Eval Decode Paged Trie_Correct
begin

text \<open>
  Correctness of the evaluator, for every memory that meets the controller contract.  The intended
  meaning of an instruction is given over a program counter, a register file and the bytes of the memory
  (\<open>isa_target\<close>, \<open>isa_write\<close>, \<open>isa_bytes\<close>, \<open>isa_sys\<close>), without cache lines, proofs or counters.
\<close>

section \<open>The intended meaning of an instruction\<close>

fun isa_target :: "rv32 \<Rightarrow> u32 \<Rightarrow> (u32 \<Rightarrow> u32) \<Rightarrow> u32" where
  "isa_target (JAL rd imm) pc reg = pc + imm"
| "isa_target (JALR rd rs1 imm) pc reg = reg rs1 + imm"
| "isa_target (BR b rs1 rs2 imm) pc reg = (if br_op b (reg rs1) (reg rs2) then pc + imm else pc + 4)"
| "isa_target UNIMP pc reg = pc"
| "isa_target _ pc reg = pc + 4"

text \<open>The register written and its value; \<open>z\<close> is what a system call returns.\<close>

fun isa_write :: "rv32 \<Rightarrow> u32 \<Rightarrow> (u32 \<Rightarrow> u32) \<Rightarrow> (u32 \<Rightarrow> u8) \<Rightarrow> u32 \<Rightarrow> (u32 \<times> u32) option" where
  "isa_write (LUI rd imm) pc reg mem z = Some (rd, imm)"
| "isa_write (AUIPC rd imm) pc reg mem z = Some (rd, pc + imm)"
| "isa_write (JAL rd imm) pc reg mem z = Some (rd, pc + 4)"
| "isa_write (JALR rd rs1 imm) pc reg mem z = Some (rd, pc + 4)"
| "isa_write (LOAD lop rd rs1 imm) pc reg mem z = Some (rd, load_spec lop mem (reg rs1 + imm))"
| "isa_write (ALUI aop rd rs1 imm) pc reg mem z = Some (rd, alu_op aop (reg rs1) imm)"
| "isa_write (ALU aop rd rs1 rs2) pc reg mem z = Some (rd, alu_op aop (reg rs1) (reg rs2))"
| "isa_write (ECALL rd) pc reg mem z = Some (rd, z)"
| "isa_write _ pc reg mem z = None"

fun isa_bytes :: "(u32 \<Rightarrow> u32) \<Rightarrow> rv32 \<Rightarrow> (u32 \<Rightarrow> u32) \<Rightarrow> (u32 \<Rightarrow> u8) \<Rightarrow> u32 \<Rightarrow> u8" where
  "isa_bytes canon (STORE sop rs1 rs2 imm) reg mem =
     store_spec canon (sop_width sop) mem (reg rs1 + imm) (reg rs2)"
| "isa_bytes canon _ reg mem = mem"

text \<open>Register \<open>x0\<close> stays 0.\<close>

definition isa_regs :: "(u32 \<times> u32) option \<Rightarrow> (u32 \<Rightarrow> u32) \<Rightarrow> u32 \<Rightarrow> u32" where
  "isa_regs w reg r = (case w of Some (rd, v) \<Rightarrow> if r = rd \<and> rd \<noteq> 0 then v else reg r | None \<Rightarrow> reg r)"

text \<open>Whether the memory access of an instruction is aligned.\<close>

fun access_ok :: "rv32 \<Rightarrow> (u32 \<Rightarrow> u32) \<Rightarrow> bool" where
  "access_ok (LOAD lop rd rs1 imm) reg = aligned (lop_width lop) (reg rs1 + imm)"
| "access_ok (STORE sop rs1 rs2 imm) reg = aligned (sop_width sop) (reg rs1 + imm)"
| "access_ok _ reg = True"

fun access_addr :: "rv32 \<Rightarrow> (u32 \<Rightarrow> u32) \<Rightarrow> u32" where
  "access_addr (LOAD lop rd rs1 imm) reg = reg rs1 + imm"
| "access_addr (STORE sop rs1 rs2 imm) reg = reg rs1 + imm"
| "access_addr _ reg = 0"

section \<open>Registers\<close>

definition regs_ok :: "regs \<Rightarrow> bool" where
  "regs_ok r \<longleftrightarrow> length (r_x r) = 32 \<and> r_x r ! 0 = 0"

definition vm_reg :: "('m, 'p) nexus_vm \<Rightarrow> u32 \<Rightarrow> u32" where
  "vm_reg vm r = r_x (vm_regs vm) ! unat r"

lemma unat_reg [simp]: "r < 32 \<Longrightarrow> unat (r::u32) < 32"
  by (simp add: word_less_nat_alt)

lemma get_reg_ok [simp]: "regs_ok (vm_regs vm) \<Longrightarrow> r < 32 \<Longrightarrow> get_reg vm r = Ok (vm_reg vm r)"
  by (auto simp: get_reg_def vm_reg_def regs_ok_def)

definition put_reg :: "u32 list \<Rightarrow> u32 \<Rightarrow> u32 \<Rightarrow> u32 list" where
  "put_reg x rd v = (if rd = 0 then x else x[unat rd := v])"

lemma set_reg_ok:
  "regs_ok (vm_regs vm) \<Longrightarrow> rd < 32 \<Longrightarrow>
    set_reg vm rd v = (vm\<lparr>vm_regs := (vm_regs vm)\<lparr>r_x := put_reg (r_x (vm_regs vm)) rd v\<rparr>\<rparr>, Ok ())"
  by (simp add: set_reg_def regs_ok_def put_reg_def)

lemma put_reg_ok [simp]: "length (put_reg x rd v) = length x"
  "put_reg x rd v ! 0 = x ! 0"
  by (auto simp: put_reg_def unat_eq_zero nth_list_update)

lemma put_reg_nth:
  "length x = 32 \<Longrightarrow> rd < 32 \<Longrightarrow> put_reg x rd v ! unat r = (if r = rd \<and> rd \<noteq> 0 then v else x ! unat r)"
  by (simp add: put_reg_def nth_list_update unat_inject)

text \<open>The decoder yields operands below 32.\<close>

lemma wf_inst_of_parse: "parse_inst pc mem = Ok i \<Longrightarrow> wf_inst (i_inst i)"
  using parse_inst_Ok wf_parse by blast

section \<open>Profiling\<close>

lemma profile_frame:
  assumes "handle_profile_cycles vm = (vm', r)"
  shows "vm' = vm\<lparr>vm_syscalls := vm_syscalls vm', vm_cycle_tracker := vm_cycle_tracker vm'\<rparr>"
    "vm_syscalls vm' = fst (get_label (vm_syscalls vm))" "r \<noteq> Panic"
    "vm_mem vm' = vm_mem vm"
  using assms
  by (auto simp: handle_profile_cycles_def get_label_def start_profile_def end_profile_def Let_def
      split: option.splits if_splits list.splits prod.splits)

lemma get_label_push: "get_label (s\<lparr>sc_label := sc_label s @ [l]\<rparr>) = (s, Some l)"
  by (simp add: get_label_def)

section \<open>One instruction\<close>

text \<open>A system call, on the bytes of the memory; a profiling label is consumed at once.\<close>

definition isa_sys :: "u32 \<Rightarrow> (u32 \<Rightarrow> u32) \<Rightarrow> (u32 \<Rightarrow> u8) \<Rightarrow> syscalls \<Rightarrow> syscalls \<times> u32 result" where
  "isa_sys pc reg mem s = (case syscall_try_from pc (reg 18) of
     Ok ProfileCycles \<Rightarrow> (s, Ok 5)
   | Ok code \<Rightarrow> syscall_spec s code (map mem (addr_range (reg 11) (reg 11 + reg 12)))
   | Err e \<Rightarrow> (s, Err e) | Panic \<Rightarrow> (s, Panic))"

text \<open>A target of 0 is taken for \<open>no jump\<close>.\<close>

definition taken :: "u32 \<Rightarrow> u32 \<Rightarrow> u32" where
  "taken pc t = (if t = 0 then pc + 4 else t)"

text \<open>What \<open>exec_inst\<close> leaves alone.\<close>

definition same_frame :: "('m, 'p) nexus_vm \<Rightarrow> ('m, 'p) nexus_vm \<Rightarrow> bool" where
  "same_frame vm vm' \<longleftrightarrow> vm_regs vm' = vm_regs vm \<and> vm_inst vm' = vm_inst vm
     \<and> vm_pc_proof vm' = vm_pc_proof vm \<and> vm_instruction_sets vm' = vm_instruction_sets vm
     \<and> vm_trace_len vm' = vm_trace_len vm \<and> vm_max_trace_len vm' = vm_max_trace_len vm
     \<and> vm_cycle_count vm' = vm_cycle_count vm"

text \<open>The outcome of the match on the instruction, on any controller.\<close>

definition exec_post ::
  "('m \<Rightarrow> bool) \<Rightarrow> ('m \<Rightarrow> u32 \<Rightarrow> u8) \<Rightarrow> (u32 \<Rightarrow> u32) \<Rightarrow> ('m, 'p) nexus_vm \<Rightarrow> rv32
   \<Rightarrow> ('m, 'p) nexus_vm \<Rightarrow> u32 \<times> u32 \<Rightarrow> bool" where
  "exec_post ok byte canon vm i vm' out \<longleftrightarrow>
     (let pc = r_pc (vm_regs vm); reg = vm_reg vm; mem = byte (vm_mem vm); (RD, PC) = out in
      ok (vm_mem vm') \<and> byte (vm_mem vm') = isa_bytes canon i reg mem \<and> same_frame vm vm' \<and> RD < 32
      \<and> isa_regs (Some (RD, vm_Z vm')) reg = isa_regs (isa_write i pc reg mem (vm_Z vm')) reg
      \<and> (\<forall>w. isa_write i pc reg mem (vm_Z vm') = Some w \<longrightarrow> snd w = vm_Z vm')
      \<and> taken pc PC = taken pc (isa_target i pc reg)
      \<and> (if \<exists>rd. i = ECALL rd then (vm_syscalls vm', Ok (vm_Z vm')) = isa_sys pc reg mem (vm_syscalls vm)
         else vm_syscalls vm' = vm_syscalls vm \<and> vm_cycle_tracker vm' = vm_cycle_tracker vm))"

lemmas exec_post_simps = exec_post_def same_frame_def isa_regs_def taken_def add32_def Let_def fun_eq_iff

lemma taken_fall [simp]: "taken pc 0 = taken pc (pc + 4)"
  by (simp add: taken_def)

context memory_controller
begin

lemma exec_load:
  assumes "inv (vm_mem vm)" "regs_ok (vm_regs vm)" "wf_inst (LOAD lop rd rs1 imm)"
    and "exec_inst ops vm (LOAD lop rd rs1 imm) = (vm', Ok out)"
  shows "exec_post inv (mem_byte line) canon vm (LOAD lop rd rs1 imm) vm' out"
proof -
  let ?a = "vm_reg vm rs1 + imm"
  have al: "aligned (lop_width lop) ?a"
    using assms load_misaligned [OF assms(1), of lop ?a]
    by (cases "aligned (lop_width lop) ?a") (auto simp: add32_def)
  obtain p where "mem_load ops (vm_mem vm) lop ?a = Ok (load_spec lop (mem_byte line (vm_mem vm)) ?a, p)"
    using load_ok [OF assms(1) al] by blast
  then show ?thesis using assms by (auto simp: exec_post_simps)
qed

lemma exec_store:
  assumes "inv (vm_mem vm)" "regs_ok (vm_regs vm)" "wf_inst (STORE sop rs1 rs2 imm)"
    and "exec_inst ops vm (STORE sop rs1 rs2 imm) = (vm', Ok out)"
  shows "exec_post inv (mem_byte line) canon vm (STORE sop rs1 rs2 imm) vm' out"
proof -
  let ?a = "vm_reg vm rs1 + imm" and ?v = "vm_reg vm rs2"
  have w: "lop_width (store_lop sop) = sop_width sop" by (cases sop) simp_all
  have al: "aligned (sop_width sop) ?a"
    using assms load_misaligned [OF assms(1), of "store_lop sop" ?a]
    by (cases "aligned (sop_width sop) ?a") (auto simp: add32_def w)
  obtain p where p: "mem_load ops (vm_mem vm) (store_lop sop) ?a =
      Ok (load_spec (store_lop sop) (mem_byte line (vm_mem vm)) ?a, p)"
    using load_ok [OF assms(1), of "store_lop sop" ?a] al w by auto
  obtain m' q where "mem_store ops (vm_mem vm) sop ?a ?v = (m', Ok q)" "inv m'"
    "mem_byte line m' = store_spec canon (sop_width sop) (mem_byte line (vm_mem vm)) ?a ?v"
    using store_ok [OF assms(1) al] by blast
  with p show ?thesis using assms by (auto simp: exec_post_simps)
qed

lemma exec_ecall:
  assumes "inv (vm_mem vm)" "regs_ok (vm_regs vm)" "wf_inst (ECALL rd)"
    and "exec_inst ops vm (ECALL rd) = (vm', Ok out)"
  shows "exec_post inv (mem_byte line) canon vm (ECALL rd) vm' out"
proof -
  have len: "length (r_x (vm_regs vm)) = 32" using assms(2) by (simp add: regs_ok_def)
  have reg: "r_x (vm_regs vm) ! 18 = vm_reg vm 18" "r_x (vm_regs vm) ! 11 = vm_reg vm 11"
    "r_x (vm_regs vm) ! 12 = vm_reg vm 12" by (simp_all add: vm_reg_def)
  let ?s = "vm_syscalls vm" and ?pc = "r_pc (vm_regs vm)"
  obtain code where code: "syscall_try_from ?pc (vm_reg vm 18) = Ok code"
    using assms(4) len by (cases "syscall_try_from ?pc (vm_reg vm 18)") (auto simp: syscall_eq [OF assms(1) len] reg)
  have c18: "vm_reg vm 18 = syscall_code_u32 code" using code by (simp add: syscall_try_from_Ok)
  show ?thesis
  proof (cases "code = ProfileCycles")
    case True
    let ?buf = "map (mem_byte line (vm_mem vm)) (addr_range (vm_reg vm 11) (vm_reg vm 11 + vm_reg vm 12))"
    let ?vm = "vm\<lparr>vm_syscalls := ?s\<lparr>sc_label := sc_label ?s @ [?buf]\<rparr>, vm_Z := 5\<rparr>"
    obtain vm1 r where h: "handle_profile_cycles ?vm = (vm1, r)" by fastforce
    have "(vm', Ok out) = attempt r vm1 (\<lambda>_. (vm1, Ok (rd, 0)))"
      using assms(4) len h code by (simp add: syscall_eq [OF assms(1) len] reg True c18)
    then have "vm' = vm1" "out = (rd, 0)" by (cases r; simp)+
    moreover have "vm_syscalls vm1 = ?s" using profile_frame(2) [OF h] by (simp add: get_label_push)
    then obtain t where "vm1 = vm\<lparr>vm_Z := 5, vm_cycle_tracker := t\<rparr>"
      using profile_frame(1) [OF h] by auto
    ultimately show ?thesis
      using assms(1-3) by (simp add: exec_post_def same_frame_def isa_sys_def code True)
  next
    case False
    then have "vm_reg vm 18 \<noteq> 5" using c18 syscall_code_u32_inj [of code ProfileCycles] by simp
    with False show ?thesis
      using assms len code by (cases code) (auto simp: syscall_eq reg exec_post_simps isa_sys_def split: if_splits)
  qed
qed

lemma exec_ok:
  assumes "inv (vm_mem vm)" "regs_ok (vm_regs vm)" "wf_inst i" "i_pc (vm_inst vm) = r_pc (vm_regs vm)"
    and "exec_inst ops vm i = (vm', Ok out)"
  shows "exec_post inv (mem_byte line) canon vm i vm' out"
proof (cases i)
  case (LOAD lop rd rs1 imm)
  with assms show ?thesis using exec_load by simp
next
  case (STORE sop rs1 rs2 imm)
  with assms show ?thesis using exec_store by simp
next
  case (ECALL rd)
  with assms show ?thesis using exec_ecall by simp
qed (use assms in \<open>auto simp: exec_post_simps\<close>)

end

section \<open>A whole step\<close>

text \<open>Fetching and decoding on the bytes of the memory.\<close>

definition isa_fetch :: "(u32 \<Rightarrow> u8) \<Rightarrow> u32 \<Rightarrow> inst result" where
  "isa_fetch mem pc = (if aligned 4 pc then parse_inst pc (to_le_bytes (load_spec LW mem pc)) else Err (Misaligned pc))"

definition over_limit :: "('m, 'p) nexus_vm \<Rightarrow> bool" where
  "over_limit vm \<longleftrightarrow> (case vm_max_trace_len vm of None \<Rightarrow> False | Some limit \<Rightarrow> limit \<le> vm_trace_len vm)"

definition started :: "('m, 'p) nexus_vm \<Rightarrow> inst \<Rightarrow> 'p \<Rightarrow> ('m, 'p) nexus_vm" where
  "started vm i p = vm\<lparr>vm_inst := i, vm_Z := 0, vm_pc_proof := p, vm_read_proof := None, vm_write_proof := None,
     vm_instruction_sets := insert (instruction_set_of (i_inst i)) (vm_instruction_sets vm)\<rparr>"

definition finish :: "('m, 'p) nexus_vm \<Rightarrow> u32 \<times> u32 \<Rightarrow> ('m, 'p) nexus_vm" where
  "finish vm out = (let (RD, PC) = out in
     vm\<lparr>vm_regs := \<lparr>r_pc = (if PC = 0 then i_pc (vm_inst vm) + i_len (vm_inst vm) else PC),
          r_x = put_reg (r_x (vm_regs vm)) RD (vm_Z vm)\<rparr>,
        vm_trace_len := vm_trace_len vm + 1,
        vm_cycle_count := vm_cycle_count vm + inst_cycles (i_inst (vm_inst vm))\<rparr>)"

text \<open>The state after a successful step in terms of the state before.\<close>

definition step_post ::
  "('m \<Rightarrow> bool) \<Rightarrow> ('m \<Rightarrow> u32 \<Rightarrow> u8) \<Rightarrow> (u32 \<Rightarrow> u32) \<Rightarrow> ('m, 'p) nexus_vm \<Rightarrow> ('m, 'p) nexus_vm \<Rightarrow> bool" where
  "step_post ok byte canon vm vm' \<longleftrightarrow>
     (let pc = r_pc (vm_regs vm); reg = vm_reg vm; mem = byte (vm_mem vm); i = i_inst (vm_inst vm') in
      ok (vm_mem vm') \<and> regs_ok (vm_regs vm') \<and> isa_fetch mem pc = Ok (vm_inst vm')
      \<and> byte (vm_mem vm') = isa_bytes canon i reg mem
      \<and> (\<forall>r. vm_reg vm' r = isa_regs (isa_write i pc reg mem (vm_Z vm')) reg r)
      \<and> (\<forall>w. isa_write i pc reg mem (vm_Z vm') = Some w \<longrightarrow> snd w = vm_Z vm')
      \<and> r_pc (vm_regs vm') = taken pc (isa_target i pc reg)
      \<and> (if \<exists>rd. i = ECALL rd then (vm_syscalls vm', Ok (vm_Z vm')) = isa_sys pc reg mem (vm_syscalls vm)
         else vm_syscalls vm' = vm_syscalls vm \<and> vm_cycle_tracker vm' = vm_cycle_tracker vm)
      \<and> vm_trace_len vm' = vm_trace_len vm + 1 \<and> vm_max_trace_len vm' = vm_max_trace_len vm
      \<and> vm_cycle_count vm' = vm_cycle_count vm + inst_cycles i)"

lemma isa_fetch_Ok:
  assumes "isa_fetch mem pc = Ok i"
  shows "i_pc i = pc" "i_len i = 4" "wf_inst (i_inst i)" "aligned 4 pc"
  using assms parse_inst_Ok [of pc _ i] wf_inst_of_parse [of pc _ i]
  by (auto simp: isa_fetch_def split: if_splits)

lemma parse_inst_not_Panic [simp]: "parse_inst pc mem \<noteq> Panic"
  by (auto simp: parse_inst_def Let_def split: option.splits)

lemma isa_fetch_not_Panic [simp]: "isa_fetch mem pc \<noteq> Panic"
  by (simp add: isa_fetch_def)

lemma finish_post:
  assumes "exec_post ok byte canon (started vm i p) (i_inst i) vm' out"
    and "isa_fetch (byte (vm_mem vm)) (r_pc (vm_regs vm)) = Ok i" "regs_ok (vm_regs vm)"
  shows "step_post ok byte canon vm (finish vm' out)"
proof -
  obtain RD PC where out: "out = (RD, PC)" by fastforce
  have st: "vm_mem (started vm i p) = vm_mem vm" "vm_regs (started vm i p) = vm_regs vm"
    "vm_reg (started vm i p) = vm_reg vm" "vm_inst (started vm i p) = i"
    "vm_syscalls (started vm i p) = vm_syscalls vm"
    "vm_cycle_tracker (started vm i p) = vm_cycle_tracker vm"
    by (simp_all add: started_def vm_reg_def fun_eq_iff)
  have frame: "vm_regs vm' = vm_regs vm" "vm_inst vm' = i" "RD < 32"
    using assms(1) by (simp_all add: exec_post_def out Let_def same_frame_def st)
  have "vm_reg (finish vm' out) r = isa_regs (Some (RD, vm_Z vm')) (vm_reg vm) r" for r
    using frame assms(3)
    by (simp add: finish_def out vm_reg_def put_reg_nth isa_regs_def regs_ok_def)
  moreover have "r_pc (vm_regs (finish vm' out)) = taken (r_pc (vm_regs vm)) PC"
    using isa_fetch_Ok(1,2) [OF assms(2)] frame by (simp add: finish_def out taken_def)
  moreover have "regs_ok (vm_regs (finish vm' out))"
    using assms(3) frame by (simp add: finish_def out regs_ok_def)
  moreover have "vm_mem (finish vm' out) = vm_mem vm'" "vm_inst (finish vm' out) = i" "vm_Z (finish vm' out) = vm_Z vm'"
    "vm_syscalls (finish vm' out) = vm_syscalls vm'" "vm_cycle_tracker (finish vm' out) = vm_cycle_tracker vm'"
    "vm_trace_len (finish vm' out) = vm_trace_len vm' + 1" "vm_max_trace_len (finish vm' out) = vm_max_trace_len vm'"
    "vm_cycle_count (finish vm' out) = vm_cycle_count vm' + inst_cycles (i_inst i)"
    using frame by (simp_all add: finish_def out)
  moreover have "vm_trace_len vm' = vm_trace_len vm" "vm_max_trace_len vm' = vm_max_trace_len vm"
    "vm_cycle_count vm' = vm_cycle_count vm"
    using assms(1) by (simp_all add: exec_post_def out Let_def same_frame_def started_def)
  ultimately show ?thesis
    using assms(1,2) unfolding step_post_def exec_post_def Let_def out prod.case st by simp
qed

context memory_controller
begin

lemma eval_unfold:
  assumes "inv (vm_mem vm)" "regs_ok (vm_regs vm)"
  obtains p where "eval_inst ops vm =
    (if over_limit vm then (vm, Err (MaxTraceLengthExceeded (vm_trace_len vm)))
     else attempt (isa_fetch (mem_byte line (vm_mem vm)) (r_pc (vm_regs vm))) vm (\<lambda>i.
       case exec_inst ops (started vm i p) (i_inst i) of (vm', r) \<Rightarrow>
         attempt r vm' (\<lambda>out. (finish vm' out, Ok ()))))"
proof -
  let ?m = "mem_byte line (vm_mem vm)" and ?pc = "r_pc (vm_regs vm)"
  obtain p where p: "mem_read_inst ops (vm_mem vm) ?pc =
      (if aligned 4 ?pc then Ok (load_spec LW ?m ?pc, p) else Err (Misaligned ?pc))"
    using load_ok [OF assms(1), of LW ?pc] load_misaligned [OF assms(1), of LW ?pc]
    by (cases "aligned 4 ?pc") (auto simp: read_inst_eq)
  have set_reg: "attempt r vm' (\<lambda>(RD, PC).
      let cycles = inst_cycles (i_inst (vm_inst vm'));
          PC = (if PC = 0 then add32 (i_pc (vm_inst vm')) (i_len (vm_inst vm')) else PC);
          (vm, r) = set_reg vm' RD (vm_Z vm')
      in attempt r vm (\<lambda>_. (vm\<lparr>vm_regs := (vm_regs vm)\<lparr>r_pc := PC\<rparr>, vm_trace_len := vm_trace_len vm + 1,
           vm_cycle_count := vm_cycle_count vm + cycles\<rparr>, Ok ()))) = attempt r vm' (\<lambda>out. (finish vm' out, Ok ()))"
    if "isa_fetch ?m ?pc = Ok i" "exec_inst ops (started vm i p) (i_inst i) = (vm', r)" for i vm' r
  proof (cases r)
    case (Ok out)
    have "exec_post inv (mem_byte line) canon (started vm i p) (i_inst i) vm' out"
      using that Ok assms isa_fetch_Ok [OF that(1)] by (intro exec_ok) (simp_all add: started_def)
    then have "regs_ok (vm_regs vm')" "fst out < 32"
      using assms(2) by (auto simp: exec_post_def same_frame_def started_def Let_def split: prod.splits)
    then show ?thesis
      using Ok by (cases out) (simp add: set_reg_ok Let_def add32_def, simp add: finish_def)
  qed simp_all
  show thesis
  proof (rule that [of p])
    show "eval_inst ops vm =
    (if over_limit vm then (vm, Err (MaxTraceLengthExceeded (vm_trace_len vm)))
     else attempt (isa_fetch ?m ?pc) vm (\<lambda>i.
       case exec_inst ops (started vm i p) (i_inst i) of (vm', r) \<Rightarrow>
         attempt r vm' (\<lambda>out. (finish vm' out, Ok ()))))"
    proof (cases "isa_fetch ?m ?pc")
      case (Ok i)
      obtain vm' r where e: "exec_inst ops (started vm i p) (i_inst i) = (vm', r)" by fastforce
      have "parse_inst ?pc (to_le_bytes (load_spec LW ?m ?pc)) = Ok i" "aligned 4 ?pc"
        using Ok by (auto simp: isa_fetch_def split: if_splits)
      then show ?thesis
        using p set_reg [OF Ok e] Ok e
        by (simp add: eval_inst_def over_limit_def started_def)
    qed (use p in \<open>auto simp: eval_inst_def over_limit_def isa_fetch_def split: if_splits\<close>)
  qed
qed

lemma eval_ok:
  assumes "inv (vm_mem vm)" "regs_ok (vm_regs vm)" "eval_inst ops vm = (vm', Ok ())"
  shows "step_post inv (mem_byte line) canon vm vm'"
proof -
  obtain p where e: "eval_inst ops vm =
    (if over_limit vm then (vm, Err (MaxTraceLengthExceeded (vm_trace_len vm)))
     else attempt (isa_fetch (mem_byte line (vm_mem vm)) (r_pc (vm_regs vm))) vm (\<lambda>i.
       case exec_inst ops (started vm i p) (i_inst i) of (vm', r) \<Rightarrow>
         attempt r vm' (\<lambda>out. (finish vm' out, Ok ()))))" using assms(1,2) by (rule eval_unfold)
  obtain i where f: "isa_fetch (mem_byte line (vm_mem vm)) (r_pc (vm_regs vm)) = Ok i"
    "(case exec_inst ops (started vm i p) (i_inst i) of (vm', r) \<Rightarrow>
       attempt r vm' (\<lambda>out. (finish vm' out, Ok ()))) = (vm', Ok ())"
    using assms(3) unfolding e by (simp add: result_simps split: if_splits) blast
  obtain vm1 r where x: "exec_inst ops (started vm i p) (i_inst i) = (vm1, r)" by fastforce
  obtain out where "r = Ok out" "vm' = finish vm1 out" using f(2) by (auto simp: x result_simps)
  with f(1) x have i: "isa_fetch (mem_byte line (vm_mem vm)) (r_pc (vm_regs vm)) = Ok i"
    "exec_inst ops (started vm i p) (i_inst i) = (vm1, Ok out)" "vm' = finish vm1 out" by simp_all
  have "exec_post inv (mem_byte line) canon (started vm i p) (i_inst i) vm1 out"
    using i assms isa_fetch_Ok [OF i(1)] by (intro exec_ok) (simp_all add: started_def)
  then show ?thesis unfolding i(3) using i(1) assms(2) by (rule finish_post)
qed

text \<open>The outcome of the match on an instruction that is not a system call.\<close>

lemma exec_outcome:
  assumes "inv (vm_mem vm)" "regs_ok (vm_regs vm)" "wf_inst i" "\<forall>rd. i \<noteq> ECALL rd"
  shows "\<exists>vm' out. exec_inst ops vm i =
    (vm', if access_ok i (vm_reg vm) then Ok out else Err (Misaligned (access_addr i (vm_reg vm))))"
proof (cases i)
  case (LOAD lop rd rs1 imm)
  then show ?thesis
    using assms load_ok [OF assms(1), of lop "vm_reg vm rs1 + imm"]
      load_misaligned [OF assms(1), of lop "vm_reg vm rs1 + imm"]
    by (cases "aligned (lop_width lop) (vm_reg vm rs1 + imm)") (auto simp: add32_def Let_def)
next
  case (STORE sop rs1 rs2 imm)
  have "lop_width (store_lop sop) = sop_width sop" by (cases sop) simp_all
  with STORE show ?thesis
    using assms load_ok [OF assms(1), of "store_lop sop" "vm_reg vm rs1 + imm"]
      load_misaligned [OF assms(1), of "store_lop sop" "vm_reg vm rs1 + imm"]
      store_ok [OF assms(1), of sop "vm_reg vm rs1 + imm" "vm_reg vm rs2"]
    by (cases "aligned (sop_width sop) (vm_reg vm rs1 + imm)") (auto simp: add32_def Let_def)
qed (use assms in auto)

lemma exec_ecall_not_Panic:
  assumes "inv (vm_mem vm)" "regs_ok (vm_regs vm)"
  shows "snd (exec_inst ops vm (ECALL rd)) \<noteq> Panic"
proof -
  have len: "length (r_x (vm_regs vm)) = 32" using assms(2) by (simp add: regs_ok_def)
  have "snd (syscall_spec s code buf) \<noteq> Panic" for s code buf by (cases code) simp_all
  then have "snd (syscall (vm_syscalls vm) (r_pc (vm_regs vm)) (r_x (vm_regs vm)) ops (vm_mem vm)) \<noteq> Panic"
    by (simp add: syscall_eq [OF assms(1) len] split: result.splits)
  then show ?thesis using len profile_frame(3)
    by (auto simp: Let_def result_simps split: prod.splits if_splits)
qed

lemma eval_outcome:
  assumes "inv (vm_mem vm)" "regs_ok (vm_regs vm)"
  shows "snd (eval_inst ops vm) \<noteq> Panic"
    and "over_limit vm \<Longrightarrow> snd (eval_inst ops vm) = Err (MaxTraceLengthExceeded (vm_trace_len vm))"
    and "\<not> over_limit vm \<Longrightarrow> isa_fetch (mem_byte line (vm_mem vm)) (r_pc (vm_regs vm)) = Err e \<Longrightarrow>
      snd (eval_inst ops vm) = Err e"
    and "\<not> over_limit vm \<Longrightarrow> isa_fetch (mem_byte line (vm_mem vm)) (r_pc (vm_regs vm)) = Ok i \<Longrightarrow>
      \<forall>rd. i_inst i \<noteq> ECALL rd \<Longrightarrow> snd (eval_inst ops vm) =
        (if access_ok (i_inst i) (vm_reg vm) then Ok () else Err (Misaligned (access_addr (i_inst i) (vm_reg vm))))"
proof -
  let ?f = "isa_fetch (mem_byte line (vm_mem vm)) (r_pc (vm_regs vm))"
  obtain p where e: "eval_inst ops vm =
    (if over_limit vm then (vm, Err (MaxTraceLengthExceeded (vm_trace_len vm)))
     else attempt ?f vm (\<lambda>i. case exec_inst ops (started vm i p) (i_inst i) of (vm', r) \<Rightarrow>
         attempt r vm' (\<lambda>out. (finish vm' out, Ok ()))))" using assms by (rule eval_unfold)
  have pre: "inv (vm_mem (started vm i p))" "regs_ok (vm_regs (started vm i p))" "vm_reg (started vm i p) = vm_reg vm" for i
    using assms by (simp_all add: started_def vm_reg_def fun_eq_iff)
  have out: "\<exists>vm' out. exec_inst ops (started vm i p) (i_inst i) =
      (vm', if access_ok (i_inst i) (vm_reg vm) then Ok out else Err (Misaligned (access_addr (i_inst i) (vm_reg vm))))"
    if "?f = Ok i" "\<forall>rd. i_inst i \<noteq> ECALL rd" for i
    using exec_outcome [OF pre(1,2) isa_fetch_Ok(3) [OF that(1)] that(2)] by (simp only: pre)
  have "snd (exec_inst ops (started vm i p) (i_inst i)) \<noteq> Panic" if "?f = Ok i" for i
    using out [OF that] exec_ecall_not_Panic [OF pre(1,2)] by (cases "i_inst i") (auto split: if_splits)
  then show "snd (eval_inst ops vm) \<noteq> Panic"
    unfolding e by (cases ?f) (auto simp: result_simps split: prod.splits)
  show "over_limit vm \<Longrightarrow> snd (eval_inst ops vm) = Err (MaxTraceLengthExceeded (vm_trace_len vm))"
    "\<not> over_limit vm \<Longrightarrow> ?f = Err e \<Longrightarrow> snd (eval_inst ops vm) = Err e"
    unfolding e by simp_all
  show "snd (eval_inst ops vm) = (if access_ok (i_inst i) (vm_reg vm) then Ok ()
      else Err (Misaligned (access_addr (i_inst i) (vm_reg vm))))"
    if "\<not> over_limit vm" "?f = Ok i" "\<forall>rd. i_inst i \<noteq> ECALL rd"
    using that out [OF that(2,3)] unfolding e by auto
qed

text \<open>Loading a program image: the bytes land where they should and nothing else changes.\<close>

lemma store_byte:
  assumes "inv m"
  obtains m' p where "mem_store ops m SB a (ucast v) = (m', Ok p)" "inv m'"
    "\<And>b. mem_byte line m' b = (if canon b = canon a then v else mem_byte line m b)"
  using store_ok [OF assms, of SB a "ucast v"] that by (auto simp: aligned_def store_spec_def val_byte_def)

lemma init_memory_loop_ok:
  assumes "inv (vm_mem vm)" "inj_on (\<lambda>k. canon (addr + word_of_nat k)) {i..<i + length bytes}"
  shows "\<exists>m'. init_memory_loop ops vm addr i bytes = (vm\<lparr>vm_mem := m'\<rparr>, Ok ()) \<and> inv m'
    \<and> (\<forall>k<length bytes. mem_byte line m' (addr + word_of_nat (i + k)) = bytes ! k)
    \<and> (\<forall>b. (\<forall>k<length bytes. canon b \<noteq> canon (addr + word_of_nat (i + k))) \<longrightarrow>
         mem_byte line m' b = mem_byte line (vm_mem vm) b)"
  using assms
proof (induction bytes arbitrary: vm i)
  case (Cons v bytes)
  let ?a = "\<lambda>k. addr + word_of_nat k"
  obtain m1 p where m1: "mem_store ops (vm_mem vm) SB (?a i) (ucast v) = (m1, Ok p)" "inv m1"
    "\<And>b. mem_byte line m1 b = (if canon b = canon (?a i) then v else mem_byte line (vm_mem vm) b)"
    using store_byte [OF Cons.prems(1)] by blast
  have "inj_on (\<lambda>k. canon (?a k)) {Suc i..<Suc i + length bytes}"
    by (rule inj_on_subset [OF Cons.prems(2)]) auto
  then obtain m2 where m2: "init_memory_loop ops (vm\<lparr>vm_mem := m1\<rparr>) addr (Suc i) bytes = (vm\<lparr>vm_mem := m2\<rparr>, Ok ())"
    "inv m2" "\<And>k. k < length bytes \<Longrightarrow> mem_byte line m2 (?a (Suc i + k)) = bytes ! k"
    "\<And>b. (\<forall>k<length bytes. canon b \<noteq> canon (?a (Suc i + k))) \<Longrightarrow> mem_byte line m2 b = mem_byte line m1 b"
    using Cons.IH [of "vm\<lparr>vm_mem := m1\<rparr>" "Suc i"] m1(2) by auto
  have ne: "canon (?a i) \<noteq> canon (?a (Suc i + k))" if "k < length bytes" for k
    using inj_onD [OF Cons.prems(2), of i "Suc i + k"] that by auto
  have "mem_byte line m2 (?a (i + k)) = (v # bytes) ! k" if "k < Suc (length bytes)" for k
  proof (cases k)
    case 0
    then show ?thesis using m2(4) [of "?a i"] ne m1(3) [of "?a i"] by simp
  next
    case (Suc j)
    then show ?thesis using m2(3) [of j] that by simp
  qed
  moreover have "mem_byte line m2 b = mem_byte line (vm_mem vm) b"
    if b: "\<forall>k<Suc (length bytes). canon b \<noteq> canon (?a (i + k))" for b
  proof -
    have "canon b \<noteq> canon (?a i)" using b by (auto dest: spec [of _ 0])
    moreover have "\<forall>k<length bytes. canon b \<noteq> canon (?a (Suc i + k))"
      using b by (metis Suc_mono add_Suc_right add_Suc_shift)
    ultimately show ?thesis using m2(4) m1(3) by simp
  qed
  ultimately show ?case using m1(1) m2(1,2) by (intro exI [of _ m2]) (simp add: Let_def)
next
  case Nil
  then show ?case by (intro exI [of _ "vm_mem vm"]) simp
qed

lemma init_memory_load:
  assumes "inv (vm_mem vm)" "inj_on canon (set (addr_range addr (addr + word_of_nat (length bytes))))"
    and "unat addr + length bytes < 2 ^ 32"
  shows "\<exists>m'. init_memory ops vm addr bytes = (vm\<lparr>vm_mem := m'\<rparr>, Ok ()) \<and> inv m'
    \<and> mem_load_n ops m' addr (word_of_nat (length bytes)) = Ok bytes"
proof -
  let ?n = "length bytes"
  have n: "unat (addr + word_of_nat ?n) = unat addr + ?n"
    using assms(3) by (simp add: unat_word_ariths unat_of_nat)
  have range: "addr_range addr (addr + word_of_nat ?n) = map (\<lambda>k. addr + word_of_nat k) [0..<?n]"
    unfolding addr_range_def n
    by (rule nth_equalityI) simp_all
  have "inj_on (\<lambda>k. addr + word_of_nat k) {0..<?n}"
  proof (rule inj_onI)
    fix j k assume jk: "j \<in> {0..<?n}" "k \<in> {0..<?n}" "addr + word_of_nat j = addr + word_of_nat k"
    then have "unat (word_of_nat j :: u32) = unat (word_of_nat k :: u32)" by simp
    then show "j = k" using jk assms(3) by (simp add: unat_of_nat)
  qed
  then have "inj_on (\<lambda>k. canon (addr + word_of_nat k)) {0..<?n}"
    using assms(2) comp_inj_on [of "\<lambda>k. addr + word_of_nat k" "{0..<?n}" canon] by (simp add: range comp_def)
  then obtain m' where "init_memory_loop ops vm addr 0 bytes = (vm\<lparr>vm_mem := m'\<rparr>, Ok ())" "inv m'"
    "\<forall>k<?n. mem_byte line m' (addr + word_of_nat k) = bytes ! k"
    using init_memory_loop_ok [OF assms(1), of addr 0 bytes] by auto
  moreover from this(3) have "map (mem_byte line m') (addr_range addr (addr + word_of_nat ?n)) = bytes"
    unfolding range by (intro nth_equalityI) simp_all
  ultimately show ?thesis
    using load_n_ok [of m' addr "word_of_nat ?n"] by (intro exI [of _ m']) (simp add: init_memory_def)
qed

end

section \<open>Properties\<close>

text \<open>A machine at address \<open>0x1000\<close> whose memory holds one instruction word there.\<close>

definition sample_vm :: "u32 \<Rightarrow> (paged, rat unchecked_memory) nexus_vm" where
  "sample_vm w = (vm_new paged_ops unchecked_ops 0x1000)\<lparr>vm_mem :=
     \<lparr>tree = [1 \<mapsto> CacheLine (to_le_bytes w @ replicate 28 0) # replicate 127 cl_zero]\<rparr>\<rparr>"

lemma sample_vm_ok: "paged_inv (vm_mem (sample_vm w))" "regs_ok (vm_regs (sample_vm w))"
  by (simp_all add: sample_vm_def paged_inv_def wf_cl_def cl_zero_def list_all_iff vm_new_def vm_default_def
      regs_default_def regs_ok_def)

lemma sample_vm_fields [simp]: "r_pc (vm_regs (sample_vm w)) = 0x1000" "over_limit (sample_vm w) = False"
  "vm_syscalls (sample_vm w) = syscalls_default"
  by (simp_all add: sample_vm_def vm_new_def vm_default_def over_limit_def Let_def)

lemma sample_vm_fetch: "isa_fetch (mem_byte paged_line (vm_mem (sample_vm w))) 0x1000 = parse_inst 0x1000 (to_le_bytes w)"
proof -
  have "load_spec LW (mem_byte paged_line (vm_mem (sample_vm w))) 0x1000 = word_of_bytes (to_le_bytes w)"
    by (simp add: sample_vm_def mem_byte_def paged_line_def page_of_def offset_of_def line_byte_def to_le_bytes_def)
  then show ?thesis by (simp only: isa_fetch_def word_of_to_le_bytes0) (simp add: aligned_def)
qed

lemma sample_addi: "isa_fetch (mem_byte paged_line (vm_mem (sample_vm 0x00500093))) 0x1000 =
  Ok \<lparr>i_pc = 0x1000, i_len = 4, i_word = 0x00500093, i_inst = ALUI ADD 1 0 5\<rparr>"
  unfolding sample_vm_fetch by code_simp

text \<open>C9: a successful step does what the instruction set says, on any memory that meets the controller
  contract. The instruction is the one decoded from the four bytes at the program counter; registers,
  memory bytes, system-call state and program counter change as the instruction prescribes, except that a
  jump target of 0 is taken for no jump; the invariants are kept.\<close>

theorem eval_step:
  assumes "memory_controller ops ok line same_line canon"
    and "ok (vm_mem vm)" "regs_ok (vm_regs vm)" "eval_inst ops vm = (vm', Ok ())"
  shows "step_post ok (mem_byte line) canon vm vm'"
  using memory_controller.eval_ok [OF assms(1)] assms(2-) by blast

theorem eval_step_witness:
  "\<exists>vm'. eval_inst paged_ops (sample_vm 0x00500093) = (vm', Ok ())
    \<and> step_post paged_inv (mem_byte paged_line) id (sample_vm 0x00500093) vm' \<and> vm_reg vm' 1 = 5"
proof -
  have "snd (eval_inst paged_ops (sample_vm 0x00500093)) = Ok ()"
    using paged.eval_outcome(4) [OF sample_vm_ok, of "0x00500093"] sample_addi by simp
  then obtain vm' where e: "eval_inst paged_ops (sample_vm 0x00500093) = (vm', Ok ())" by (metis prod.collapse)
  then have "step_post paged_inv (mem_byte paged_line) id (sample_vm 0x00500093) vm'"
    using eval_step [OF paged.memory_controller_axioms sample_vm_ok] by blast
  moreover from this have "vm_inst vm' = \<lparr>i_pc = 0x1000, i_len = 4, i_word = 0x00500093, i_inst = ALUI ADD 1 0 5\<rparr>"
    "vm_reg vm' 1 = isa_regs (isa_write (i_inst (vm_inst vm')) 0x1000 (vm_reg (sample_vm 0x00500093))
       (mem_byte paged_line (vm_mem (sample_vm 0x00500093))) (vm_Z vm')) (vm_reg (sample_vm 0x00500093)) 1"
    unfolding step_post_def Let_def sample_vm_fields sample_addi by simp_all
  moreover have "vm_reg (sample_vm 0x00500093) 0 = 0" using sample_vm_ok(2) by (simp add: vm_reg_def regs_ok_def)
  ultimately show ?thesis using e by (simp add: isa_regs_def alu_op_def add32_def)
qed



text \<open>C11: loading a program image puts the bytes where they belong. Reading the image's range back
  gives the image, on any controller that does not alias two addresses of the range.\<close>

theorem init_memory_roundtrip:
  assumes "memory_controller ops ok line same_line canon" "ok (vm_mem vm)"
    and "inj_on canon (set (addr_range addr (addr + word_of_nat (length bytes))))"
    and "unat addr + length bytes < 2 ^ 32"
  shows "\<exists>m'. init_memory ops vm addr bytes = (vm\<lparr>vm_mem := m'\<rparr>, Ok ()) \<and> ok m'
    \<and> mem_load_n ops m' addr (word_of_nat (length bytes)) = Ok bytes"
  using memory_controller.init_memory_load [OF assms] .

theorem init_memory_roundtrip_witness:
  "\<exists>m'. init_memory paged_ops (sample_vm 0) 0x2ffe [1, 2, 3] = ((sample_vm 0)\<lparr>vm_mem := m'\<rparr>, Ok ()) \<and> paged_inv m'
    \<and> mem_load_n (paged_ops :: (paged, rat unchecked_memory) memory_ops) m' 0x2ffe 3 = Ok [1, 2, 3]"
  using init_memory_roundtrip [OF paged.memory_controller_axioms sample_vm_ok(1), of "0x2ffe" "[1, 2, 3]" 0] by simp

text \<open>C13: a jump to address 0 is not taken. Whenever the jump or branch target of an executed
  instruction is 0, the machine goes on with the next instruction; so does an unimp at address 0.\<close>

theorem jump_to_zero_falls_through:
  assumes "memory_controller ops ok line same_line canon" "ok (vm_mem vm)" "regs_ok (vm_regs vm)"
    and "eval_inst ops vm = (vm', Ok ())"
    and "isa_target (i_inst (vm_inst vm')) (r_pc (vm_regs vm)) (vm_reg vm) = 0"
  shows "r_pc (vm_regs vm') = r_pc (vm_regs vm) + 4"
  using memory_controller.eval_ok [OF assms(1-4)] assms(5) by (simp add: step_post_def Let_def taken_def)

lemma sample_jr: "isa_fetch (mem_byte paged_line (vm_mem (sample_vm 0x00000067))) 0x1000 =
  Ok \<lparr>i_pc = 0x1000, i_len = 4, i_word = 0x00000067, i_inst = JALR 0 0 0\<rparr>"
  unfolding sample_vm_fetch by code_simp

theorem jump_to_zero_falls_through_witness:
  "\<exists>vm'. eval_inst paged_ops (sample_vm 0x00000067) = (vm', Ok ()) \<and> i_inst (vm_inst vm') = JALR 0 0 0
    \<and> r_pc (vm_regs vm') = 0x1004"
proof -
  have "snd (eval_inst paged_ops (sample_vm 0x00000067)) = Ok ()"
    using paged.eval_outcome(4) [OF sample_vm_ok, of "0x00000067"] sample_jr by simp
  then obtain vm' where e: "eval_inst paged_ops (sample_vm 0x00000067) = (vm', Ok ())" by (metis prod.collapse)
  from paged.eval_ok [OF sample_vm_ok this]
  have i: "vm_inst vm' = \<lparr>i_pc = 0x1000, i_len = 4, i_word = 0x00000067, i_inst = JALR 0 0 0\<rparr>"
    unfolding step_post_def Let_def sample_vm_fields sample_jr by simp
  have "vm_reg (sample_vm 0x00000067) 0 = 0" using sample_vm_ok(2) by (simp add: vm_reg_def regs_ok_def)
  then show ?thesis
    using jump_to_zero_falls_through [OF paged.memory_controller_axioms sample_vm_ok e] e i by simp
qed

end
