(* ===== verification/Simulation.thy ===== *)
theory Simulation
  imports Eval_Correct
begin

text \<open>
  Two machines on different memories run in step.  The locale relates two controllers that agree on which
  addresses of a region share a byte; a step whose accesses stay in the region gives the same result on
  both.  Interpreted for the paged memory and the Merkle trie below \<open>0x80000000\<close>: proving changes
  nothing of what the program computes there.
\<close>

section \<open>States without memory and proofs\<close>

definition erase_mem :: "('m, 'p) nexus_vm \<Rightarrow> (unit, unit) nexus_vm" where
  "erase_mem vm = \<lparr>vm_regs = vm_regs vm, vm_syscalls = vm_syscalls vm, vm_inst = vm_inst vm, vm_Z = vm_Z vm,
     vm_instruction_sets = vm_instruction_sets vm, vm_mem = (), vm_pc_proof = (), vm_read_proof = None,
     vm_write_proof = None, vm_trace_len = vm_trace_len vm, vm_max_trace_len = vm_max_trace_len vm,
     vm_cycle_count = vm_cycle_count vm, vm_cycle_tracker = vm_cycle_tracker vm\<rparr>"

lemma erase_mem_update [simp]:
  "erase_mem (vm\<lparr>vm_Z := z\<rparr>) = (erase_mem vm)\<lparr>vm_Z := z\<rparr>"
  "erase_mem (vm\<lparr>vm_mem := m\<rparr>) = erase_mem vm"
  "erase_mem (vm\<lparr>vm_read_proof := rp\<rparr>) = erase_mem vm"
  "erase_mem (vm\<lparr>vm_write_proof := wp\<rparr>) = erase_mem vm"
  "erase_mem (vm\<lparr>vm_syscalls := s\<rparr>) = (erase_mem vm)\<lparr>vm_syscalls := s\<rparr>"
  "erase_mem (vm\<lparr>vm_cycle_tracker := t\<rparr>) = (erase_mem vm)\<lparr>vm_cycle_tracker := t\<rparr>"
  by (simp_all add: erase_mem_def)

lemma erase_mem_eqD:
  assumes "erase_mem vm1 = erase_mem vm2"
  shows "vm_regs vm1 = vm_regs vm2" "vm_syscalls vm1 = vm_syscalls vm2" "vm_inst vm1 = vm_inst vm2"
    "vm_Z vm1 = vm_Z vm2" "vm_instruction_sets vm1 = vm_instruction_sets vm2"
    "vm_trace_len vm1 = vm_trace_len vm2" "vm_max_trace_len vm1 = vm_max_trace_len vm2"
    "vm_cycle_count vm1 = vm_cycle_count vm2" "vm_cycle_tracker vm1 = vm_cycle_tracker vm2"
    "vm_reg vm1 = vm_reg vm2" "over_limit vm1 = over_limit vm2"
proof -
  show eqs: "vm_regs vm1 = vm_regs vm2" "vm_syscalls vm1 = vm_syscalls vm2" "vm_inst vm1 = vm_inst vm2"
    "vm_Z vm1 = vm_Z vm2" "vm_instruction_sets vm1 = vm_instruction_sets vm2"
    "vm_trace_len vm1 = vm_trace_len vm2" "vm_max_trace_len vm1 = vm_max_trace_len vm2"
    "vm_cycle_count vm1 = vm_cycle_count vm2" "vm_cycle_tracker vm1 = vm_cycle_tracker vm2"
    using assms by (simp_all add: erase_mem_def)
  show "vm_reg vm1 = vm_reg vm2" "over_limit vm1 = over_limit vm2"
    unfolding vm_reg_def over_limit_def fun_eq_iff eqs by simp_all
qed

lemma erase_started:
  "erase_mem vm1 = erase_mem vm2 \<Longrightarrow> erase_mem (started vm1 i p) = erase_mem (started vm2 i q)"
  by (simp add: erase_mem_def started_def)

lemma erase_finish:
  "erase_mem vm1 = erase_mem vm2 \<Longrightarrow> erase_mem (finish vm1 out) = erase_mem (finish vm2 out)"
  by (cases out) (simp add: erase_mem_def finish_def)

lemma erase_profile:
  "handle_profile_cycles (erase_mem vm) = (erase_mem (fst (handle_profile_cycles vm)), snd (handle_profile_cycles vm))"
  by (simp add: handle_profile_cycles_def erase_mem_def start_profile_def end_profile_def Let_def
      split: prod.splits option.splits list.splits)

lemma profile_sim:
  assumes "erase_mem vm1 = erase_mem vm2"
    and "handle_profile_cycles vm1 = (vm1', r1)" "handle_profile_cycles vm2 = (vm2', r2)"
  shows "r1 = r2" "erase_mem vm1' = erase_mem vm2'" "vm_mem vm1' = vm_mem vm1" "vm_mem vm2' = vm_mem vm2"
proof -
  have "handle_profile_cycles (erase_mem vm1) = (erase_mem vm1', r1)"
    "handle_profile_cycles (erase_mem vm2) = (erase_mem vm2', r2)"
    using assms(2,3) by (simp_all add: erase_profile)
  then show "r1 = r2" "erase_mem vm1' = erase_mem vm2'" using assms(1) by simp_all
  show "vm_mem vm1' = vm_mem vm1" "vm_mem vm2' = vm_mem vm2"
    using profile_frame(4) [OF assms(2)] profile_frame(4) [OF assms(3)] by simp_all
qed

section \<open>Two controllers\<close>

text \<open>Two memories that agree on the bytes of a region, and two machines equal but for them.\<close>

definition mem_sim ::
  "('m1 \<Rightarrow> bool) \<Rightarrow> ('m1 \<Rightarrow> u32 \<Rightarrow> u8) \<Rightarrow> ('m2 \<Rightarrow> bool) \<Rightarrow> ('m2 \<Rightarrow> u32 \<Rightarrow> u8) \<Rightarrow> (u32 \<Rightarrow> bool)
   \<Rightarrow> 'm1 \<Rightarrow> 'm2 \<Rightarrow> bool" where
  "mem_sim ok1 byte1 ok2 byte2 D m1 m2 \<longleftrightarrow> ok1 m1 \<and> ok2 m2 \<and> (\<forall>a. D a \<longrightarrow> byte1 m1 a = byte2 m2 a)"

definition vm_sim ::
  "('m1 \<Rightarrow> bool) \<Rightarrow> ('m1 \<Rightarrow> u32 \<Rightarrow> u8) \<Rightarrow> ('m2 \<Rightarrow> bool) \<Rightarrow> ('m2 \<Rightarrow> u32 \<Rightarrow> u8) \<Rightarrow> (u32 \<Rightarrow> bool)
   \<Rightarrow> ('m1, 'p1) nexus_vm \<Rightarrow> ('m2, 'p2) nexus_vm \<Rightarrow> bool" where
  "vm_sim ok1 byte1 ok2 byte2 D vm1 vm2 \<longleftrightarrow>
     erase_mem vm1 = erase_mem vm2 \<and> mem_sim ok1 byte1 ok2 byte2 D (vm_mem vm1) (vm_mem vm2)"

text \<open>The addresses an instruction touches.\<close>

fun touched :: "rv32 \<Rightarrow> (u32 \<Rightarrow> u32) \<Rightarrow> u32 set" where
  "touched (LOAD lop rd rs1 imm) reg = {reg rs1 + imm}"
| "touched (STORE sop rs1 rs2 imm) reg = {reg rs1 + imm}"
| "touched (ECALL rd) reg = set (addr_range (reg 11) (reg 11 + reg 12))"
| "touched _ reg = {}"

locale controller_pair =
  A: memory_controller ops1 inv1 line1 same1 canon1 + B: memory_controller ops2 inv2 line2 same2 canon2
  for ops1 :: "('m1, 'p1) memory_ops" and inv1 line1 same1 canon1
    and ops2 :: "('m2, 'p2) memory_ops" and inv2 line2 same2 canon2 +
  fixes D :: "u32 \<Rightarrow> bool"
  assumes D_block: "D a \<Longrightarrow> drop_bit 4 b = drop_bit 4 a \<Longrightarrow> D b"
    and canon_D: "D a \<Longrightarrow> D b \<Longrightarrow> canon1 a = canon1 b \<longleftrightarrow> canon2 a = canon2 b"
begin

abbreviation "mem_rel \<equiv> mem_sim inv1 (mem_byte line1) inv2 (mem_byte line2) D"
abbreviation "sim \<equiv> vm_sim inv1 (mem_byte line1) inv2 (mem_byte line2) D"

lemma D_aligned: "D a \<Longrightarrow> aligned w a \<Longrightarrow> w dvd 16 \<Longrightarrow> k < w \<Longrightarrow> D (a + word_of_nat k)"
  by (rule D_block) (simp_all add: aligned_block)

lemma load_spec_rel:
  assumes "mem_rel m1 m2" "D a" "aligned (lop_width lop) a"
  shows "load_spec lop (mem_byte line1 m1) a = load_spec lop (mem_byte line2 m2) a"
  using assms D_aligned [OF assms(2,3) access_width(1)] by (intro load_spec_cong) (simp add: mem_sim_def)

lemma load_rel:
  assumes "mem_rel m1 m2" "D a"
  shows "(\<exists>v p q. mem_load ops1 m1 lop a = Ok (v, p) \<and> mem_load ops2 m2 lop a = Ok (v, q))
    \<or> (\<exists>e. mem_load ops1 m1 lop a = Err e \<and> mem_load ops2 m2 lop a = Err e)"
proof -
  have inv: "inv1 m1" "inv2 m2" using assms(1) by (simp_all add: mem_sim_def)
  show ?thesis
  proof (cases "aligned (lop_width lop) a")
    case True
    then show ?thesis
      using A.load_ok [OF inv(1) True] B.load_ok [OF inv(2) True] load_spec_rel [OF assms True] by fastforce
  qed (use A.load_misaligned [OF inv(1)] B.load_misaligned [OF inv(2)] in auto)
qed

lemma store_rel:
  assumes "mem_rel m1 m2" "D a"
  shows "(\<exists>m1' m2' p q. mem_store ops1 m1 sop a v = (m1', Ok p) \<and> mem_store ops2 m2 sop a v = (m2', Ok q)
      \<and> mem_rel m1' m2')
    \<or> (\<exists>m1' m2' e. mem_store ops1 m1 sop a v = (m1', Err e) \<and> mem_store ops2 m2 sop a v = (m2', Err e))"
proof -
  have inv: "inv1 m1" "inv2 m2" using assms(1) by (simp_all add: mem_sim_def)
  show ?thesis
  proof (cases "aligned (sop_width sop) a")
    case True
    obtain m1' p where s1: "mem_store ops1 m1 sop a v = (m1', Ok p)" "inv1 m1'"
      "mem_byte line1 m1' = store_spec canon1 (sop_width sop) (mem_byte line1 m1) a v"
      using A.store_ok [OF inv(1) True] by blast
    obtain m2' q where s2: "mem_store ops2 m2 sop a v = (m2', Ok q)" "inv2 m2'"
      "mem_byte line2 m2' = store_spec canon2 (sop_width sop) (mem_byte line2 m2) a v"
      using B.store_ok [OF inv(2) True] by blast
    have "mem_byte line1 m1' b = mem_byte line2 m2' b" if "D b" for b
    proof -
      have "find (\<lambda>k. canon1 b = canon1 (a + word_of_nat k)) [0..<sop_width sop] =
          find (\<lambda>k. canon2 b = canon2 (a + word_of_nat k)) [0..<sop_width sop]"
        using canon_D [OF that D_aligned [OF assms(2) True access_width(2)]] by (intro find_cong) auto
      then show ?thesis using assms(1) that by (simp add: s1(3) s2(3) store_spec_def mem_sim_def split: option.splits)
    qed
    then show ?thesis using s1 s2 by (auto simp: mem_sim_def)
  next
    case False
    then show ?thesis using A.store_misaligned [OF inv(1) False] B.store_misaligned [OF inv(2) False] by blast
  qed
qed

lemma syscall_rel:
  assumes "mem_rel m1 m2" "length regs = 32" "\<And>a. a \<in> set (addr_range (regs ! 11) (regs ! 11 + regs ! 12)) \<Longrightarrow> D a"
  shows "syscall s pc regs ops1 m1 = syscall s pc regs ops2 m2"
proof -
  have "map (mem_byte line1 m1) (addr_range (regs ! 11) (regs ! 11 + regs ! 12)) =
      map (mem_byte line2 m2) (addr_range (regs ! 11) (regs ! 11 + regs ! 12))"
    using assms(1,3) by (intro map_cong) (simp_all add: mem_sim_def)
  moreover have "inv1 m1" "inv2 m2" using assms(1) by (simp_all add: mem_sim_def)
  ultimately show ?thesis using A.syscall_eq [OF _ assms(2)] B.syscall_eq [OF _ assms(2)] by metis
qed

definition sim_res :: "('m1, 'p1) nexus_vm \<times> 'b result \<Rightarrow> ('m2, 'p2) nexus_vm \<times> 'b result \<Rightarrow> bool" where
  "sim_res r1 r2 \<longleftrightarrow> snd r1 = snd r2 \<and> (\<forall>a. snd r1 = Ok a \<longrightarrow> sim (fst r1) (fst r2))"

lemma sim_res_attempt:
  assumes "\<And>a. r = Ok a \<Longrightarrow> sim_res (k1 a) (k2 a)"
  shows "sim_res (attempt r vm1 k1) (attempt r vm2 k2)"
  using assms by (cases r) (simp_all add: sim_res_def)

lemma exec_sim:
  assumes "sim vm1 vm2" "regs_ok (vm_regs vm1)" "wf_inst i" "\<And>a. a \<in> touched i (vm_reg vm1) \<Longrightarrow> D a"
  shows "sim_res (exec_inst ops1 vm1 i) (exec_inst ops2 vm2 i)"
proof -
  have er: "erase_mem vm1 = erase_mem vm2" and mem: "mem_rel (vm_mem vm1) (vm_mem vm2)"
    using assms(1) by (simp_all add: vm_sim_def)
  note eq = erase_mem_eqD [OF er]
  have regs2: "regs_ok (vm_regs vm2)" using assms(2) eq by simp
  show ?thesis
  proof (cases i)
    case (LOAD lop rd rs1 imm)
    then have D: "D (vm_reg vm1 rs1 + imm)" using assms(4) by simp
    show ?thesis
      using load_rel [OF mem D, of lop] LOAD assms(2,3) regs2 er mem
      by (auto simp: sim_res_def vm_sim_def add32_def eq)
  next
    case (STORE sop rs1 rs2 imm)
    then have D: "D (vm_reg vm1 rs1 + imm)" using assms(4) by simp
    show ?thesis
      using load_rel [OF mem D, of "store_lop sop"] store_rel [OF mem D, of sop "vm_reg vm1 rs2"]
        STORE assms(2,3) regs2 er mem
      by (auto simp: sim_res_def vm_sim_def add32_def eq Let_def)
  next
    case (ECALL rd)
    have len: "length (r_x (vm_regs vm1)) = 32" using assms(2) by (simp add: regs_ok_def)
    have "vm_reg vm1 11 = r_x (vm_regs vm1) ! 11" "vm_reg vm1 12 = r_x (vm_regs vm1) ! 12"
      by (simp_all add: vm_reg_def)
    then have sys: "syscall (vm_syscalls vm1) (r_pc (vm_regs vm1)) (r_x (vm_regs vm1)) ops1 (vm_mem vm1) =
        syscall (vm_syscalls vm2) (r_pc (vm_regs vm2)) (r_x (vm_regs vm2)) ops2 (vm_mem vm2)"
      using syscall_rel [OF mem len] assms(4) ECALL eq by simp
    obtain sc r where sc: "syscall (vm_syscalls vm2) (r_pc (vm_regs vm2)) (r_x (vm_regs vm2)) ops2 (vm_mem vm2) = (sc, r)"
      by fastforce
    have prof: "sim_res (let (vm, r) = handle_profile_cycles (vm1\<lparr>vm_syscalls := sc, vm_Z := z\<rparr>) in attempt r vm (\<lambda>_. (vm, Ok (rd, 0))))
        (let (vm, r) = handle_profile_cycles (vm2\<lparr>vm_syscalls := sc, vm_Z := z\<rparr>) in attempt r vm (\<lambda>_. (vm, Ok (rd, 0 :: u32))))"
      for z
    proof -
      obtain a1 q1 a2 q2 where h: "handle_profile_cycles (vm1\<lparr>vm_syscalls := sc, vm_Z := z\<rparr>) = (a1, q1)"
        "handle_profile_cycles (vm2\<lparr>vm_syscalls := sc, vm_Z := z\<rparr>) = (a2, q2)" by fastforce
      show ?thesis using profile_sim [OF _ h] er mem
        by (simp add: h) (rule sim_res_attempt, simp add: sim_res_def vm_sim_def)
    qed
    have len2: "length (r_x (vm_regs vm2)) = 32" using regs2 by (simp add: regs_ok_def)
    show ?thesis
      unfolding ECALL exec_inst.simps sys sc Let_def prod.case
    proof (rule sim_res_attempt)
      fix z
      show "sim_res
        (attempt (index (r_x (vm_regs (vm1\<lparr>vm_syscalls := sc, vm_Z := z\<rparr>))) 18) (vm1\<lparr>vm_syscalls := sc, vm_Z := z\<rparr>) (\<lambda>code.
          if code = syscall_code_u32 ProfileCycles
          then case handle_profile_cycles (vm1\<lparr>vm_syscalls := sc, vm_Z := z\<rparr>) of (vm, r) \<Rightarrow> attempt r vm (\<lambda>_. (vm, Ok (rd, 0)))
          else (vm1\<lparr>vm_syscalls := sc, vm_Z := z\<rparr>, Ok (rd, 0))))
        (attempt (index (r_x (vm_regs (vm2\<lparr>vm_syscalls := sc, vm_Z := z\<rparr>))) 18) (vm2\<lparr>vm_syscalls := sc, vm_Z := z\<rparr>) (\<lambda>code.
          if code = syscall_code_u32 ProfileCycles
          then case handle_profile_cycles (vm2\<lparr>vm_syscalls := sc, vm_Z := z\<rparr>) of (vm, r) \<Rightarrow> attempt r vm (\<lambda>_. (vm, Ok (rd, 0)))
          else (vm2\<lparr>vm_syscalls := sc, vm_Z := z\<rparr>, Ok (rd, 0 :: u32))))"
      proof (cases "r_x (vm_regs vm2) ! 18 = 5")
        case True
        then show ?thesis using prof [of z] len len2 eq(1) by (simp add: Let_def)
      next
        case False
        then show ?thesis using len len2 eq(1) er mem by (simp add: sim_res_def vm_sim_def)
      qed
    qed
  qed (use assms regs2 er mem in \<open>auto simp: sim_res_def vm_sim_def eq\<close>)
qed

lemma fetch_rel:
  assumes "mem_rel m1 m2" "D pc"
  shows "isa_fetch (mem_byte line1 m1) pc = isa_fetch (mem_byte line2 m2) pc"
  using load_spec_rel [OF assms, of LW] by (simp add: isa_fetch_def del: load_spec.simps)

lemma eval_sim:
  assumes "sim vm1 vm2" "regs_ok (vm_regs vm1)" "D (r_pc (vm_regs vm1))"
    and "\<And>i a. isa_fetch (mem_byte line1 (vm_mem vm1)) (r_pc (vm_regs vm1)) = Ok i \<Longrightarrow>
      a \<in> touched (i_inst i) (vm_reg vm1) \<Longrightarrow> D a"
  shows "sim_res (eval_inst ops1 vm1) (eval_inst ops2 vm2)"
proof -
  have er: "erase_mem vm1 = erase_mem vm2" and mem: "mem_rel (vm_mem vm1) (vm_mem vm2)"
    and inv: "inv1 (vm_mem vm1)" "inv2 (vm_mem vm2)"
    using assms(1) by (simp_all add: vm_sim_def mem_sim_def)
  note eq = erase_mem_eqD [OF er]
  have regs2: "regs_ok (vm_regs vm2)" using assms(2) eq by simp
  let ?f = "isa_fetch (mem_byte line1 (vm_mem vm1)) (r_pc (vm_regs vm1))"
  have f: "isa_fetch (mem_byte line2 (vm_mem vm2)) (r_pc (vm_regs vm2)) = ?f"
    using fetch_rel [OF mem assms(3)] eq by simp
  obtain p where e1: "eval_inst ops1 vm1 =
    (if over_limit vm1 then (vm1, Err (MaxTraceLengthExceeded (vm_trace_len vm1)))
     else attempt ?f vm1 (\<lambda>i. case exec_inst ops1 (started vm1 i p) (i_inst i) of (vm', r) \<Rightarrow>
         attempt r vm' (\<lambda>out. (finish vm' out, Ok ()))))" using inv(1) assms(2) by (rule A.eval_unfold)
  obtain q where e2: "eval_inst ops2 vm2 =
    (if over_limit vm2 then (vm2, Err (MaxTraceLengthExceeded (vm_trace_len vm2)))
     else attempt ?f vm2 (\<lambda>i. case exec_inst ops2 (started vm2 i q) (i_inst i) of (vm', r) \<Rightarrow>
         attempt r vm' (\<lambda>out. (finish vm' out, Ok ()))))" using inv(2) regs2 unfolding f [symmetric] by (rule B.eval_unfold)
  have "sim_res (case exec_inst ops1 (started vm1 i p) (i_inst i) of (vm', r) \<Rightarrow> attempt r vm' (\<lambda>out. (finish vm' out, Ok ())))
      (case exec_inst ops2 (started vm2 i q) (i_inst i) of (vm', r) \<Rightarrow> attempt r vm' (\<lambda>out. (finish vm' out, Ok ())))"
    if i: "?f = Ok i" for i
  proof -
    have "sim (started vm1 i p) (started vm2 i q)"
      using erase_started [OF er] mem by (simp add: vm_sim_def) (simp add: started_def)
    moreover have "regs_ok (vm_regs (started vm1 i p))" "vm_reg (started vm1 i p) = vm_reg vm1"
      using assms(2) by (simp_all add: started_def vm_reg_def fun_eq_iff)
    ultimately have s: "sim_res (exec_inst ops1 (started vm1 i p) (i_inst i)) (exec_inst ops2 (started vm2 i q) (i_inst i))"
      using assms(4) [OF i] isa_fetch_Ok(3) [OF i] by (intro exec_sim) simp_all
    have fin: "sim (finish a1 out) (finish a2 out)" if "sim a1 a2" for a1 a2 out
      using that erase_finish [of a1 a2 out] by (simp add: vm_sim_def) (cases out, simp add: finish_def)
    obtain x1 r1 x2 r2 where x: "exec_inst ops1 (started vm1 i p) (i_inst i) = (x1, r1)"
      "exec_inst ops2 (started vm2 i q) (i_inst i) = (x2, r2)" by fastforce
    have r: "r1 = r2" "\<And>a. r1 = Ok a \<Longrightarrow> sim x1 x2" using s by (auto simp: sim_res_def x)
    show ?thesis unfolding x prod.case r(1) [symmetric]
      by (rule sim_res_attempt) (simp add: sim_res_def fin r(2))
  qed
  then show ?thesis
    unfolding e1 e2 eq(11) by (cases "over_limit vm2") (simp add: sim_res_def eq(6), simp add: sim_res_attempt)
qed

end

section \<open>Paged memory and Merkle trie\<close>

definition lower_half :: "u32 \<Rightarrow> bool" where
  "lower_half a \<longleftrightarrow> a < 0x80000000"

lemma lower_half_bit: "lower_half a \<longleftrightarrow> \<not> bit a 31"
proof -
  have "lower_half a \<longleftrightarrow> (\<forall>n\<ge>31. \<not> bit a n)"
    using less_2p_iff_bits [of 31 a] by (simp add: lower_half_def)
  also have "\<dots> \<longleftrightarrow> \<not> bit a 31"
  proof
    assume *: "\<not> bit a 31"
    show "\<forall>n\<ge>31. \<not> bit a n"
    proof (intro allI impI)
      fix n :: nat assume "31 \<le> n"
      then show "\<not> bit a n" using * bit_imp_le_length [of a n] by (cases "n = 31") auto
    qed
  qed simp
  finally show ?thesis .
qed

interpretation pt: controller_pair
  "paged_ops :: (paged, 'f::field unchecked_memory) memory_ops" paged_inv paged_line paged_same_line id
  "trie_ops P" "trie_inv P" trie_line trie_same_line trie_canon lower_half
  for P :: "'g::field params"
proof
  fix a b :: u32
  assume a: "lower_half a"
  have low: "take_bit 31 x = x" if "lower_half x" for x :: u32
    using that less_2p_iff_take_bit [of 31 x] by (simp add: lower_half_def)
  {
    assume "drop_bit 4 b = drop_bit 4 a"
    then have "bit (drop_bit 4 b) 27 = bit (drop_bit 4 a) 27" by (simp only:)
    then show "lower_half b" using a by (simp add: lower_half_bit bit_simps)
  next
    assume "lower_half b"
    then show "id a = id b \<longleftrightarrow> trie_canon a = trie_canon b" using a low by (simp add: trie_canon_def)
  }
qed

section \<open>Runs\<close>

text \<open>\<open>n\<close> steps of the machine.\<close>

fun steps :: "('m, 'p) memory_ops \<Rightarrow> nat \<Rightarrow> ('m, 'p) nexus_vm \<Rightarrow> ('m, 'p) nexus_vm \<times> unit result" where
  "steps ops 0 vm = (vm, Ok ())"
| "steps ops (Suc n) vm = (let (vm, r) = eval_inst ops vm in attempt r vm (\<lambda>_. steps ops n vm))"

text \<open>The machine stays in a region for \<open>n\<close> steps: its fetches, loads, stores and system calls touch
  no other address.\<close>

fun stays :: "(u32 \<Rightarrow> bool) \<Rightarrow> ('m \<Rightarrow> u32 \<Rightarrow> u8) \<Rightarrow> ('m, 'p) memory_ops \<Rightarrow> nat \<Rightarrow> ('m, 'p) nexus_vm \<Rightarrow> bool" where
  "stays D byte ops 0 vm = True"
| "stays D byte ops (Suc n) vm \<longleftrightarrow> D (r_pc (vm_regs vm))
     \<and> (case isa_fetch (byte (vm_mem vm)) (r_pc (vm_regs vm)) of
          Ok i \<Rightarrow> \<forall>a \<in> touched (i_inst i) (vm_reg vm). D a | _ \<Rightarrow> True)
     \<and> (snd (eval_inst ops vm) = Ok () \<longrightarrow> stays D byte ops n (fst (eval_inst ops vm)))"

context controller_pair
begin

lemma steps_sim:
  assumes "sim vm1 vm2" "regs_ok (vm_regs vm1)" "stays D (mem_byte line1) ops1 n vm1"
  shows "sim_res (steps ops1 n vm1) (steps ops2 n vm2)"
  using assms
proof (induction n arbitrary: vm1 vm2)
  case (Suc n)
  obtain a1 r1 a2 r2 where e: "eval_inst ops1 vm1 = (a1, r1)" "eval_inst ops2 vm2 = (a2, r2)" by fastforce
  have "sim_res (eval_inst ops1 vm1) (eval_inst ops2 vm2)"
  proof (rule eval_sim [OF Suc.prems(1,2)])
    show "D (r_pc (vm_regs vm1))" using Suc.prems(3) by simp
    show "D a" if "isa_fetch (mem_byte line1 (vm_mem vm1)) (r_pc (vm_regs vm1)) = Ok i"
      "a \<in> touched (i_inst i) (vm_reg vm1)" for i a
      using Suc.prems(3) that by simp
  qed
  then have r: "r1 = r2" "r1 = Ok () \<Longrightarrow> sim a1 a2" by (auto simp: sim_res_def e)
  have "inv1 (vm_mem vm1)" using Suc.prems(1) by (simp add: vm_sim_def mem_sim_def)
  then have "regs_ok (vm_regs a1)" if "r1 = Ok ()"
    using A.eval_ok [OF _ Suc.prems(2)] e(1) that by (auto simp: step_post_def Let_def)
  then show ?case
    using Suc.IH [of a1 a2] Suc.prems(3) r(2)
    unfolding steps.simps e prod.case Let_def r(1) [symmetric] by (intro sim_res_attempt) (simp add: e)
qed (simp add: sim_res_def)

end

section \<open>Properties\<close>

text \<open>C12: running with proofs computes the same as running without. Two machines that differ only in
  their memory, one paged and one a Merkle trie with the same bytes below \<open>0x80000000\<close>, give the same
  outcome after any number of steps as long as the accesses stay below that address, and then still agree
  on registers, system-call state, counters and those bytes.\<close>

theorem paged_trie_run:
  fixes vm1 :: "(paged, 'f::field unchecked_memory) nexus_vm"
  assumes "vm_sim paged_inv (mem_byte paged_line) (trie_inv P) (mem_byte trie_line) lower_half vm1 vm2"
    and "regs_ok (vm_regs vm1)" "stays lower_half (mem_byte paged_line) paged_ops n vm1"
  shows "snd (steps paged_ops n vm1) = snd (steps (trie_ops P) n vm2)
    \<and> (snd (steps paged_ops n vm1) = Ok () \<longrightarrow>
         vm_sim paged_inv (mem_byte paged_line) (trie_inv P) (mem_byte trie_line) lower_half
           (fst (steps paged_ops n vm1)) (fst (steps (trie_ops P) n vm2)))"
  using pt.steps_sim [OF assms] unfolding pt.sim_res_def by simp

theorem paged_trie_run_witness:
  "snd (steps paged_ops 1 (vm_new paged_ops (unchecked_ops :: (rat unchecked_memory, rat) proof_ops) 0x1000)) =
   snd (steps (trie_ops sample_params) 1 (vm_new (trie_ops sample_params) path_ops 0x1000))"
proof -
  let ?v1 = "vm_new paged_ops (unchecked_ops :: (rat unchecked_memory, rat) proof_ops) 0x1000"
    and ?v2 = "vm_new (trie_ops sample_params) path_ops 0x1000"
  have b1: "mem_byte paged_line (vm_mem ?v1) = (\<lambda>_. 0)"
    by (simp add: fun_eq_iff vm_new_def vm_default_def mem_byte_def line_byte_def paged_ops_def cl_zero_def)
      (simp add: nth_replicate unat_and_mask)
  have b2: "mem_byte trie_line (vm_mem ?v2) = (\<lambda>_. 0)"
    using trie_default_inv(2) [OF sample_total]
    by (simp add: fun_eq_iff vm_new_def vm_default_def mem_byte_def line_byte_def cl_zero_def)
      (simp add: nth_replicate unat_and_mask)
  have m: "vm_mem ?v1 = paged_default" "vm_mem ?v2 = mem_default (trie_ops sample_params)"
    by (simp_all add: vm_new_def vm_default_def paged_ops_def)
  have "vm_sim paged_inv (mem_byte paged_line) (trie_inv sample_params) (mem_byte trie_line) lower_half ?v1 ?v2"
    unfolding vm_sim_def mem_sim_def b1 b2 using trie_default_inv(1) [OF sample_total]
    by (simp add: m) (simp add: erase_mem_def vm_new_def vm_default_def)
  moreover have "regs_ok (vm_regs ?v1)" by (simp add: vm_new_def vm_default_def regs_default_def regs_ok_def)
  moreover have pc: "r_pc (vm_regs ?v1) = 0x1000" by (simp add: vm_new_def vm_default_def)
  have f: "isa_fetch (\<lambda>_. 0) 0x1000 = Err (InvalidSize 0x1000 2)" by code_simp
  have "stays lower_half (mem_byte paged_line) paged_ops 1 ?v1"
    unfolding One_nat_def stays.simps b1 pc f by (simp add: lower_half_def)
  ultimately show ?thesis using paged_trie_run [of sample_params ?v1 ?v2 1] by blast
qed

end
