(* ===== verification/Trace_Correct.thy ===== *)
theory Trace_Correct
  imports Trace Simulation
begin

text \<open>
  Correctness of traces.  The alternative parser that fills in witnesses agrees with the decoder; replaying
  a recorded block gives, step by step, the registers the machine had, except after an \<^verbatim>\<open>ebreak\<close> or
  \<^verbatim>\<open>unimp\<close> with a destination register.
\<close>

section \<open>The alternative parser\<close>

abbreviation operand :: "u32 option \<Rightarrow> u32" where
  "operand f \<equiv> (case f of Some v \<Rightarrow> v | None \<Rightarrow> 0)"

text \<open>The destination register \<open>parse_alt\<close> finds: that of the instruction, but for \<^verbatim>\<open>unimp\<close> the bits of the word.\<close>

definition alt_rd :: "u32 \<Rightarrow> rv32 \<Rightarrow> u32" where
  "alt_rd word i = (if i = UNIMP then p_rd word else operand (rv32_rd i))"

lemma parse_alt_agrees:
  assumes "parse_u32 word = Some i" "length (r_x regs) = 32"
  obtains w where "parse_alt pops regs word = Ok w" "w_rd w = alt_rd word i" "w_rs1 w = operand (rv32_rs1 i)"
    "w_rs2 w = operand (rv32_rs2 i)" "w_I w = operand (rv32_imm i)"
proof -
  have r: "p_rs2 word < 32" by (rule fields_less)
  have "\<exists>w. parse_alt pops regs word = Ok w \<and> w_rd w = alt_rd word i \<and> w_rs1 w = operand (rv32_rs1 i)
      \<and> w_rs2 w = operand (rv32_rs2 i) \<and> w_I w = operand (rv32_imm i)"
    using assms(1) r assms(2)
    by (auto simp: parse_u32_def parse_alt_def Let_def alt_rd_def witness_default_def split: if_splits)
  then show thesis using that by blast
qed

section \<open>Replaying a step\<close>

text \<open>A step whose instruction has no destination register the machine ignores.\<close>

definition replayable :: "'p step \<Rightarrow> bool" where
  "replayable s \<longleftrightarrow> (case parse_u32 (st_inst s) of
     Some (EBREAK rd) \<Rightarrow> rd = 0 | Some UNIMP \<Rightarrow> p_rd (st_inst s) = 0 | _ \<Rightarrow> True)"

text \<open>A witness describes a step between two register files.\<close>

definition witness_ok :: "'p witness \<Rightarrow> regs \<Rightarrow> regs \<Rightarrow> bool" where
  "witness_ok w regs regs' \<longleftrightarrow> (\<exists>i. parse_u32 (w_inst w) = Some i \<and> w_J w = index_j i
     \<and> w_rs1 w = operand (rv32_rs1 i) \<and> w_rs2 w = operand (rv32_rs2 i) \<and> w_I w = operand (rv32_imm i)
     \<and> w_rd w = alt_rd (w_inst w) i) \<and> w_regs w = regs
     \<and> w_X w = r_x regs ! unat (w_rs1 w) \<and> w_Y w = r_x regs ! unat (w_rs2 w)
     \<and> w_PC w = r_pc regs' \<and> r_x regs' = put_reg (r_x regs) (w_rd w) (w_Z w)"

lemma alt_rd_less: "parse_u32 word = Some i \<Longrightarrow> alt_rd word i < 32"
  using wf_parse [of word i] by (cases i) (auto simp: alt_rd_def fields_less)

lemma operand_less: "parse_u32 word = Some i \<Longrightarrow> operand (rv32_rs1 i) < 32"
  "parse_u32 word = Some i \<Longrightarrow> operand (rv32_rs2 i) < 32"
  using wf_parse [of word i] by (cases i; auto)+

lemma isa_write_alt:
  assumes "parse_u32 word = Some i" "\<forall>w. isa_write i pc reg mem z = Some w \<longrightarrow> snd w = z"
    and "case i of EBREAK rd \<Rightarrow> rd = 0 | UNIMP \<Rightarrow> p_rd word = 0 | _ \<Rightarrow> True"
  shows "isa_regs (isa_write i pc reg mem z) reg = isa_regs (Some (alt_rd word i, z)) reg"
  using assms(2,3) by (cases i) (auto simp: isa_regs_def alt_rd_def fun_eq_iff)

lemma regs_eqI:
  assumes "length x = 32" "length x' = 32" "rd < 32"
    and "\<And>r. x' ! unat r = (if r = rd \<and> rd \<noteq> 0 then z else x ! unat (r :: u32))"
  shows "x' = put_reg x rd z"
proof (rule nth_equalityI)
  fix j assume "j < length x'"
  then have "unat (word_of_nat j :: u32) = j" using assms(2) by (simp add: unat_of_nat)
  then show "x' ! j = put_reg x rd z ! j"
    using assms(4) [of "word_of_nat j"] put_reg_nth [OF assms(1,3), of z "word_of_nat j"] by simp
qed (simp add: assms)

lemma iter_next_ok:
  assumes "parse_u32 (st_inst s) = Some i" "regs_ok regs"
  shows "\<exists>w. iter_next pops regs s = Ok (w, \<lparr>r_pc = (case st_PC s of Some pc \<Rightarrow> pc | None \<Rightarrow> r_pc regs + 4),
       r_x = put_reg (r_x regs) (alt_rd (st_inst s) i) (st_Z s)\<rparr>)
    \<and> (\<forall>regs'. r_pc regs' = (case st_PC s of Some pc \<Rightarrow> pc | None \<Rightarrow> r_pc regs + 4)
         \<longrightarrow> r_x regs' = put_reg (r_x regs) (alt_rd (st_inst s) i) (st_Z s) \<longrightarrow> witness_ok w regs regs')"
proof -
  have len: "length (r_x regs) = 32" using assms(2) by (simp add: regs_ok_def)
  obtain w where w: "parse_alt pops regs (st_inst s) = Ok w" "w_rd w = alt_rd (st_inst s) i"
    "w_rs1 w = operand (rv32_rs1 i)" "w_rs2 w = operand (rv32_rs2 i)" "w_I w = operand (rv32_imm i)"
    using assms(1) len by (rule parse_alt_agrees)
  have small: "unat (operand (rv32_rs1 i)) < 32" "unat (operand (rv32_rs2 i)) < 32" "unat (alt_rd (st_inst s) i) < 32"
    using operand_less [OF assms(1)] alt_rd_less [OF assms(1)] by (simp_all add: word_less_nat_alt)
  show ?thesis
    using w small len assms(1)
    by (simp add: iter_next_def Let_def witness_ok_def put_reg_def word_gt_0)
qed

section \<open>Replaying a block\<close>

lemma trace_step_eval:
  assumes "trace_step ops vm = (vm', Ok s)"
  shows "eval_inst ops vm = (vm', Ok ())" "st_inst s = i_word (vm_inst vm')" "st_Z s = vm_Z vm'"
    "(case st_PC s of Some pc \<Rightarrow> pc | None \<Rightarrow> r_pc (vm_regs vm) + 4) = r_pc (vm_regs vm')"
  using assms by (auto simp: trace_step_def result_simps split: prod.splits)

context memory_controller
begin

lemma trace_step_parse:
  assumes "inv (vm_mem vm)" "regs_ok (vm_regs vm)" "trace_step ops vm = (vm', Ok s)"
  shows "step_post inv (mem_byte line) canon vm vm'" "parse_u32 (st_inst s) = Some (i_inst (vm_inst vm'))"
proof -
  note st = trace_step_eval [OF assms(3)]
  let ?mem = "mem_byte line (vm_mem vm)" and ?pc = "r_pc (vm_regs vm)"
  show post: "step_post inv (mem_byte line) canon vm vm'" using assms(1,2) st(1) by (rule eval_ok)
  then have "isa_fetch ?mem ?pc = Ok (vm_inst vm')" by (simp add: step_post_def Let_def)
  then have "parse_inst ?pc (to_le_bytes (load_spec LW ?mem ?pc)) = Ok (vm_inst vm')"
    by (simp add: isa_fetch_def del: load_spec.simps split: if_splits)
  from parse_inst_Ok [OF this] show "parse_u32 (st_inst s) = Some (i_inst (vm_inst vm'))" unfolding st(2) by blast
qed

lemma trace_step_replay:
  assumes "inv (vm_mem vm)" "regs_ok (vm_regs vm)" "trace_step ops vm = (vm', Ok s)"
  shows "inv (vm_mem vm')" "regs_ok (vm_regs vm')"
    and "replayable s \<Longrightarrow> \<exists>w. iter_next pops (vm_regs vm) s = Ok (w, vm_regs vm')
      \<and> witness_ok w (vm_regs vm) (vm_regs vm')"
proof -
  note st = trace_step_eval [OF assms(3)] and post = trace_step_parse(1) [OF assms]
    and p = trace_step_parse(2) [OF assms]
  let ?i = "i_inst (vm_inst vm')" and ?z = "vm_Z vm'"
  show regs': "regs_ok (vm_regs vm')" and "inv (vm_mem vm')" using post by (simp_all add: step_post_def Let_def)
  assume "replayable s"
  then have rep: "case ?i of EBREAK rd \<Rightarrow> rd = 0 | UNIMP \<Rightarrow> p_rd (st_inst s) = 0 | _ \<Rightarrow> True"
    by (simp add: replayable_def p)
  have "vm_reg vm' r = isa_regs (Some (alt_rd (st_inst s) ?i, ?z)) (vm_reg vm) r" for r
    using post isa_write_alt [OF p _ rep] by (simp add: step_post_def Let_def)
  then have "r_x (vm_regs vm') = put_reg (r_x (vm_regs vm)) (alt_rd (st_inst s) ?i) (st_Z s)"
    using assms(2) regs' alt_rd_less [OF p]
    by (intro regs_eqI) (auto simp: regs_ok_def isa_regs_def vm_reg_def st(3))
  then show "\<exists>w. iter_next pops (vm_regs vm) s = Ok (w, vm_regs vm') \<and> witness_ok w (vm_regs vm) (vm_regs vm')"
    using iter_next_ok [OF p assms(2), of pops] st(4) by (metis regs.surjective old.unit.exhaust)
qed

lemma k_step_loop_replay:
  assumes "inv (vm_mem vm)" "regs_ok (vm_regs vm)" "k_step_loop ops vm k block = (vm', Ok b)"
  shows "\<exists>ss. b = block\<lparr>bl_steps := bl_steps block @ ss\<rparr> \<and> length ss = k \<and> steps ops k vm = (vm', Ok ())
    \<and> ((\<forall>s \<in> set ss. replayable s) \<longrightarrow> (\<exists>ws. iter_all pops (vm_regs vm) ss = Ok (ws, vm_regs vm') \<and> length ws = k
         \<and> (\<forall>j<k. witness_ok (ws ! j) (vm_regs (fst (steps ops j vm))) (vm_regs (fst (steps ops (Suc j) vm))))))"
  using assms
proof (induction k arbitrary: vm block)
  case 0
  then show ?case by simp
next
  case (Suc k)
  obtain vm1 r where t: "trace_step ops vm = (vm1, r)" by fastforce
  then obtain s where s: "trace_step ops vm = (vm1, Ok s)"
    "k_step_loop ops vm1 k (block\<lparr>bl_steps := bl_steps block @ [s]\<rparr>) = (vm', Ok b)"
    using Suc.prems(3) by (cases r) auto
  note st = trace_step_replay [OF Suc.prems(1,2) s(1)] and ev = trace_step_eval(1) [OF s(1)]
  from Suc.IH [OF st(1,2) s(2)] obtain ss where ss:
    "b = block\<lparr>bl_steps := bl_steps block @ s # ss\<rparr>" "length ss = k" "steps ops k vm1 = (vm', Ok ())"
    "(\<forall>s \<in> set ss. replayable s) \<Longrightarrow> \<exists>ws. iter_all pops (vm_regs vm1) ss = Ok (ws, vm_regs vm') \<and> length ws = k
         \<and> (\<forall>j<k. witness_ok (ws ! j) (vm_regs (fst (steps ops j vm1))) (vm_regs (fst (steps ops (Suc j) vm1))))"
    by auto
  have run: "steps ops (Suc j) vm = steps ops j vm1" for j by (simp add: ev)
  show ?case
  proof (intro exI [of _ "s # ss"] conjI impI)
    assume rep: "\<forall>s \<in> set (s # ss). replayable s"
    then obtain w where w: "iter_next pops (vm_regs vm) s = Ok (w, vm_regs vm1)"
      "witness_ok w (vm_regs vm) (vm_regs vm1)" using st(3) by auto
    obtain ws where ws: "iter_all pops (vm_regs vm1) ss = Ok (ws, vm_regs vm')" "length ws = k"
      "\<And>j. j < k \<Longrightarrow> witness_ok (ws ! j) (vm_regs (fst (steps ops j vm1))) (vm_regs (fst (steps ops (Suc j) vm1)))"
      using ss(4) rep by auto
    have "witness_ok ((w # ws) ! j) (vm_regs (fst (steps ops j vm))) (vm_regs (fst (steps ops (Suc j) vm)))"
      if "j < Suc k" for j
      using w(2) ws(3) [of "j - 1"] that by (cases j) (simp_all add: ev)
    then show "\<exists>ws. iter_all pops (vm_regs vm) (s # ss) = Ok (ws, vm_regs vm') \<and> length ws = Suc k
        \<and> (\<forall>j<Suc k. witness_ok (ws ! j) (vm_regs (fst (steps ops j vm))) (vm_regs (fst (steps ops (Suc j) vm))))"
      using w(1) ws(1,2) by (intro exI [of _ "w # ws"]) simp
  qed (use ss run in simp_all)
qed

end

section \<open>Termination under a trace limit\<close>

context memory_controller
begin

lemma eval_loop_returns:
  assumes "inv (vm_mem vm)" "regs_ok (vm_regs vm)" "vm_max_trace_len vm = Some limit"
  shows "\<exists>vm' r. eval_loop ops vm = Some (vm', r)"
  using assms
proof (induction "limit - vm_trace_len vm" arbitrary: vm rule: less_induct)
  case less
  obtain vm1 r where e: "eval_inst ops vm = (vm1, r)" by fastforce
  show ?case
  proof (cases r)
    case (Ok u)
    have "\<not> over_limit vm" using eval_outcome(2) [OF less.prems(1,2)] e Ok by auto
    moreover have "step_post inv (mem_byte line) canon vm vm1"
      using eval_ok [OF less.prems(1,2)] e Ok by (cases u) simp
    ultimately have "inv (vm_mem vm1)" "regs_ok (vm_regs vm1)" "vm_max_trace_len vm1 = Some limit"
      "limit - vm_trace_len vm1 < limit - vm_trace_len vm"
      using less.prems(3) by (auto simp: step_post_def Let_def over_limit_def)
    then show ?thesis using less.hyps [of vm1] Ok by (subst eval_loop.simps) (simp add: e)
  qed (subst eval_loop.simps, simp add: e)+
qed

lemma steps_post:
  assumes "inv (vm_mem vm)" "regs_ok (vm_regs vm)" "steps ops k vm = (vm', Ok ())"
  shows "inv (vm_mem vm')" "regs_ok (vm_regs vm')" "vm_trace_len vm' = vm_trace_len vm + k"
    "vm_max_trace_len vm' = vm_max_trace_len vm"
    "vm_max_trace_len vm = Some limit \<Longrightarrow> 0 < k \<Longrightarrow> vm_trace_len vm < limit"
proof -
  have "inv (vm_mem vm') \<and> regs_ok (vm_regs vm') \<and> vm_trace_len vm' = vm_trace_len vm + k
    \<and> vm_max_trace_len vm' = vm_max_trace_len vm
    \<and> (vm_max_trace_len vm = Some limit \<longrightarrow> 0 < k \<longrightarrow> vm_trace_len vm < limit)"
    using assms
  proof (induction k arbitrary: vm)
    case (Suc k)
    obtain vm1 r where e: "eval_inst ops vm = (vm1, r)" by fastforce
    then have r: "r = Ok ()" "steps ops k vm1 = (vm', Ok ())" using Suc.prems(3) by (cases r; simp)+
    have "step_post inv (mem_byte line) canon vm vm1" using eval_ok [OF Suc.prems(1,2)] e r by simp
    moreover have "\<not> over_limit vm" using eval_outcome(2) [OF Suc.prems(1,2)] e r by auto
    ultimately show ?case
      using Suc.IH [of vm1] r(2) by (auto simp: step_post_def Let_def over_limit_def)
  qed simp
  then show "inv (vm_mem vm')" "regs_ok (vm_regs vm')" "vm_trace_len vm' = vm_trace_len vm + k"
    "vm_max_trace_len vm' = vm_max_trace_len vm"
    "vm_max_trace_len vm = Some limit \<Longrightarrow> 0 < k \<Longrightarrow> vm_trace_len vm < limit" by blast+
qed

lemma trace_loop_returns:
  assumes "inv (vm_mem vm)" "regs_ok (vm_regs vm)" "vm_max_trace_len vm = Some limit" "0 < k"
  shows "\<exists>vm' r. trace_loop ops k pow vm t = Some (vm', r)"
  using assms
proof (induction "limit - vm_trace_len vm" arbitrary: vm t rule: less_induct)
  case less
  obtain vm1 r where e: "k_step ops vm k = (vm1, r)" by fastforce
  show ?case
  proof (cases r)
    case (Ok b)
    then have "k_step_loop ops vm k \<lparr>bl_regs = vm_regs vm, bl_steps = []\<rparr> = (vm1, Ok b)"
      using e by (simp add: k_step_def)
    from k_step_loop_replay [OF less.prems(1,2) this] have "steps ops k vm = (vm1, Ok ())" by blast
    note p = steps_post [OF less.prems(1,2) this]
    have "limit - vm_trace_len vm1 < limit - vm_trace_len vm"
      using p(3) p(5) [OF less.prems(3,4)] less.prems(4) by simp
    then have "\<exists>vm' r. trace_loop ops k pow vm1 t' = Some (vm', r)" for t'
      using less.hyps [of vm1 t'] p less.prems by simp
    then show ?thesis using Ok by (subst trace_loop.simps) (simp add: e Let_def)
  qed (subst trace_loop.simps, simp add: e)+
qed

end

section \<open>Padding\<close>

lemma next_pow2_from_power: "\<exists>m. next_pow2_from (2 ^ e) n = 2 ^ m"
proof (induction "2 ^ e :: nat" n arbitrary: e rule: next_pow2_from.induct)
  case (1 n)
  show ?case
  proof (cases "n \<le> 2 ^ e")
    case False
    then show ?thesis using 1 [of "Suc e"] by (subst next_pow2_from.simps) simp
  qed (subst next_pow2_from.simps, auto)
qed

lemma next_power_of_two_power: "\<exists>m. next_power_of_two n = 2 ^ m"
  using next_pow2_from_power [of 0 n] by (simp add: next_power_of_two_def)

lemma trace_loop_pow:
  assumes "trace_loop ops k pow vm t = Some y"
  shows "pow \<longrightarrow> (\<forall>t'. snd y = Ok t' \<longrightarrow> (\<exists>m. length (tr_blocks t') + 1 = 2 ^ m))"
proof (rule trace_loop.raw_induct [OF _ assms])
  fix loop :: "('m, 'p) memory_ops \<Rightarrow> nat \<Rightarrow> bool \<Rightarrow> ('m, 'p) nexus_vm \<Rightarrow> 'p trace_rec
    \<Rightarrow> (('m, 'p) nexus_vm \<times> 'p trace_rec result) option"
  fix ops :: "('m, 'p) memory_ops" and k pow vm t y
  assume IH: "\<And>ops k pow vm t y. loop ops k pow vm t = Some y \<Longrightarrow>
      pow \<longrightarrow> (\<forall>t'. snd y = Ok t' \<longrightarrow> (\<exists>m. length (tr_blocks t') + 1 = 2 ^ m))"
    and body: "(case k_step ops vm k of (vm, r) \<Rightarrow>
        (case r of
           Err e \<Rightarrow> Some (vm, Err e)
         | Panic \<Rightarrow> Some (vm, Panic)
         | Ok block \<Rightarrow>
             let t = t\<lparr>tr_blocks := tr_blocks t @ [block]\<rparr>; count = length (tr_blocks t) in
             if i_inst (vm_inst vm) = UNIMP \<and> (pow \<longrightarrow> next_power_of_two count = count + 1)
             then Some (vm, Ok t)
             else loop ops k pow vm t)) = Some y"
  have "\<exists>m. n + 1 = 2 ^ m" if "next_power_of_two n = n + 1" for n
    using next_power_of_two_power [of n] that by simp
  then show "pow \<longrightarrow> (\<forall>t'. snd y = Ok t' \<longrightarrow> (\<exists>m. length (tr_blocks t') + 1 = 2 ^ m))"
    using body IH by (auto simp: Let_def split: prod.splits result.splits if_splits)
qed

section \<open>Splitting\<close>

lemma concat_chunks [simp]: "concat (chunks n xs) = xs"
  by (induction n xs rule: chunks.induct) simp_all

lemma chunks_nth:
  "i < length (chunks n xs) \<Longrightarrow> chunks n xs ! i = take (Suc n) (drop (i * Suc n) xs)"
proof (induction n xs arbitrary: i rule: chunks.induct)
  case (2 n x xs)
  then show ?case by (cases i) (simp_all add: ac_simps)
qed simp

lemma split_by_block:
  assumes "split_by t n = Ok ts" "i < length ts" "block_at (ts ! i) m = Some b" "tr_start t = 0"
  shows "block_at t m = Some b"
proof -
  obtain n' where n: "n = Suc n'" using assms(1) by (cases n) (simp_all add: split_by_def)
  let ?c = "chunks n' (tr_blocks t)"
  have ts: "ts = map (\<lambda>(i, bs). \<lparr>tr_k = tr_k t, tr_start = i * n, tr_blocks = bs\<rparr>) (enumerate 0 ?c)"
    using assms(1) by (simp add: split_by_def n)
  have i: "i < length ?c" using assms(2) by (simp add: ts)
  have ti: "ts ! i = \<lparr>tr_k = tr_k t, tr_start = i * n, tr_blocks = take n (drop (i * n) (tr_blocks t))\<rparr>"
    using i by (simp add: ts nth_enumerate_eq chunks_nth [OF i] n)
  have "i * n \<le> m" "m - i * n < length (take n (drop (i * n) (tr_blocks t)))"
    "b = take n (drop (i * n) (tr_blocks t)) ! (m - i * n)"
    using assms(3) by (auto simp: block_at_def ti split: if_splits)
  then show ?thesis using assms(4) by (auto simp: block_at_def)
qed

section \<open>Properties\<close>


lemma sample_step:
  "\<exists>vm' s. trace_step paged_ops (sample_vm 0x00500093) = (vm', Ok s) \<and> st_inst s = 0x00500093"
proof -
  have "snd (eval_inst paged_ops (sample_vm 0x00500093)) = Ok ()"
    using paged.eval_outcome(4) [OF sample_vm_ok, of "0x00500093"] sample_addi by simp
  then obtain vm' where e: "eval_inst paged_ops (sample_vm 0x00500093) = (vm', Ok ())" by (metis prod.collapse)
  from paged.eval_ok [OF sample_vm_ok this] have "i_word (vm_inst vm') = 0x00500093"
    unfolding step_post_def Let_def sample_vm_fields sample_addi by (metis inst.select_convs(3) result.inject(1))
  then show ?thesis using e by (simp add: trace_step_def)
qed


text \<open>C15: with a trace limit set, evaluation and tracing always return, whatever the program does; tracing
  for every positive block size, with and without padding.\<close>

theorem limited_runs_return:
  assumes "memory_controller ops ok line same_line canon" "ok (vm_mem vm)" "regs_ok (vm_regs vm)"
    and "vm_max_trace_len vm = Some limit" "0 < k"
  shows "(\<exists>vm' r. eval ops vm show' = Some (vm', r)) \<and> (\<exists>vm' r. trace ops vm k pow = Some (vm', r))"
proof
  let ?vm = "if show' then vm\<lparr>vm_syscalls := enable_stdout (vm_syscalls vm)\<rparr> else vm"
  have "ok (vm_mem ?vm)" "regs_ok (vm_regs ?vm)" "vm_max_trace_len ?vm = Some limit" using assms by simp_all
  from memory_controller.eval_loop_returns [OF assms(1) this]
  obtain vm' r where "eval_loop ops ?vm = Some (vm', r)" by blast
  then show "\<exists>vm' r. eval ops vm show' = Some (vm', r)" by (simp add: eval_def)
  show "\<exists>vm' r. trace ops vm k pow = Some (vm', r)"
    unfolding trace_def using memory_controller.trace_loop_returns [OF assms] by blast
qed

theorem limited_runs_return_witness:
  "\<exists>vm' r. trace paged_ops (set_max_trace_len (sample_vm 0x00500093) 100) 8 True = Some (vm', r)"
  using limited_runs_return [OF paged.memory_controller_axioms, of "set_max_trace_len (sample_vm 0x00500093) 100" 100 8]
    sample_vm_ok by (simp add: set_max_trace_len_def)

text \<open>C16: tracing with padding ends with one block fewer than a power of two, not with a power of two.\<close>

theorem trace_pow_blocks:
  assumes "trace ops vm k True = Some (vm', Ok t)"
  shows "\<exists>m. length (tr_blocks t) + 1 = 2 ^ m"
  using trace_loop_pow [of ops k True vm _ "(vm', Ok t)"] assms by (simp add: trace_def)

text \<open>A machine that sits on an unimp.\<close>

definition stuck :: "(paged, rat unchecked_memory) nexus_vm \<Rightarrow> bool" where
  "stuck vm \<longleftrightarrow> paged_inv (vm_mem vm) \<and> regs_ok (vm_regs vm) \<and> vm_max_trace_len vm = None \<and> r_pc (vm_regs vm) = 0x1000
     \<and> (\<exists>i. isa_fetch (mem_byte paged_line (vm_mem vm)) 0x1000 = Ok i \<and> i_inst i = UNIMP)"

lemma stuck_step:
  assumes "stuck vm"
  obtains vm' s where "trace_step paged_ops vm = (vm', Ok s)" "stuck vm'" "i_inst (vm_inst vm') = UNIMP"
proof -
  have pre: "paged_inv (vm_mem vm)" "regs_ok (vm_regs vm)" using assms by (simp_all add: stuck_def)
  obtain i where i: "isa_fetch (mem_byte paged_line (vm_mem vm)) (r_pc (vm_regs vm)) = Ok i" "i_inst i = UNIMP"
    using assms by (auto simp: stuck_def)
  have "\<not> over_limit vm" using assms by (simp add: stuck_def over_limit_def)
  from paged.eval_outcome(4) [OF pre this i(1)] i(2) have "snd (eval_inst paged_ops vm) = Ok ()" by simp
  then obtain vm' where e: "eval_inst paged_ops vm = (vm', Ok ())" by (metis prod.collapse)
  note post = paged.eval_ok [OF pre e]
  then have inst: "vm_inst vm' = i" using i by (simp add: step_post_def Let_def)
  then have "mem_byte paged_line (vm_mem vm') = mem_byte paged_line (vm_mem vm)"
    "r_pc (vm_regs vm') = 0x1000" "paged_inv (vm_mem vm')" "regs_ok (vm_regs vm')" "vm_max_trace_len vm' = None"
    using post i(2) assms by (simp_all add: step_post_def Let_def taken_def stuck_def)
  then have "stuck vm'" using i assms by (simp add: stuck_def)
  then show thesis using that e i(2) inst by (simp add: trace_step_def)
qed

theorem trace_pow_blocks_witness:
  "\<exists>vm' t. trace paged_ops (sample_vm 0xc0001073) 1 True = Some (vm', Ok t) \<and> length (tr_blocks t) = 3
    \<and> (\<exists>m. length (tr_blocks t) + 1 = 2 ^ m)"
proof -
  have "parse_inst 0x1000 (to_le_bytes 0xc0001073) =
      Ok \<lparr>i_pc = 0x1000, i_len = 4, i_word = 0xc0001073, i_inst = UNIMP\<rparr>" by code_simp
  then have "stuck (sample_vm 0xc0001073)" unfolding stuck_def
    by (simp add: sample_vm_ok sample_vm_fetch) (simp add: sample_vm_def vm_new_def vm_default_def)
  then obtain v1 s1 where v1: "trace_step paged_ops (sample_vm 0xc0001073) = (v1, Ok s1)" "stuck v1" "i_inst (vm_inst v1) = UNIMP"
    by (rule stuck_step)
  obtain v2 s2 where v2: "trace_step paged_ops v1 = (v2, Ok s2)" "stuck v2" "i_inst (vm_inst v2) = UNIMP"
    using v1(2) by (rule stuck_step)
  obtain v3 s3 where v3: "trace_step paged_ops v2 = (v3, Ok s3)" "i_inst (vm_inst v3) = UNIMP"
    using v2(2) by (rule stuck_step)
  have pow: "next_power_of_two (Suc 0) = 1" "next_power_of_two (Suc (Suc 0)) = 2"
    "next_power_of_two (Suc (Suc (Suc 0))) = 4" by code_simp+
  have "\<exists>vm' t. trace paged_ops (sample_vm 0xc0001073) 1 True = Some (vm', Ok t) \<and> length (tr_blocks t) = 3"
    unfolding trace_def
    by (subst trace_loop.simps, simp add: k_step_def v1 pow, subst trace_loop.simps, simp add: k_step_def v2 pow,
        subst trace_loop.simps, simp add: k_step_def v3 pow)
  then show ?thesis using trace_pow_blocks by blast
qed



text \<open>C18: replaying an ebreak writes its destination register, which the machine does not do. After the
  step the replayed register holds the recorded result and the machine's register its old value.\<close>

theorem ebreak_replay:
  assumes "memory_controller ops ok line same_line canon" "ok (vm_mem vm)" "regs_ok (vm_regs vm)"
    and "trace_step ops vm = (vm', Ok s)" "parse_u32 (st_inst s) = Some (EBREAK rd)" "rd \<noteq> 0"
  shows "\<exists>w regs'. iter_next pops (vm_regs vm) s = Ok (w, regs')
    \<and> r_x regs' ! unat rd = st_Z s \<and> r_x (vm_regs vm') ! unat rd = r_x (vm_regs vm) ! unat rd"
proof -
  note p = memory_controller.trace_step_parse [OF assms(1-4)] and st = trace_step_eval [OF assms(4)]
  have rd: "i_inst (vm_inst vm') = EBREAK rd" using p(2) assms(5) by simp
  have "rd < 32" using alt_rd_less [OF assms(5)] by (simp add: alt_rd_def)
  have "vm_reg vm' rd = vm_reg vm rd"
    using p(1) rd by (simp add: step_post_def Let_def isa_regs_def)
  moreover have "put_reg (r_x (vm_regs vm)) rd (st_Z s) ! unat rd = st_Z s"
    using put_reg_nth [of "r_x (vm_regs vm)" rd "st_Z s" rd] \<open>rd < 32\<close> assms(3,6) by (simp add: regs_ok_def)
  ultimately show ?thesis
    using iter_next_ok [OF assms(5,3), of pops] by (auto simp: alt_rd_def vm_reg_def)
qed

lemma sample_ebreak: "isa_fetch (mem_byte paged_line (vm_mem (sample_vm 0x00100073))) 0x1000 =
  Ok \<lparr>i_pc = 0x1000, i_len = 4, i_word = 0x00100573, i_inst = EBREAK 10\<rparr>"
  unfolding sample_vm_fetch by code_simp

theorem ebreak_replay_witness:
  "\<exists>vm' s w regs'. trace_step paged_ops (sample_vm 0x00100073) = (vm', Ok s)
    \<and> iter_next (unchecked_ops :: (rat unchecked_memory, rat) proof_ops) (vm_regs (sample_vm 0x00100073)) s = Ok (w, regs')
    \<and> r_x regs' ! 10 = st_Z s \<and> r_x (vm_regs vm') ! 10 = r_x (vm_regs (sample_vm 0x00100073)) ! 10"
proof -
  have "snd (eval_inst paged_ops (sample_vm 0x00100073)) = Ok ()"
    using paged.eval_outcome(4) [OF sample_vm_ok, of "0x00100073"] sample_ebreak by simp
  then obtain vm' where e: "eval_inst paged_ops (sample_vm 0x00100073) = (vm', Ok ())" by (metis prod.collapse)
  then obtain s where s: "trace_step paged_ops (sample_vm 0x00100073) = (vm', Ok s)" by (simp add: trace_step_def)
  from paged.eval_ok [OF sample_vm_ok e] have "i_inst (vm_inst vm') = EBREAK 10"
    unfolding step_post_def Let_def sample_vm_fields sample_ebreak by (metis inst.select_convs(4) result.inject(1))
  with paged.trace_step_parse(2) [OF sample_vm_ok s] have "parse_u32 (st_inst s) = Some (EBREAK 10)" by simp
  from ebreak_replay [OF paged.memory_controller_axioms sample_vm_ok s this] s show ?thesis by auto
qed

end
