(* ===== verification/R1cs.thy ===== *)
theory R1cs
  imports Prelude
begin

text \<open>
  The R1CS builder (\<^verbatim>\<open>vm/src/circuit/r1cs.rs\<close>): a witness vector, three dense matrices, and a map from
  variable names to columns.  An operation of the builder is a function from a system to a system or a
  panic; \<open>seq\<close> runs a list of them.  The closures passed to \<^verbatim>\<open>constraint\<close> write coefficients into three zero
  rows; here they are lists of such writes, to the constant column or to the column of a named variable.
  The field is any field; \<^verbatim>\<open>F::from\<close> of an unsigned integer is \<open>of_nat\<close>.
\<close>

section \<open>Names\<close>

text \<open>Decimal numerals, as \<^verbatim>\<open>format!\<close> prints them.\<close>

fun nat_str :: "nat \<Rightarrow> string" where
  "nat_str n = (if n < 10 then [char_of (48 + n)] else nat_str (n div 10) @ [char_of (48 + n mod 10)])"

declare nat_str.simps [simp del]

definition u32_str :: "u32 \<Rightarrow> string" where
  "u32_str w = nat_str (unat w)"

section \<open>The system\<close>

record 'f r1cs =
  cs_w :: "'f list"
  cs_a :: "'f list list"
  cs_b :: "'f list list"
  cs_c :: "'f list list"
  cs_arity :: nat
  cs_witness_only :: bool
  cs_vars :: "string \<rightharpoonup> nat"
  cs_locals :: "string list"

type_synonym 'f builder = "'f r1cs \<Rightarrow> 'f r1cs result"

definition r1cs_default :: "'f::field r1cs" where
  "r1cs_default = \<lparr>cs_w = [1], cs_a = [], cs_b = [], cs_c = [], cs_arity = 0, cs_witness_only = False,
     cs_vars = Map.empty, cs_locals = []\<rparr>"

fun seq :: "'f builder list \<Rightarrow> 'f builder" where
  "seq [] cs = Ok cs"
| "seq (g # gs) cs = result_bind (g cs) (seq gs)"

text \<open>A half-open range of columns.\<close>

definition input_range :: "'f r1cs \<Rightarrow> nat \<times> nat" where
  "input_range cs = (1, 1 + cs_arity cs)"

definition output_range :: "'f r1cs \<Rightarrow> nat \<times> nat" where
  "output_range cs = (1 + cs_arity cs, 1 + 2 * cs_arity cs)"

definition slice_range :: "'a list \<Rightarrow> nat \<times> nat \<Rightarrow> 'a list result" where
  "slice_range xs r = (if fst r \<le> snd r \<and> snd r \<le> length xs then Ok (take (snd r - fst r) (drop (fst r) xs)) else Panic)"

definition cs_input :: "'f r1cs \<Rightarrow> 'f list result" where
  "cs_input cs = slice_range (cs_w cs) (input_range cs)"

definition cs_output :: "'f r1cs \<Rightarrow> 'f list result" where
  "cs_output cs = slice_range (cs_w cs) (output_range cs)"

section \<open>Variables\<close>

definition new_var :: "'f::field r1cs \<Rightarrow> string \<Rightarrow> 'f r1cs \<times> nat" where
  "new_var cs name = (case cs_vars cs name of
     Some n \<Rightarrow> (cs, n)
   | None \<Rightarrow>
       let n = length (cs_w cs);
           cs = cs\<lparr>cs_vars := (cs_vars cs)(name \<mapsto> n), cs_w := cs_w cs @ [0]\<rparr> in
       (if cs_a cs \<noteq> [] then cs\<lparr>cs_a := map (\<lambda>v. v @ [0]) (cs_a cs), cs_b := map (\<lambda>v. v @ [0]) (cs_b cs),
            cs_c := map (\<lambda>v. v @ [0]) (cs_c cs)\<rparr> else cs, n))"

definition cs_var :: "'f r1cs \<Rightarrow> string \<Rightarrow> nat result" where
  "cs_var cs name = unwrap (cs_vars cs name)"

definition get_var :: "'f r1cs \<Rightarrow> string \<Rightarrow> 'f result" where
  "get_var cs name = result_bind (cs_var cs name) (index (cs_w cs))"

definition has_var :: "'f r1cs \<Rightarrow> string \<Rightarrow> bool" where
  "has_var cs name \<longleftrightarrow> cs_vars cs name \<noteq> None"

text \<open>\<^verbatim>\<open>cs.w[j] = val\<close> for the column of a variable.\<close>

definition assign :: "string \<Rightarrow> 'f \<Rightarrow> 'f builder" where
  "assign name val cs = result_bind (cs_var cs name) (\<lambda>j.
     if j < length (cs_w cs) then Ok (cs\<lparr>cs_w := (cs_w cs)[j := val]\<rparr>) else Panic)"

definition declare_var :: "string \<Rightarrow> 'f::field builder" where
  "declare_var name cs = Ok (fst (new_var cs name))"

definition set_field_var :: "string \<Rightarrow> 'f::field \<Rightarrow> 'f builder" where
  "set_field_var name val = seq [declare_var name, assign name val]"

definition set_var :: "string \<Rightarrow> u32 \<Rightarrow> 'f::field builder" where
  "set_var name val = set_field_var name (of_nat (unat val))"

definition new_local_var :: "string \<Rightarrow> 'f::field builder" where
  "new_local_var name cs =
     (if cs_vars cs name \<noteq> None then Panic
      else let cs = fst (new_var cs name) in Ok (cs\<lparr>cs_locals := cs_locals cs @ [name]\<rparr>))"

definition seal :: "'f builder" where
  "seal cs = Ok (cs\<lparr>cs_vars := fold (\<lambda>v m. m(v := None)) (cs_locals cs) (cs_vars cs), cs_locals := []\<rparr>)"

text \<open>Reading the witness value of a variable, and branching on the witness-only mode.\<close>

definition with_var :: "string \<Rightarrow> ('f \<Rightarrow> 'f builder) \<Rightarrow> 'f builder" where
  "with_var name f cs = result_bind (get_var cs name) (\<lambda>v. f v cs)"

definition unless_witness_only :: "'f builder \<Rightarrow> 'f builder" where
  "unless_witness_only g cs = (if cs_witness_only cs then Ok cs else g cs)"

definition set_local :: "string \<Rightarrow> 'f::field \<Rightarrow> 'f builder" where
  "set_local name val = seq [new_local_var name, assign name val]"

section \<open>Constraints\<close>

datatype ref = One | Var string

text \<open>A write into a row: assign a coefficient, or add to it.\<close>

datatype 'f entry = Put (entry_ref: ref) (entry_coef: 'f) | Acc (entry_ref: ref) (entry_coef: 'f)

fun resolve :: "'f r1cs \<Rightarrow> ref \<Rightarrow> nat result" where
  "resolve cs One = Ok 0"
| "resolve cs (Var name) = cs_var cs name"

fun fill :: "'f::field r1cs \<Rightarrow> 'f entry list \<Rightarrow> 'f list \<Rightarrow> 'f list result" where
  "fill cs [] row = Ok row"
| "fill cs (e # es) row = result_bind (resolve cs (entry_ref e)) (\<lambda>j.
     if j < length row
     then fill cs es (row[j := (case e of Put _ x \<Rightarrow> x | Acc _ x \<Rightarrow> row ! j + x)])
     else Panic)"

definition constraint :: "'f::field entry list \<Rightarrow> 'f entry list \<Rightarrow> 'f entry list \<Rightarrow> 'f builder" where
  "constraint a b c cs =
     (if cs_witness_only cs then Ok cs
      else let zeros = replicate (length (cs_w cs)) 0 in
        result_bind (fill cs a zeros) (\<lambda>ra.
        result_bind (fill cs b zeros) (\<lambda>rb.
        result_bind (fill cs c zeros) (\<lambda>rc.
        Ok (cs\<lparr>cs_a := cs_a cs @ [ra], cs_b := cs_b cs @ [rb], cs_c := cs_c cs @ [rc]\<rparr>)))))"

definition set_eq :: "string \<Rightarrow> string \<Rightarrow> 'f::field builder" where
  "set_eq name var = with_var var (\<lambda>v. seq [declare_var name, assign name v,
     constraint [Put (Var var) 1] [Put One 1] [Put (Var name) 1]])"

definition set_bit :: "string \<Rightarrow> bool \<Rightarrow> 'f::field builder" where
  "set_bit name val = seq [declare_var name, assign name (of_bool val),
     constraint [Put One (- 1), Put (Var name) 1] [Put (Var name) 1] []]"

definition to_bits :: "string \<Rightarrow> u32 \<Rightarrow> 'f::field builder" where
  "to_bits name val = seq
     [set_var name val,
      seq (map (\<lambda>i. set_bit (name @ ''_'' @ nat_str i) (drop_bit i val AND 1 = 1)) [0..<32]),
      constraint (map (\<lambda>i. Put (Var (name @ ''_'' @ nat_str i)) (of_nat (2 ^ i))) [0..<32])
        [Put One 1] [Put (Var name) 1]]"

definition eqi :: "string \<Rightarrow> 'f::field \<Rightarrow> 'f builder" where
  "eqi v0 x = constraint [Put (Var v0) 1] [Put One 1] [Put One x]"

definition cs_add :: "string \<Rightarrow> string \<Rightarrow> string \<Rightarrow> 'f::field builder" where
  "cs_add v0 v1 v2 = constraint [Put (Var v1) 1, Put (Var v2) 1] [Put One 1] [Put (Var v0) 1]"

definition cs_addi :: "string \<Rightarrow> string \<Rightarrow> 'f::field \<Rightarrow> 'f builder" where
  "cs_addi v0 v1 x = constraint [Put One x, Put (Var v1) 1] [Put One 1] [Put (Var v0) 1]"

definition cs_mul :: "string \<Rightarrow> string \<Rightarrow> string \<Rightarrow> 'f::field builder" where
  "cs_mul v0 v1 v2 = constraint [Put (Var v1) 1] [Put (Var v2) 1] [Put (Var v0) 1]"

definition cs_muli :: "string \<Rightarrow> string \<Rightarrow> 'f::field \<Rightarrow> 'f builder" where
  "cs_muli v0 v1 x = constraint [Put One x] [Put (Var v1) 1] [Put (Var v0) 1]"

definition cs_nand :: "string \<Rightarrow> string \<Rightarrow> 'f::field builder" where
  "cs_nand v0 v1 = constraint [Put (Var v0) 1] [Put (Var v1) 1] []"

definition merge_M :: "nat \<Rightarrow> nat \<Rightarrow> 'f::field list list \<Rightarrow> 'f list list \<Rightarrow> 'f list list" where
  "merge_M left_len len x y =
     map (\<lambda>r. take len r @ replicate (len - length r) 0) x @ map (\<lambda>right. replicate left_len 0 @ right) y"

definition merge :: "'f::field r1cs \<Rightarrow> 'f r1cs \<Rightarrow> 'f r1cs" where
  "merge cs1 cs2 =
     (let left_len = length (cs_w cs1); len = left_len + length (cs_w cs2) in
      cs1\<lparr>cs_w := cs_w cs1 @ cs_w cs2,
         cs_a := merge_M left_len len (cs_a cs1) (cs_a cs2),
         cs_b := merge_M left_len len (cs_b cs1) (cs_b cs2),
         cs_c := merge_M left_len len (cs_c cs1) (cs_c cs2),
         cs_vars := (\<lambda>n. case cs_vars cs2 n of Some i \<Rightarrow> Some (left_len + i) | None \<Rightarrow> cs_vars cs1 n)\<rparr>)"

definition dot :: "'f::field list \<Rightarrow> 'f list \<Rightarrow> 'f" where
  "dot a b = sum_list (map (\<lambda>(a, b). a * b) (zip a b))"

definition MxV :: "'f::field list list \<Rightarrow> 'f list \<Rightarrow> 'f list" where
  "MxV m v = map (\<lambda>r. dot r v) m"

definition is_sat :: "'f::field r1cs \<Rightarrow> bool" where
  "is_sat cs =
     (let x = MxV (cs_a cs) (cs_w cs); y = MxV (cs_b cs) (cs_w cs); z = MxV (cs_c cs) (cs_w cs) in
      list_all (\<lambda>i. x ! i * y ! i = z ! i) [0..<length x])"

section \<open>Membership and selection\<close>

fun unique_values_loop :: "'a set \<Rightarrow> 'a list \<Rightarrow> bool" where
  "unique_values_loop seen [] = True"
| "unique_values_loop seen (v # vs) = (if v \<in> seen then False else unique_values_loop (insert v seen) vs)"

definition unique_values :: "'a list \<Rightarrow> bool" where
  "unique_values vs = unique_values_loop {} vs"

abbreviation num :: "u32 \<Rightarrow> 'f::field" where
  "num x \<equiv> of_nat (unat x)"

text \<open>The constant \<^verbatim>\<open>C\<close> of \<^verbatim>\<open>member\<close>: the product of \<open>k - x\<close> over the other elements.\<close>

definition member_C :: "u32 list \<Rightarrow> u32 \<Rightarrow> 'f::field" where
  "member_C s k = prod_list (map (\<lambda>x. num k - num x) (filter (\<lambda>x. x \<noteq> k) s))"

definition member_witness :: "string \<Rightarrow> u32 \<Rightarrow> u32 list \<Rightarrow> nat \<Rightarrow> 'f::field builder" where
  "member_witness name k s i =
     (let n = length s; x = num k; i2 = n - 1 - i in seq
      [set_local (''x-'' @ nat_str i) (x - num (s ! i)),
       set_local (''l'' @ nat_str i) (prod_list (map (\<lambda>y. x - num y) (take (Suc i) s))),
       set_local (''r'' @ nat_str i2) (prod_list (map (\<lambda>y. x - num y) (drop i2 s))),
       set_local (''cx'' @ nat_str i) (if s ! i = k then member_C s (s ! i) else 0),
       set_field_var (name @ ''='' @ u32_str (s ! i)) (if s ! i = k then 1 else 0)])"

definition member_constraints :: "string \<Rightarrow> u32 list \<Rightarrow> nat \<Rightarrow> 'f::field builder" where
  "member_constraints name s i =
     (let n = length s in seq
      [cs_addi (''x-'' @ nat_str i) name (0 - num (s ! i)),
       (if i = 0 then cs_muli ''l0'' ''x-0'' 1
        else cs_mul (''l'' @ nat_str i) (''l'' @ nat_str (i - 1)) (''x-'' @ nat_str i)),
       (if i = n - 1 then cs_muli (''r'' @ nat_str i) (''x-'' @ nat_str i) 1
        else cs_mul (''r'' @ nat_str i) (''x-'' @ nat_str i) (''r'' @ nat_str (i + 1))),
       (if i = 0 then cs_muli ''cx0'' ''r1'' 1
        else if i = n - 1 then cs_muli (''cx'' @ nat_str i) (''l'' @ nat_str (i - 1)) 1
        else cs_mul (''cx'' @ nat_str i) (''l'' @ nat_str (i - 1)) (''r'' @ nat_str (i + 1))),
       (let c = member_C s (s ! i) in
        if c = 0 then (\<lambda>cs. Panic)
        else cs_muli (name @ ''='' @ u32_str (s ! i)) (''cx'' @ nat_str i) (1 / c))])"

definition member :: "string \<Rightarrow> u32 \<Rightarrow> u32 list \<Rightarrow> 'f::field builder" where
  "member name k s =
     (let n = length s in seq
      [declare_var name, assign name (num k),
       seq (map (member_witness name k s) [0..<n]),
       unless_witness_only (seq
         [eqi ''r0'' 0,
          eqi (''l'' @ nat_str (n - 1)) 0,
          seq (map (member_constraints name s) [0..<n])]),
       seal])"

definition selector :: "string \<Rightarrow> u32 \<Rightarrow> u32 \<Rightarrow> 'f::field builder" where
  "selector name n k cs = (if n > 2 \<and> k < n then member name k (map word_of_nat [0..<unat n]) cs else Panic)"

definition load_array :: "string \<Rightarrow> string \<Rightarrow> string \<Rightarrow> u32 \<Rightarrow> u32 \<Rightarrow> 'f::field builder" where
  "load_array input output arr sz rs = seq
     [selector input sz rs,
      declare_var input, assign input (num rs),
      seq (map (\<lambda>i. with_var (arr @ nat_str i) (\<lambda>reg.
        set_local (''rsx'' @ nat_str i) (if i = unat rs then reg else 0))) [0..<unat sz]),
      declare_var output,
      with_var (arr @ u32_str rs) (assign output),
      unless_witness_only (seq
        [seq (map (\<lambda>i. cs_mul (''rsx'' @ nat_str i) (input @ ''='' @ nat_str i) (arr @ nat_str i)) [0..<unat sz]),
         constraint (map (\<lambda>i. Put (Var (''rsx'' @ nat_str i)) 1) [0..<unat sz]) [Put One 1] [Put (Var output) 1]]),
      seal]"

definition load_reg :: "string \<Rightarrow> string \<Rightarrow> u32 \<Rightarrow> 'f::field builder" where
  "load_reg input output rs = load_array input output ''x'' 32 rs"

definition xout :: "nat \<Rightarrow> string" where
  "xout i = ''x'' @ [CHR 0x27] @ nat_str i"

definition store_reg :: "string \<Rightarrow> string \<Rightarrow> u32 \<Rightarrow> 'f::field builder" where
  "store_reg input output rs = with_var output (\<lambda>z. seq
     [selector input 32 rs,
      declare_var input, assign input (num rs),
      declare_var (xout 0), new_local_var ''rsx0'', new_local_var ''z0'',
      seq (map (\<lambda>i. with_var (''x'' @ nat_str i) (\<lambda>reg. seq
        [set_field_var (xout i) (if i = unat rs then z else reg),
         set_local (''rsx'' @ nat_str i) (if i \<noteq> unat rs then reg else 0),
         set_local (''z'' @ nat_str i) (if i = unat rs then z else 0)])) [1..<32]),
      unless_witness_only (seq (map (\<lambda>i. seq
        [constraint [Put One 1, Put (Var (input @ ''='' @ nat_str i)) (- 1)] [Put (Var (''x'' @ nat_str i)) 1]
           [Put (Var (''rsx'' @ nat_str i)) 1],
         cs_mul (''z'' @ nat_str i) (input @ ''='' @ nat_str i) output,
         cs_add (xout i) (''rsx'' @ nat_str i) (''z'' @ nat_str i)]) [1..<32])),
      seal])"

end
