(* ===== verification/Riscv.thy ===== *)
theory Riscv
  imports R1cs Trace
begin

text \<open>
  The step circuit (\<^verbatim>\<open>vm/src/circuit/riscv.rs\<close>): from the witness of one step of the machine, the R1CS
  that relates the registers and the memory root before the step to those after it.  Every function of the
  file is a builder, in the order of the file.  \<^verbatim>\<open>into_bigint\<close>, the canonical representative of a field
  element, belongs to the field library and is the parameter \<open>bigint\<close>.
\<close>

section \<open>Reading\<close>

definition with_result :: "'a result \<Rightarrow> ('a \<Rightarrow> 'f builder) \<Rightarrow> 'f builder" where
  "with_result r f cs = result_bind r (\<lambda>v. f v cs)"

definition with_col :: "string \<Rightarrow> (nat \<Rightarrow> 'f builder) \<Rightarrow> 'f builder" where
  "with_col name f cs = result_bind (cs_var cs name) (\<lambda>j. f j cs)"

text \<open>The loops that give successive bits of a variable successive powers of two.\<close>

fun bit_entries :: "string \<Rightarrow> nat list \<Rightarrow> 'f::field \<Rightarrow> 'f entry list" where
  "bit_entries name [] pow = []"
| "bit_entries name (i # is) pow = Put (Var (name @ ''_'' @ nat_str i)) pow # bit_entries name is (pow * 2)"

definition ARITY :: nat where
  "ARITY = 34"

definition add_proof :: "('p, 'f::field) proof_ops \<Rightarrow> string \<Rightarrow> 'p \<Rightarrow> 'f builder" where
  "add_proof pops prefix proof = seq
     [set_field_var (prefix @ ''_lo'') (fst (proof_data pops proof)),
      set_field_var (prefix @ ''_hi'') (snd (proof_data pops proof))]"

definition init_cs :: "('p, 'f::field) proof_ops \<Rightarrow> 'p witness \<Rightarrow> 'f r1cs result" where
  "init_cs pops w = seq
     [set_var ''pc'' (r_pc (w_regs w)),
      seq (map (\<lambda>i. with_result (index (r_x (w_regs w)) i) (set_var (''x'' @ nat_str i))) [0..<32]),
      set_field_var ''root'' (proof_commit pops (w_pc_proof w)),
      set_var ''PC'' (w_PC w),
      seq (map (\<lambda>i. with_result (index (r_x (w_regs w)) i) (set_var (xout i))) [0..<32]),
      set_field_var ''ROOT'' (proof_commit pops (w_write_proof w)),
      add_proof pops ''pc_mem'' (w_pc_proof w),
      add_proof pops ''read_mem'' (w_read_proof w),
      add_proof pops ''write_mem'' (w_write_proof w)] (r1cs_default\<lparr>cs_arity := ARITY\<rparr>)"

definition select_XY :: "u32 \<Rightarrow> u32 \<Rightarrow> 'f::field builder" where
  "select_XY rs1 rs2 = seq [load_reg ''rs1'' ''X'' rs1, load_reg ''rs2'' ''Y'' rs2]"

definition select_Z :: "u32 \<Rightarrow> 'f::field builder" where
  "select_Z rd = seq [declare_var ''Z'', store_reg ''rd'' ''Z'' rd]"

section \<open>Decoding\<close>

abbreviation opc_name :: "u32 \<Rightarrow> string" where
  "opc_name opc \<equiv> ''opcode='' @ u32_str opc"

definition opcode_set :: "u32 list" where
  "opcode_set = [OPC_LUI, OPC_AUIPC, OPC_JAL, OPC_JALR, OPC_BR, OPC_LOAD, OPC_STORE, OPC_ALUI, OPC_ALU,
     OPC_FENCE, OPC_ECALL]"

definition opcode_type :: "u32 \<Rightarrow> 'f::field builder" where
  "opcode_type opc =
     (if opc = OPC_LUI then set_var ''type=U'' 1
      else if opc = OPC_AUIPC then set_var ''type=U'' 1
      else if opc = OPC_JAL then set_var ''type=J'' 1
      else if opc = OPC_JALR then set_var ''type=I'' 1
      else if opc = OPC_BR then set_var ''type=B'' 1
      else if opc = OPC_LOAD then set_var ''type=I'' 1
      else if opc = OPC_STORE then set_var ''type=S'' 1
      else if opc = OPC_ALUI then set_var ''type=A'' 1
      else if opc = OPC_ALU then set_var ''type=R'' 1
      else if opc = OPC_FENCE then set_var ''type=R'' 1
      else if opc = OPC_ECALL then set_var ''type=R'' 1
      else (\<lambda>cs. Panic))"

definition parse_opc :: "u32 \<Rightarrow> 'f::field builder" where
  "parse_opc inst = seq
     [to_bits ''inst'' inst,
      set_bit ''type=R'' False, set_bit ''type=I'' False, set_bit ''type=S'' False, set_bit ''type=B'' False,
      set_bit ''type=U'' False, set_bit ''type=J'' False, set_bit ''type=A'' False,
      opcode_type (opcode inst),
      member ''opcode'' (opcode inst) opcode_set,
      set_eq ''type=J'' (opc_name OPC_JAL),
      set_eq ''type=B'' (opc_name OPC_BR),
      set_eq ''type=S'' (opc_name OPC_STORE),
      set_eq ''type=A'' (opc_name OPC_ALUI),
      unless_witness_only (seq
        [cs_add ''type=I'' (opc_name OPC_JALR) (opc_name OPC_LOAD),
         cs_add ''type=U'' (opc_name OPC_LUI) (opc_name OPC_AUIPC),
         constraint (map (\<lambda>op. Put (Var (opc_name op)) 1) [OPC_ALU, OPC_FENCE, OPC_ECALL]) [Put One 1]
           [Put (Var ''type=R'') 1],
         constraint (bit_entries ''inst'' [0..<7] 1) [Put One 1] [Put (Var ''opcode'') 1],
         constraint (bit_entries ''inst'' [7..<12] 1)
           (Put One 1 # map (\<lambda>op. Put (Var (opc_name op)) (- 1)) [OPC_BR, OPC_STORE]) [Put (Var ''rd'') 1],
         constraint (bit_entries ''inst'' [15..<20] 1)
           (Put One 1 # map (\<lambda>op. Put (Var (opc_name op)) (- 1)) [OPC_LUI, OPC_AUIPC, OPC_JAL, OPC_ECALL])
           [Put (Var ''rs1'') 1],
         constraint (bit_entries ''inst'' [20..<25] 1)
           (map (\<lambda>op. Put (Var (opc_name op)) 1) [OPC_BR, OPC_STORE, OPC_ALU]) [Put (Var ''rs2'') 1]]),
      seal]"

abbreviation imm_types :: "string list" where
  "imm_types \<equiv> [''I'', ''S'', ''B'', ''U'', ''J'', ''A'']"

definition parse_imm :: "u32 \<Rightarrow> 'f::field builder" where
  "parse_imm inst = seq
     [set_var ''immI'' (immI inst), set_var ''immS'' (immS inst), set_var ''immB'' (immB inst),
      set_var ''immU'' (immU inst), set_var ''immJ'' (immJ inst), set_var ''immA'' (immA inst),
      set_var ''lowA'' (shamt inst), set_var ''f7'' (funct7 inst),
      declare_var ''f7-32'', with_var ''f7'' (\<lambda>f7. assign ''f7-32'' (f7 - 32)),
      selector ''f3'' 8 (funct3 inst),
      seq (map (\<lambda>ty. with_var (''type='' @ ty) (\<lambda>t. with_var (''imm'' @ ty) (\<lambda>i.
        set_local (''ti'' @ ty) (t * i)))) imm_types),
      new_local_var ''is_shift'',
      with_var ''f3=1'' (\<lambda>f1. with_var ''f3=5'' (\<lambda>f5. assign ''is_shift'' (f1 + f5))),
      new_local_var ''a1'',
      with_var ''is_shift'' (\<lambda>s. with_var ''lowA'' (\<lambda>l. assign ''a1'' (s * l))),
      new_local_var ''a2'',
      with_var ''is_shift'' (\<lambda>s. with_var ''immI'' (\<lambda>i. assign ''a2'' ((1 - s) * i))),
      unless_witness_only (seq
        [cs_add ''is_shift'' ''f3=1'' ''f3=5'',
         cs_mul ''a1'' ''is_shift'' ''lowA'',
         constraint [Put One 1, Put (Var ''is_shift'') (- 1)] [Put (Var ''immI'') 1] [Put (Var ''a2'') 1],
         cs_add ''immA'' ''a1'' ''a2'',
         constraint (map (\<lambda>ty. Put (Var (''ti'' @ ty)) 1) imm_types) [Put One 1] [Put (Var ''I'') 1],
         constraint (bit_entries ''inst'' [20..<25] 1) [Put One 1] [Put (Var ''lowA'') 1],
         constraint (bit_entries ''inst'' [12..<15] 1) [Put One 1] [Put (Var ''f3'') 1],
         constraint (bit_entries ''inst'' [25..<32] 1) [Put One 1] [Put (Var ''f7'') 1],
         cs_addi ''f7'' ''f7-32'' 32,
         constraint (bit_entries ''inst'' [20..<31] 1 @ [Put (Var ''inst_31'') 0xfffff800]) [Put One 1]
           [Put (Var ''immI'') 1],
         constraint (bit_entries ''inst'' ([7..<12] @ [25..<31]) 1 @ [Put (Var ''inst_31'') 0xfffff800]) [Put One 1]
           [Put (Var ''immS'') 1],
         constraint (bit_entries ''inst'' ([8..<12] @ [25..<31] @ [7]) 2 @ [Put (Var ''inst_31'') 0xfffff000])
           [Put One 1] [Put (Var ''immB'') 1],
         constraint (bit_entries ''inst'' [12..<32] (2 ^ 12)) [Put One 1] [Put (Var ''immU'') 1],
         constraint (bit_entries ''inst'' ([21..<31] @ [20] @ [12..<20]) 2 @ [Put (Var ''inst_31'') 0xfff00000])
           [Put One 1] [Put (Var ''immJ'') 1]]),
      seal]"

definition parse_shamt :: "u32 \<Rightarrow> 'f::field builder" where
  "parse_shamt Y = seq
     [set_var ''lowY'' (Y AND 0x1f),
      new_local_var ''shamt_i'',
      with_var ''opcode=19'' (\<lambda>o'. with_var ''lowA'' (\<lambda>l. assign ''shamt_i'' (o' * l))),
      new_local_var ''shamt_r'',
      with_var ''opcode=51'' (\<lambda>o'. with_var ''lowY'' (\<lambda>l. assign ''shamt_r'' (o' * l))),
      unless_witness_only (seq
        [constraint (bit_entries ''Y'' [0..<5] 1) [Put One 1] [Put (Var ''lowY'') 1],
         cs_mul ''shamt_i'' ''opcode=19'' ''lowA'',
         cs_mul ''shamt_r'' ''opcode=51'' ''lowY'',
         cs_add ''shamt'' ''shamt_i'' ''shamt_r'']),
      seal]"

definition j_locals :: "'f::field builder" where
  "j_locals = seq
     [new_local_var ''f3=0a'', new_local_var ''f3=0b'', new_local_var ''f3=5a'', new_local_var ''f3=5b'',
      with_var ''f3=0'' (\<lambda>f. with_var ''inst_30'' (\<lambda>b. assign ''f3=0a'' (f * (1 - b)))),
      with_var ''f3=0'' (\<lambda>f. with_var ''inst_30'' (\<lambda>b. assign ''f3=0b'' (f * b))),
      with_var ''f3=5'' (\<lambda>f. with_var ''inst_30'' (\<lambda>b. assign ''f3=5a'' (f * (1 - b)))),
      with_var ''f3=5'' (\<lambda>f. with_var ''inst_30'' (\<lambda>b. assign ''f3=5b'' (f * b))),
      constraint [Put One 1, Put (Var ''inst_30'') (- 1)] [Put (Var ''f3=0'') 1] [Put (Var ''f3=0a'') 1],
      cs_mul ''f3=0b'' ''f3=0'' ''inst_30'',
      constraint [Put One 1, Put (Var ''inst_30'') (- 1)] [Put (Var ''f3=5'') 1] [Put (Var ''f3=5a'') 1],
      cs_mul ''f3=5b'' ''f3=5'' ''inst_30'']"

definition j_control :: "'f::field builder" where
  "j_control = seq
     [set_eq ''J=1'' ''opcode=55'',
      set_eq ''J=2'' ''opcode=23'',
      set_eq ''J=3'' ''opcode=111'',
      set_eq ''J=4'' ''opcode=103'',
      cs_nand ''f3'' ''opcode=103'',
      cs_mul ''J=5'' ''opcode=99'' ''f3=0'',
      cs_mul ''J=6'' ''opcode=99'' ''f3=1'',
      cs_mul ''J=7'' ''opcode=99'' ''f3=4'',
      cs_mul ''J=8'' ''opcode=99'' ''f3=5'',
      cs_mul ''J=9'' ''opcode=99'' ''f3=6'',
      cs_mul ''J=10'' ''opcode=99'' ''f3=7'',
      cs_mul ''J=11'' ''opcode=3'' ''f3=0'',
      cs_mul ''J=12'' ''opcode=3'' ''f3=1'',
      cs_mul ''J=13'' ''opcode=3'' ''f3=2'',
      cs_mul ''J=14'' ''opcode=3'' ''f3=4'',
      cs_mul ''J=15'' ''opcode=3'' ''f3=5'',
      cs_mul ''J=16'' ''opcode=35'' ''f3=0'',
      cs_mul ''J=17'' ''opcode=35'' ''f3=1'',
      cs_mul ''J=18'' ''opcode=35'' ''f3=2'']"

definition j_alui :: "'f::field builder" where
  "j_alui = seq
     [cs_mul ''J=19'' ''opcode=19'' ''f3=0'',
      set_var ''J=20'' 0,
      cs_mul ''J=21'' ''opcode=19'' ''f3=1'',
      cs_nand ''J=21'' ''f7'',
      cs_mul ''J=22'' ''opcode=19'' ''f3=2'',
      cs_mul ''J=23'' ''opcode=19'' ''f3=3'',
      cs_mul ''J=24'' ''opcode=19'' ''f3=4'',
      cs_mul ''J=25'' ''opcode=19'' ''f3=5a'',
      cs_nand ''J=25'' ''f7'',
      cs_mul ''J=26'' ''opcode=19'' ''f3=5b'',
      cs_nand ''J=26'' ''f7-32'',
      cs_mul ''J=27'' ''opcode=19'' ''f3=6'',
      cs_mul ''J=28'' ''opcode=19'' ''f3=7'']"

definition j_alu :: "'f::field builder" where
  "j_alu = seq
     [cs_mul ''J=29'' ''opcode=51'' ''f3=0a'',
      cs_nand ''J=29'' ''f7'',
      cs_mul ''J=30'' ''opcode=51'' ''f3=0b'',
      cs_nand ''J=30'' ''f7-32'',
      cs_mul ''J=31'' ''opcode=51'' ''f3=1'',
      cs_nand ''J=31'' ''f7'',
      cs_mul ''J=32'' ''opcode=51'' ''f3=2'',
      cs_nand ''J=32'' ''f7'',
      cs_mul ''J=33'' ''opcode=51'' ''f3=3'',
      cs_nand ''J=33'' ''f7'',
      cs_mul ''J=34'' ''opcode=51'' ''f3=4'',
      cs_nand ''J=34'' ''f7'',
      cs_mul ''J=35'' ''opcode=51'' ''f3=5a'',
      cs_nand ''J=35'' ''f7'',
      cs_mul ''J=36'' ''opcode=51'' ''f3=5b'',
      cs_nand ''J=36'' ''f7-32'',
      cs_mul ''J=37'' ''opcode=51'' ''f3=6'',
      cs_nand ''J=37'' ''f7'',
      cs_mul ''J=38'' ''opcode=51'' ''f3=7'',
      cs_nand ''J=38'' ''f7'']"

definition j_misc :: "'f::field builder" where
  "j_misc = seq
     [set_eq ''J=39'' ''opcode=15'',
      new_local_var ''ecall'',
      with_var ''inst_12'' (\<lambda>b12. with_var ''inst_20'' (\<lambda>b20. assign ''ecall'' ((1 - b12) * (1 - b20)))),
      constraint [Put One 1, Put (Var ''inst_12'') (- 1)] [Put One 1, Put (Var ''inst_20'') (- 1)]
        [Put (Var ''ecall'') 1],
      cs_mul ''J=40'' ''opcode=115'' ''ecall'',
      cs_mul ''J=41'' ''opcode=115'' ''inst_20'',
      cs_mul ''J=42'' ''opcode=115'' ''inst_12'']"

abbreviation js :: "nat list" where
  "js \<equiv> [1..<Suc (unat MAX_J)]"

definition parse_J :: "u32 \<Rightarrow> 'f::field builder" where
  "parse_J J = seq
     [set_var ''J'' J,
      seq (map (\<lambda>j. set_bit (''J='' @ nat_str j) (j = unat J)) js),
      j_locals, j_control, j_alui, j_alu, j_misc,
      constraint (map (\<lambda>j. Put (Var (''J='' @ nat_str j)) 1) js) [Put One 1] [Put One 1],
      seal]"

section \<open>Addition and subtraction\<close>

definition add_cir :: "string \<Rightarrow> string \<Rightarrow> string \<Rightarrow> u32 \<Rightarrow> u32 \<Rightarrow> 'f::field builder" where
  "add_cir z_name x_name y_name x y = with_col x_name (\<lambda>_. with_col y_name (\<lambda>_. seq
     [set_var z_name (x + y),
      set_local ''O'' (if unat x + unat y \<ge> 2 ^ 32 then 0 - 2 ^ 32 else 0),
      constraint [Put One (2 ^ 32), Put (Var ''O'') 1] [Put (Var ''O'') 1] [],
      constraint [Put (Var x_name) 1, Put (Var y_name) 1, Put (Var ''O'') 1] [Put One 1] [Put (Var z_name) 1],
      seal]))"

definition sub_cir :: "string \<Rightarrow> string \<Rightarrow> string \<Rightarrow> u32 \<Rightarrow> u32 \<Rightarrow> 'f::field builder" where
  "sub_cir z_name x_name y_name x y = with_col x_name (\<lambda>_. with_col y_name (\<lambda>_.
     let lt = x_name @ ''<'' @ y_name; eq = x_name @ ''='' @ y_name; ge = x_name @ ''>='' @ y_name;
         ne = x_name @ ''!='' @ y_name; slt = x_name @ ''<s'' @ y_name; sge = x_name @ ''>=s'' @ y_name;
         xs = drop_bit 31 x; ys = drop_bit 31 y; ds = xs XOR ys \<noteq> 0 in seq
     [set_bit lt (x < y),
      set_var z_name (x - y),
      constraint [Put (Var x_name) 1, Put (Var y_name) (- 1), Put (Var lt) (2 ^ 32)] [Put One 1] [Put (Var z_name) 1],
      set_bit eq (x = y),
      constraint [Put (Var z_name) 1] [Put (Var eq) 1] [],
      set_bit ge (y \<le> x),
      constraint [Put (Var lt) 1, Put (Var ge) 1] [Put One 1] [Put One 1],
      set_bit ne (x \<noteq> y),
      constraint [Put (Var eq) 1, Put (Var ne) 1] [Put One 1] [Put One 1],
      set_bit slt (x <s y),
      set_bit sge (y \<le>s x),
      constraint [Put One 1, Put (Var slt) (- 1)] [Put One 1] [Put (Var sge) 1],
      new_local_var ''ds'', set_bit ''ds'' ds,
      set_local ''Xs*Ys'' (num (xs * ys)),
      cs_mul ''Xs*Ys'' (x_name @ ''_31'') (y_name @ ''_31''),
      constraint [Put (Var (x_name @ ''_31'')) 1, Put (Var (y_name @ ''_31'')) 1, Put (Var ''Xs*Ys'') (- 2)]
        [Put One 1] [Put (Var ''ds'') 1],
      new_local_var ''sltl'', set_bit ''sltl'' (ds \<and> \<not> x < y),
      constraint [Put (Var ''ds'') 1] [Put One 1, Put (Var lt) (- 1)] [Put (Var ''sltl'') 1],
      new_local_var ''sltr'', set_bit ''sltr'' (\<not> ds \<and> x < y),
      constraint [Put One 1, Put (Var ''ds'') (- 1)] [Put (Var lt) 1] [Put (Var ''sltr'') 1],
      constraint [Put (Var ''sltl'') 1, Put (Var ''sltr'') 1] [Put One 1] [Put (Var slt) 1],
      seal]))"

abbreviation Zn :: "rv32 \<Rightarrow> string" where
  "Zn i \<equiv> ''Z'' @ u32_str (index_j i)"

abbreviation PCn :: "rv32 \<Rightarrow> string" where
  "PCn i \<equiv> ''PC'' @ u32_str (index_j i)"

abbreviation Jn :: "rv32 \<Rightarrow> string" where
  "Jn i \<equiv> ''J='' @ u32_str (index_j i)"

definition cir_lui :: "'p witness \<Rightarrow> 'f::field builder" where
  "cir_lui vm = seq [set_var (Zn (LUI 0 0)) (w_I vm), set_eq (PCn (LUI 0 0)) ''pc+4'']"

definition cir_auipc :: "'f::field builder" where
  "cir_auipc = seq [set_eq (Zn (AUIPC 0 0)) ''pc+I'', set_eq (PCn (AUIPC 0 0)) ''pc+4'']"

definition cir_jal :: "'f::field builder" where
  "cir_jal = seq [set_eq (Zn (JAL 0 0)) ''pc+4'', set_eq (PCn (JAL 0 0)) ''pc+I'']"

definition cir_jalr :: "'f::field builder" where
  "cir_jalr = seq [set_eq (Zn (JALR 0 0 0)) ''pc+4'', set_eq (PCn (JALR 0 0 0)) ''X+I'']"

definition cir_add :: "'p witness \<Rightarrow> 'f::field builder" where
  "cir_add vm = seq [add_cir ''X+Y'' ''X'' ''Y'' (w_X vm) (w_Y vm), set_eq (Zn (ALU ADD 0 0 0)) ''X+Y'']"

definition cir_addi :: "'p witness \<Rightarrow> 'f::field builder" where
  "cir_addi vm = seq [add_cir ''X+I'' ''X'' ''I'' (w_X vm) (w_I vm), set_eq (Zn (ALUI ADD 0 0 0)) ''X+I'']"

definition cir_sub :: "'p witness \<Rightarrow> 'f::field builder" where
  "cir_sub vm = seq [sub_cir ''X-Y'' ''X'' ''Y'' (w_X vm) (w_Y vm), set_eq (Zn (ALU SUB 0 0 0)) ''X-Y'']"

definition cir_subi :: "'p witness \<Rightarrow> 'f::field builder" where
  "cir_subi vm = seq [sub_cir ''X-I'' ''X'' ''I'' (w_X vm) (w_I vm), set_eq (Zn (ALUI SUB 0 0 0)) ''X-I'']"

definition cir_slt :: "'f::field builder" where
  "cir_slt = seq
     [set_eq (Zn (ALUI SLT 0 0 0)) ''X<sI'', set_eq (Zn (ALUI SLTU 0 0 0)) ''X<I'',
      set_eq (Zn (ALU SLT 0 0 0)) ''X<sY'', set_eq (Zn (ALU SLTU 0 0 0)) ''X<Y'']"

section \<open>Branches\<close>

definition branch :: "u32 \<Rightarrow> string \<Rightarrow> string \<Rightarrow> 'f::field builder" where
  "branch J cond_name inverse_cond_name = with_var cond_name (\<lambda>cond_val.
     if cond_val \<noteq> 0 \<and> cond_val \<noteq> 1 then (\<lambda>cs. Panic)
     else with_var ''pc+I'' (\<lambda>pc_imm. with_var ''pc+4'' (\<lambda>pc_four.
       let cond = (cond_val = 1); out = ''PC'' @ u32_str J; z = ''Z'' @ u32_str J in seq
       [set_local ''left'' (if cond then pc_imm else 0),
        cs_mul ''left'' cond_name ''pc+I'',
        set_local ''right'' (if \<not> cond then pc_four else 0),
        cs_mul ''right'' inverse_cond_name ''pc+4'',
        set_field_var out (if cond then pc_imm else pc_four),
        cs_add out ''left'' ''right'',
        set_var z 0,
        constraint [Put (Var z) 1] [Put One 1] [],
        seal])))"

definition cir_br :: "'f::field builder" where
  "cir_br = seq
     [branch (index_j (BR BEQ 0 0 0)) ''X=Y'' ''X!=Y'',
      branch (index_j (BR BNE 0 0 0)) ''X!=Y'' ''X=Y'',
      branch (index_j (BR BLT 0 0 0)) ''X<sY'' ''X>=sY'',
      branch (index_j (BR BGE 0 0 0)) ''X>=sY'' ''X<sY'',
      branch (index_j (BR BLTU 0 0 0)) ''X<Y'' ''X>=Y'',
      branch (index_j (BR BGEU 0 0 0)) ''X>=Y'' ''X<Y'']"

section \<open>Memory\<close>

text \<open>\<^verbatim>\<open>choose\<close> names its two local variables after the column of the result, and leaves sealing to a
  later gadget.\<close>

definition cir_choose :: "string \<Rightarrow> string \<Rightarrow> string \<Rightarrow> string \<Rightarrow> 'f::field builder" where
  "cir_choose result bname left right = seq
     [declare_var result,
      with_col bname (\<lambda>_. with_col left (\<lambda>_. with_col right (\<lambda>_. with_col result (\<lambda>j.
        let li = nat_str j @ ''_left''; ri = nat_str j @ ''_right'' in seq
        [new_local_var li, new_local_var ri,
         with_var bname (\<lambda>b. if b = 1
           then with_var left (\<lambda>l. seq [assign result l, assign li l, assign ri 0])
           else with_var right (\<lambda>r. seq [assign result r, assign li 0, assign ri r])),
         unless_witness_only (seq
           [constraint [Put (Var bname) 1] [Put (Var left) 1] [Put (Var li) 1],
            constraint [Put One 1, Put (Var bname) (- 1)] [Put (Var right) 1] [Put (Var ri) 1],
            constraint [Put (Var li) 1, Put (Var ri) 1] [Put One 1] [Put (Var result) 1]])]))))]"

definition split128 :: "('f::field \<Rightarrow> nat) \<Rightarrow> string \<Rightarrow> nat list \<Rightarrow> 'f builder" where
  "split128 bigint scalar widths = with_var scalar (\<lambda>s.
     let val = bigint s in
     if val \<ge> 2 ^ 128 then (\<lambda>cs. Panic) else seq
     [seq (map (\<lambda>i. set_bit (scalar @ ''_'' @ nat_str i) (odd (val div 2 ^ i))) [0..<128]),
      constraint (bit_entries scalar [0..<128] 1) [Put One 1] [Put (Var scalar) 1],
      seq (map (\<lambda>bits. seq (map (\<lambda>i. let ndx = scalar @ ''_'' @ nat_str bits @ ''_'' @ nat_str i in seq
        [set_var ndx (word_of_nat ((val div 2 ^ (i * bits)) mod 2 ^ bits)),
         constraint (bit_entries scalar [i * bits..<i * bits + bits] 1) [Put One 1] [Put (Var ndx) 1]])
        [0..<128 div bits])) widths)])"

fun load_arrays :: "string \<Rightarrow> string \<Rightarrow> nat list \<Rightarrow> u32 \<Rightarrow> u32 \<Rightarrow> 'f::field builder" where
  "load_arrays addr_name name [] count addr = seq []"
| "load_arrays addr_name name (width # widths) count addr = seq
     [load_array (addr_name @ nat_str width) (name @ nat_str width) (name @ ''_'' @ nat_str width @ ''_'') count addr,
      load_arrays addr_name name widths (drop_bit 1 count) (drop_bit 1 addr)]"

definition load_select :: "('f::field \<Rightarrow> nat) \<Rightarrow> string \<Rightarrow> string \<Rightarrow> u32 \<Rightarrow> bool \<Rightarrow> 'f builder" where
  "load_select bigint addr_name name addr word_only =
     (let widths = if word_only then [32] else [8, 16, 32] in seq
      [cir_choose name (addr_name @ ''_4'') (name @ ''_hi'') (name @ ''_lo''),
       split128 bigint name widths,
       (if length widths = 1 then load_arrays addr_name name widths 4 (drop_bit 2 (addr AND 0xf))
        else load_arrays addr_name name widths 16 (addr AND 0xf))])"

definition sx8 :: "('f::field \<Rightarrow> nat) \<Rightarrow> string \<Rightarrow> string \<Rightarrow> 'f builder" where
  "sx8 bigint output input = with_var input (\<lambda>v.
     let a = bigint v; sb = odd (a div 2 ^ 7); sv = word_of_nat (a mod 2 ^ 7) :: u32;
         sx = if sb then 0xffffff80 OR sv else sv in seq
     [set_bit (input @ ''_sb'') sb,
      set_var (input @ ''_sv'') sv,
      set_var output sx,
      unless_witness_only (seq
        [constraint [Put (Var (input @ ''_sv'')) 1, Put (Var (input @ ''_sb'')) 0x80] [Put One 1] [Put (Var input) 1],
         constraint [Put (Var (input @ ''_sv'')) 1, Put (Var (input @ ''_sb'')) 0xffffff80] [Put One 1]
           [Put (Var output) 1]])])"

definition sx16 :: "('f::field \<Rightarrow> nat) \<Rightarrow> string \<Rightarrow> string \<Rightarrow> 'f builder" where
  "sx16 bigint output input = with_var input (\<lambda>v.
     let a = bigint v; sb = odd (a div 2 ^ 15); sv = word_of_nat (a mod 2 ^ 15) :: u32;
         sx = if sb then 0xffff8000 OR sv else sv in seq
     [set_bit (input @ ''_sb'') sb,
      set_var (input @ ''_sv'') sv,
      set_var output sx,
      unless_witness_only (seq
        [constraint [Put (Var (input @ ''_sv'')) 1, Put (Var (input @ ''_sb'')) 0x8000] [Put One 1] [Put (Var input) 1],
         constraint [Put (Var (input @ ''_sv'')) 1, Put (Var (input @ ''_sb'')) 0xffff8000] [Put One 1]
           [Put (Var output) 1]])])"

definition cir_load :: "('f::field \<Rightarrow> nat) \<Rightarrow> 'p witness \<Rightarrow> 'f builder" where
  "cir_load bigint vm =
     (let addr = w_X vm + w_I vm in seq
      [to_bits ''X+I'' addr,
       load_select bigint ''X+I'' ''read_mem'' addr False,
       set_eq (Zn (LOAD LW 0 0 0)) ''read_mem32'', set_eq (PCn (LOAD LW 0 0 0)) ''pc+4'',
       set_eq (Zn (LOAD LHU 0 0 0)) ''read_mem16'', set_eq (PCn (LOAD LHU 0 0 0)) ''pc+4'',
       set_eq (Zn (LOAD LBU 0 0 0)) ''read_mem8'', set_eq (PCn (LOAD LBU 0 0 0)) ''pc+4'',
       sx8 bigint (Zn (LOAD LB 0 0 0)) ''read_mem8'', set_eq (PCn (LOAD LB 0 0 0)) ''pc+4'',
       sx16 bigint (Zn (LOAD LH 0 0 0)) ''read_mem16'', set_eq (PCn (LOAD LH 0 0 0)) ''pc+4''])"

definition store_word :: "'f::field builder" where
  "store_word =
     (let i = STORE SW 0 0 0; w32 = Jn i @ '',w32'' in seq
      [set_var (Zn i) 0, set_eq (PCn i) ''pc+4'',
       declare_var w32,
       with_var (Jn i) (\<lambda>j. with_var ''write_mem32'' (\<lambda>m. assign w32 (j * m))),
       unless_witness_only (seq
         [cs_mul w32 (Jn i) ''write_mem32'',
          cs_mul w32 (Jn i) ''Y''])])"

definition store_half :: "'f::field builder" where
  "store_half =
     (let i = STORE SH 0 0 0; w16 = Jn i @ '',w16'' in seq
      [set_var (Zn i) 0, set_eq (PCn i) ''pc+4'',
       declare_var w16,
       with_var (Jn i) (\<lambda>j. with_var ''write_mem16'' (\<lambda>m. assign w16 (j * m))),
       unless_witness_only (seq
         [cs_mul w16 (Jn i) ''write_mem16'',
          constraint (bit_entries ''Y'' [0..<16] 1) [Put (Var (Jn i)) 1] [Put (Var w16) 1]])])"

definition store_byte :: "'f::field builder" where
  "store_byte =
     (let i = STORE SB 0 0 0; w8 = Jn i @ '',w8'' in seq
      [set_var (Zn i) 0, set_eq (PCn i) ''pc+4'',
       declare_var w8,
       with_var (Jn i) (\<lambda>j. with_var ''write_mem8'' (\<lambda>m. assign w8 (j * m))),
       unless_witness_only (seq
         [cs_mul w8 (Jn i) ''write_mem8'',
          constraint (bit_entries ''Y'' [0..<8] 1) [Put (Var (Jn i)) 1] [Put (Var w8) 1]])])"

definition cir_store :: "('f::field \<Rightarrow> nat) \<Rightarrow> 'p witness \<Rightarrow> 'f builder" where
  "cir_store bigint vm = seq
     [load_select bigint ''X+I'' ''write_mem'' (w_X vm + w_I vm) False,
      store_word, store_half, store_byte]"

section \<open>Shifts\<close>

text \<open>In the release profile a shift amount is taken modulo the width of the shifted integer.\<close>

definition shr :: "bool \<Rightarrow> u32 \<Rightarrow> nat \<Rightarrow> u32" where
  "shr arith X n = (if arith then signed_drop_bit (n mod 32) X else drop_bit (n mod 32) X)"

definition shl :: "u32 \<Rightarrow> nat \<Rightarrow> u32" where
  "shl X n = push_bit (n mod 32) X"

abbreviation bitn :: "string \<Rightarrow> nat \<Rightarrow> string" where
  "bitn name i \<equiv> name @ ''_'' @ nat_str i"

definition shift_right :: "string \<Rightarrow> u32 \<Rightarrow> u32 \<Rightarrow> bool \<Rightarrow> 'f::field builder" where
  "shift_right output X I arith = seq
     [set_var output (shr arith X (unat I)),
      seq (map (\<lambda>amt. seq
        [(if amt = 0 then seq [new_local_var ''out0'', set_eq ''out0'' ''X'']
          else seq
            [set_local (''out'' @ nat_str amt) (num (shr arith X amt)),
             constraint (concat (map (\<lambda>bit.
                 if bit + amt < 32 then [Put (Var (bitn ''X'' (bit + amt))) (2 ^ bit)]
                 else if arith then [Acc (Var ''X_31'') (2 ^ bit)] else []) [0..<32]))
               [Put One 1] [Put (Var (''out'' @ nat_str amt)) 1]]),
         set_local (''SZ'' @ nat_str amt) (if amt = unat I then num (shr arith X amt) else 0),
         cs_mul (''SZ'' @ nat_str amt) (''shamt='' @ nat_str amt) (''out'' @ nat_str amt)]) [0..<32]),
      constraint (map (\<lambda>amt. Put (Var (''SZ'' @ nat_str amt)) 1) [0..<32]) [Put One 1] [Put (Var output) 1],
      seal]"

definition shift_left :: "string \<Rightarrow> u32 \<Rightarrow> u32 \<Rightarrow> 'f::field builder" where
  "shift_left output X I = seq
     [set_var output (shl X (unat I)),
      seq (map (\<lambda>amt. seq
        [(if amt = 0 then seq [new_local_var ''out0'', set_eq ''out0'' ''X'']
          else seq
            [set_local (''out'' @ nat_str amt) (num (shl X amt)),
             constraint (concat (map (\<lambda>bit.
                 if bit \<ge> amt then [Put (Var (bitn ''X'' (bit - amt))) (2 ^ bit)] else []) [0..<32]))
               [Put One 1] [Put (Var (''out'' @ nat_str amt)) 1]]),
         set_local (''SZ'' @ nat_str amt) (if amt = unat I then num (shl X amt) else 0),
         cs_mul (''SZ'' @ nat_str amt) (''shamt='' @ nat_str amt) (''out'' @ nat_str amt)]) [0..<32]),
      constraint (map (\<lambda>amt. Put (Var (''SZ'' @ nat_str amt)) 1) [0..<32]) [Put One 1] [Put (Var output) 1],
      seal]"

definition cir_shift :: "'p witness \<Rightarrow> 'f::field builder" where
  "cir_shift vm = seq
     [selector ''shamt'' 32 (w_shamt vm),
      shift_left (Zn (ALUI SLL 0 0 0)) (w_X vm) (w_shamt vm),
      shift_right (Zn (ALUI SRL 0 0 0)) (w_X vm) (w_shamt vm) False,
      shift_right (Zn (ALUI SRA 0 0 0)) (w_X vm) (w_shamt vm) True,
      shift_left (Zn (ALU SLL 0 0 0)) (w_X vm) (w_shamt vm),
      shift_right (Zn (ALU SRL 0 0 0)) (w_X vm) (w_shamt vm) False,
      shift_right (Zn (ALU SRA 0 0 0)) (w_X vm) (w_shamt vm) True]"

section \<open>Bitwise operations\<close>

definition cir_bit :: "u32 \<Rightarrow> nat \<Rightarrow> bool" where
  "cir_bit x b \<longleftrightarrow> drop_bit b x AND 1 \<noteq> 0"

definition bitop :: "string \<Rightarrow> string \<Rightarrow> u32 \<Rightarrow> 'f::field \<Rightarrow> 'f builder" where
  "bitop output y_name z adj = seq
     [to_bits output z,
      seq (map (\<lambda>i. seq
        [set_bit (bitn output i) (cir_bit z i),
         constraint [Put (Var (bitn ''X'' i)) 1, Put (Var (bitn y_name i)) 1, Put (Var (bitn (''X&'' @ y_name) i)) adj]
           [Put One 1] [Put (Var (bitn output i)) 1]]) [0..<32])]"

definition bitops :: "'p witness \<Rightarrow> 'f::field builder" where
  "bitops vm =
     (let XY = w_X vm AND w_Y vm; XI = w_X vm AND w_I vm in seq
      [to_bits ''X&Y'' XY,
       to_bits ''X&I'' XI,
       seq (map (\<lambda>i. seq
         [set_bit (bitn ''X&Y'' i) (cir_bit XY i),
          cs_mul (bitn ''X&Y'' i) (bitn ''X'' i) (bitn ''Y'' i),
          set_bit (bitn ''X&I'' i) (cir_bit XI i),
          cs_mul (bitn ''X&I'' i) (bitn ''X'' i) (bitn ''I'' i)]) [0..<32]),
       set_eq (Zn (ALUI AND_A 0 0 0)) ''X&I'',
       set_eq (Zn (ALU AND_A 0 0 0)) ''X&Y'',
       bitop (Zn (ALUI OR_A 0 0 0)) ''I'' (w_X vm OR w_I vm) (- 1),
       bitop (Zn (ALU OR_A 0 0 0)) ''Y'' (w_X vm OR w_Y vm) (- 1),
       bitop (Zn (ALUI XOR_A 0 0 0)) ''I'' (w_X vm XOR w_I vm) (- 2),
       bitop (Zn (ALU XOR_A 0 0 0)) ''Y'' (w_X vm XOR w_Y vm) (- 2)])"

definition alu :: "'p witness \<Rightarrow> 'f::field builder" where
  "alu vm = seq
     [cir_add vm, cir_addi vm, cir_sub vm, cir_subi vm, cir_slt, cir_shift vm, bitops vm,
      seq (map (\<lambda>j. set_eq (''PC'' @ nat_str j) ''pc+4'')
        [unat (index_j (ALUI ADD 0 0 0))..<Suc (unat (index_j (ALU AND_A 0 0 0)))])]"

section \<open>The step\<close>

definition cir_ecall :: "'p witness \<Rightarrow> 'f::field builder" where
  "cir_ecall vm = seq [set_var (Zn (ECALL 0)) (w_Z vm), set_eq (PCn (ECALL 0)) ''pc+4'']"

definition cir_misc :: "'f::field builder" where
  "cir_misc = seq
     [set_var (Zn FENCE) 0, set_eq (PCn FENCE) ''pc+4'',
      set_var (Zn (EBREAK 0)) 0, set_eq (PCn (EBREAK 0)) ''pc+4'',
      set_var (Zn UNIMP) 0, set_eq (PCn UNIMP) ''pc'']"

definition select_J :: "'p witness \<Rightarrow> 'f::field builder" where
  "select_J vm = seq
     [seq (map (\<lambda>j. seq
        [set_var (''JZ'' @ nat_str j) (if j = unat (w_J vm) then w_Z vm else 0),
         cs_mul (''JZ'' @ nat_str j) (''J='' @ nat_str j) (''Z'' @ nat_str j),
         set_var (''JPC'' @ nat_str j) (if j = unat (w_J vm) then w_PC vm else 0),
         cs_mul (''JPC'' @ nat_str j) (''J='' @ nat_str j) (''PC'' @ nat_str j)]) js),
      constraint (map (\<lambda>j. Put (Var (''JZ'' @ nat_str j)) 1) js) [Put One 1] [Put (Var ''Z'') 1],
      constraint (map (\<lambda>j. Put (Var (''JPC'' @ nat_str j)) 1) js) [Put One 1] [Put (Var ''PC'') 1]]"

text \<open>The builder of the step, after the initial system.\<close>

definition step_body :: "('f::field \<Rightarrow> nat) \<Rightarrow> 'p witness \<Rightarrow> 'f builder" where
  "step_body bigint vm = seq
     [select_XY (w_rs1 vm) (w_rs2 vm),
      to_bits ''pc'' (r_pc (w_regs vm)), to_bits ''X'' (w_X vm), to_bits ''Y'' (w_Y vm), to_bits ''I'' (w_I vm),
      to_bits ''Z'' (w_Z vm), to_bits ''PC'' (w_PC vm),
      set_var ''rd'' (w_rd vm), set_var ''rs1'' (w_rs1 vm), set_var ''rs2'' (w_rs2 vm), set_var ''shamt'' (w_shamt vm),
      parse_opc (w_inst vm), parse_imm (w_inst vm), parse_shamt (w_Y vm), parse_J (w_J vm),
      set_var ''four'' 4,
      add_cir ''pc+4'' ''pc'' ''four'' (r_pc (w_regs vm)) 4,
      add_cir ''pc+I'' ''pc'' ''I'' (r_pc (w_regs vm)) (w_I vm),
      alu vm, cir_lui vm, cir_auipc, cir_jal, cir_jalr, cir_br, cir_load bigint vm, cir_store bigint vm,
      cir_ecall vm, cir_misc,
      select_J vm,
      select_Z (w_rd vm)]"

definition step :: "('f::field \<Rightarrow> nat) \<Rightarrow> ('p, 'f) proof_ops \<Rightarrow> 'p witness \<Rightarrow> bool \<Rightarrow> 'f r1cs result" where
  "step bigint pops vm witness_only =
     result_bind (init_cs pops vm) (\<lambda>cs. step_body bigint vm (cs\<lparr>cs_witness_only := witness_only\<rparr>))"

end
