(* ===== verification/Constraint_Logic.thy ===== *)
theory Constraint_Logic
  imports R1cs
begin

text \<open>
  A logic for the R1CS builder.  \<open>sat cs \<sigma>\<close> says that an arbitrary assignment \<open>\<sigma>\<close> of the columns
  satisfies the rows of a system, so that statements about \<open>sat\<close> hold for a prover that does not use the
  witness the builder computed.  \<open>yields g L P\<close> says of a builder \<open>g\<close> that it keeps what was there, declares
  no local variable outside \<open>L\<close>, and that the values an assignment gives to the named variables after \<open>g\<close>
  satisfy \<open>P\<close>.  \<open>gadget M g P\<close> is the same for a builder that seals its local variables, run in a
  system whose pending local variables are in \<open>M\<close>.  Both have a rule for every primitive operation and
  for sequencing.
\<close>

section \<open>Numerals as names\<close>

abbreviation digits :: "char set" where
  "digits \<equiv> set ''0123456789''"

lemma digit_char: "n < 10 \<Longrightarrow> char_of (48 + n) \<in> digits" for n :: nat
proof -
  assume "n < 10"
  then have "n \<in> set [0..<10]" by simp
  then show ?thesis by (simp add: upt_rec, elim disjE) (simp_all add: char_of_def bit_0)
qed

lemma nat_str_digits: "c \<in> set (nat_str n) \<Longrightarrow> c \<in> digits"
proof (induction n rule: nat_str.induct)
  case (1 n)
  show ?case
  proof (cases "n < 10")
    case True
    with 1(2) have "c = char_of (48 + n)" by (subst (asm) nat_str.simps) simp
    then show ?thesis using digit_char [OF True] by metis
  next
    case False
    with 1(2) have "c \<in> set (nat_str (n div 10)) \<or> c = char_of (48 + n mod 10)" by (subst (asm) nat_str.simps) auto
    then show ?thesis using "1.IH" [OF False] digit_char [of "n mod 10"] by (metis mod_less_divisor zero_less_numeral)
  qed
qed

lemma nat_str_not_Nil [simp]: "nat_str n \<noteq> []" "[] \<noteq> nat_str n"
  by (subst nat_str.simps, simp)+

lemma nat_str_Cons [simp]:
  "c \<notin> digits \<Longrightarrow> (c # cs = nat_str n) = False" "c \<notin> digits \<Longrightarrow> (nat_str n = c # cs) = False"
  using nat_str_digits by (metis list.set_intros(1))+

lemma digit_char_inj: "m < 10 \<Longrightarrow> n < 10 \<Longrightarrow> char_of (48 + m) = (char_of (48 + n) :: char) \<Longrightarrow> m = n" for m n :: nat
  by (drule arg_cong [of _ _ "of_char :: char \<Rightarrow> nat"]) simp

lemma nat_str_inj: "nat_str m = nat_str n \<Longrightarrow> m = n"
proof (induction m arbitrary: n rule: nat_str.induct)
  case (1 m)
  have m: "nat_str m = (if m < 10 then [char_of (48 + m)] else nat_str (m div 10) @ [char_of (48 + m mod 10)])"
    and n: "nat_str n = (if n < 10 then [char_of (48 + n)] else nat_str (n div 10) @ [char_of (48 + n mod 10)])"
    by (rule nat_str.simps)+
  show ?case
  proof (cases "m < 10"; cases "n < 10")
    assume "\<not> m < 10" "\<not> n < 10"
    with "1.prems" m n have "nat_str (m div 10) = nat_str (n div 10)"
      "char_of (48 + m mod 10) = (char_of (48 + n mod 10) :: char)" by simp_all
    then have "m div 10 = n div 10" "m mod 10 = n mod 10"
      using "1.IH" \<open>\<not> m < 10\<close> digit_char_inj [of "m mod 10" "n mod 10"] by simp_all
    then show ?thesis by (metis div_mult_mod_eq)
  qed (use "1.prems" m n digit_char_inj [of m n] in \<open>simp_all\<close>)
qed

lemma nat_str_eq_iff [simp]: "nat_str m = nat_str n \<longleftrightarrow> m = n"
  using nat_str_inj by blast

lemma u32_str_eq_iff [simp]: "u32_str v = u32_str w \<longleftrightarrow> v = w"
  by (simp add: u32_str_def word_unat_eq_iff)

section \<open>Satisfaction\<close>

definition row_val :: "'f::field list \<Rightarrow> (nat \<Rightarrow> 'f) \<Rightarrow> 'f" where
  "row_val r \<sigma> = (\<Sum>j<length r. r ! j * \<sigma> j)"

definition sat :: "'f::field r1cs \<Rightarrow> (nat \<Rightarrow> 'f) \<Rightarrow> bool" where
  "sat cs \<sigma> \<longleftrightarrow> (\<forall>i<length (cs_a cs).
     row_val (cs_a cs ! i) \<sigma> * row_val (cs_b cs ! i) \<sigma> = row_val (cs_c cs ! i) \<sigma>)"

definition wf_r1cs :: "'f r1cs \<Rightarrow> bool" where
  "wf_r1cs cs \<longleftrightarrow> cs_w cs \<noteq> [] \<and> length (cs_b cs) = length (cs_a cs) \<and> length (cs_c cs) = length (cs_a cs)
     \<and> (\<forall>r \<in> set (cs_a cs) \<union> set (cs_b cs) \<union> set (cs_c cs). length r = length (cs_w cs))
     \<and> (\<forall>n j. cs_vars cs n = Some j \<longrightarrow> 0 < j \<and> j < length (cs_w cs))
     \<and> (\<forall>m n j. cs_vars cs m = Some j \<longrightarrow> cs_vars cs n = Some j \<longrightarrow> m = n)
     \<and> set (cs_locals cs) \<subseteq> dom (cs_vars cs)"

lemma wf_r1csD:
  assumes "wf_r1cs cs"
  shows "cs_w cs \<noteq> []" "length (cs_b cs) = length (cs_a cs)" "length (cs_c cs) = length (cs_a cs)"
    "\<forall>r \<in> set (cs_a cs) \<union> set (cs_b cs) \<union> set (cs_c cs). length r = length (cs_w cs)"
    "\<And>n j. cs_vars cs n = Some j \<Longrightarrow> 0 < j \<and> j < length (cs_w cs)"
    "\<And>m n j. cs_vars cs m = Some j \<Longrightarrow> cs_vars cs n = Some j \<Longrightarrow> m = n"
    "set (cs_locals cs) \<subseteq> dom (cs_vars cs)"
  using assms by (simp_all add: wf_r1cs_def)

lemma row_val_append [simp]: "row_val (r @ [x]) \<sigma> = row_val r \<sigma> + x * \<sigma> (length r)"
  by (simp add: row_val_def nth_append)

lemma row_val_replicate [simp]: "row_val (replicate n 0) \<sigma> = 0"
  by (simp add: row_val_def)

lemma row_val_update:
  assumes "j < length r"
  shows "row_val (r[j := x]) \<sigma> = row_val r \<sigma> + (x - r ! j) * \<sigma> j"
proof -
  have "row_val (r[j := x]) \<sigma> = x * \<sigma> j + (\<Sum>k \<in> {..<length r} - {j}. r ! k * \<sigma> k)"
    using assms unfolding row_val_def by (auto simp: sum.remove [of _ j] nth_list_update intro!: sum.cong)
  moreover have "row_val r \<sigma> = r ! j * \<sigma> j + (\<Sum>k \<in> {..<length r} - {j}. r ! k * \<sigma> k)"
    using assms unfolding row_val_def by (simp add: sum.remove [of _ j])
  ultimately show ?thesis by (simp add: algebra_simps)
qed

lemma row_val_dot: "length r = length w \<Longrightarrow> row_val r (\<lambda>j. w ! j) = dot r w"
  by (simp add: row_val_def dot_def sum_list_sum_nth split_def atLeast0LessThan)

text \<open>The check \<^verbatim>\<open>is_sat\<close> is satisfaction by the witness the builder holds.\<close>

lemma is_sat_iff: "wf_r1cs cs \<Longrightarrow> is_sat cs \<longleftrightarrow> sat cs (\<lambda>j. cs_w cs ! j)"
proof -
  assume wf: "wf_r1cs cs"
  have "MxV m (cs_w cs) ! i = row_val (m ! i) (\<lambda>j. cs_w cs ! j)"
    if "i < length (cs_a cs)" "length m = length (cs_a cs)" "\<forall>r \<in> set m. length r = length (cs_w cs)" for m i
    using that by (simp add: MxV_def row_val_dot)
  then have "MxV m (cs_w cs) ! i = row_val (m ! i) (\<lambda>j. cs_w cs ! j)"
    if "i < length (cs_a cs)" "m \<in> {cs_a cs, cs_b cs, cs_c cs}" for m i
    using that wf by (auto simp: wf_r1cs_def)
  moreover have "length (MxV (cs_a cs) (cs_w cs)) = length (cs_a cs)" by (simp add: MxV_def)
  ultimately show ?thesis
    by (auto simp: is_sat_def sat_def Let_def list_all_iff)
qed

lemma wf_default [simp]: "wf_r1cs (r1cs_default\<lparr>cs_arity := n\<rparr>)" "wf_r1cs r1cs_default"
  by (simp_all add: wf_r1cs_def r1cs_default_def)

section \<open>Named values\<close>

text \<open>A valuation of names that gives every declared variable the value of its column.\<close>

definition agree :: "'f r1cs \<Rightarrow> (nat \<Rightarrow> 'f) \<Rightarrow> (string \<Rightarrow> 'f) \<Rightarrow> bool" where
  "agree cs \<sigma> \<rho> \<longleftrightarrow> (\<forall>n j. cs_vars cs n = Some j \<longrightarrow> \<rho> n = \<sigma> j)"

definition named :: "'f::zero r1cs \<Rightarrow> (nat \<Rightarrow> 'f) \<Rightarrow> string \<Rightarrow> 'f" where
  "named cs \<sigma> n = (case cs_vars cs n of Some j \<Rightarrow> \<sigma> j | None \<Rightarrow> 0)"

lemma agree_named [simp, intro]: "agree cs \<sigma> (named cs \<sigma>)"
  by (simp add: agree_def named_def)

lemma agree_mono: "cs_vars cs \<subseteq>\<^sub>m cs_vars cs' \<Longrightarrow> agree cs' \<sigma> \<rho> \<Longrightarrow> agree cs \<sigma> \<rho>"
  unfolding agree_def map_le_def by (metis domI)

fun ref_val :: "(string \<Rightarrow> 'f::field) \<Rightarrow> ref \<Rightarrow> 'f" where
  "ref_val \<rho> One = 1"
| "ref_val \<rho> (Var n) = \<rho> n"

definition lin :: "(string \<Rightarrow> 'f::field) \<Rightarrow> 'f entry list \<Rightarrow> 'f" where
  "lin \<rho> es = sum_list (map (\<lambda>e. entry_coef e * ref_val \<rho> (entry_ref e)) es)"

lemma lin_simps [simp]:
  "lin \<rho> [] = 0"
  "lin \<rho> (e # es) = entry_coef e * ref_val \<rho> (entry_ref e) + lin \<rho> es"
  "lin \<rho> (es @ fs) = lin \<rho> es + lin \<rho> fs"
  by (simp_all add: lin_def)

text \<open>No assignment of a coefficient overwrites an earlier one.\<close>

fun put_ok :: "ref set \<Rightarrow> 'f entry list \<Rightarrow> bool" where
  "put_ok S [] = True"
| "put_ok S (Put r x # es) \<longleftrightarrow> r \<notin> S \<and> put_ok (insert r S) es"
| "put_ok S (Acc r x # es) \<longleftrightarrow> put_ok (insert r S) es"

lemma put_ok_distinct:
  "distinct (map entry_ref es) \<Longrightarrow> S \<inter> entry_ref ` set es = {} \<Longrightarrow> put_ok S es"
proof (induction es arbitrary: S)
  case (Cons e es)
  then show ?case by (cases e) auto
qed simp

lemma resolve_inj:
  "wf_r1cs cs \<Longrightarrow> resolve cs r = Ok j \<Longrightarrow> resolve cs s = Ok j \<Longrightarrow> r = s"
proof (cases r; cases s)
  fix m n assume "wf_r1cs cs" "resolve cs r = Ok j" "resolve cs s = Ok j" "r = Var m" "s = Var n"
  then show ?thesis unfolding wf_r1cs_def cs_var_def
    by (cases "cs_vars cs m"; cases "cs_vars cs n") (auto simp: cs_var_def)
qed (auto simp: cs_var_def wf_r1cs_def split: option.splits elim: unwrap.elims)

lemma resolve_val: "agree cs \<sigma> \<rho> \<Longrightarrow> \<sigma> 0 = 1 \<Longrightarrow> resolve cs r = Ok j \<Longrightarrow> \<sigma> j = ref_val \<rho> r"
proof (cases r)
  fix n assume "agree cs \<sigma> \<rho>" "resolve cs r = Ok j" "r = Var n"
  then show ?thesis by (cases "cs_vars cs n") (auto simp: cs_var_def agree_def)
qed simp

lemma fill_val:
  assumes "wf_r1cs cs" "agree cs \<sigma> \<rho>" "\<sigma> 0 = 1"
  shows "fill cs es row = Ok row' \<Longrightarrow> put_ok S es \<Longrightarrow> \<forall>r j. resolve cs r = Ok j \<longrightarrow> r \<notin> S \<longrightarrow> j < length row \<longrightarrow> row ! j = 0
    \<Longrightarrow> length row' = length row \<and> row_val row' \<sigma> = row_val row \<sigma> + lin \<rho> es"
proof (induction es arbitrary: row S)
  case (Cons e es)
  from Cons.prems(1) obtain j where j: "resolve cs (entry_ref e) = Ok j" "j < length row"
    and rest: "fill cs es (row[j := (case e of Put _ x \<Rightarrow> x | Acc _ x \<Rightarrow> row ! j + x)]) = Ok row'"
    by (auto simp: result_simps split: if_splits)
  let ?S = "insert (entry_ref e) S" and ?v = "case e of Put _ x \<Rightarrow> x | Acc _ x \<Rightarrow> row ! j + x"
  have ok: "put_ok ?S es" using Cons.prems(2) by (cases e) auto
  have zero: "\<forall>r k. resolve cs r = Ok k \<longrightarrow> r \<notin> ?S \<longrightarrow> k < length (row[j := ?v]) \<longrightarrow> row[j := ?v] ! k = 0"
    using Cons.prems(3) resolve_inj [OF assms(1) j(1)] by (metis insert_iff length_list_update nth_list_update_neq)
  have "?v - row ! j = entry_coef e"
    using Cons.prems(2,3) j by (cases e) auto
  then show ?case
    using Cons.IH [OF rest ok zero] resolve_val [OF assms(2,3) j(1)] row_val_update [OF j(2), of ?v \<sigma>]
    by (simp add: algebra_simps)
qed simp

section \<open>The two triples\<close>

definition pub :: "'f r1cs \<Rightarrow> string \<rightharpoonup> nat" where
  "pub cs = cs_vars cs |` (- set (cs_locals cs))"

definition grows :: "string set \<Rightarrow> ((string \<Rightarrow> 'f) \<Rightarrow> bool) \<Rightarrow> 'f::field r1cs \<Rightarrow> 'f r1cs \<Rightarrow> bool" where
  "grows L P cs cs' \<longleftrightarrow> wf_r1cs cs' \<and> \<not> cs_witness_only cs' \<and> cs_vars cs \<subseteq>\<^sub>m cs_vars cs'
     \<and> set (cs_locals cs') \<subseteq> set (cs_locals cs) \<union> (L - dom (cs_vars cs))
     \<and> (\<forall>\<sigma>. \<sigma> 0 = 1 \<longrightarrow> sat cs' \<sigma> \<longrightarrow> sat cs \<sigma> \<and> (\<forall>\<rho>. agree cs' \<sigma> \<rho> \<longrightarrow> P \<rho>))"

definition seals :: "((string \<Rightarrow> 'f) \<Rightarrow> bool) \<Rightarrow> 'f::field r1cs \<Rightarrow> 'f r1cs \<Rightarrow> bool" where
  "seals P cs cs' \<longleftrightarrow> wf_r1cs cs' \<and> \<not> cs_witness_only cs' \<and> cs_locals cs' = [] \<and> pub cs \<subseteq>\<^sub>m cs_vars cs'
     \<and> (\<forall>\<sigma>. \<sigma> 0 = 1 \<longrightarrow> sat cs' \<sigma> \<longrightarrow> sat cs \<sigma> \<and> (\<forall>\<rho>. agree cs' \<sigma> \<rho> \<longrightarrow> P \<rho>))"

definition yields :: "'f::field builder \<Rightarrow> string set \<Rightarrow> ((string \<Rightarrow> 'f) \<Rightarrow> bool) \<Rightarrow> bool" where
  "yields g L P \<longleftrightarrow> (\<forall>cs cs'. wf_r1cs cs \<longrightarrow> \<not> cs_witness_only cs \<longrightarrow> g cs = Ok cs' \<longrightarrow> grows L P cs cs')"

definition gadget :: "string set \<Rightarrow> 'f::field builder \<Rightarrow> ((string \<Rightarrow> 'f) \<Rightarrow> bool) \<Rightarrow> bool" where
  "gadget M g P \<longleftrightarrow> (\<forall>cs cs'. wf_r1cs cs \<longrightarrow> \<not> cs_witness_only cs \<longrightarrow> set (cs_locals cs) \<subseteq> M \<longrightarrow> g cs = Ok cs' \<longrightarrow>
     seals P cs cs')"

lemma yieldsI:
  "(\<And>cs cs'. wf_r1cs cs \<Longrightarrow> \<not> cs_witness_only cs \<Longrightarrow> g cs = Ok cs' \<Longrightarrow> grows L P cs cs') \<Longrightarrow> yields g L P"
  by (simp add: yields_def)

lemma yieldsD: "yields g L P \<Longrightarrow> wf_r1cs cs \<Longrightarrow> \<not> cs_witness_only cs \<Longrightarrow> g cs = Ok cs' \<Longrightarrow> grows L P cs cs'"
  by (simp add: yields_def)

lemma gadgetI:
  "(\<And>cs cs'. wf_r1cs cs \<Longrightarrow> \<not> cs_witness_only cs \<Longrightarrow> set (cs_locals cs) \<subseteq> M \<Longrightarrow> g cs = Ok cs' \<Longrightarrow> seals P cs cs')
   \<Longrightarrow> gadget M g P"
  by (simp add: gadget_def)

lemma gadgetD:
  "gadget M g P \<Longrightarrow> wf_r1cs cs \<Longrightarrow> \<not> cs_witness_only cs \<Longrightarrow> set (cs_locals cs) \<subseteq> M \<Longrightarrow> g cs = Ok cs' \<Longrightarrow> seals P cs cs'"
  by (simp add: gadget_def)

lemma growsD:
  assumes "grows L P cs cs'"
  shows "wf_r1cs cs'" "\<not> cs_witness_only cs'" "cs_vars cs \<subseteq>\<^sub>m cs_vars cs'"
    "set (cs_locals cs') \<subseteq> set (cs_locals cs) \<union> (L - dom (cs_vars cs))"
    "\<And>\<sigma>. \<sigma> 0 = 1 \<Longrightarrow> sat cs' \<sigma> \<Longrightarrow> sat cs \<sigma>"
    "\<And>\<sigma> \<rho>. \<sigma> 0 = 1 \<Longrightarrow> sat cs' \<sigma> \<Longrightarrow> agree cs' \<sigma> \<rho> \<Longrightarrow> P \<rho>"
  using assms by (simp_all add: grows_def)

lemma sealsD:
  assumes "seals P cs cs'"
  shows "wf_r1cs cs'" "\<not> cs_witness_only cs'" "cs_locals cs' = []" "pub cs \<subseteq>\<^sub>m cs_vars cs'"
    "\<And>\<sigma>. \<sigma> 0 = 1 \<Longrightarrow> sat cs' \<sigma> \<Longrightarrow> sat cs \<sigma>"
    "\<And>\<sigma> \<rho>. \<sigma> 0 = 1 \<Longrightarrow> sat cs' \<sigma> \<Longrightarrow> agree cs' \<sigma> \<rho> \<Longrightarrow> P \<rho>"
  using assms by (simp_all add: seals_def)

lemma sealsI:
  assumes "wf_r1cs cs'" "\<not> cs_witness_only cs'" "cs_locals cs' = []" "pub cs \<subseteq>\<^sub>m cs_vars cs'"
    "\<And>\<sigma> \<rho>. \<sigma> 0 = 1 \<Longrightarrow> sat cs' \<sigma> \<Longrightarrow> agree cs' \<sigma> \<rho> \<Longrightarrow> sat cs \<sigma> \<and> P \<rho>"
  shows "seals P cs cs'"
  using assms agree_named unfolding seals_def by blast

lemma yields_mono: "yields g L P \<Longrightarrow> L \<subseteq> L' \<Longrightarrow> (\<And>\<rho>. P \<rho> \<Longrightarrow> Q \<rho>) \<Longrightarrow> yields g L' Q"
  by (rule yieldsI, drule (3) yieldsD) (auto simp: grows_def)

lemma gadget_mono: "gadget M g P \<Longrightarrow> M' \<subseteq> M \<Longrightarrow> (\<And>\<rho>. P \<rho> \<Longrightarrow> Q \<rho>) \<Longrightarrow> gadget M' g Q"
  by (rule gadgetI, drule (2) gadgetD) (auto simp: seals_def)

section \<open>Sequencing\<close>

lemma yields_Nil: "yields (seq []) {} (\<lambda>\<rho>. True)"
  by (rule yieldsI) (simp add: grows_def)

lemma grows_trans:
  assumes 1: "grows L P cs c" and 2: "grows M Q c cs'"
  shows "grows (L \<union> M) (\<lambda>\<rho>. P \<rho> \<and> Q \<rho>) cs cs'"
proof -
  note 1 = growsD [OF 1] and 2 = growsD [OF 2]
  have "dom (cs_vars cs) \<subseteq> dom (cs_vars c)" using 1(3) by (rule map_le_implies_dom_le)
  then have "set (cs_locals cs') \<subseteq> set (cs_locals cs) \<union> (L \<union> M - dom (cs_vars cs))" using 1(4) 2(4) by blast
  moreover have "cs_vars cs \<subseteq>\<^sub>m cs_vars cs'" using 1(3) 2(3) by (rule map_le_trans)
  moreover have "sat cs \<sigma> \<and> P \<rho> \<and> Q \<rho>" if "\<sigma> 0 = 1" "sat cs' \<sigma>" "agree cs' \<sigma> \<rho>" for \<sigma> \<rho>
    using 1(5,6) 2(5,6) agree_mono [OF 2(3)] that by blast
  ultimately show ?thesis using 2(1,2) agree_named unfolding grows_def by blast
qed

lemma yields_Cons:
  assumes "yields g L P" "yields (seq gs) M Q"
  shows "yields (seq (g # gs)) (L \<union> M) (\<lambda>\<rho>. P \<rho> \<and> Q \<rho>)"
proof (rule yieldsI)
  fix cs cs' assume cs: "wf_r1cs cs" "\<not> cs_witness_only cs" "seq (g # gs) cs = Ok cs'"
  then obtain c where c: "g cs = Ok c" "seq gs c = Ok cs'" by (auto simp: result_simps)
  note 1 = yieldsD [OF assms(1) cs(1,2) c(1)]
  show "grows (L \<union> M) (\<lambda>\<rho>. P \<rho> \<and> Q \<rho>) cs cs'"
    by (rule grows_trans [OF 1 yieldsD [OF assms(2) growsD(1,2) [OF 1] c(2)]])
qed

lemma yields_loop:
  assumes "\<And>x. x \<in> set xs \<Longrightarrow> yields (g x) (L x) (P x)"
  shows "yields (seq (map g xs)) (\<Union>x\<in>set xs. L x) (\<lambda>\<rho>. \<forall>x\<in>set xs. P x \<rho>)"
  using assms
proof (induction xs)
  case Nil
  then show ?case using yields_Nil by (simp del: seq.simps)
next
  case (Cons x xs)
  then show ?case
    using yields_Cons [of "g x" "L x" "P x" "map g xs" "\<Union>x\<in>set xs. L x" "\<lambda>\<rho>. \<forall>x\<in>set xs. P x \<rho>"] by (simp del: seq.simps)
qed

lemma yields_with_var: "(\<And>v. yields (f v) L P) \<Longrightarrow> yields (with_var n f) L P"
  by (rule yieldsI) (auto simp: with_var_def result_simps intro: yieldsD)

lemma yields_unless: "yields g L P \<Longrightarrow> yields (unless_witness_only g) L P"
  by (rule yieldsI) (auto simp: unless_witness_only_def intro: yieldsD)

lemma yields_panic: "yields (\<lambda>cs. Panic) L P"
  by (rule yieldsI) simp

section \<open>Primitive operations\<close>

lemma new_var_cases:
  obtains (old) j where "cs_vars cs name = Some j" "new_var cs name = (cs, j)"
  | (new) "cs_vars cs name = None"
    "fst (new_var cs name) = cs\<lparr>cs_vars := (cs_vars cs)(name \<mapsto> length (cs_w cs)), cs_w := cs_w cs @ [0],
       cs_a := map (\<lambda>v. v @ [0]) (cs_a cs),
       cs_b := (if cs_a cs = [] then cs_b cs else map (\<lambda>v. v @ [0]) (cs_b cs)),
       cs_c := (if cs_a cs = [] then cs_c cs else map (\<lambda>v. v @ [0]) (cs_c cs))\<rparr>"
  by (cases "cs_vars cs name") (auto simp: new_var_def Let_def)

lemma wf_new_var: "wf_r1cs cs \<Longrightarrow> wf_r1cs (fst (new_var cs name))"
proof (cases rule: new_var_cases [of cs name])
  case new
  assume wf: "wf_r1cs cs"
  then have lt: "\<And>n j. cs_vars cs n = Some j \<Longrightarrow> j < length (cs_w cs)" by (simp add: wf_r1cs_def)
  let ?cs = "fst (new_var cs name)"
  have rows: "\<forall>r \<in> set (cs_a ?cs) \<union> set (cs_b ?cs) \<union> set (cs_c ?cs). length r = length (cs_w ?cs)"
    using wf_r1csD(2-4) [OF wf] by (cases "cs_a cs = []") (auto simp: new(2))
  have inj: "m = n" if "cs_vars ?cs m = Some j" "cs_vars ?cs n = Some j" for m n j
    using that lt [of m j] lt [of n j] wf_r1csD(6) [OF wf, of m j n] by (auto simp: new(2) split: if_splits)
  have rng: "0 < j \<and> j < length (cs_w ?cs)" if "cs_vars ?cs n = Some j" for n j
    using that wf_r1csD(1) [OF wf] wf_r1csD(5) [OF wf, of n j] by (auto split: if_splits simp: new(2) less_Suc_eq)
  have "length (cs_b ?cs) = length (cs_a ?cs)" "length (cs_c ?cs) = length (cs_a ?cs)" "cs_w ?cs \<noteq> []"
    "set (cs_locals ?cs) \<subseteq> dom (cs_vars ?cs)"
    using wf_r1csD(2,3,7) [OF wf] by (auto simp: new(2))
  with rows inj rng show ?thesis unfolding wf_r1cs_def by blast
qed simp

lemma sat_new_var:
  assumes "wf_r1cs cs"
  shows "sat (fst (new_var cs name)) \<sigma> \<longleftrightarrow> sat cs \<sigma>"
proof (cases rule: new_var_cases [of cs name])
  case new
  show ?thesis
  proof (cases "cs_a cs = []")
    case True
    then show ?thesis by (simp add: new(2) sat_def)
  next
    case False
    then show ?thesis using wf_r1csD(2,3) [OF assms] by (simp add: new(2) sat_def)
  qed
qed simp

lemma new_var_frame:
  "cs_vars cs \<subseteq>\<^sub>m cs_vars (fst (new_var cs name))"
  "cs_locals (fst (new_var cs name)) = cs_locals cs"
  "cs_witness_only (fst (new_var cs name)) = cs_witness_only cs"
  "name \<in> dom (cs_vars (fst (new_var cs name)))"
  by (cases rule: new_var_cases [of cs name]; auto simp: map_le_def)+

lemma yields_declare: "yields (declare_var n) {} (\<lambda>\<rho>. True)"
  by (rule yieldsI) (auto simp: declare_var_def grows_def new_var_frame wf_new_var sat_new_var)

lemma yields_assign: "yields (assign n v) {} (\<lambda>\<rho>. True)"
  by (rule yieldsI) (auto simp: assign_def grows_def result_simps wf_r1cs_def sat_def split: if_splits)

lemma yields_new_local: "yields (new_local_var n) {n} (\<lambda>\<rho>. True)"
proof (rule yieldsI)
  fix cs cs' :: "'f::field r1cs"
  assume "wf_r1cs cs" "\<not> cs_witness_only cs" "new_local_var n cs = Ok cs'"
  then have fresh: "cs_vars cs n = None" and cs': "cs' = (fst (new_var cs n))\<lparr>cs_locals := cs_locals cs @ [n]\<rparr>"
    by (auto simp: new_local_var_def Let_def new_var_frame split: if_splits)
  have "wf_r1cs cs'" using wf_new_var [OF \<open>wf_r1cs cs\<close>, of n] new_var_frame(4) [of n cs]
    unfolding cs' by (auto simp: wf_r1cs_def new_var_frame)
  moreover have "sat cs' \<sigma> \<longleftrightarrow> sat cs \<sigma>" for \<sigma>
    using sat_new_var [OF \<open>wf_r1cs cs\<close>, of n \<sigma>] unfolding cs' by (simp add: sat_def)
  ultimately show "grows {n} (\<lambda>\<rho>. True) cs cs'"
    using \<open>\<not> cs_witness_only cs\<close> fresh unfolding grows_def by (auto simp: cs' new_var_frame)
qed

lemma fill_length: "fill cs es row = Ok row' \<Longrightarrow> length row' = length row"
  by (induction es arbitrary: row) (auto simp: result_simps split: if_splits)

lemma yields_constr:
  "yields (constraint a b c) {} (\<lambda>\<rho>. put_ok {} a \<and> put_ok {} b \<and> put_ok {} c \<longrightarrow> lin \<rho> a * lin \<rho> b = lin \<rho> c)"
proof (rule yieldsI)
  fix cs cs' assume cs: "wf_r1cs cs" "\<not> cs_witness_only cs" "constraint a b c cs = Ok cs'"
  let ?z = "replicate (length (cs_w cs)) 0"
  obtain ra rb rc where r: "fill cs a ?z = Ok ra" "fill cs b ?z = Ok rb" "fill cs c ?z = Ok rc"
    and cs': "cs' = cs\<lparr>cs_a := cs_a cs @ [ra], cs_b := cs_b cs @ [rb], cs_c := cs_c cs @ [rc]\<rparr>"
    using cs by (auto simp: constraint_def Let_def result_simps)
  have val: "row_val ro \<sigma> = lin \<rho> e"
    if "fill cs e ?z = Ok ro" "put_ok {} e" "agree cs \<sigma> \<rho>" "\<sigma> 0 = 1" for \<sigma> \<rho> e ro
    using fill_val [OF cs(1) that(3,4,1,2)] by simp
  note va = val [OF r(1)] and vb = val [OF r(2)] and vc = val [OF r(3)]
  have len: "length ra = length (cs_w cs)" "length rb = length (cs_w cs)" "length rc = length (cs_w cs)"
    using fill_length [OF r(1)] fill_length [OF r(2)] fill_length [OF r(3)] by simp_all
  have "wf_r1cs cs'" using cs(1) len unfolding cs' by (auto simp: wf_r1cs_def)
  moreover have "sat cs' \<sigma> \<longleftrightarrow> sat cs \<sigma> \<and> row_val ra \<sigma> * row_val rb \<sigma> = row_val rc \<sigma>" for \<sigma>
    using cs(1) unfolding cs' sat_def by (auto simp: wf_r1cs_def nth_append less_Suc_eq)
  moreover have "agree cs' \<sigma> \<rho> = agree cs \<sigma> \<rho>" for \<sigma> \<rho> by (simp add: agree_def cs')
  ultimately show "grows {} (\<lambda>\<rho>. put_ok {} a \<and> put_ok {} b \<and> put_ok {} c \<longrightarrow> lin \<rho> a * lin \<rho> b = lin \<rho> c) cs cs'"
    using cs(2) va vb vc unfolding grows_def by (auto simp: cs')
qed

lemma yields_constraint:
  "put_ok {} a \<Longrightarrow> put_ok {} b \<Longrightarrow> put_ok {} c \<Longrightarrow> yields (constraint a b c) {} (\<lambda>\<rho>. lin \<rho> a * lin \<rho> b = lin \<rho> c)"
  by (rule yields_mono [OF yields_constr]) simp_all

section \<open>Sealing\<close>

lemma seal_Ok:
  "seal cs = Ok (cs\<lparr>cs_vars := pub cs, cs_locals := []\<rparr>)"
proof -
  have "fold (\<lambda>v m. m(v := None)) ls m = m |` (- set ls)" for ls and m :: "string \<rightharpoonup> nat"
    by (induction ls arbitrary: m) (auto simp: restrict_map_def fun_eq_iff)
  then show ?thesis by (simp add: seal_def pub_def)
qed

lemma pub_le: "pub cs \<subseteq>\<^sub>m cs_vars cs"
  by (auto simp: pub_def map_le_def restrict_map_def)

lemma result_bind_assoc: "result_bind (result_bind r f) g = result_bind r (\<lambda>x. result_bind (f x) g)"
  by (cases r) simp_all

lemma result_bind_cong: "r = s \<Longrightarrow> (\<And>x. s = Ok x \<Longrightarrow> f x = g x) \<Longrightarrow> result_bind r f = result_bind s g"
  by (cases s) simp_all

lemma seq_append: "seq (gs @ hs) cs = result_bind (seq gs cs) (seq hs)"
  by (induction gs arbitrary: cs) (simp_all add: result_bind_assoc cong: result_bind_cong)

lemma wf_seal: "wf_r1cs cs \<Longrightarrow> wf_r1cs (cs\<lparr>cs_vars := pub cs, cs_locals := []\<rparr>)"
proof -
  assume wf: "wf_r1cs cs"
  have sub: "cs_vars cs n = Some j" if "pub cs n = Some j" for n j
    using that by (auto simp: pub_def restrict_map_def split: if_splits)
  have "m = n" if "pub cs m = Some j" "pub cs n = Some j" for m n j
    using wf_r1csD(6) [OF wf] sub that by blast
  moreover have "0 < j \<and> j < length (cs_w cs)" if "pub cs n = Some j" for n j
    using wf_r1csD(5) [OF wf] sub that by blast
  ultimately show ?thesis using wf_r1csD(1-4) [OF wf] unfolding wf_r1cs_def by simp
qed

lemma seals_seal:
  assumes g: "grows L P cs c" and M: "set (cs_locals cs) \<subseteq> M"
    and Q: "\<And>\<rho> \<rho>'. (\<And>n. n \<notin> L \<union> M \<Longrightarrow> \<rho>' n = \<rho> n) \<Longrightarrow> P \<rho>' \<Longrightarrow> Q \<rho>"
  shows "seals Q cs (c\<lparr>cs_vars := pub c, cs_locals := []\<rparr>)" (is "seals Q cs ?c")
proof -
  note g = growsD [OF g]
  have "pub cs \<subseteq>\<^sub>m pub c" unfolding map_le_def
  proof
    fix n assume n: "n \<in> dom (pub cs)"
    then have "n \<notin> set (cs_locals cs)" "n \<in> dom (cs_vars cs)" by (auto simp: pub_def)
    then have "n \<notin> set (cs_locals c)" "cs_vars cs n = cs_vars c n" using g(3,4) by (auto simp: map_le_def)
    with \<open>n \<notin> set (cs_locals cs)\<close> show "pub cs n = pub c n" by (simp add: pub_def)
  qed
  moreover have "sat cs \<sigma> \<and> Q \<rho>" if one: "\<sigma> 0 = 1" and "sat ?c \<sigma>" "agree ?c \<sigma> \<rho>" for \<sigma> \<rho>
  proof -
    have sat: "sat c \<sigma>" using that(2) by (simp add: sat_def)
    let ?\<rho> = "\<lambda>n. case cs_vars c n of Some j \<Rightarrow> \<sigma> j | None \<Rightarrow> \<rho> n"
    have out: "?\<rho> n = \<rho> n" if "n \<notin> L \<union> M" for n
    proof -
      have "n \<notin> set (cs_locals c)" using that g(4) M by blast
      then have "pub c n = cs_vars c n" by (simp add: pub_def)
      then show ?thesis using \<open>agree ?c \<sigma> \<rho>\<close> by (simp add: agree_def split: option.splits)
    qed
    have "P ?\<rho>" by (rule g(6) [OF one sat]) (simp add: agree_def)
    with out have "Q \<rho>" by (rule Q)
    then show ?thesis using g(5) [OF one sat] by simp
  qed
  ultimately show ?thesis by (intro sealsI wf_seal [OF g(1)]) (simp_all add: g(2))
qed

lemma gadget_seal:
  assumes "gs \<noteq> []" "last gs = seal" "yields (seq (butlast gs)) L P"
    and "\<And>\<rho> \<rho>'. (\<And>n. n \<notin> L \<union> M \<Longrightarrow> \<rho>' n = \<rho> n) \<Longrightarrow> P \<rho>' \<Longrightarrow> Q \<rho>"
  shows "gadget M (seq gs) Q"
proof (rule gadgetI)
  fix cs cs' assume cs: "wf_r1cs cs" "\<not> cs_witness_only cs" "set (cs_locals cs) \<subseteq> M" "seq gs cs = Ok cs'"
  have "gs = butlast gs @ [seal]" using assms(1,2) by (metis append_butlast_last_id)
  with cs(4) have "result_bind (seq (butlast gs) cs) (seq [seal]) = Ok cs'" by (metis seq_append)
  then obtain c where c: "seq (butlast gs) cs = Ok c" "cs' = c\<lparr>cs_vars := pub c, cs_locals := []\<rparr>"
    by (auto simp: result_simps seal_Ok)
  show "seals Q cs cs'" unfolding c(2)
    by (rule seals_seal [OF yieldsD [OF assms(3) cs(1,2) c(1)] cs(3) assms(4)])
qed

lemma pub_no_locals [simp]: "cs_locals cs = [] \<Longrightarrow> pub cs = cs_vars cs"
  by (simp add: pub_def restrict_map_def)

lemma gadget_yields: "yields g {} P \<Longrightarrow> gadget {} g P"
proof (rule gadgetI)
  fix cs cs' assume "yields g {} P" "wf_r1cs cs" "\<not> cs_witness_only cs" "set (cs_locals cs) \<subseteq> {}" "g cs = Ok cs'"
  then have "grows {} P cs cs'" "cs_locals cs = []" by (simp_all add: yieldsD)
  then show "seals P cs cs'" unfolding seals_def grows_def by simp
qed

lemma seals_trans:
  assumes "seals P cs c" "seals Q c cs'"
  shows "seals (\<lambda>\<rho>. P \<rho> \<and> Q \<rho>) cs cs'"
proof -
  note 1 = sealsD [OF assms(1)] and 2 = sealsD [OF assms(2)]
  have le: "cs_vars c \<subseteq>\<^sub>m cs_vars cs'" using 2(4) 1(3) by simp
  then have "pub cs \<subseteq>\<^sub>m cs_vars cs'" using 1(4) map_le_trans by blast
  moreover have "sat cs \<sigma> \<and> P \<rho> \<and> Q \<rho>" if "\<sigma> 0 = 1" "sat cs' \<sigma>" "agree cs' \<sigma> \<rho>" for \<sigma> \<rho>
    using 1(5,6) 2(5,6) agree_mono [OF le] that by blast
  ultimately show ?thesis using 2(1,2,3) by (intro sealsI) simp_all
qed

lemma gadget_Cons:
  assumes "gadget M g P" "gadget {} (seq gs) Q"
  shows "gadget M (seq (g # gs)) (\<lambda>\<rho>. P \<rho> \<and> Q \<rho>)"
proof (rule gadgetI)
  fix cs cs' assume cs: "wf_r1cs cs" "\<not> cs_witness_only cs" "set (cs_locals cs) \<subseteq> M" "seq (g # gs) cs = Ok cs'"
  then obtain c where c: "g cs = Ok c" "seq gs c = Ok cs'" by (auto simp: result_simps)
  note 1 = gadgetD [OF assms(1) cs(1-3) c(1)]
  have "set (cs_locals c) \<subseteq> {}" using sealsD(3) [OF 1] by simp
  from seals_trans [OF 1 gadgetD [OF assms(2) sealsD(1,2) [OF 1] this c(2)]]
  show "seals (\<lambda>\<rho>. P \<rho> \<and> Q \<rho>) cs cs'" .
qed

lemma gadget_Nil: "gadget {} (seq []) (\<lambda>\<rho>. True)"
  by (rule gadget_yields, rule yields_Nil)

lemma gadget_loop:
  "(\<And>x. x \<in> set xs \<Longrightarrow> gadget {} (g x) (P x)) \<Longrightarrow> gadget {} (seq (map g xs)) (\<lambda>\<rho>. \<forall>x\<in>set xs. P x \<rho>)"
proof (induction xs)
  case Nil
  then show ?case using gadget_Nil by (simp del: seq.simps)
next
  case (Cons x xs)
  then show ?case
    using gadget_Cons [of "{}" "g x" "P x" "map g xs" "\<lambda>\<rho>. \<forall>x\<in>set xs. P x \<rho>"] by (simp del: seq.simps)
qed

lemma gadget_with_var: "(\<And>v. gadget M (f v) P) \<Longrightarrow> gadget M (with_var n f) P"
  by (rule gadgetI) (auto simp: with_var_def result_simps intro: gadgetD)

lemma gadget_panic: "gadget M (\<lambda>cs. Panic) P"
  by (rule gadgetI) simp

text \<open>A builder with pending locals, followed by one that seals them.\<close>

lemma gadget_pending:
  assumes "yields g L P" "gadget L (seq gs) Q"
    and "\<And>\<rho> \<rho>'. (\<And>n. n \<notin> L \<Longrightarrow> \<rho>' n = \<rho> n) \<Longrightarrow> P \<rho>' \<Longrightarrow> R \<rho>"
  shows "gadget {} (seq (g # gs)) (\<lambda>\<rho>. R \<rho> \<and> Q \<rho>)"
proof (rule gadgetI)
  fix cs cs' assume cs: "wf_r1cs cs" "\<not> cs_witness_only cs" "set (cs_locals cs) \<subseteq> {}" "seq (g # gs) cs = Ok cs'"
  then obtain c where c: "g cs = Ok c" "seq gs c = Ok cs'" by (auto simp: result_simps)
  note g = yieldsD [OF assms(1) cs(1,2) c(1)]
  let ?c = "c\<lparr>cs_vars := pub c, cs_locals := []\<rparr>"
  have 1: "seals R cs ?c" by (rule seals_seal [OF g cs(3)]) (use assms(3) in auto)
  have "set (cs_locals c) \<subseteq> L" using growsD(4) [OF g] cs(3) by auto
  note h = gadgetD [OF assms(2) growsD(1,2) [OF g] this c(2)]
  then have "seals Q ?c cs'" by (simp add: seals_def sat_def pub_no_locals)
  with 1 show "seals (\<lambda>\<rho>. R \<rho> \<and> Q \<rho>) cs cs'" by (rule seals_trans)
qed

section \<open>Derived operations\<close>

lemma bit_cases: "(- 1 + x) * x = 0 \<longleftrightarrow> x = 0 \<or> x = 1" for x :: "'f::field"
  by (simp add: add_eq_0_iff2) auto

lemma yields_set_field_var: "yields (set_field_var n v) {} (\<lambda>\<rho>. True)"
  using yields_Cons [OF yields_declare yields_Cons [OF yields_assign yields_Nil]]
  unfolding set_field_var_def by (rule yields_mono) simp_all

lemma yields_set_var: "yields (set_var n v) {} (\<lambda>\<rho>. True)"
  unfolding set_var_def by (rule yields_set_field_var)

lemma yields_set_local: "yields (set_local n v) {n} (\<lambda>\<rho>. True)"
  using yields_Cons [OF yields_new_local yields_Cons [OF yields_assign yields_Nil]]
  unfolding set_local_def by (rule yields_mono) simp_all

lemma yields_set_bit: "yields (set_bit n v) {} (\<lambda>\<rho>. \<rho> n = 0 \<or> \<rho> n = 1)"
  unfolding set_bit_def
  by (rule yields_mono, rule yields_Cons, rule yields_declare, rule yields_Cons, rule yields_assign,
      rule yields_Cons, rule yields_constraint, simp, simp, simp, rule yields_Nil)
    (auto simp: bit_cases)

end
