(* ===== verification/Gadgets.thy ===== *)
theory Gadgets
  imports Constraint_Logic
begin

text \<open>
  What the gadgets of \<^verbatim>\<open>vm/src/circuit/r1cs.rs\<close> enforce on every satisfying assignment: bit decomposition,
  set membership with one-hot selectors, array lookup, and the register update.
\<close>

declare of_nat_unat [simp del]

named_theorems yields_rules \<open>what each operation of the builder yields\<close>

lemmas [yields_rules] = yields_constr yields_declare yields_assign yields_new_local yields_set_field_var yields_set_var
  yields_set_local yields_set_bit yields_Cons yields_Nil yields_loop yields_with_var yields_unless

lemma yields_if:
  "(c \<Longrightarrow> yields g L P) \<Longrightarrow> (\<not> c \<Longrightarrow> yields h M Q)
   \<Longrightarrow> yields (if c then g else h) (if c then L else M) (\<lambda>\<rho>. if c then P \<rho> else Q \<rho>)"
  by simp

lemma yields_eqi [yields_rules]: "yields (eqi n x) {} (\<lambda>\<rho>. \<rho> n = x)"
  unfolding eqi_def by (rule yields_mono, rule yields_constraint) simp_all

lemma yields_cs_add [yields_rules]: "yields (cs_add v0 v1 v2) {} (\<lambda>\<rho>. v1 \<noteq> v2 \<longrightarrow> \<rho> v0 = \<rho> v1 + \<rho> v2)"
  unfolding cs_add_def by (rule yields_mono, rule yields_constr) auto

lemma yields_add: "v1 \<noteq> v2 \<Longrightarrow> yields (cs_add v0 v1 v2) {} (\<lambda>\<rho>. \<rho> v0 = \<rho> v1 + \<rho> v2)"
  by (rule yields_mono [OF yields_cs_add]) simp_all

lemma yields_addi [yields_rules]: "yields (cs_addi v0 v1 x) {} (\<lambda>\<rho>. \<rho> v0 = \<rho> v1 + x)"
  unfolding cs_addi_def by (rule yields_mono, rule yields_constraint) (simp_all add: add.commute)

lemma yields_mul [yields_rules]: "yields (cs_mul v0 v1 v2) {} (\<lambda>\<rho>. \<rho> v0 = \<rho> v1 * \<rho> v2)"
  unfolding cs_mul_def by (rule yields_mono, rule yields_constraint) simp_all

lemma yields_muli [yields_rules]: "yields (cs_muli v0 v1 x) {} (\<lambda>\<rho>. \<rho> v0 = x * \<rho> v1)"
  unfolding cs_muli_def by (rule yields_mono, rule yields_constraint) simp_all

lemma yields_nand [yields_rules]: "yields (cs_nand v0 v1) {} (\<lambda>\<rho>. \<rho> v0 = 0 \<or> \<rho> v1 = 0)"
  unfolding cs_nand_def by (rule yields_mono, rule yields_constraint) simp_all

lemma yields_set_eq [yields_rules]: "yields (set_eq n v) {} (\<lambda>\<rho>. \<rho> n = \<rho> v)"
  unfolding set_eq_def
  by (rule yields_with_var, rule yields_mono, rule yields_Cons, rule yields_declare, rule yields_Cons, rule yields_assign,
      rule yields_Cons, rule yields_constraint, simp, simp, simp, rule yields_Nil) simp_all

section \<open>Bit decomposition\<close>

abbreviation bits_of :: "string \<Rightarrow> nat \<Rightarrow> string" where
  "bits_of name i \<equiv> name @ ''_'' @ nat_str i"

lemma put_ok_bits: "inj_on f (set xs) \<Longrightarrow> distinct xs \<Longrightarrow> put_ok {} (map (\<lambda>i. Put (Var (f i)) (c i)) xs)"
  by (rule put_ok_distinct) (auto simp: distinct_map inj_on_def)

lemma lin_map: "lin \<rho> (map (\<lambda>i. Put (Var (f i)) (c i)) xs) = (\<Sum>i\<leftarrow>xs. c i * \<rho> (f i))"
  by (induction xs) simp_all

lemma yields_to_bits_raw:
  "yields (to_bits n v) {} (\<lambda>\<rho>. (\<forall>i<32. \<rho> (bits_of n i) = 0 \<or> \<rho> (bits_of n i) = 1)
     \<and> \<rho> n = (\<Sum>i<32. 2 ^ i * \<rho> (bits_of n i)))"
  unfolding to_bits_def
  by (rule yields_mono, rule yields_Cons, rule yields_set_var, rule yields_Cons, rule yields_loop, rule yields_set_bit,
      rule yields_Cons, rule yields_constraint, rule put_ok_bits, simp add: inj_on_def, simp, simp, simp, rule yields_Nil)
    (auto simp: lin_map sum_list_distinct_conv_sum_set atLeast0LessThan)

text \<open>Field elements that are bits spell a machine word.\<close>

lemma unat_less_32: "unat (v :: u32) < 2 ^ 32"
  using unsigned_less [where 'a = nat, of v] by simp

lemma num_bits: "num v = (\<Sum>i<32. 2 ^ i * of_bool (bit v i))" for v :: u32
proof -
  have "unat v = take_bit 32 (unat v)" using unat_less_32 [of v] by (simp add: take_bit_nat_eq_self)
  also have "\<dots> = (\<Sum>i<32. 2 ^ i * of_bool (bit v i))"
    by (simp only: take_bit_sum bit_unsigned_iff push_bit_eq_mult atLeast0LessThan) (simp add: mult.commute)
  finally show ?thesis by (simp only: of_nat_sum of_nat_mult of_nat_power of_nat_numeral of_nat_of_bool)
qed

lemma bits_word:
  fixes b :: "nat \<Rightarrow> 'f::field"
  assumes "\<forall>i<32. b i = 0 \<or> b i = 1"
  obtains v :: u32 where "\<forall>i<32. b i = of_bool (bit v i)" "(\<Sum>i<32. 2 ^ i * b i) = num v"
proof -
  let ?v = "horner_sum of_bool 2 (map (\<lambda>i. b i = 1) [0..<32]) :: u32"
  have bits: "\<forall>i<32. b i = of_bool (bit ?v i)"
    using assms by (auto simp: bit_horner_sum_bit_word_iff)
  then have "(\<Sum>i<32. 2 ^ i * b i) = num ?v" unfolding num_bits by simp
  with bits show ?thesis using that by blast
qed

text \<open>The value of a name is the number of a word, and its bit names carry the bits of that word.\<close>

definition is_word :: "(string \<Rightarrow> 'f::field) \<Rightarrow> string \<Rightarrow> u32 \<Rightarrow> bool" where
  "is_word \<rho> n v \<longleftrightarrow> \<rho> n = num v \<and> (\<forall>i<32. \<rho> (bits_of n i) = of_bool (bit v i))"

lemma yields_to_bits [yields_rules]: "yields (to_bits n v) {} (\<lambda>\<rho>. \<exists>v. is_word \<rho> n v)"
proof (rule yields_mono [OF yields_to_bits_raw])
  fix \<rho> :: "string \<Rightarrow> 'f::field"
  assume *: "(\<forall>i<32. \<rho> (bits_of n i) = 0 \<or> \<rho> (bits_of n i) = 1) \<and> \<rho> n = (\<Sum>i<32. 2 ^ i * \<rho> (bits_of n i))"
  then obtain v :: u32 where "\<forall>i<32. \<rho> (bits_of n i) = of_bool (bit v i)" "(\<Sum>i<32. 2 ^ i * \<rho> (bits_of n i)) = num v"
    using bits_word [of "\<lambda>i. \<rho> (bits_of n i)"] by blast
  with * show "\<exists>v. is_word \<rho> n v" unfolding is_word_def by metis
qed simp

section \<open>Membership\<close>

text \<open>The canonical numbers below \<open>2 ^ 130\<close> are different field elements, as in the scalar field of BN254.\<close>

definition large_field :: "'f::field itself \<Rightarrow> bool" where
  "large_field _ \<longleftrightarrow> inj_on (of_nat :: nat \<Rightarrow> 'f) {..<2 ^ 130}"

lemma large_field_char_0 [simp]: "large_field TYPE('f::field_char_0)"
  by (simp add: large_field_def inj_on_def)

lemma of_nat_eq_large:
  "large_field TYPE('f) \<Longrightarrow> a < 2 ^ 130 \<Longrightarrow> b < 2 ^ 130 \<Longrightarrow> (of_nat a = (of_nat b :: 'f::field)) \<longleftrightarrow> a = b"
  by (auto simp: large_field_def inj_on_def)

lemma unat_large [simp]: "unat (v :: u32) < 2 ^ 130"
  using unat_less_32 [of v] by (rule less_le_trans) simp

lemma num_eq_iff: "large_field TYPE('f) \<Longrightarrow> (num v = (num w :: 'f::field)) \<longleftrightarrow> v = w"
  using of_nat_eq_large [OF _ unat_large unat_large] by (metis word_unat_eq_iff)

definition member_locals :: "string set" where
  "member_locals = range (\<lambda>i. ''x-'' @ nat_str i) \<union> range (\<lambda>i. ''l'' @ nat_str i) \<union> range (\<lambda>i. ''r'' @ nat_str i)
     \<union> range (\<lambda>i. ''cx'' @ nat_str i)"

abbreviation sel :: "string \<Rightarrow> u32 \<Rightarrow> string" where
  "sel name x \<equiv> name @ ''='' @ u32_str x"

lemma sel_not_local [simp]: "name @ CHR ''='' # str \<notin> member_locals"
proof -
  have "CHR ''='' \<notin> set v" if "v \<in> member_locals" for v
    using that nat_str_digits [of "CHR ''=''"] by (auto simp: member_locals_def)
  then show ?thesis by force
qed

definition member_rel :: "(string \<Rightarrow> 'f::field) \<Rightarrow> string \<Rightarrow> u32 list \<Rightarrow> nat \<Rightarrow> bool" where
  "member_rel \<rho> name s i \<longleftrightarrow> (let n = length s in
     \<rho> (''x-'' @ nat_str i) = \<rho> name - num (s ! i)
     \<and> \<rho> (''l'' @ nat_str i) = (if i = 0 then 1 else \<rho> (''l'' @ nat_str (i - 1))) * \<rho> (''x-'' @ nat_str i)
     \<and> \<rho> (''r'' @ nat_str i) = \<rho> (''x-'' @ nat_str i) * (if i = n - 1 then 1 else \<rho> (''r'' @ nat_str (Suc i)))
     \<and> \<rho> (''cx'' @ nat_str i) = (if i = 0 then 1 else \<rho> (''l'' @ nat_str (i - 1)))
         * (if i = n - 1 then 1 else \<rho> (''r'' @ nat_str (Suc i)))
     \<and> \<rho> (sel name (s ! i)) = \<rho> (''cx'' @ nat_str i) / member_C s (s ! i))"

lemma nat_str_0 [simp]: "nat_str 0 = ''0''" and nat_str_1 [simp]: "nat_str (Suc 0) = ''1''"
  by (subst nat_str.simps, simp add: char_of_def bit_0)+

lemma yields_member_witness: "yields (member_witness name k s i) member_locals (\<lambda>\<rho>. True)"
  unfolding member_witness_def Let_def
  by (rule yields_mono, (rule yields_rules)+) (auto simp: member_locals_def)

lemma yields_member_constraints:
  assumes "i < length s" "1 < length s"
  shows "yields (member_constraints name s i) {} (\<lambda>\<rho>. member_rel \<rho> name s i)"
proof -
  have c: "yields (if member_C s (s ! i) = (0 :: 'a) then (\<lambda>cs. Panic)
        else cs_muli (name @ ''='' @ u32_str (s ! i)) (''cx'' @ nat_str i) (1 / member_C s (s ! i))) {}
        (\<lambda>\<rho>. \<rho> (sel name (s ! i)) = \<rho> (''cx'' @ nat_str i) / member_C s (s ! i))"
    by (cases "member_C s (s ! i) = (0 :: 'a)")
      (auto simp: yields_panic intro: yields_mono [OF yields_muli])
  show ?thesis
    unfolding member_constraints_def Let_def
    by (rule yields_mono, (rule yields_Cons c yields_addi yields_if yields_mul yields_muli yields_Nil)+)
      (use assms in \<open>auto simp: member_rel_def Let_def algebra_simps split: if_splits\<close>)
qed

lemma member_products:
  fixes \<rho> :: "string \<Rightarrow> 'f::field"
  assumes rel: "\<And>i. i < length s \<Longrightarrow> member_rel \<rho> name s i" and i: "i < length s"
  defines "d \<equiv> \<lambda>j. \<rho> name - num (s ! j)"
  shows "\<rho> (''l'' @ nat_str i) = (\<Prod>j<Suc i. d j)" "\<rho> (''r'' @ nat_str i) = (\<Prod>j=i..<length s. d j)"
proof -
  note rel = rel [unfolded member_rel_def Let_def, folded d_def]
  show "\<rho> (''l'' @ nat_str i) = (\<Prod>j<Suc i. d j)" using i
  proof (induction i)
    case 0
    then show ?case using rel [of 0] by (simp add: d_def)
  next
    case (Suc i)
    then show ?case using rel [of "Suc i"] by (simp add: d_def)
  qed
  show "\<rho> (''r'' @ nat_str i) = (\<Prod>j=i..<length s. d j)" using i
  proof (induction i rule: measure_induct_rule [of "\<lambda>i. length s - i"])
    case (less i)
    have split: "(\<Prod>j=i..<length s. d j) = d i * (\<Prod>j=Suc i..<length s. d j)"
      using less.prems by (simp add: prod.atLeast_Suc_lessThan)
    show ?case
    proof (cases "Suc i < length s")
      case True
      then have "\<rho> (''r'' @ nat_str (Suc i)) = (\<Prod>j=Suc i..<length s. d j)" by (intro less.IH) simp_all
      with True rel [of i] show ?thesis unfolding split by (simp add: d_def)
    next
      case False
      with less.prems have "length s = Suc i" by simp
      then show ?thesis using rel [of i] by (simp add: d_def)
    qed
  qed
qed

lemma prod_nat_remove: "i < n \<Longrightarrow> prod d ({..<n} - {i}) = prod d {..<i} * prod d {Suc i..<n}" for n :: nat
  by (subst prod.union_disjoint [symmetric]) (auto intro: prod.cong)

lemma member_C_prod:
  assumes "distinct s" "k < length s"
  shows "member_C s (s ! k) = (\<Prod>j\<in>{..<length s} - {k}. num (s ! k) - num (s ! j) :: 'f::field)"
proof -
  have "set (filter (\<lambda>x. x \<noteq> s ! k) s) = (!) s ` ({..<length s} - {k})"
    using assms by (auto simp: in_set_conv_nth nth_eq_iff_index_eq image_iff)
  moreover have "inj_on ((!) s) ({..<length s} - {k})" using assms(1) by (auto intro: inj_on_nth)
  ultimately show ?thesis
    using assms(1) by (simp add: member_C_def prod.distinct_set_conv_list [symmetric] prod.reindex)
qed

text \<open>One-hot selection: a name has the number of one element of the list, and of the selectors exactly that
  of this element is set.\<close>

definition one_hot :: "(string \<Rightarrow> 'f::field) \<Rightarrow> string \<Rightarrow> u32 list \<Rightarrow> u32 \<Rightarrow> bool" where
  "one_hot \<rho> name s x \<longleftrightarrow> x \<in> set s \<and> \<rho> name = num x \<and> (\<forall>y \<in> set s. \<rho> (sel name y) = of_bool (y = x))"

lemma member_one_hot:
  fixes \<rho> :: "string \<Rightarrow> 'f::field"
  assumes rel: "\<And>i. i < length s \<Longrightarrow> member_rel \<rho> name s i" and "1 < length s" "distinct s"
    and zero: "\<rho> (''l'' @ nat_str (length s - 1)) = 0" and large: "large_field TYPE('f)"
  shows "\<exists>x. one_hot \<rho> name s x"
proof -
  let ?n = "length s" and ?d = "\<lambda>j. \<rho> name - num (s ! j)"
  have "?n - 1 < ?n" "Suc (?n - 1) = ?n" using assms(2) by simp_all
  then have "(\<Prod>j<?n. ?d j) = 0" using member_products(1) [OF rel, of "?n - 1"] zero by metis
  then obtain k where k: "k < ?n" "\<rho> name = num (s ! k)" by auto
  have cx: "\<rho> (''cx'' @ nat_str i) = prod ?d ({..<?n} - {i})" if i: "i < ?n" for i
  proof -
    have "(if i = 0 then 1 else \<rho> (''l'' @ nat_str (i - 1))) = prod ?d {..<i}"
      using member_products(1) [OF rel, of "i - 1"] i by (cases i) simp_all
    moreover have "(if i = ?n - 1 then 1 else \<rho> (''r'' @ nat_str (Suc i))) = prod ?d {Suc i..<?n}"
      using member_products(2) [OF rel, of "Suc i"] i by (auto simp: not_less_eq less_Suc_eq)
    ultimately show ?thesis using rel [OF i] i by (simp add: member_rel_def Let_def prod_nat_remove)
  qed
  have C: "member_C s (s ! k) \<noteq> (0 :: 'f)"
    using k(1) assms(3) large by (auto simp: member_C_prod num_eq_iff nth_eq_iff_index_eq)
  have "\<rho> (sel name (s ! i)) = of_bool (s ! i = s ! k)" if i: "i < ?n" for i
  proof (cases "i = k")
    case True
    then show ?thesis using rel [OF i] cx [OF i] C k member_C_prod [OF assms(3) k(1), where 'f = 'f]
      by (simp add: member_rel_def Let_def)
  next
    case False
    then have "prod ?d ({..<?n} - {i}) = 0" using k by auto
    then show ?thesis using rel [OF i] cx [OF i] False i k(1) assms(3)
      by (simp add: member_rel_def Let_def nth_eq_iff_index_eq)
  qed
  with k show ?thesis unfolding one_hot_def by (metis in_set_conv_nth)
qed

lemma gadget_member:
  assumes "1 < length s" "distinct s" "large_field TYPE('f::field)" "name \<notin> member_locals" "name \<notin> M"
    "\<And>x. sel name x \<notin> M"
  shows "gadget M (member name k s :: 'f builder) (\<lambda>\<rho>. \<exists>x. one_hot \<rho> name s x)"
  unfolding member_def Let_def
proof (rule gadget_seal, simp, simp, simp only: butlast.simps list.simps simp_thms if_True if_False,
    (rule yields_rules yields_member_witness yields_member_constraints)+)
  show "1 < length s" by fact
  fix i assume "i \<in> set [0..<length s]"
  then show "i < length s" by simp
next
  fix \<rho> \<rho>' :: "string \<Rightarrow> 'f"
  let ?n = "length s"
  assume "\<And>n. n \<notin> ({} \<union> ({} \<union> ((\<Union>x\<in>set [0..<?n]. member_locals) \<union> (({} \<union> ({} \<union> ((\<Union>x\<in>set [0..<?n]. {}) \<union> {}))) \<union> {})))) \<union> M
    \<Longrightarrow> \<rho>' n = \<rho> n"
    and *: "True \<and> True \<and> (\<forall>x\<in>set [0..<?n]. True) \<and> (\<rho>' ''r0'' = 0 \<and> \<rho>' (''l'' @ nat_str (?n - 1)) = 0
      \<and> (\<forall>x\<in>set [0..<?n]. member_rel \<rho>' name s x) \<and> True) \<and> True"
  then have out: "\<rho>' n = \<rho> n" if "n \<notin> member_locals" "n \<notin> M" for n using that by auto
  have "\<exists>x. one_hot \<rho>' name s x" by (rule member_one_hot) (use * assms in auto)
  then show "\<exists>x. one_hot \<rho> name s x" using out assms by (simp add: one_hot_def)
qed (rule yields_Nil)+

section \<open>Selection\<close>

text \<open>A name holds an index below \<open>n\<close>, and the selectors are its one-hot encoding.\<close>

definition picks :: "(string \<Rightarrow> 'f::field) \<Rightarrow> string \<Rightarrow> nat \<Rightarrow> nat \<Rightarrow> bool" where
  "picks \<rho> name n i \<longleftrightarrow> i < n \<and> \<rho> name = of_nat i
     \<and> (\<forall>j<n. \<rho> (name @ ''='' @ nat_str j) = of_bool (j = i))"

lemma one_hot_picks:
  fixes n :: u32
  assumes "one_hot \<rho> name (map word_of_nat [0..<unat n]) x"
  shows "picks \<rho> name (unat n) (unat x)"
proof -
  from assms obtain i where i: "i < unat n" "x = word_of_nat i" by (auto simp: one_hot_def)
  have nat: "unat (word_of_nat j :: u32) = j" if "j < unat n" for j
    using that unat_less_32 [of n] by (simp add: unat_of_nat)
  have "\<rho> (name @ ''='' @ nat_str j) = of_bool (j = i)" if j: "j < unat n" for j
  proof -
    have "\<rho> (sel name (word_of_nat j)) = of_bool (word_of_nat j = x)" using assms j unfolding one_hot_def by auto
    moreover have "(word_of_nat j :: u32) = word_of_nat i \<longleftrightarrow> j = i" using nat [OF j] nat [OF i(1)] by metis
    ultimately show ?thesis by (simp add: u32_str_def nat [OF j] i(2))
  qed
  then show ?thesis using assms i(1) unfolding picks_def i(2) nat [OF i(1)] by (simp add: one_hot_def i(2) nat [OF i(1)])
qed

lemma inj_on_word_of_nat: "n \<le> 2 ^ 32 \<Longrightarrow> inj_on (word_of_nat :: nat \<Rightarrow> u32) {0..<n}"
proof (rule inj_onI)
  fix i j assume "n \<le> 2 ^ 32" "i \<in> {0..<n}" "j \<in> {0..<n}" "(word_of_nat i :: u32) = word_of_nat j"
  then have "unat (word_of_nat i :: u32) = unat (word_of_nat j :: u32)" "i < 2 ^ 32" "j < 2 ^ 32" by auto
  then show "i = j" by (simp add: unat_of_nat)
qed

lemma gadget_selector:
  assumes "large_field TYPE('f::field)" "name \<notin> member_locals" "name \<notin> M" "\<And>x. name @ ''='' @ x \<notin> M"
  shows "gadget M (selector name n k :: 'f builder) (\<lambda>\<rho>. \<exists>i. picks \<rho> name (unat n) i)"
proof (rule gadgetI)
  fix cs cs' :: "'f r1cs"
  assume cs: "wf_r1cs cs" "\<not> cs_witness_only cs" "set (cs_locals cs) \<subseteq> M" "selector name n k cs = Ok cs'"
  let ?s = "map word_of_nat [0..<unat n] :: u32 list"
  from cs(4) have n: "2 < n" and m: "member name k ?s cs = Ok cs'" by (auto simp: selector_def split: if_splits)
  have "2 < unat n" using n by (simp add: word_less_nat_alt)
  moreover have "inj_on (word_of_nat :: nat \<Rightarrow> u32) {0..<unat n}"
    using unat_less_32 [of n] by (intro inj_on_word_of_nat) simp
  ultimately have "gadget M (member name k ?s :: 'f builder) (\<lambda>\<rho>. \<exists>x. one_hot \<rho> name ?s x)"
    using assms by (intro gadget_member) (auto simp: distinct_map)
  then have "gadget M (member name k ?s :: 'f builder) (\<lambda>\<rho>. \<exists>i. picks \<rho> name (unat n) i)"
    by (rule gadget_mono) (auto dest: one_hot_picks)
  then show "seals (\<lambda>\<rho>. \<exists>i. picks \<rho> name (unat n) i) cs cs'" using cs(1-3) m by (rule gadgetD)
qed

definition rsx_locals :: "string set" where
  "rsx_locals = range (\<lambda>i. ''rsx'' @ nat_str i)"

lemma sel_not_rsx [simp]: "name @ CHR ''='' # str \<notin> rsx_locals"
proof -
  have "CHR ''='' \<notin> set v" if "v \<in> rsx_locals" for v
    using that nat_str_digits [of "CHR ''=''"] by (auto simp: rsx_locals_def)
  then show ?thesis by force
qed

lemma gadget_load_array:
  assumes "large_field TYPE('f::field)" "input \<notin> member_locals" "input \<notin> M" "\<And>x. input @ ''='' @ x \<notin> M"
    and "input \<notin> rsx_locals" "output \<notin> rsx_locals" "\<And>i. arr @ nat_str i \<notin> rsx_locals"
  shows "gadget M (load_array input output arr n k :: 'f builder)
    (\<lambda>\<rho>. \<exists>i. picks \<rho> input (unat n) i \<and> \<rho> output = \<rho> (arr @ nat_str i))"
proof -
  let ?body = "[declare_var input, assign input (num k),
      seq (map (\<lambda>i. with_var (arr @ nat_str i) (\<lambda>reg.
        set_local (''rsx'' @ nat_str i) (if i = unat k then reg else 0))) [0..<unat n]),
      declare_var output,
      with_var (arr @ u32_str k) (assign output),
      unless_witness_only (seq
        [seq (map (\<lambda>i. cs_mul (''rsx'' @ nat_str i) (input @ ''='' @ nat_str i) (arr @ nat_str i)) [0..<unat n]),
         constraint (map (\<lambda>i. Put (Var (''rsx'' @ nat_str i)) 1) [0..<unat n]) [Put One 1] [Put (Var output) 1]])]
      :: 'f builder list"
  let ?L = rsx_locals and ?n = "unat n"
  have body: "yields (seq ?body) ?L (\<lambda>\<rho>.
      (\<forall>i<?n. \<rho> (''rsx'' @ nat_str i) = \<rho> (input @ ''='' @ nat_str i) * \<rho> (arr @ nat_str i))
      \<and> \<rho> output = (\<Sum>i<?n. \<rho> (''rsx'' @ nat_str i)))"
    by (rule yields_mono, (rule yields_rules)+)
      (auto simp: rsx_locals_def put_ok_bits inj_on_def lin_map sum_list_distinct_conv_sum_set atLeast0LessThan)
  have "gadget {} (seq (?body @ [seal])) (\<lambda>\<rho>. \<forall>i. picks \<rho> input ?n i \<longrightarrow> \<rho> output = \<rho> (arr @ nat_str i))"
  proof (rule gadget_seal, simp, simp, unfold butlast_snoc, rule body)
    fix \<rho> \<rho>' :: "string \<Rightarrow> 'f"
    assume out: "\<And>n. n \<notin> ?L \<union> {} \<Longrightarrow> \<rho>' n = \<rho> n"
      and *: "(\<forall>i<?n. \<rho>' (''rsx'' @ nat_str i) = \<rho>' (input @ ''='' @ nat_str i) * \<rho>' (arr @ nat_str i))
        \<and> \<rho>' output = (\<Sum>i<?n. \<rho>' (''rsx'' @ nat_str i))"
    show "\<forall>i. picks \<rho> input ?n i \<longrightarrow> \<rho> output = \<rho> (arr @ nat_str i)"
    proof (intro allI impI)
      fix i assume i: "picks \<rho> input ?n i"
      have "\<rho>' output = (\<Sum>j<?n. of_bool (j = i) * \<rho> (arr @ nat_str j))"
        using * i out assms(7) by (auto simp: picks_def intro!: sum.cong)
      also have "\<dots> = \<rho> (arr @ nat_str i)" using i by (simp add: picks_def if_distrib sum.delta' Int_insert_right)
      finally show "\<rho> output = \<rho> (arr @ nat_str i)" using out [of "output"] assms(6) by simp
    qed
  qed
  then have "gadget M (seq (selector input n k # ?body @ [seal]))
     (\<lambda>\<rho>. (\<exists>i. picks \<rho> input ?n i) \<and> (\<forall>i. picks \<rho> input ?n i \<longrightarrow> \<rho> output = \<rho> (arr @ nat_str i)))"
    using assms by (intro gadget_Cons gadget_selector)
  then have "gadget M (seq (selector input n k # ?body @ [seal]))
     (\<lambda>\<rho>. \<exists>i. picks \<rho> input ?n i \<and> \<rho> output = \<rho> (arr @ nat_str i))"
    by (rule gadget_mono) auto
  then show ?thesis by (simp only: load_array_def append_Cons append_Nil)
qed

lemma rsx_neq [simp]: "CHR ''x'' # nat_str i \<notin> rsx_locals" "xout i \<notin> rsx_locals"
  by (auto simp: rsx_locals_def xout_def)

lemma gadget_load_reg:
  assumes "large_field TYPE('f::field)" "input \<notin> member_locals \<union> rsx_locals" "output \<notin> rsx_locals"
  shows "gadget {} (load_reg input output k :: 'f builder)
    (\<lambda>\<rho>. \<exists>i. picks \<rho> input 32 i \<and> \<rho> output = \<rho> (''x'' @ nat_str i))"
  unfolding load_reg_def using gadget_load_array [where 'f = 'f, of "input" "{}" "output" "''x''" 32 k] assms by simp

definition z_locals :: "string set" where
  "z_locals = range (\<lambda>i. ''z'' @ nat_str i)"

lemma sel_not_z [simp]: "name @ CHR ''='' # str \<notin> z_locals"
proof -
  have "CHR ''='' \<notin> set v" if "v \<in> z_locals" for v
    using that nat_str_digits [of "CHR ''=''"] by (auto simp: z_locals_def)
  then show ?thesis by force
qed

lemma z_neq [simp]: "CHR ''x'' # nat_str i \<notin> z_locals" "xout i \<notin> z_locals"
  by (auto simp: z_locals_def xout_def)

lemma gadget_store_reg:
  assumes "large_field TYPE('f::field)" "input \<notin> member_locals" "output \<notin> rsx_locals \<union> z_locals" "input \<notin> rsx_locals \<union> z_locals"
  shows "gadget {} (store_reg input output k :: 'f builder)
    (\<lambda>\<rho>. \<exists>i. picks \<rho> input 32 i
       \<and> (\<forall>j\<in>{1..<32}. \<rho> (xout j) = (if j = i then \<rho> output else \<rho> (''x'' @ nat_str j))))"
proof -
  let ?body = "\<lambda>z. [declare_var input, assign input (num k),
      declare_var (xout 0), new_local_var ''rsx0'', new_local_var ''z0'',
      seq (map (\<lambda>i. with_var (''x'' @ nat_str i) (\<lambda>reg. seq
        [set_field_var (xout i) (if i = unat k then z else reg),
         set_local (''rsx'' @ nat_str i) (if i \<noteq> unat k then reg else 0),
         set_local (''z'' @ nat_str i) (if i = unat k then z else 0)])) [1..<32]),
      unless_witness_only (seq (map (\<lambda>i. seq
        [constraint [Put One 1, Put (Var (input @ ''='' @ nat_str i)) (- 1)] [Put (Var (''x'' @ nat_str i)) 1]
           [Put (Var (''rsx'' @ nat_str i)) 1],
         cs_mul (''z'' @ nat_str i) (input @ ''='' @ nat_str i) output,
         cs_add (xout i) (''rsx'' @ nat_str i) (''z'' @ nat_str i)]) [1..<32]))]
      :: 'f builder list"
  let ?L = "rsx_locals \<union> z_locals" and ?s = "\<lambda>\<rho> i. \<rho> (input @ ''='' @ nat_str i) :: 'f"
  have c: "yields (constraint [Put One 1, Put (Var (input @ ''='' @ nat_str i)) (- 1)] [Put (Var (''x'' @ nat_str i)) 1]
      [Put (Var (''rsx'' @ nat_str i)) 1]) {} (\<lambda>\<rho>. \<rho> (''rsx'' @ nat_str i) = (1 - ?s \<rho> i) * \<rho> (''x'' @ nat_str i))" for i
    by (rule yields_mono, rule yields_constraint) simp_all
  have a: "yields (cs_add (xout i) (''rsx'' @ nat_str i) (''z'' @ nat_str i)) {}
      (\<lambda>\<rho>. \<rho> (xout i) = \<rho> (''rsx'' @ nat_str i) + \<rho> (''z'' @ nat_str i))" for i
    by (rule yields_add) simp
  have body: "yields (seq (?body z)) ?L (\<lambda>\<rho>. \<forall>i\<in>{1..<32}.
      \<rho> (xout i) = (1 - ?s \<rho> i) * \<rho> (''x'' @ nat_str i) + ?s \<rho> i * \<rho> output)" for z
    by (rule yields_mono, (rule yields_rules c a)+) (auto simp: rsx_locals_def z_locals_def image_iff intro: exI [of _ 0])
  have "gadget {} (seq (?body z @ [seal])) (\<lambda>\<rho>. \<forall>j\<in>{1..<32}.
      \<rho> (xout j) = (1 - ?s \<rho> j) * \<rho> (''x'' @ nat_str j) + ?s \<rho> j * \<rho> output)" for z
    by (rule gadget_seal, simp, simp, unfold butlast_snoc, rule body) (use assms in auto)
  then have "gadget {} (seq (selector input 32 k # ?body z @ [seal]))
     (\<lambda>\<rho>. (\<exists>i. picks \<rho> input 32 i) \<and> (\<forall>j\<in>{1..<32}.
      \<rho> (xout j) = (1 - ?s \<rho> j) * \<rho> (''x'' @ nat_str j) + ?s \<rho> j * \<rho> output))" for z
    using gadget_selector [where 'f = 'f, of "input" "{}" 32 k] assms by (intro gadget_Cons) simp_all
  then have "gadget {} (seq (selector input 32 k # ?body z @ [seal]))
     (\<lambda>\<rho>. \<exists>i. picks \<rho> input 32 i
       \<and> (\<forall>j\<in>{1..<32}. \<rho> (xout j) = (if j = i then \<rho> output else \<rho> (''x'' @ nat_str j))))" for z
    by (rule gadget_mono) (auto simp: picks_def)
  then show ?thesis unfolding store_reg_def by (intro gadget_with_var) (simp only: append_Cons append_Nil)
qed

end
