(* ===== verification/Alu_Gadgets.thy ===== *)
theory Alu_Gadgets
  imports Riscv Gadgets
begin

text \<open>
  What the arithmetic part of the step circuit (\<^verbatim>\<open>vm/src/circuit/riscv.rs\<close>) enforces on every satisfying
  assignment: addition, subtraction with its condition flags, branches, bitwise operations and shifts.
\<close>

declare of_nat_unat [simp del]

section \<open>Rules\<close>

lemma yields_with_col [yields_rules]: "(\<And>j. yields (f j) L P) \<Longrightarrow> yields (with_col n f) L P"
  by (rule yieldsI) (auto simp: with_col_def result_simps intro: yieldsD)

lemma gadget_with_col: "(\<And>j. gadget M (f j) P) \<Longrightarrow> gadget M (with_col n f) P"
  by (rule gadgetI) (auto simp: with_col_def result_simps intro: gadgetD)

lemma yields_with_result [yields_rules]: "(\<And>v. yields (f v) L P) \<Longrightarrow> yields (with_result r f) L P"
  by (rule yieldsI) (auto simp: with_result_def result_simps intro: yieldsD)

lemma num_less_large: "unat (u :: u32) + unat (v :: u32) < 2 ^ 130"
proof -
  have "unat u + unat v < 2 ^ 32 + 2 ^ 32" by (rule add_strict_mono) (rule unat_less_32)+
  also have "\<dots> \<le> 2 ^ 130" by simp
  finally show ?thesis .
qed

lemma unat_plus_iff: "w = u + v \<longleftrightarrow> unat w = (unat u + unat v) mod 2 ^ 32" for u v w :: u32
  by (simp add: word_unat_eq_iff unat_word_ariths)

section \<open>Addition\<close>

lemma gadget_add_cir:
  assumes "x \<noteq> y" "x \<noteq> ''O''" "y \<noteq> ''O''" "z \<noteq> ''O''"
  shows "gadget {} (add_cir z x y u v) (\<lambda>\<rho>. \<rho> z = \<rho> x + \<rho> y \<or> \<rho> z + 2 ^ 32 = \<rho> x + \<rho> y)"
proof -
  have o: "yields (constraint [Put One (2 ^ 32), Put (Var ''O'') 1] [Put (Var ''O'') 1] []) {}
      (\<lambda>\<rho>. \<rho> ''O'' = 0 \<or> \<rho> ''O'' + 2 ^ 32 = (0 :: 'a))"
    by (rule yields_mono, rule yields_constraint) (auto simp: add.commute)
  have s: "yields (constraint [Put (Var x) 1, Put (Var y) 1, Put (Var ''O'') 1] [Put One 1] [Put (Var z) 1]) {}
      (\<lambda>\<rho>. \<rho> z = \<rho> x + \<rho> y + (\<rho> ''O'' :: 'a))"
    by (rule yields_mono, rule yields_constraint) (use assms in \<open>auto simp: algebra_simps\<close>)
  show ?thesis unfolding add_cir_def
    by (intro gadget_with_col, rule gadget_seal, simp, simp, simp only: butlast.simps list.simps simp_thms if_True if_False,
        (rule yields_rules o s)+) (use assms in \<open>auto simp: add.assoc\<close>)
qed

text \<open>When the sum is a 32-bit number it is the wrapped sum.\<close>

lemma add_word:
  assumes "large_field TYPE('f::field)" "c = num u + num v \<or> c + 2 ^ 32 = (num u + num v :: 'f)" "c = num w"
  shows "w = u + v"
proof -
  have "num w = (of_nat (unat u + unat v) :: 'f) \<or> of_nat (unat w + 2 ^ 32) = (of_nat (unat u + unat v) :: 'f)"
    using assms(2,3) by auto
  moreover have "unat w + 2 ^ 32 < 2 ^ 130"
    using unat_less_32 [of w] by simp
  ultimately have "unat w = unat u + unat v \<or> unat w + 2 ^ 32 = unat u + unat v"
    using of_nat_eq_large [OF assms(1) unat_large num_less_large] of_nat_eq_large [OF assms(1) _ num_less_large] by blast
  then show ?thesis using unat_less_32 [of w] unfolding unat_plus_iff by (metis mod_add_self2 mod_less)
qed

section \<open>Subtraction and flags\<close>

text \<open>The relation \<open>sub_cir\<close> enforces between its operands, the difference and the six flags.\<close>

definition sub_rel :: "(string \<Rightarrow> 'f::field) \<Rightarrow> string \<Rightarrow> string \<Rightarrow> string \<Rightarrow> bool" where
  "sub_rel \<rho> z x y \<longleftrightarrow>
     (\<rho> (x @ ''<'' @ y) = 0 \<or> \<rho> (x @ ''<'' @ y) = 1)
     \<and> (\<rho> (x @ ''='' @ y) = 0 \<or> \<rho> (x @ ''='' @ y) = 1)
     \<and> \<rho> z = \<rho> x - \<rho> y + 2 ^ 32 * \<rho> (x @ ''<'' @ y)
     \<and> (\<rho> z = 0 \<or> \<rho> (x @ ''='' @ y) = 0)
     \<and> \<rho> (x @ ''>='' @ y) = 1 - \<rho> (x @ ''<'' @ y)
     \<and> \<rho> (x @ ''!='' @ y) = 1 - \<rho> (x @ ''='' @ y)
     \<and> \<rho> (x @ ''>=s'' @ y) = 1 - \<rho> (x @ ''<s'' @ y)
     \<and> (let ds = \<rho> (x @ ''_31'') + \<rho> (y @ ''_31'') - 2 * \<rho> (x @ ''_31'') * \<rho> (y @ ''_31'') in
        \<rho> (x @ ''<s'' @ y) = ds * (1 - \<rho> (x @ ''<'' @ y)) + (1 - ds) * \<rho> (x @ ''<'' @ y))"

abbreviation sub_locals :: "string set" where
  "sub_locals \<equiv> {''ds'', ''Xs*Ys'', ''sltl'', ''sltr''}"

lemma flag_sum:
  fixes d :: "'f::field"
  assumes "d = l + d * t" "t = r + d * t" "l + r = s"
  shows "s + 2 * (d * t) = d + t"
proof -
  have "s + 2 * (d * t) = (l + d * t) + (r + d * t)" using assms(3) by (simp add: algebra_simps)
  then show ?thesis using assms(1,2) by simp
qed

lemma sub_rel_cong:
  assumes "\<And>n. n \<notin> sub_locals \<Longrightarrow> \<rho>' n = \<rho> n" "y = ''Y'' \<or> y = ''I''"
  shows "sub_rel \<rho>' (''X-'' @ y) ''X'' y = sub_rel \<rho> (''X-'' @ y) ''X'' y"
  using assms(2) by (elim disjE) (simp_all add: sub_rel_def assms(1))

lemma gadget_sub_cir:
  assumes "z = ''X-'' @ y" "y = ''Y'' \<or> y = ''I''"
  shows "gadget {} (sub_cir z ''X'' y u v) (\<lambda>\<rho>. sub_rel \<rho> z ''X'' y)"
  unfolding sub_cir_def Let_def
proof (intro gadget_with_col, rule gadget_seal, simp, simp, simp only: butlast.simps list.simps simp_thms if_True if_False,
    (rule yields_rules)+, goal_cases)
  case (1 xj yj \<rho> \<rho>')
  from 1(2) assms(2) have "sub_rel \<rho>' z ''X'' y" unfolding assms(1) sub_rel_def Let_def
    by (elim disjE) (simp_all add: algebra_simps, (elim conjE, erule (2) flag_sum)+)
  moreover have "\<rho>' n = \<rho> n" if "n \<notin> sub_locals" for n using that by (intro 1(1)) auto
  ultimately show "sub_rel \<rho> z ''X'' y" using sub_rel_cong [OF _ assms(2)] unfolding assms(1) by blast
qed

text \<open>The flags, when the difference is known to be a 32-bit number.\<close>

lemma sint_32: "sint (u :: u32) = int (unat u) - 2 ^ 32 * of_bool (bit u 31)"
proof -
  have "sint u = signed_take_bit 31 (int (unat u))" by (simp add: sint_uint of_nat_unat)
  also have "\<dots> = int (take_bit 32 (unat u)) - 2 ^ 32 * of_bool (bit (unat u) 31)"
    by (simp only: signed_take_bit_eq_take_bit_minus take_bit_of_nat bit_of_nat_iff) simp
  finally show ?thesis using unat_less_32 [of u] by (simp add: take_bit_nat_eq_self bit_unsigned_iff)
qed

lemma sless_flag: "(u <s v) \<longleftrightarrow> ((bit u 31 \<noteq> bit v 31) \<noteq> (u < v))" for u v :: u32
proof -
  have "bit w 31 \<longleftrightarrow> 2 ^ 31 \<le> unat w" for w :: u32
  proof -
    have "unat w div 2 ^ 31 < 2" using unat_less_32 [of w] by (simp add: less_mult_imp_div_less)
    then have "odd (unat w div 2 ^ 31) \<longleftrightarrow> unat w div 2 ^ 31 \<noteq> 0" by (auto simp: less_2_cases_iff)
    moreover have "bit w 31 \<longleftrightarrow> odd (unat w div 2 ^ 31)" by (subst bit_iff_odd [symmetric]) (simp add: bit_unsigned_iff)
    ultimately show ?thesis by (simp add: div_eq_0_iff not_less)
  qed
  then show ?thesis
    unfolding word_sless_alt sint_32 word_less_nat_alt using unat_less_32 [of u] unat_less_32 [of v] by auto
qed

lemma nat_str_31 [simp]: "nat_str 31 = ''31''"
  by (simp add: nat_str.simps char_of_def bit_0)

lemma sub_word:
  fixes \<rho> :: "string \<Rightarrow> 'f::field"
  assumes large: "large_field TYPE('f)" and rel: "sub_rel \<rho> z x y"
    and x: "is_word \<rho> x u" and y: "is_word \<rho> y v" and z: "\<rho> z = num w"
  shows "w = u - v" "\<rho> (x @ ''<'' @ y) = of_bool (u < v)" "\<rho> (x @ ''>='' @ y) = of_bool (v \<le> u)"
    "\<rho> (x @ ''<s'' @ y) = of_bool (u <s v)" "\<rho> (x @ ''>=s'' @ y) = of_bool (v \<le>s u)"
    "\<rho> (x @ ''='' @ y) = 1 \<Longrightarrow> u = v"
proof -
  let ?lt = "\<rho> (x @ ''<'' @ y)"
  have bits: "\<rho> (x @ ''_31'') = of_bool (bit u 31)" "\<rho> (y @ ''_31'') = of_bool (bit v 31)"
    using x [unfolded is_word_def] y [unfolded is_word_def] nat_str_31 by (auto dest!: spec [of _ 31])
  have bit_lt: "?lt = 0 \<or> ?lt = 1" and eq: "num w = num u - num v + 2 ^ 32 * ?lt"
    using rel x y z by (simp_all add: sub_rel_def is_word_def)
  have "?lt = of_bool (u < v) \<and> w = u - v"
    using bit_lt
  proof
    assume "?lt = 0"
    with eq have "(of_nat (unat w + unat v) :: 'f) = num u" by simp
    then have "unat w + unat v = unat u" using of_nat_eq_large [OF large num_less_large unat_large] by blast
    moreover from this have "u = w + v" unfolding unat_plus_iff using unat_less_32 [of u] by simp
    ultimately show ?thesis using \<open>?lt = 0\<close> by (simp add: word_less_nat_alt)
  next
    assume "?lt = 1"
    with eq have "(of_nat (unat w + unat v) :: 'f) = of_nat (unat u + 2 ^ 32)" by simp
    moreover have "unat u + 2 ^ 32 < 2 ^ 130" using unat_less_32 [of u] by simp
    ultimately have *: "unat w + unat v = unat u + 2 ^ 32" using of_nat_eq_large [OF large num_less_large] by blast
    then have "unat u < unat v" using unat_less_32 [of w] by linarith
    moreover have "u = w + v" unfolding unat_plus_iff using * unat_less_32 [of u] by simp
    ultimately show ?thesis using \<open>?lt = 1\<close> by (simp add: word_less_nat_alt)
  qed
  then show lt: "?lt = of_bool (u < v)" and w: "w = u - v" by simp_all
  show "\<rho> (x @ ''>='' @ y) = of_bool (v \<le> u)" using rel lt by (auto simp: sub_rel_def)
  show slt: "\<rho> (x @ ''<s'' @ y) = of_bool (u <s v)" using rel unfolding sub_rel_def Let_def bits lt sless_flag by auto
  show "\<rho> (x @ ''>=s'' @ y) = of_bool (v \<le>s u)" using rel slt unfolding sub_rel_def by (auto simp: not_le)
  assume "\<rho> (x @ ''='' @ y) = 1"
  then have "num w = (num 0 :: 'f)" using rel z by (auto simp: sub_rel_def)
  then have "w = 0" using num_eq_iff [OF large] by blast
  then show "u = v" using w by simp
qed

section \<open>Branches\<close>

lemma gadget_branch:
  assumes "c \<notin> {''left'', ''right''}" "i \<notin> {''left'', ''right''}"
  shows "gadget {} (branch J c i :: 'f::field builder)
    (\<lambda>\<rho>. \<rho> (''PC'' @ u32_str J) = \<rho> c * \<rho> ''pc+I'' + \<rho> i * \<rho> ''pc+4'' \<and> \<rho> (''Z'' @ u32_str J) = 0)"
proof -
  let ?Q = "\<lambda>\<rho>. \<rho> (''PC'' @ u32_str J) = \<rho> c * \<rho> ''pc+I'' + \<rho> i * \<rho> ''pc+4'' \<and> \<rho> (''Z'' @ u32_str J) = (0 :: 'f)"
  let ?body = "\<lambda>p f. [set_local ''left'' p, cs_mul ''left'' c ''pc+I'', set_local ''right'' f,
        cs_mul ''right'' i ''pc+4''] :: 'f builder list"
  have "gadget {} (seq
       [set_local ''left'' l, cs_mul ''left'' c ''pc+I'', set_local ''right'' r, cs_mul ''right'' i ''pc+4'',
        set_field_var (''PC'' @ u32_str J) p, cs_add (''PC'' @ u32_str J) ''left'' ''right'',
        set_var (''Z'' @ u32_str J) 0, constraint [Put (Var (''Z'' @ u32_str J)) 1] [Put One 1] [], seal]) ?Q" for l r p :: 'f
    by (rule gadget_seal, simp, simp, simp only: butlast.simps list.simps simp_thms if_True if_False, (rule yields_rules)+)
      (use assms in auto)
  then have "gadget {} (if b then (\<lambda>cs. Panic) else with_var ''pc+I'' (\<lambda>pi. with_var ''pc+4'' (\<lambda>pf. seq
       [set_local ''left'' (l pi pf), cs_mul ''left'' c ''pc+I'', set_local ''right'' (r pi pf), cs_mul ''right'' i ''pc+4'',
        set_field_var (''PC'' @ u32_str J) (p pi pf), cs_add (''PC'' @ u32_str J) ''left'' ''right'',
        set_var (''Z'' @ u32_str J) 0, constraint [Put (Var (''Z'' @ u32_str J)) 1] [Put One 1] [], seal]))) ?Q"
    for b and l r p :: "'f \<Rightarrow> 'f \<Rightarrow> 'f"
    by (simp add: gadget_panic gadget_with_var del: seq.simps)
  then show ?thesis unfolding branch_def Let_def by (rule gadget_with_var)
qed

section \<open>Bitwise operations\<close>

lemma yields_bitop:
  assumes "y = ''Y'' \<or> y = ''I''"
  shows "yields (bitop out y z adj) {} (\<lambda>\<rho>. (\<exists>v. is_word \<rho> out v)
    \<and> (\<forall>i<32. \<rho> (bitn ''X'' i) + (\<rho> (bitn y i) + adj * \<rho> (bitn (''X&'' @ y) i)) = \<rho> (bitn out i)))"
  unfolding bitop_def by (rule yields_mono, (rule yields_rules)+) (use assms in auto)

lemma is_word_num: "is_word \<rho> n v \<Longrightarrow> \<rho> n = num v"
  by (simp add: is_word_def)

lemma is_word_bit: "is_word \<rho> n v \<Longrightarrow> i < 32 \<Longrightarrow> \<rho> (bitn n i) = of_bool (bit v i)"
  by (simp add: is_word_def)

lemma is_word_eqI:
  fixes \<rho> :: "string \<Rightarrow> 'f::field"
  assumes "is_word \<rho> n v" "\<And>i. i < 32 \<Longrightarrow> \<rho> (bitn n i) = of_bool (bit w i)"
  shows "v = w"
proof (rule bit_word_eqI)
  fix i assume "i < LENGTH(32)"
  then have "of_bool (bit v i) = (of_bool (bit w i) :: 'f)" using assms is_word_bit [OF assms(1)] by simp
  then show "bit v i = bit w i" by (simp add: of_bool_eq_iff)
qed

text \<open>The relation of \<open>bitops\<close>: conjunctions bit by bit, and from them disjunctions and exclusive disjunctions.\<close>

definition bitops_rel :: "(string \<Rightarrow> 'f::field) \<Rightarrow> u32 \<Rightarrow> u32 \<Rightarrow> u32 \<Rightarrow> bool" where
  "bitops_rel \<rho> x y i \<longleftrightarrow>
     \<rho> (Zn (ALUI AND_A 0 0 0)) = num (x AND i) \<and> \<rho> (Zn (ALU AND_A 0 0 0)) = num (x AND y)
     \<and> \<rho> (Zn (ALUI OR_A 0 0 0)) = num (x OR i) \<and> \<rho> (Zn (ALU OR_A 0 0 0)) = num (x OR y)
     \<and> \<rho> (Zn (ALUI XOR_A 0 0 0)) = num (x XOR i) \<and> \<rho> (Zn (ALU XOR_A 0 0 0)) = num (x XOR y)"

lemma bitop_word:
  fixes \<rho> :: "string \<Rightarrow> 'f::field"
  assumes "is_word \<rho> n v" "is_word \<rho> ''X'' x" "is_word \<rho> m y"
    and "\<And>i. i < 32 \<Longrightarrow> \<rho> (bitn a i) = \<rho> (bitn ''X'' i) * \<rho> (bitn m i)"
    and "\<And>i. i < 32 \<Longrightarrow> \<rho> (bitn ''X'' i) + (\<rho> (bitn m i) + adj * \<rho> (bitn a i)) = \<rho> (bitn n i)"
  shows "adj = - 1 \<Longrightarrow> \<rho> n = num (x OR y)" "adj = - 2 \<Longrightarrow> \<rho> n = num (x XOR y)"
proof -
  note b = is_word_bit [OF assms(2)] is_word_bit [OF assms(3)]
  have "v = x OR y" if "adj = - 1"
    by (rule is_word_eqI [OF assms(1)]) (simp only: assms(5) [symmetric] assms(4) b bit_or_iff that, simp)
  then show "adj = - 1 \<Longrightarrow> \<rho> n = num (x OR y)" using is_word_num [OF assms(1)] by simp
  have "v = x XOR y" if "adj = - 2"
    by (rule is_word_eqI [OF assms(1)]) (simp only: assms(5) [symmetric] assms(4) b bit_xor_iff that, simp)
  then show "adj = - 2 \<Longrightarrow> \<rho> n = num (x XOR y)" using is_word_num [OF assms(1)] by simp
qed

lemma and_word:
  fixes \<rho> :: "string \<Rightarrow> 'f::field"
  assumes "is_word \<rho> n v" "is_word \<rho> ''X'' x" "is_word \<rho> m y"
    and "\<And>i. i < 32 \<Longrightarrow> \<rho> (bitn n i) = \<rho> (bitn ''X'' i) * \<rho> (bitn m i)"
  shows "\<rho> n = num (x AND y)"
proof -
  have "v = x AND y"
    by (rule is_word_eqI [OF assms(1)])
      (simp only: assms(4) is_word_bit [OF assms(2)] is_word_bit [OF assms(3)] bit_and_iff, simp)
  then show ?thesis using is_word_num [OF assms(1)] by simp
qed

lemma yields_bitops:
  "yields (bitops vm :: 'f::field builder) {} (\<lambda>\<rho>. \<forall>x y i. is_word \<rho> ''X'' x \<longrightarrow> is_word \<rho> ''Y'' y \<longrightarrow> is_word \<rho> ''I'' i
     \<longrightarrow> bitops_rel \<rho> x y i)"
  unfolding bitops_def Let_def
proof (rule yields_mono, (rule yields_rules yields_bitop [where y = "''Y''"] yields_bitop [where y = "''I''"] disjI1 [OF refl] disjI2 [OF refl])+, goal_cases)
  case (2 \<rho>)
  show ?case
  proof (intro allI impI)
    fix x y i assume w: "is_word \<rho> ''X'' x" "is_word \<rho> ''Y'' y" "is_word \<rho> ''I'' i"
    let ?op = "\<lambda>n m adj. (\<exists>v. is_word \<rho> n v)
      \<and> (\<forall>i<32. \<rho> (bitn ''X'' i) + (\<rho> (bitn m i) + adj * \<rho> (bitn (''X&'' @ m) i)) = \<rho> (bitn n i))"
    from 2 have aY: "\<exists>v. is_word \<rho> ''X&Y'' v" and aI: "\<exists>v. is_word \<rho> ''X&I'' v"
      and Z: "\<rho> (Zn (ALUI AND_A 0 0 0)) = \<rho> ''X&I''" "\<rho> (Zn (ALU AND_A 0 0 0)) = \<rho> ''X&Y''"
      and oi: "?op (Zn (ALUI OR_A 0 0 0)) ''I'' (- 1)" and oy: "?op (Zn (ALU OR_A 0 0 0)) ''Y'' (- 1)"
      and xi: "?op (Zn (ALUI XOR_A 0 0 0)) ''I'' (- 2)" and xy: "?op (Zn (ALU XOR_A 0 0 0)) ''Y'' (- 2)"
      by blast+
    from 2 have bits: "\<And>j. j < 32 \<Longrightarrow> \<rho> (bitn ''X&Y'' j) = \<rho> (bitn ''X'' j) * \<rho> (bitn ''Y'' j)
        \<and> \<rho> (bitn ''X&I'' j) = \<rho> (bitn ''X'' j) * \<rho> (bitn ''I'' j)"
      by auto
    have op: "\<rho> n = num (x OR v)" if "?op n m (- 1)" "is_word \<rho> m v" "m = ''Y'' \<or> m = ''I''" for n m v
      using that(1) bitop_word(1) [of \<rho> n _ x m v "''X&'' @ m" "- 1"] w(1) that(2,3) bits by auto
    have ox: "\<rho> n = num (x XOR v)" if "?op n m (- 2)" "is_word \<rho> m v" "m = ''Y'' \<or> m = ''I''" for n m v
      using that(1) bitop_word(2) [of \<rho> n _ x m v "''X&'' @ m" "- 2"] w(1) that(2,3) bits by auto
    show "bitops_rel \<rho> x y i" unfolding bitops_rel_def Z
      using op [OF oi w(3)] op [OF oy w(2)] ox [OF xi w(3)] ox [OF xy w(2)] aY aI
        and_word [of \<rho> "''X&Y''" _ x "''Y''" y, OF _ w(1,2)] and_word [of \<rho> "''X&I''" _ x "''I''" i, OF _ w(1,3)] bits
      by blast
  qed
qed simp_all

section \<open>Shifts\<close>

definition shift_locals :: "string set" where
  "shift_locals = range (\<lambda>i. ''out'' @ nat_str i) \<union> range (\<lambda>i. ''SZ'' @ nat_str i)"

lemma lin_concat: "lin \<rho> (concat (map f xs)) = (\<Sum>x\<leftarrow>xs. lin \<rho> (f x))"
  by (induction xs) simp_all

lemma put_ok_append: "put_ok S (es @ fs) \<longleftrightarrow> put_ok S es \<and> put_ok (S \<union> entry_ref ` set es) fs"
  by (induction S es rule: put_ok.induct) auto

text \<open>The rows of the two shifters, as functions of the bits.\<close>

abbreviation left_row :: "nat \<Rightarrow> 'f::field entry list" where
  "left_row amt \<equiv> concat (map (\<lambda>bit. if bit \<ge> amt then [Put (Var (bitn ''X'' (bit - amt))) (2 ^ bit)] else []) [0..<32])"

abbreviation right_row :: "bool \<Rightarrow> nat \<Rightarrow> 'f::field entry list" where
  "right_row arith amt \<equiv> concat (map (\<lambda>bit.
     if bit + amt < 32 then [Put (Var (bitn ''X'' (bit + amt))) (2 ^ bit)]
     else if arith then [Acc (Var ''X_31'') (2 ^ bit)] else []) [0..<32])"

lemma concat_filter: "concat (map (\<lambda>i. if P i then [f i] else []) xs) = map f (filter P xs)"
  by (induction xs) simp_all

lemma concat_singletons: "(\<And>x. x \<in> set xs \<Longrightarrow> f x = [g x]) \<Longrightarrow> concat (map f xs) = map g xs"
  by (induction xs) simp_all

lemma put_ok_left: "put_ok {} (left_row amt)"
  by (rule put_ok_distinct) (auto simp: concat_filter distinct_map inj_on_def)

lemma put_ok_Acc: "(\<And>e. e \<in> set es \<Longrightarrow> \<exists>r x. e = Acc r x) \<Longrightarrow> put_ok S es"
  by (induction S es rule: put_ok.induct) auto

lemma put_ok_right:
  assumes amt: "amt < 32"
  shows "put_ok {} (right_row arith amt :: 'f::field entry list)"
proof -
  let ?f = "\<lambda>bit. if bit + amt < 32 then [Put (Var (bitn ''X'' (bit + amt))) (2 ^ bit)]
     else if arith then [Acc (Var ''X_31'') (2 ^ bit)] else [] :: 'f entry list"
  have split: "[0..<32] = [0..<32 - amt] @ [32 - amt..<32]" using amt by (metis diff_le_self le0 le_add_diff_inverse upt_add_eq_append)
  have 1: "concat (map ?f [0..<32 - amt]) = map (\<lambda>bit. Put (Var (bitn ''X'' (bit + amt))) (2 ^ bit)) [0..<32 - amt]"
    by (rule concat_singletons) simp
  have "put_ok {} (concat (map ?f [0..<32 - amt]))"
    unfolding 1 by (rule put_ok_distinct) (auto simp: distinct_map inj_on_def)
  moreover have "put_ok S (concat (map ?f [32 - amt..<32]))" for S
    by (rule put_ok_Acc) (auto split: if_splits)
  ultimately show ?thesis
    unfolding split map_append concat_append put_ok_append by blast
qed

lemma lin_if: "lin \<rho> (if c then a else b) = (if c then lin \<rho> a else lin \<rho> b)"
  by simp

lemma left_value:
  assumes "is_word \<rho> ''X'' x" "amt < 32"
  shows "lin \<rho> (left_row amt) = num (push_bit amt x)"
proof -
  have "lin \<rho> (left_row amt) = (\<Sum>i<32. if amt \<le> i then 2 ^ i * \<rho> (bitn ''X'' (i - amt)) else 0)"
    by (auto simp: lin_concat lin_if sum_list_distinct_conv_sum_set atLeast0LessThan intro!: sum.cong)
  also have "\<dots> = num (push_bit amt x)" unfolding num_bits
    by (rule sum.cong) (auto simp: is_word_bit [OF assms(1), simplified] bit_push_bit_iff)
  finally show ?thesis .
qed

lemma bit_shr:
  assumes "i < 32" "amt < 32"
  shows "bit (shr arith x amt) i \<longleftrightarrow> (if i + amt < 32 then bit x (i + amt) else arith \<and> bit x 31)"
proof (cases arith)
  case True
  have "LENGTH(32) = 32" by simp
  then show ?thesis
    using assms True unfolding shr_def by (auto simp only: bit_signed_drop_bit_iff if_True mod_less split: if_splits) (simp_all add: add.commute)
next
  case False
  then show ?thesis using assms bit_imp_le_length [of x "i + amt"] by (auto simp: shr_def bit_drop_bit_eq add.commute)
qed

lemma right_value:
  assumes "is_word \<rho> ''X'' x" "amt < 32" 
  shows "lin \<rho> (right_row arith amt) = num (shr arith x amt)"
proof -
  have x31: "\<rho> ''X_31'' = of_bool (bit x 31)" using is_word_bit [OF assms(1), of 31] by simp
  have "lin \<rho> (right_row arith amt) = (\<Sum>i<32. if i + amt < 32 then 2 ^ i * \<rho> (bitn ''X'' (i + amt))
      else if arith then 2 ^ i * \<rho> ''X_31'' else 0)"
    by (auto simp: lin_concat lin_if sum_list_distinct_conv_sum_set atLeast0LessThan intro!: sum.cong)
  also have "\<dots> = num (shr arith x amt)" unfolding num_bits
    by (rule sum.cong) (use assms(2) in \<open>auto simp: is_word_bit [OF assms(1), simplified] x31 bit_shr\<close>)
  finally show ?thesis .
qed

text \<open>The common end of both shifters: one output per amount, of which the selected one is taken.\<close>

lemma shift_select:
  fixes \<rho> :: "string \<Rightarrow> 'f::field"
  assumes loop: "\<forall>amt\<in>set [0..<32]. (if amt = 0 then \<rho> ''out0'' = \<rho> ''X''
          else put_ok {} (row amt) \<longrightarrow> lin \<rho> (row amt) = \<rho> (''out'' @ nat_str amt))
        \<and> \<rho> (''SZ'' @ nat_str amt) = \<rho> (''shamt='' @ nat_str amt) * \<rho> (''out'' @ nat_str amt)"
    and row: "\<And>amt. amt < 32 \<Longrightarrow> put_ok {} (row amt) \<and> lin \<rho> (row amt) = num (f amt)"
    and x: "\<rho> ''X'' = num (f 0)"
    and z: "\<rho> z = (\<Sum>amt<32. \<rho> (''SZ'' @ nat_str amt))" and k: "picks \<rho> ''shamt'' 32 k"
  shows "\<rho> z = num (f k)"
proof -
  have "\<rho> (''SZ'' @ nat_str amt) = of_bool (amt = k) * num (f amt)" if amt: "amt < 32" for amt
  proof -
    have "amt \<in> set [0..<32]" using amt by simp
    note l = bspec [OF loop this]
    have "\<rho> (''out'' @ nat_str amt) = num (f amt)"
      using conjunct1 [OF l] row [OF amt] x by (cases "amt = 0") simp_all
    then show ?thesis using conjunct2 [OF l] k amt by (simp add: picks_def)
  qed
  then have "\<rho> z = (\<Sum>amt<32. of_bool (amt = k) * num (f amt))" using z by simp
  also have "\<dots> = num (f k)" using k by (simp add: picks_def Int_insert_right)
  finally show ?thesis .
qed

lemma shr_0 [simp]: "shr arith x 0 = x" and shl_0 [simp]: "shl x 0 = x"
  by (simp_all add: shr_def shl_def)

lemma shift_locals_in:
  "''out'' @ nat_str i \<in> shift_locals" "''SZ'' @ nat_str i \<in> shift_locals" "''out0'' \<in> shift_locals" "''SZ0'' \<in> shift_locals"
proof -
  show *: "''out'' @ nat_str i \<in> shift_locals" "''SZ'' @ nat_str i \<in> shift_locals" for i
    by (auto simp: shift_locals_def)
  show "''out0'' \<in> shift_locals" "''SZ0'' \<in> shift_locals" using * [of 0] by simp_all
qed

lemma gadget_shift_left:
  assumes "z \<notin> shift_locals"
  shows "gadget {} (shift_left z X I :: 'f::field builder) (\<lambda>\<rho>. \<forall>x k. is_word \<rho> ''X'' x \<longrightarrow> picks \<rho> ''shamt'' 32 k
    \<longrightarrow> \<rho> z = num (shl x k))"
  unfolding shift_left_def
proof (rule gadget_seal, simp, simp, simp only: butlast.simps list.simps simp_thms if_True if_False,
    (rule yields_rules yields_if)+, goal_cases)
  case (1 \<rho> \<rho>')
  show ?case
  proof (intro allI impI)
    fix x k assume "is_word \<rho> ''X'' x" "picks \<rho> ''shamt'' 32 k"
    moreover have out: "\<rho>' n = \<rho> n" if "n \<notin> shift_locals" for n
      using that shift_locals_in by (intro 1(1)) auto
    ultimately have x: "is_word \<rho>' ''X'' x" and k: "picks \<rho>' ''shamt'' 32 k"
      by (simp_all add: is_word_def picks_def shift_locals_def image_iff)
    from 1(2) have "\<forall>amt\<in>set [0..<32]. (if amt = 0 then \<rho>' ''out0'' = \<rho>' ''X''
          else put_ok {} (left_row amt :: 'f entry list) \<longrightarrow> lin \<rho>' (left_row amt) = \<rho>' (''out'' @ nat_str amt))
        \<and> \<rho>' (''SZ'' @ nat_str amt) = \<rho>' (''shamt='' @ nat_str amt) * \<rho>' (''out'' @ nat_str amt)"
      by (auto split: if_splits)
    moreover have "put_ok {} (left_row amt :: 'f entry list) \<and> lin \<rho>' (left_row amt) = num (shl x amt)" if "amt < 32" for amt
      using left_value [OF x that] that by (simp only: put_ok_left shl_def mod_less)
    moreover have "\<rho>' ''X'' = num (shl x 0)" using is_word_num [OF x] by simp
    moreover have "\<rho>' z = (\<Sum>amt<32. \<rho>' (''SZ'' @ nat_str amt))"
      using 1(2) by (auto simp: put_ok_bits inj_on_def lin_map sum_list_distinct_conv_sum_set atLeast0LessThan)
    ultimately have "\<rho>' z = num (shl x k)" using k by (rule shift_select)
    then show "\<rho> z = num (shl x k)" using out [OF assms] by simp
  qed
qed

lemma gadget_shift_right:
  assumes "z \<notin> shift_locals"
  shows "gadget {} (shift_right z X I arith :: 'f::field builder) (\<lambda>\<rho>. \<forall>x k. is_word \<rho> ''X'' x \<longrightarrow> picks \<rho> ''shamt'' 32 k
    \<longrightarrow> \<rho> z = num (shr arith x k))"
  unfolding shift_right_def
proof (rule gadget_seal, simp, simp, simp only: butlast.simps list.simps simp_thms if_True if_False,
    (rule yields_rules yields_if)+, goal_cases)
  case (1 \<rho> \<rho>')
  show ?case
  proof (intro allI impI)
    fix x k assume "is_word \<rho> ''X'' x" "picks \<rho> ''shamt'' 32 k"
    moreover have out: "\<rho>' n = \<rho> n" if "n \<notin> shift_locals" for n
      using that shift_locals_in by (intro 1(1)) auto
    ultimately have x: "is_word \<rho>' ''X'' x" and k: "picks \<rho>' ''shamt'' 32 k"
      by (simp_all add: is_word_def picks_def shift_locals_def image_iff)
    from 1(2) have "\<forall>amt\<in>set [0..<32]. (if amt = 0 then \<rho>' ''out0'' = \<rho>' ''X''
          else put_ok {} (right_row arith amt :: 'f entry list) \<longrightarrow> lin \<rho>' (right_row arith amt) = \<rho>' (''out'' @ nat_str amt))
        \<and> \<rho>' (''SZ'' @ nat_str amt) = \<rho>' (''shamt='' @ nat_str amt) * \<rho>' (''out'' @ nat_str amt)"
      by (auto split: if_splits)
    moreover have "put_ok {} (right_row arith amt :: 'f entry list) \<and> lin \<rho>' (right_row arith amt) = num (shr arith x amt)" if "amt < 32" for amt
      using right_value [OF x that] by (simp only: put_ok_right [OF that])
    moreover have "\<rho>' ''X'' = num (shr arith x 0)" using is_word_num [OF x] by simp
    moreover have "\<rho>' z = (\<Sum>amt<32. \<rho>' (''SZ'' @ nat_str amt))"
      using 1(2) by (auto simp: put_ok_bits inj_on_def lin_map sum_list_distinct_conv_sum_set atLeast0LessThan)
    ultimately have "\<rho>' z = num (shr arith x k)" using k by (rule shift_select)
    then show "\<rho> z = num (shr arith x k)" using out [OF assms] by simp
  qed
qed


end
