(* ===== verification/Decode_Gadgets.thy ===== *)
theory Decode_Gadgets
  imports Alu_Gadgets Decode
begin

text \<open>
  What the decoding part of the step circuit (\<^verbatim>\<open>parse_opc\<close>, \<^verbatim>\<open>parse_imm\<close>, \<^verbatim>\<open>parse_shamt\<close> and \<^verbatim>\<open>parse_J\<close> of
  \<^verbatim>\<open>vm/src/circuit/riscv.rs\<close>) enforces: the operand fields, the immediates and the instruction index are those
  of the instruction word.
\<close>

declare of_nat_unat [simp del] sum_mult_of_bool_eq [simp del] sum_of_bool_mult_eq [simp del]
  upt_rec_numeral [simp del] nat_str_31 [simp del]

section \<open>Rows over the bits of a word\<close>

lemma entry_ref_bits: "entry_ref ` set (bit_entries n is p) = (\<lambda>i. Var (bitn n i)) ` set is"
  by (induction "is" arbitrary: p) simp_all

lemma put_ok_bit_entries: "distinct is \<Longrightarrow> S \<inter> (\<lambda>i. Var (bitn n i)) ` set is = {} \<Longrightarrow> put_ok S (bit_entries n is p)"
proof (induction "is" arbitrary: p S)
  case (Cons i "is")
  then have "insert (Var (bitn n i)) S \<inter> (\<lambda>i. Var (bitn n i)) ` set is = {}" by auto
  with Cons show ?case by simp
qed simp

lemma put_ok_bits_then:
  assumes "distinct (is @ [j])"
  shows "put_ok {} (bit_entries n is p @ [Put (Var (bitn n j)) q])"
  using assms by (auto simp: put_ok_append entry_ref_bits put_ok_bit_entries)

lemma lin_bit_entries: "lin \<rho> (bit_entries n is p) = p * (\<Sum>k<length is. 2 ^ k * \<rho> (bitn n (is ! k)))"
proof (induction "is" arbitrary: p)
  case (Cons i "is")
  have "(\<Sum>k<length (i # is). 2 ^ k * \<rho> (bitn n ((i # is) ! k))) = \<rho> (bitn n i) + 2 * (\<Sum>k<length is. 2 ^ k * \<rho> (bitn n (is ! k)))"
    by (simp only: length_Cons sum.lessThan_Suc_shift) (simp add: sum_distrib_left mult.assoc)
  then show ?case by (simp add: Cons.IH algebra_simps del: sum.lessThan_Suc)
qed simp

lemma lin_word:
  "is_word \<rho> n w \<Longrightarrow> \<forall>i\<in>set is. i < 32 \<Longrightarrow>
   lin \<rho> (bit_entries n is p) = p * (\<Sum>k<length is. 2 ^ k * of_bool (bit w (is ! k)))"
  by (simp add: lin_bit_entries is_word_def)

lemma num_low:
  assumes "m \<le> 32" "\<And>i. m \<le> i \<Longrightarrow> i < 32 \<Longrightarrow> \<not> bit v i"
  shows "(\<Sum>i<m. 2 ^ i * of_bool (bit v i)) = (num v :: 'f::field)"
  unfolding num_bits by (rule sum.mono_neutral_left) (use assms in auto)

lemma num_sext:
  assumes "m \<le> 32" "\<And>i. m \<le> i \<Longrightarrow> i < 32 \<Longrightarrow> bit v i = b"
  shows "(num v :: 'f::field) = (\<Sum>i<m. 2 ^ i * of_bool (bit v i)) + (2 ^ 32 - 2 ^ m) * of_bool b"
proof -
  have "{..<32::nat} = {..<m} \<union> {m..<32}" using assms(1) by auto
  then have "num v = (\<Sum>i<m. 2 ^ i * of_bool (bit v i)) + (\<Sum>i=m..<32. 2 ^ i * of_bool (bit v i) :: 'f)"
    unfolding num_bits by (simp only: sum.union_disjoint finite_lessThan finite_atLeastLessThan ivl_disj_int_one)
  also have "(\<Sum>i=m..<32. 2 ^ i * of_bool (bit v i) :: 'f) = (\<Sum>i=m..<32. 2 ^ i) * of_bool b"
    using assms(2) by (simp add: sum_distrib_right)
  also have "(\<Sum>i=m..<32. 2 ^ i :: 'f) = 2 ^ 32 - 2 ^ m"
  proof -
    have "(\<Sum>i=m..<n. 2 ^ i :: 'f) = 2 ^ n - 2 ^ m" if "m \<le> n" for n
      using that by (induction n) (auto simp: le_Suc_eq)
    then show ?thesis using assms(1) .
  qed
  finally show ?thesis .
qed

lemma num_field:
  assumes "s < h" "h \<le> 32"
  shows "(\<Sum>k<h - s. 2 ^ k * of_bool (bit w ([s..<h] ! k))) = (num (bits w s (h - 1)) :: 'f::field)"
proof -
  have "(\<Sum>k<h - s. 2 ^ k * of_bool (bit w ([s..<h] ! k))) = (\<Sum>k<h - s. 2 ^ k * of_bool (bit (bits w s (h - 1)) k) :: 'f)"
  proof (rule sum.cong)
    fix k assume "k \<in> {..<h - s}"
    then have "bit (bits w s (h - 1)) k = bit w (s + k)" "[s..<h] ! k = s + k" using assms by (auto simp: bit_bits)
    then show "2 ^ k * of_bool (bit w ([s..<h] ! k)) = (2 ^ k * of_bool (bit (bits w s (h - 1)) k) :: 'f)" by simp
  qed simp
  also have "\<dots> = num (bits w s (h - 1))" using assms by (intro num_low) (auto simp: bit_bits)
  finally show ?thesis .
qed

lemma lin_field:
  assumes "is_word \<rho> n w" "s < h" "h \<le> 32"
  shows "lin \<rho> (bit_entries n [s..<h] 1) = num (bits w s (h - 1))"
  using lin_word [OF assms(1), of "[s..<h]" 1] assms(2,3) num_field [OF assms(2,3), of w] by simp

lemma lin_fields:
  assumes "is_word \<rho> n w"
  shows "lin \<rho> (bit_entries n [0..<7] 1) = num (opcode w)" "lin \<rho> (bit_entries n [7..<12] 1) = num (p_rd w)"
    "lin \<rho> (bit_entries n [15..<20] 1) = num (p_rs1 w)" "lin \<rho> (bit_entries n [20..<25] 1) = num (p_rs2 w)"
    "lin \<rho> (bit_entries n [12..<15] 1) = num (funct3 w)" "lin \<rho> (bit_entries n [25..<32] 1) = num (funct7 w)"
    "lin \<rho> (bit_entries n [0..<5] 1) = num (w AND 0x1f)"
proof -
  have "bits w 0 4 = w AND 0x1f"
  proof -
    have "w AND 0x1f = take_bit 5 w" by (simp add: take_bit_eq_mask mask_numeral)
    moreover have "bits w 0 4 = take_bit 5 w" by (rule bit_eqI) (auto simp: bit_bits bit_take_bit_iff)
    ultimately show ?thesis by simp
  qed
  then show "lin \<rho> (bit_entries n [0..<5] 1) = num (w AND 0x1f)" using lin_field [OF assms, of 0 5] by simp
qed (use lin_field [OF assms, of 0 7] lin_field [OF assms, of 7 12] lin_field [OF assms, of 15 20]
    lin_field [OF assms, of 20 25] lin_field [OF assms, of 12 15] lin_field [OF assms, of 25 32] in \<open>simp_all add: field_defs\<close>)

text \<open>The immediates.\<close>

lemma lin_imm:
  assumes w: "is_word \<rho> n w"
  shows "lin \<rho> (bit_entries n [20..<31] 1 @ [Put (Var (bitn n 31)) 0xfffff800]) = num (immI w)"
    "lin \<rho> (bit_entries n ([7..<12] @ [25..<31]) 1 @ [Put (Var (bitn n 31)) 0xfffff800]) = num (immS w)"
    "lin \<rho> (bit_entries n ([8..<12] @ [25..<31] @ [7]) 2 @ [Put (Var (bitn n 31)) 0xfffff000]) = num (immB w)"
    "lin \<rho> (bit_entries n [12..<32] (2 ^ 12)) = num (immU w)"
    "lin \<rho> (bit_entries n ([21..<31] @ [20] @ [12..<20]) 2 @ [Put (Var (bitn n 31)) 0xfff00000]) = num (immJ w)"
proof -
  have b31: "\<rho> (n @ CHR ''_'' # nat_str 31) = of_bool (bit w 31)" using is_word_bit [OF w, of 31] by simp
  have ix: "bit w (([7..<12] @ [25..<31]) ! k) = bit (immS w) k" "bit w (([8..<12] @ [25..<31] @ [7]) ! k) = bit (immB w) (Suc k)"
    if "k < 11" for k
    using that by (auto simp: nth_append bit_imm intro: arg_cong [where f = "bit w"])
  have ixJ: "bit w (([21..<31] @ 20 # [12..<20]) ! k) = bit (immJ w) (Suc k)" if "k < 19" for k
    using that by (auto simp: nth_append bit_imm nth_Cons' intro: arg_cong [where f = "bit w"])
  have row: "lin \<rho> (bit_entries n ([7..<12] @ [25..<31]) 1) = (\<Sum>k<11. 2 ^ k * of_bool (bit (immS w) k))"
    "lin \<rho> (bit_entries n ([8..<12] @ [25..<31] @ [7]) 2) = 2 * (\<Sum>k<11. 2 ^ k * of_bool (bit (immB w) (Suc k)))"
    "lin \<rho> (bit_entries n ([21..<31] @ [20] @ [12..<20]) 2) = 2 * (\<Sum>k<19. 2 ^ k * of_bool (bit (immJ w) (Suc k)))"
    by (subst lin_word [OF w], force, simp add: ix ixJ)+
  have "(num (immI w) :: 'a) = (\<Sum>i<11. 2 ^ i * of_bool (bit (immI w) i)) + (2 ^ 32 - 2 ^ 11) * of_bool (bit w 31)"
    by (rule num_sext) (simp_all add: bit_imm)
  then show "lin \<rho> (bit_entries n [20..<31] 1 @ [Put (Var (bitn n 31)) 0xfffff800]) = num (immI w)"
    by (simp add: lin_word [OF w] b31 bit_imm)
  have "(num (immS w) :: 'a) = (\<Sum>i<11. 2 ^ i * of_bool (bit (immS w) i)) + (2 ^ 32 - 2 ^ 11) * of_bool (bit w 31)"
    by (rule num_sext) (simp_all add: bit_imm)
  then show "lin \<rho> (bit_entries n ([7..<12] @ [25..<31]) 1 @ [Put (Var (bitn n 31)) 0xfffff800]) = num (immS w)"
    by (simp add: row b31)
  have "(num (immB w) :: 'a) = (\<Sum>i<12. 2 ^ i * of_bool (bit (immB w) i)) + (2 ^ 32 - 2 ^ 12) * of_bool (bit w 31)"
    by (rule num_sext) (simp_all add: bit_imm)
  also have "(\<Sum>i<12. 2 ^ i * of_bool (bit (immB w) i) :: 'a) = 2 * (\<Sum>i<11. 2 ^ i * of_bool (bit (immB w) (Suc i)))"
    by (simp add: sum.lessThan_Suc_shift [of _ 11, simplified] sum_distrib_left mult.assoc bit_imm)
  finally show "lin \<rho> (bit_entries n ([8..<12] @ [25..<31] @ [7]) 2 @ [Put (Var (bitn n 31)) 0xfffff000]) = num (immB w)"
    by (simp add: row b31)
  have "(num (immU w) :: 'a) = (\<Sum>i<32. 2 ^ i * of_bool (12 \<le> i \<and> bit w i))" unfolding num_bits by (simp add: bit_imm)
  also have "\<dots> = (\<Sum>i=12..<32. 2 ^ i * of_bool (bit w i))"
    by (rule sum.mono_neutral_cong_right) auto
  also have "\<dots> = (\<Sum>i<20. 2 ^ (i + 12) * of_bool (bit w (i + 12)))"
    using sum.shift_bounds_nat_ivl [of "\<lambda>i. 2 ^ i * of_bool (bit w i) :: 'a" 0 12 20] by (simp add: atLeast0LessThan)
  also have "\<dots> = 2 ^ 12 * (\<Sum>i<20. 2 ^ i * of_bool (bit w (12 + i)))"
    by (simp only: sum_distrib_left power_add mult_ac add.commute)
  finally show "lin \<rho> (bit_entries n [12..<32] (2 ^ 12)) = num (immU w)" by (simp add: lin_word [OF w])
  have "(num (immJ w) :: 'a) = (\<Sum>i<20. 2 ^ i * of_bool (bit (immJ w) i)) + (2 ^ 32 - 2 ^ 20) * of_bool (bit w 31)"
    by (rule num_sext) (simp_all add: bit_imm)
  also have "(\<Sum>i<20. 2 ^ i * of_bool (bit (immJ w) i) :: 'a) = 2 * (\<Sum>i<19. 2 ^ i * of_bool (bit (immJ w) (Suc i)))"
    by (simp add: sum.lessThan_Suc_shift [of _ 19, simplified] sum_distrib_left mult.assoc bit_imm)
  finally show "lin \<rho> (bit_entries n ([21..<31] @ [20] @ [12..<20]) 2 @ [Put (Var (bitn n 31)) 0xfff00000]) = num (immJ w)"
    using row(3) by (simp add: b31)
qed

section \<open>Literal names\<close>

text \<open>The numerals in the names the source writes out.\<close>

lemma nat_str_lits:
  "nat_str 2 = ''2''" "nat_str 3 = ''3''" "nat_str 4 = ''4''" "nat_str 5 = ''5''" "nat_str 6 = ''6''" "nat_str 7 = ''7''"
  "nat_str 8 = ''8''" "nat_str 9 = ''9''" "nat_str 10 = ''10''" "nat_str 11 = ''11''" "nat_str 12 = ''12''" "nat_str 13 = ''13''"
  "nat_str 14 = ''14''" "nat_str 15 = ''15''" "nat_str 16 = ''16''" "nat_str 17 = ''17''" "nat_str 18 = ''18''" "nat_str 19 = ''19''"
  "nat_str 20 = ''20''" "nat_str 21 = ''21''" "nat_str 22 = ''22''" "nat_str 23 = ''23''" "nat_str 24 = ''24''" "nat_str 25 = ''25''"
  "nat_str 26 = ''26''" "nat_str 27 = ''27''" "nat_str 28 = ''28''" "nat_str 29 = ''29''" "nat_str 30 = ''30''" "nat_str 32 = ''32''"
  "nat_str 33 = ''33''" "nat_str 34 = ''34''" "nat_str 35 = ''35''" "nat_str 36 = ''36''" "nat_str 37 = ''37''" "nat_str 38 = ''38''"
  "nat_str 39 = ''39''" "nat_str 40 = ''40''" "nat_str 41 = ''41''" "nat_str 42 = ''42''" "nat_str 51 = ''51''" "nat_str 55 = ''55''"
  "nat_str 99 = ''99''" "nat_str 103 = ''103''" "nat_str 111 = ''111''" "nat_str 115 = ''115''"
  by (simp_all add: nat_str.simps char_of_def bit_0)

section \<open>Opcode and register fields\<close>

definition opc_rel :: "(string \<Rightarrow> 'f::field) \<Rightarrow> u32 \<Rightarrow> bool" where
  "opc_rel \<rho> w \<longleftrightarrow> is_word \<rho> ''inst'' w \<and> one_hot \<rho> ''opcode'' opcode_set (opcode w)
     \<and> \<rho> ''rd'' = (if opcode w \<in> {OPC_BR, OPC_STORE} then 0 else num (p_rd w))
     \<and> \<rho> ''rs1'' = (if opcode w \<in> {OPC_LUI, OPC_AUIPC, OPC_JAL, OPC_ECALL} then 0 else num (p_rs1 w))
     \<and> \<rho> ''rs2'' = (if opcode w \<in> {OPC_BR, OPC_STORE, OPC_ALU} then num (p_rs2 w) else 0)"

lemma opcode_set_props: "1 < length opcode_set" "distinct opcode_set"
  by (simp_all add: opcode_set_def)

lemma one_hot_num: "one_hot \<rho> n s x \<Longrightarrow> y \<in> set s \<Longrightarrow> \<rho> (sel n y) = of_bool (y = x)"
  by (simp add: one_hot_def)

lemma opc_name_neq: "opc_name x = opc_name y \<longleftrightarrow> x = y"
  by simp

lemma yields_opcode_type: "yields (opcode_type opc) {} (\<lambda>\<rho>. True)"
  unfolding opcode_type_def by (simp add: yields_set_var yields_panic)

lemma gadget_opc:
  "large_field TYPE('f::field) \<Longrightarrow> gadget {} (member ''opcode'' k opcode_set :: 'f builder) (\<lambda>\<rho>. \<exists>x. one_hot \<rho> ''opcode'' opcode_set x)"
  using opcode_set_props by (intro gadget_member) (auto simp: member_locals_def)

lemma gadget_opc_rows:
  "gadget {} (seq
     [set_eq ''type=J'' (opc_name OPC_JAL), set_eq ''type=B'' (opc_name OPC_BR), set_eq ''type=S'' (opc_name OPC_STORE),
      set_eq ''type=A'' (opc_name OPC_ALUI),
      unless_witness_only (seq
        [cs_add ''type=I'' (opc_name OPC_JALR) (opc_name OPC_LOAD),
         cs_add ''type=U'' (opc_name OPC_LUI) (opc_name OPC_AUIPC),
         constraint (map (\<lambda>op. Put (Var (opc_name op)) 1) [OPC_ALU, OPC_FENCE, OPC_ECALL]) [Put One 1]
           [Put (Var ''type=R'') 1],
         constraint (bit_entries ''inst'' [0..<7] 1) [Put One 1] [Put (Var ''opcode'') 1],
         constraint (bit_entries ''inst'' [7..<12] 1)
           (Put One 1 # map (\<lambda>op. Put (Var (opc_name op)) (- 1)) [OPC_BR, OPC_STORE]) [Put (Var ''rd'') 1],
         constraint (bit_entries ''inst'' [15..<20] 1)
           (Put One 1 # map (\<lambda>op. Put (Var (opc_name op)) (- 1)) [OPC_LUI, OPC_AUIPC, OPC_JAL, OPC_ECALL])
           [Put (Var ''rs1'') 1],
         constraint (bit_entries ''inst'' [20..<25] 1)
           (map (\<lambda>op. Put (Var (opc_name op)) 1) [OPC_BR, OPC_STORE, OPC_ALU]) [Put (Var ''rs2'') 1]]),
      seal]) (\<lambda>\<rho> :: string \<Rightarrow> 'f::field. lin \<rho> (bit_entries ''inst'' [0..<7] 1) * lin \<rho> [Put One 1] = lin \<rho> [Put (Var ''opcode'') 1]
      \<and> lin \<rho> (bit_entries ''inst'' [7..<12] 1) * lin \<rho> (Put One 1 # map (\<lambda>op. Put (Var (opc_name op)) (- 1)) [OPC_BR, OPC_STORE])
          = lin \<rho> [Put (Var ''rd'') 1]
      \<and> lin \<rho> (bit_entries ''inst'' [15..<20] 1)
          * lin \<rho> (Put One 1 # map (\<lambda>op. Put (Var (opc_name op)) (- 1)) [OPC_LUI, OPC_AUIPC, OPC_JAL, OPC_ECALL])
          = lin \<rho> [Put (Var ''rs1'') 1]
      \<and> lin \<rho> (bit_entries ''inst'' [20..<25] 1)
          * lin \<rho> (map (\<lambda>op. Put (Var (opc_name op)) 1) [OPC_BR, OPC_STORE, OPC_ALU]) = lin \<rho> [Put (Var ''rs2'') 1])"
proof (rule gadget_seal, simp, simp, simp only: butlast.simps list.simps simp_thms if_True if_False, (rule yields_rules)+, goal_cases)
  case (1 \<rho> \<rho>')
  have eq: "\<rho>' = \<rho>" using 1(1) by (simp add: fun_eq_iff)
  have ok: "put_ok {} (bit_entries ''inst'' [i..<j] 1 :: 'f entry list)" for i j by (rule put_ok_bit_entries) simp_all
  have ok': "put_ok {} [Put (Var n) x :: 'f entry]" "put_ok {} [Put One (1::'f)]"
    "put_ok {} (Put One 1 # map (\<lambda>op. Put (Var (opc_name op)) (- 1 :: 'f)) [OPC_BR, OPC_STORE])"
    "put_ok {} (Put One 1 # map (\<lambda>op. Put (Var (opc_name op)) (- 1 :: 'f)) [OPC_LUI, OPC_AUIPC, OPC_JAL, OPC_ECALL])"
    "put_ok {} (map (\<lambda>op. Put (Var (opc_name op)) (1 :: 'f)) [OPC_BR, OPC_STORE, OPC_ALU])" for n x
    by simp_all
  show ?case using 1(2) ok ok' unfolding eq list.map by blast
qed

lemma gadget_parse_opc:
  assumes large: "large_field TYPE('f::field)"
  shows "gadget {} (parse_opc inst :: 'f builder) (\<lambda>\<rho>. \<exists>w. opc_rel \<rho> w)"
  unfolding parse_opc_def
proof (rule gadget_mono, (rule gadget_opc_rows gadget_Cons gadget_opc [OF large] gadget_yields [OF yields_to_bits]
      gadget_yields [OF yields_set_bit] gadget_yields [OF yields_opcode_type])+, simp, goal_cases)
  case (1 \<rho>)
  then obtain w x where w: "is_word \<rho> ''inst'' w" and x: "one_hot \<rho> ''opcode'' opcode_set x" by blast
  from 1 have rows: "lin \<rho> (bit_entries ''inst'' [0..<7] 1) * lin \<rho> [Put One 1] = lin \<rho> [Put (Var ''opcode'') 1]"
    "lin \<rho> (bit_entries ''inst'' [7..<12] 1) * lin \<rho> (Put One 1 # map (\<lambda>op. Put (Var (opc_name op)) (- 1)) [OPC_BR, OPC_STORE])
       = lin \<rho> [Put (Var ''rd'') 1]"
    "lin \<rho> (bit_entries ''inst'' [15..<20] 1)
       * lin \<rho> (Put One 1 # map (\<lambda>op. Put (Var (opc_name op)) (- 1)) [OPC_LUI, OPC_AUIPC, OPC_JAL, OPC_ECALL])
       = lin \<rho> [Put (Var ''rs1'') 1]"
    "lin \<rho> (bit_entries ''inst'' [20..<25] 1)
       * lin \<rho> (map (\<lambda>op. Put (Var (opc_name op)) 1) [OPC_BR, OPC_STORE, OPC_ALU]) = lin \<rho> [Put (Var ''rs2'') 1]" by blast+
  have "num (opcode w) = (num x :: 'f)" using rows(1) x lin_fields(1) [OF w] by (simp add: one_hot_def)
  then have x': "x = opcode w" using num_eq_iff [OF large] by auto
  have sel: "\<rho> (opc_name y) = of_bool (y = opcode w)" if "y \<in> set opcode_set" for y
    using one_hot_num [OF x that] unfolding x' by simp
  have sels: "\<rho> (opc_name OPC_BR) = of_bool (OPC_BR = opcode w)" "\<rho> (opc_name OPC_STORE) = of_bool (OPC_STORE = opcode w)"
    "\<rho> (opc_name OPC_LUI) = of_bool (OPC_LUI = opcode w)" "\<rho> (opc_name OPC_AUIPC) = of_bool (OPC_AUIPC = opcode w)"
    "\<rho> (opc_name OPC_JAL) = of_bool (OPC_JAL = opcode w)" "\<rho> (opc_name OPC_ECALL) = of_bool (OPC_ECALL = opcode w)"
    "\<rho> (opc_name OPC_ALU) = of_bool (OPC_ALU = opcode w)"
    by (rule sel, simp add: opcode_set_def)+
  have "opc_rel \<rho> w" unfolding opc_rel_def
    using w x x' rows(2-4) [unfolded list.map lin_simps entry.sel ref_val.simps sels lin_fields [OF w]] by auto
  then show ?case ..
qed

section \<open>Immediates\<close>

definition imm_rel :: "(string \<Rightarrow> 'f::field) \<Rightarrow> u32 \<Rightarrow> bool" where
  "imm_rel \<rho> w \<longleftrightarrow> picks \<rho> ''f3'' 8 (unat (funct3 w)) \<and> \<rho> ''f7'' = num (funct7 w) \<and> \<rho> ''f7'' = \<rho> ''f7-32'' + 32
     \<and> \<rho> ''lowA'' = num (shamt w) \<and> \<rho> ''immI'' = num (immI w) \<and> \<rho> ''immS'' = num (immS w) \<and> \<rho> ''immB'' = num (immB w)
     \<and> \<rho> ''immU'' = num (immU w) \<and> \<rho> ''immJ'' = num (immJ w) \<and> \<rho> ''immA'' = num (immA w)"

abbreviation imm_locals :: "string set" where
  "imm_locals \<equiv> {''tiI'', ''tiS'', ''tiB'', ''tiU'', ''tiJ'', ''tiA'', ''is_shift'', ''a1'', ''a2''}"

abbreviation imm_rows :: "'f::field builder" where
  "imm_rows \<equiv> seq
     [cs_add ''is_shift'' ''f3=1'' ''f3=5'',
      cs_mul ''a1'' ''is_shift'' ''lowA'',
      constraint [Put One 1, Put (Var ''is_shift'') (- 1)] [Put (Var ''immI'') 1] [Put (Var ''a2'') 1],
      cs_add ''immA'' ''a1'' ''a2'',
      constraint (map (\<lambda>ty. Put (Var (''ti'' @ ty)) 1) imm_types) [Put One 1] [Put (Var ''I'') 1],
      constraint (bit_entries ''inst'' [20..<25] 1) [Put One 1] [Put (Var ''lowA'') 1],
      constraint (bit_entries ''inst'' [12..<15] 1) [Put One 1] [Put (Var ''f3'') 1],
      constraint (bit_entries ''inst'' [25..<32] 1) [Put One 1] [Put (Var ''f7'') 1],
      cs_addi ''f7'' ''f7-32'' 32,
      constraint (bit_entries ''inst'' [20..<31] 1 @ [Put (Var ''inst_31'') 0xfffff800]) [Put One 1]
        [Put (Var ''immI'') 1],
      constraint (bit_entries ''inst'' ([7..<12] @ [25..<31]) 1 @ [Put (Var ''inst_31'') 0xfffff800]) [Put One 1]
        [Put (Var ''immS'') 1],
      constraint (bit_entries ''inst'' ([8..<12] @ [25..<31] @ [7]) 2 @ [Put (Var ''inst_31'') 0xfffff000])
        [Put One 1] [Put (Var ''immB'') 1],
      constraint (bit_entries ''inst'' [12..<32] (2 ^ 12)) [Put One 1] [Put (Var ''immU'') 1],
      constraint (bit_entries ''inst'' ([21..<31] @ [20] @ [12..<20]) 2 @ [Put (Var ''inst_31'') 0xfff00000])
        [Put One 1] [Put (Var ''immJ'') 1]]"

lemma inst_31: "bitn ''inst'' 31 = ''inst_31''"
  by (simp add: nat_str_31)

lemma yields_bits_row:
  "yields (constraint (bit_entries n [i..<j] p) [Put One 1] [Put (Var m) 1]) {} (\<lambda>\<rho>. \<rho> m = lin \<rho> (bit_entries n [i..<j] p))"
  by (rule yields_mono, rule yields_constraint) (simp_all add: put_ok_bit_entries)

lemma yields_sext_row:
  assumes "distinct (is @ [31])"
  shows "yields (constraint (bit_entries ''inst'' is p @ [Put (Var ''inst_31'') q]) [Put One 1] [Put (Var m) 1]) {}
    (\<lambda>\<rho>. \<rho> m = lin \<rho> (bit_entries ''inst'' is p @ [Put (Var ''inst_31'') q]))"
  by (rule yields_mono, rule yields_constraint) (use put_ok_bits_then [OF assms, of "''inst''" p q] in \<open>simp_all only: inst_31 put_ok.simps\<close>, simp_all)

lemma yields_keep:
  "yields (constraint [Put One 1, Put (Var s) (- 1)] [Put (Var x) 1] [Put (Var y) 1]) {} (\<lambda>\<rho>. \<rho> y = (1 - \<rho> s) * \<rho> x)"
  by (rule yields_mono, rule yields_constraint) simp_all

lemma sext_distinct:
  "distinct ([20..<31] @ [31::nat])" "distinct (([7..<12] @ [25..<31]) @ [31::nat])"
  "distinct (([8..<12] @ [25..<31] @ [7]) @ [31::nat])" "distinct (([21..<31] @ [20] @ [12..<20]) @ [31::nat])"
  by auto

lemmas yields_sext_rows = yields_sext_row [OF sext_distinct(1)] yields_sext_row [OF sext_distinct(2)]
  yields_sext_row [OF sext_distinct(3)] yields_sext_row [OF sext_distinct(4)]

lemma shamt_rs2: "p_rs2 = shamt"
  by (simp add: fun_eq_iff p_rs2_def shamt_def)

lemma yields_imm_rows:
  "yields (imm_rows :: 'f::field builder) {} (\<lambda>\<rho>. \<forall>w. is_word \<rho> ''inst'' w \<longrightarrow>
     \<rho> ''f3'' = num (funct3 w) \<and> \<rho> ''f7'' = num (funct7 w) \<and> \<rho> ''f7'' = \<rho> ''f7-32'' + 32
     \<and> \<rho> ''lowA'' = num (shamt w) \<and> \<rho> ''immI'' = num (immI w) \<and> \<rho> ''immS'' = num (immS w) \<and> \<rho> ''immB'' = num (immB w)
     \<and> \<rho> ''immU'' = num (immU w) \<and> \<rho> ''immJ'' = num (immJ w)
     \<and> \<rho> ''immA'' = (\<rho> ''f3=1'' + \<rho> ''f3=5'') * \<rho> ''lowA'' + (1 - (\<rho> ''f3=1'' + \<rho> ''f3=5'')) * \<rho> ''immI'')"
proof (rule yields_mono, (rule yields_bits_row yields_sext_rows yields_keep yields_rules)+, goal_cases)
  case (2 \<rho>)
  show ?case
  proof (intro allI impI)
    fix w assume w: "is_word \<rho> ''inst'' w"
    note lins = lin_fields [OF w] lin_imm [OF w, unfolded inst_31] shamt_rs2
    have neq: "''f3=1'' \<noteq> ''f3=5''" "''a1'' \<noteq> ''a2''" by simp_all
    have "\<rho> ''is_shift'' = \<rho> ''f3=1'' + \<rho> ''f3=5''" "\<rho> ''a1'' = \<rho> ''is_shift'' * \<rho> ''lowA''"
      "\<rho> ''a2'' = (1 - \<rho> ''is_shift'') * \<rho> ''immI''" "\<rho> ''immA'' = \<rho> ''a1'' + \<rho> ''a2''"
      using 2 neq by blast+
    then have "\<rho> ''immA'' = (\<rho> ''f3=1'' + \<rho> ''f3=5'') * \<rho> ''lowA'' + (1 - (\<rho> ''f3=1'' + \<rho> ''f3=5'')) * \<rho> ''immI''"
      by simp
    then show "\<rho> ''f3'' = num (funct3 w) \<and> \<rho> ''f7'' = num (funct7 w) \<and> \<rho> ''f7'' = \<rho> ''f7-32'' + 32
     \<and> \<rho> ''lowA'' = num (shamt w) \<and> \<rho> ''immI'' = num (immI w) \<and> \<rho> ''immS'' = num (immS w) \<and> \<rho> ''immB'' = num (immB w)
     \<and> \<rho> ''immU'' = num (immU w) \<and> \<rho> ''immJ'' = num (immJ w)
     \<and> \<rho> ''immA'' = (\<rho> ''f3=1'' + \<rho> ''f3=5'') * \<rho> ''lowA'' + (1 - (\<rho> ''f3=1'' + \<rho> ''f3=5'')) * \<rho> ''immI''"
      using 2 unfolding lins by blast
  qed
qed simp

lemma gadget_imm_tail:
  "gadget {} (seq
     [seq (map (\<lambda>ty. with_var (''type='' @ ty) (\<lambda>t. with_var (''imm'' @ ty) (\<lambda>i.
        set_local (''ti'' @ ty) (t * i)))) imm_types),
      new_local_var ''is_shift'',
      with_var ''f3=1'' (\<lambda>f1. with_var ''f3=5'' (\<lambda>f5. assign ''is_shift'' (f1 + f5))),
      new_local_var ''a1'',
      with_var ''is_shift'' (\<lambda>s. with_var ''lowA'' (\<lambda>l. assign ''a1'' (s * l))),
      new_local_var ''a2'',
      with_var ''is_shift'' (\<lambda>s. with_var ''immI'' (\<lambda>i. assign ''a2'' ((1 - s) * i))),
      unless_witness_only imm_rows,
      seal]) (\<lambda>\<rho> :: string \<Rightarrow> 'f::field. \<forall>w. is_word \<rho> ''inst'' w \<longrightarrow>
     \<rho> ''f3'' = num (funct3 w) \<and> \<rho> ''f7'' = num (funct7 w) \<and> \<rho> ''f7'' = \<rho> ''f7-32'' + 32
     \<and> \<rho> ''lowA'' = num (shamt w) \<and> \<rho> ''immI'' = num (immI w) \<and> \<rho> ''immS'' = num (immS w) \<and> \<rho> ''immB'' = num (immB w)
     \<and> \<rho> ''immU'' = num (immU w) \<and> \<rho> ''immJ'' = num (immJ w)
     \<and> \<rho> ''immA'' = (\<rho> ''f3=1'' + \<rho> ''f3=5'') * \<rho> ''lowA'' + (1 - (\<rho> ''f3=1'' + \<rho> ''f3=5'')) * \<rho> ''immI'')"
proof (rule gadget_seal, simp, simp, simp only: butlast.simps list.distinct simp_thms if_True if_False,
    (rule yields_imm_rows yields_rules)+, goal_cases)
  case (1 \<rho> \<rho>')
  have out: "\<rho>' n = \<rho> n" if "n \<notin> imm_locals" for n using that by (intro 1(1)) auto
  have "is_word \<rho>' ''inst'' w" if "is_word \<rho> ''inst'' w" for w using that out by (simp add: is_word_def)
  with 1(2) show ?case by (simp add: out) blast
qed

lemma picks_sel: "picks \<rho> n m k \<Longrightarrow> j < m \<Longrightarrow> \<rho> (n @ ''='' @ nat_str j) = of_bool (j = k)"
  by (simp add: picks_def)

lemma gadget_f3:
  "large_field TYPE('f::field) \<Longrightarrow> gadget {} (selector ''f3'' 8 k :: 'f builder) (\<lambda>\<rho>. \<exists>i. picks \<rho> ''f3'' 8 i)"
  using gadget_selector [where 'f = 'f, of "''f3''" "{}" 8 k] by (simp add: member_locals_def image_iff)

lemma of_nat_num_eq: "large_field TYPE('f) \<Longrightarrow> i < 2 ^ 130 \<Longrightarrow> of_nat i = (num x :: 'f::field) \<longleftrightarrow> i = unat x"
  using of_nat_eq_large [OF _ _ unat_large] by blast

lemma gadget_parse_imm:
  assumes large: "large_field TYPE('f::field)"
  shows "gadget {} (parse_imm inst :: 'f builder) (\<lambda>\<rho>. \<forall>w. is_word \<rho> ''inst'' w \<longrightarrow> imm_rel \<rho> w)"
  unfolding parse_imm_def
proof (rule gadget_mono, (rule gadget_imm_tail gadget_Cons gadget_f3 [OF large] gadget_yields [OF yields_set_var]
      gadget_yields [OF yields_declare] gadget_yields [OF yields_with_var [OF yields_assign]])+, simp, goal_cases)
  case (1 \<rho>)
  then obtain i where i: "picks \<rho> ''f3'' 8 i" by blast
  show ?case
  proof (intro allI impI)
    fix w assume w: "is_word \<rho> ''inst'' w"
    with 1 have r: "\<rho> ''f3'' = num (funct3 w)" "\<rho> ''f7'' = num (funct7 w) \<and> \<rho> ''f7'' = \<rho> ''f7-32'' + 32
     \<and> \<rho> ''lowA'' = num (shamt w) \<and> \<rho> ''immI'' = num (immI w) \<and> \<rho> ''immS'' = num (immS w) \<and> \<rho> ''immB'' = num (immB w)
     \<and> \<rho> ''immU'' = num (immU w) \<and> \<rho> ''immJ'' = num (immJ w)"
     "\<rho> ''immA'' = (\<rho> ''f3=1'' + \<rho> ''f3=5'') * \<rho> ''lowA'' + (1 - (\<rho> ''f3=1'' + \<rho> ''f3=5'')) * \<rho> ''immI''" by blast+
    have "i = unat (funct3 w)" using i r(1) of_nat_num_eq [OF large, of i "funct3 w"] by (simp add: picks_def)
    with i have f3: "picks \<rho> ''f3'' 8 (unat (funct3 w))" by simp
    have sel: "\<rho> ''f3=1'' = of_bool (funct3 w = 1)" "\<rho> ''f3=5'' = of_bool (funct3 w = 5)"
      using picks_sel [OF f3, of 1] picks_sel [OF f3, of 5] by (simp_all add: nat_str_lits word_unat_eq_iff eq_commute [of _ "unat _"])
    have "\<rho> ''immA'' = num (immA w)" using r(2,3) unfolding sel by (auto simp: immA_def)
    with f3 r(2) show "imm_rel \<rho> w" unfolding imm_rel_def by blast
  qed
qed

section \<open>Shift amount\<close>

lemma gadget_parse_shamt:
  "gadget {} (parse_shamt y :: 'f::field builder) (\<lambda>\<rho>.
     \<rho> ''shamt'' = \<rho> ''opcode=19'' * \<rho> ''lowA'' + \<rho> ''opcode=51'' * \<rho> ''lowY'' \<and> (\<forall>v. is_word \<rho> ''Y'' v \<longrightarrow> \<rho> ''lowY'' = num (v AND 0x1f)))"
  unfolding parse_shamt_def
proof (rule gadget_seal, simp, simp, simp only: butlast.simps list.distinct simp_thms if_True if_False,
    (rule yields_bits_row yields_rules)+, goal_cases)
  case (1 \<rho> \<rho>')
  have out: "\<rho>' n = \<rho> n" if "n \<notin> {''shamt_i'', ''shamt_r''}" for n using that by (intro 1(1)) auto
  have "\<rho>' ''lowY'' = num (v AND 0x1f)" if "is_word \<rho> ''Y'' v" for v
  proof -
    have "is_word \<rho>' ''Y'' v" using that out by (simp add: is_word_def)
    then show ?thesis using 1(2) lin_fields(7) [of \<rho>' "''Y''" v] by simp
  qed
  moreover have "''shamt_i'' \<noteq> ''shamt_r''" by simp
  then have "\<rho>' ''shamt'' = \<rho>' ''opcode=19'' * \<rho>' ''lowA'' + \<rho>' ''opcode=51'' * \<rho>' ''lowY''" using 1(2) by metis
  ultimately show ?case by (simp add: out)
qed

section \<open>Instruction index\<close>

text \<open>The relation of \<open>parse_J\<close>.\<close>

definition J_rel :: "(string \<Rightarrow> 'f::field) \<Rightarrow> bool" where
  "J_rel \<rho> \<longleftrightarrow>
     (let J = \<lambda>j. \<rho> (''J='' @ nat_str j); f3 = \<lambda>j. \<rho> (''f3='' @ nat_str j); opc = \<lambda>j. \<rho> (''opcode='' @ nat_str j);
          b = \<lambda>i. \<rho> (''inst_'' @ nat_str i) in
      (\<forall>j\<in>{1..42}. J j = 0 \<or> J j = 1) \<and> (\<Sum>j=1..42. J j) = 1
      \<and> J 1 = opc 55 \<and> J 2 = opc 23 \<and> J 3 = opc 111 \<and> J 4 = opc 103 \<and> (\<rho> ''f3'' = 0 \<or> opc 103 = 0)
      \<and> J 5 = opc 99 * f3 0 \<and> J 6 = opc 99 * f3 1 \<and> J 7 = opc 99 * f3 4 \<and> J 8 = opc 99 * f3 5 \<and> J 9 = opc 99 * f3 6
      \<and> J 10 = opc 99 * f3 7
      \<and> J 11 = opc 3 * f3 0 \<and> J 12 = opc 3 * f3 1 \<and> J 13 = opc 3 * f3 2 \<and> J 14 = opc 3 * f3 4 \<and> J 15 = opc 3 * f3 5
      \<and> J 16 = opc 35 * f3 0 \<and> J 17 = opc 35 * f3 1 \<and> J 18 = opc 35 * f3 2
      \<and> J 19 = opc 19 * f3 0 \<and> J 21 = opc 19 * f3 1 \<and> (J 21 = 0 \<or> \<rho> ''f7'' = 0) \<and> J 22 = opc 19 * f3 2 \<and> J 23 = opc 19 * f3 3
      \<and> J 24 = opc 19 * f3 4 \<and> J 25 = opc 19 * (f3 5 * (1 - b 30)) \<and> (J 25 = 0 \<or> \<rho> ''f7'' = 0)
      \<and> J 26 = opc 19 * (f3 5 * b 30) \<and> (J 26 = 0 \<or> \<rho> ''f7-32'' = 0) \<and> J 27 = opc 19 * f3 6 \<and> J 28 = opc 19 * f3 7
      \<and> J 29 = opc 51 * (f3 0 * (1 - b 30)) \<and> (J 29 = 0 \<or> \<rho> ''f7'' = 0)
      \<and> J 30 = opc 51 * (f3 0 * b 30) \<and> (J 30 = 0 \<or> \<rho> ''f7-32'' = 0)
      \<and> J 31 = opc 51 * f3 1 \<and> (J 31 = 0 \<or> \<rho> ''f7'' = 0) \<and> J 32 = opc 51 * f3 2 \<and> (J 32 = 0 \<or> \<rho> ''f7'' = 0)
      \<and> J 33 = opc 51 * f3 3 \<and> (J 33 = 0 \<or> \<rho> ''f7'' = 0) \<and> J 34 = opc 51 * f3 4 \<and> (J 34 = 0 \<or> \<rho> ''f7'' = 0)
      \<and> J 35 = opc 51 * (f3 5 * (1 - b 30)) \<and> (J 35 = 0 \<or> \<rho> ''f7'' = 0)
      \<and> J 36 = opc 51 * (f3 5 * b 30) \<and> (J 36 = 0 \<or> \<rho> ''f7-32'' = 0)
      \<and> J 37 = opc 51 * f3 6 \<and> (J 37 = 0 \<or> \<rho> ''f7'' = 0) \<and> J 38 = opc 51 * f3 7 \<and> (J 38 = 0 \<or> \<rho> ''f7'' = 0)
      \<and> J 39 = opc 15 \<and> J 40 = opc 115 * ((1 - b 12) * (1 - b 20)) \<and> J 41 = opc 115 * b 20 \<and> J 42 = opc 115 * b 12)"

abbreviation J_locals :: "string set" where
  "J_locals \<equiv> {''f3=0a'', ''f3=0b'', ''f3=5a'', ''f3=5b'', ''ecall''}"

lemma yields_ecall:
  "yields (constraint [Put One 1, Put (Var a) (- 1)] [Put One 1, Put (Var b) (- 1)] [Put (Var c) 1]) {}
     (\<lambda>\<rho>. \<rho> c = (1 - \<rho> a) * (1 - \<rho> b))"
  by (rule yields_mono, rule yields_constraint) simp_all

lemma yields_J_sum:
  "yields (constraint (map (\<lambda>j. Put (Var (''J='' @ nat_str j)) 1) js) [Put One 1] [Put One 1] :: 'f::field builder) {}
     (\<lambda>\<rho>. (\<Sum>j=1..42. \<rho> (''J='' @ nat_str j)) = 1)"
proof (rule yields_mono, rule yields_constraint)
  show "put_ok {} (map (\<lambda>j. Put (Var (''J='' @ nat_str j)) 1) js :: 'f entry list)" by (rule put_ok_bits) (simp_all add: inj_on_def)
  fix \<rho> :: "string \<Rightarrow> 'f"
  have set: "set js = {1..42}" by (auto simp: MAX_J_def)
  assume "lin \<rho> (map (\<lambda>j. Put (Var (''J='' @ nat_str j)) 1) js) * lin \<rho> [Put One 1] = lin \<rho> [Put One 1]"
  then show "(\<Sum>j=1..42. \<rho> (''J='' @ nat_str j)) = 1"
    by (simp only: lin_map sum_list_distinct_conv_sum_set distinct_upt set) simp
qed simp_all

lemma gadget_parse_J: "gadget {} (parse_J J :: 'f::field builder) J_rel"
  unfolding parse_J_def j_locals_def j_control_def j_alui_def j_alu_def j_misc_def
proof (rule gadget_seal, simp, simp, simp only: butlast.simps list.distinct simp_thms if_True if_False,
    (rule yields_keep yields_ecall yields_J_sum yields_rules)+, goal_cases)
  case (1 \<rho> \<rho>')
  have out: "\<rho>' n = \<rho> n" if "n \<notin> J_locals" for n using that by (intro 1(1)) auto
  have set: "set js = {1..42}" by (auto simp: MAX_J_def)
  note * = 1(2) [unfolded set]
  show ?case unfolding J_rel_def Let_def nat_str_lits nat_str_31 nat_str_0 nat_str_1 append_Cons append_Nil using *
    by (simp add: out nat_str_1) (elim conjE, simp)
qed

text \<open>Flags with values 0 and 1 that add up to 1: one is set.\<close>

lemma flags_one:
  fixes f :: "nat \<Rightarrow> 'f::field"
  assumes large: "large_field TYPE('f)" and S: "finite S" "card S < 2 ^ 130" "\<forall>j\<in>S. f j = 0 \<or> f j = 1" "sum f S = 1"
    and k: "k \<in> S" "f k = 1" and j: "j \<in> S"
  shows "f j = of_bool (j = k)"
proof -
  let ?T = "{j \<in> S. f j = 1}"
  have "sum f S = sum f (S - ?T) + sum f ?T" using S(1) by (intro sum.subset_diff) auto
  also have "sum f ?T = of_nat (card ?T)" by simp
  also have "sum f (S - ?T) = 0" using S(3) by (intro sum.neutral) auto
  finally have "of_nat (card ?T) = (of_nat 1 :: 'f)" using S(4) by simp
  moreover have "card ?T < 2 ^ 130" using card_mono [OF S(1), of ?T] S(2) by auto
  ultimately have "card ?T = 1" using of_nat_eq_large [OF large, of "card ?T" 1] by simp
  then obtain t where t: "?T = {t}" by (auto simp: card_1_singleton_iff)
  moreover have "k \<in> ?T" using k by simp
  ultimately have "?T = {k}" by auto
  then show ?thesis using j S(3) by (cases "j = k") (auto simp: k)
qed

lemma funct7_bit_30: "funct7 w = 0 \<Longrightarrow> \<not> bit w 30" "funct7 w = 32 \<Longrightarrow> bit w 30"
proof -
  have "bit (funct7 w) 5 = bit w 30" by (simp add: funct7_def bit_bits)
  moreover have "bit (32 :: u32) 5" by code_simp
  ultimately show "funct7 w = 0 \<Longrightarrow> \<not> bit w 30" "funct7 w = 32 \<Longrightarrow> bit w 30" by auto
qed

lemma system_bits:
  "drop_bit 12 w = 0 \<Longrightarrow> \<not> bit w 12 \<and> \<not> bit w 20" "drop_bit 12 w = 0x100 \<Longrightarrow> \<not> bit w 12 \<and> bit w 20"
  "drop_bit 12 w = 0xc0001 \<Longrightarrow> bit w 12 \<and> \<not> bit w 20" for w :: u32
proof -
  have "bit (drop_bit 12 w) 0 = bit w 12" "bit (drop_bit 12 w) 8 = bit w 20" by (simp_all add: bit_drop_bit_eq)
  moreover have "\<not> bit (0x100 :: u32) 0" "bit (0x100 :: u32) 8" "bit (0xc0001 :: u32) 0" "\<not> bit (0xc0001 :: u32) 8" by code_simp+
  ultimately show "drop_bit 12 w = 0 \<Longrightarrow> \<not> bit w 12 \<and> \<not> bit w 20" "drop_bit 12 w = 0x100 \<Longrightarrow> \<not> bit w 12 \<and> bit w 20"
    "drop_bit 12 w = 0xc0001 \<Longrightarrow> bit w 12 \<and> \<not> bit w 20" by auto
qed

lemma J_decode:
  fixes \<rho> :: "string \<Rightarrow> 'f::field"
  assumes large: "large_field TYPE('f)" and rel: "opc_rel \<rho> w" "imm_rel \<rho> w" "J_rel \<rho>" and i: "parse_u32 w = Some i"
    and j: "j \<in> {1..42}"
  shows "\<rho> (''J='' @ nat_str j) = of_bool (j = unat (index_j i))"
proof -
  have w: "is_word \<rho> ''inst'' w" and op: "one_hot \<rho> ''opcode'' opcode_set (opcode w)" using rel(1) by (simp_all add: opc_rel_def)
  have f3: "picks \<rho> ''f3'' 8 (unat (funct3 w))" using rel(2) by (simp add: imm_rel_def)
  have b: "\<rho> ''inst_30'' = of_bool (bit w 30)" "\<rho> ''inst_12'' = of_bool (bit w 12)" "\<rho> ''inst_20'' = of_bool (bit w 20)"
    using is_word_bit [OF w, of 30] is_word_bit [OF w, of 12] is_word_bit [OF w, of 20] by (simp_all add: nat_str_lits)
  have opc: "\<rho> (opc_name y) = of_bool (opcode w = y)" if "y \<in> set opcode_set" for y
    using one_hot_num [OF op that] by (simp add: eq_commute)
  have opcs: "\<rho> ''opcode=55'' = of_bool (opcode w = 55)" "\<rho> ''opcode=23'' = of_bool (opcode w = 23)" "\<rho> ''opcode=111'' = of_bool (opcode w = 111)"
    "\<rho> ''opcode=103'' = of_bool (opcode w = 103)" "\<rho> ''opcode=99'' = of_bool (opcode w = 99)" "\<rho> ''opcode=3'' = of_bool (opcode w = 3)"
    "\<rho> ''opcode=35'' = of_bool (opcode w = 35)" "\<rho> ''opcode=19'' = of_bool (opcode w = 19)" "\<rho> ''opcode=51'' = of_bool (opcode w = 51)"
    "\<rho> ''opcode=15'' = of_bool (opcode w = 15)" "\<rho> ''opcode=115'' = of_bool (opcode w = 115)"
    using opc [of 55] opc [of 23] opc [of 111] opc [of 103] opc [of 99] opc [of 3] opc [of 35] opc [of 19] opc [of 51] opc [of 15] opc [of 115]
    by (simp_all add: opcode_set_def u32_str_def nat_str_lits)
  have f3s: "\<rho> ''f3=0'' = of_bool (funct3 w = 0)" "\<rho> ''f3=1'' = of_bool (funct3 w = 1)" "\<rho> ''f3=2'' = of_bool (funct3 w = 2)"
    "\<rho> ''f3=3'' = of_bool (funct3 w = 3)" "\<rho> ''f3=4'' = of_bool (funct3 w = 4)" "\<rho> ''f3=5'' = of_bool (funct3 w = 5)"
    "\<rho> ''f3=6'' = of_bool (funct3 w = 6)" "\<rho> ''f3=7'' = of_bool (funct3 w = 7)"
    using picks_sel [OF f3, of 0] picks_sel [OF f3, of 1] picks_sel [OF f3, of 2] picks_sel [OF f3, of 3] picks_sel [OF f3, of 4]
      picks_sel [OF f3, of 5] picks_sel [OF f3, of 6] picks_sel [OF f3, of 7]
    by (simp_all add: nat_str_lits word_unat_eq_iff eq_commute [of _ "unat _"])
  note J = rel(3) [unfolded J_rel_def Let_def nat_str_lits nat_str_31 nat_str_0 nat_str_1 append_Cons append_Nil opcs f3s b]
  have Je:
    "\<rho> ''J=1'' = of_bool (opcode w = 55)"
    "\<rho> ''J=2'' = of_bool (opcode w = 23)"
    "\<rho> ''J=3'' = of_bool (opcode w = 111)"
    "\<rho> ''J=4'' = of_bool (opcode w = 103)"
    "\<rho> ''J=5'' = of_bool (opcode w = 99 \<and> funct3 w = 0)"
    "\<rho> ''J=6'' = of_bool (opcode w = 99 \<and> funct3 w = 1)"
    "\<rho> ''J=7'' = of_bool (opcode w = 99 \<and> funct3 w = 4)"
    "\<rho> ''J=8'' = of_bool (opcode w = 99 \<and> funct3 w = 5)"
    "\<rho> ''J=9'' = of_bool (opcode w = 99 \<and> funct3 w = 6)"
    "\<rho> ''J=10'' = of_bool (opcode w = 99 \<and> funct3 w = 7)"
    "\<rho> ''J=11'' = of_bool (opcode w = 3 \<and> funct3 w = 0)"
    "\<rho> ''J=12'' = of_bool (opcode w = 3 \<and> funct3 w = 1)"
    "\<rho> ''J=13'' = of_bool (opcode w = 3 \<and> funct3 w = 2)"
    "\<rho> ''J=14'' = of_bool (opcode w = 3 \<and> funct3 w = 4)"
    "\<rho> ''J=15'' = of_bool (opcode w = 3 \<and> funct3 w = 5)"
    "\<rho> ''J=16'' = of_bool (opcode w = 35 \<and> funct3 w = 0)"
    "\<rho> ''J=17'' = of_bool (opcode w = 35 \<and> funct3 w = 1)"
    "\<rho> ''J=18'' = of_bool (opcode w = 35 \<and> funct3 w = 2)"
    "\<rho> ''J=19'' = of_bool (opcode w = 19 \<and> funct3 w = 0)"
    "\<rho> ''J=21'' = of_bool (opcode w = 19 \<and> funct3 w = 1)"
    "\<rho> ''J=22'' = of_bool (opcode w = 19 \<and> funct3 w = 2)"
    "\<rho> ''J=23'' = of_bool (opcode w = 19 \<and> funct3 w = 3)"
    "\<rho> ''J=24'' = of_bool (opcode w = 19 \<and> funct3 w = 4)"
    "\<rho> ''J=25'' = of_bool (opcode w = 19 \<and> funct3 w = 5 \<and> \<not> bit w 30)"
    "\<rho> ''J=26'' = of_bool (opcode w = 19 \<and> funct3 w = 5 \<and> bit w 30)"
    "\<rho> ''J=27'' = of_bool (opcode w = 19 \<and> funct3 w = 6)"
    "\<rho> ''J=28'' = of_bool (opcode w = 19 \<and> funct3 w = 7)"
    "\<rho> ''J=29'' = of_bool (opcode w = 51 \<and> funct3 w = 0 \<and> \<not> bit w 30)"
    "\<rho> ''J=30'' = of_bool (opcode w = 51 \<and> funct3 w = 0 \<and> bit w 30)"
    "\<rho> ''J=31'' = of_bool (opcode w = 51 \<and> funct3 w = 1)"
    "\<rho> ''J=32'' = of_bool (opcode w = 51 \<and> funct3 w = 2)"
    "\<rho> ''J=33'' = of_bool (opcode w = 51 \<and> funct3 w = 3)"
    "\<rho> ''J=34'' = of_bool (opcode w = 51 \<and> funct3 w = 4)"
    "\<rho> ''J=35'' = of_bool (opcode w = 51 \<and> funct3 w = 5 \<and> \<not> bit w 30)"
    "\<rho> ''J=36'' = of_bool (opcode w = 51 \<and> funct3 w = 5 \<and> bit w 30)"
    "\<rho> ''J=37'' = of_bool (opcode w = 51 \<and> funct3 w = 6)"
    "\<rho> ''J=38'' = of_bool (opcode w = 51 \<and> funct3 w = 7)"
    "\<rho> ''J=39'' = of_bool (opcode w = 15)"
    "\<rho> ''J=40'' = of_bool (opcode w = 115 \<and> \<not> bit w 12 \<and> \<not> bit w 20)"
    "\<rho> ''J=41'' = of_bool (opcode w = 115 \<and> bit w 20)"
    "\<rho> ''J=42'' = of_bool (opcode w = 115 \<and> bit w 12)"
    using J by (simp_all add: of_bool_conj f3s)
  have k: "\<rho> (''J='' @ u32_str (index_j i)) = 1"
    using i by (cases i rule: index_j.cases)
      (auto simp: parse_u32_def parse_bop_def parse_lop_def parse_sop_def parse_aop_def parse_aopi_def Let_def u32_str_def
        nat_str_lits nat_str_31 Je dest: funct7_bit_30 system_bits split: if_splits)
  have "1 \<le> unat (index_j i) \<and> unat (index_j i) \<le> 42" using index_j_range [of i] by (simp add: MAX_J_def word_le_nat_alt)
  moreover have "\<forall>j\<in>{1..42}. \<rho> (''J='' @ nat_str j) = 0 \<or> \<rho> (''J='' @ nat_str j) = 1" "(\<Sum>j=1..42. \<rho> (''J='' @ nat_str j)) = 1"
    using rel(3) by (simp_all add: J_rel_def Let_def)
  ultimately show ?thesis using k j unfolding u32_str_def
    by (intro flags_one [OF large, of "{1..42}" "\<lambda>j. \<rho> (''J='' @ nat_str j)" "unat (index_j i)" j]) simp_all
qed

end
