(* ===== verification/Shape.thy ===== *)
theory Shape
  imports Riscv Constraint_Logic
begin

text \<open>
  Two relational properties of the circuit builder.  Run on two different machine witnesses, the builder
  gives systems of the same shape: the same matrices, the same columns for the same names.  Run in
  witness-only mode, it computes the witness of the full run and skips the matrices.  Both are instances of
  one interface, a relation on systems that the primitive operations of the builder preserve; the gadgets and
  the whole step are shown to preserve it once, inside the locale.
\<close>

section \<open>Simulation between two runs\<close>

text \<open>Every successful run of the first builder is matched by the second; when \<open>lax\<close> holds, the second may
  panic.\<close>

definition sims :: "('f r1cs \<Rightarrow> 'f r1cs \<Rightarrow> bool) \<Rightarrow> bool \<Rightarrow> 'f builder \<Rightarrow> 'f builder \<Rightarrow> bool" where
  "sims R lax g h \<longleftrightarrow> (\<forall>cs ds cs'. R cs ds \<longrightarrow> g cs = Ok cs' \<longrightarrow> (case h ds of Ok ds' \<Rightarrow> R cs' ds' | _ \<Rightarrow> lax))"

lemma simsI: "(\<And>cs ds cs'. R cs ds \<Longrightarrow> g cs = Ok cs' \<Longrightarrow> (case h ds of Ok ds' \<Rightarrow> R cs' ds' | _ \<Rightarrow> lax)) \<Longrightarrow> sims R lax g h"
  by (simp add: sims_def)

lemma simsD: "sims R lax g h \<Longrightarrow> R cs ds \<Longrightarrow> g cs = Ok cs' \<Longrightarrow> (case h ds of Ok ds' \<Rightarrow> R cs' ds' | _ \<Rightarrow> lax)"
  by (simp add: sims_def)

lemma sims_Nil: "sims R lax (seq []) (seq [])"
  by (simp add: sims_def)

lemma sims_Panic: "sims R lax (\<lambda>cs. Panic) h"
  by (simp add: sims_def)

lemma sims_bind:
  "sims R lax g h \<Longrightarrow> sims R lax g' h' \<Longrightarrow> sims R lax (\<lambda>cs. result_bind (g cs) g') (\<lambda>cs. result_bind (h cs) h')"
proof (rule simsI)
  fix cs ds cs' assume g: "sims R lax g h" "sims R lax g' h'" and R: "R cs ds" "result_bind (g cs) g' = Ok cs'"
  then obtain c where c: "g cs = Ok c" "g' c = Ok cs'" by (auto simp: result_simps)
  show "case result_bind (h ds) h' of Ok ds' \<Rightarrow> R cs' ds' | _ \<Rightarrow> lax"
    using simsD [OF g(1) R(1) c(1)] simsD [OF g(2) _ c(2)] by (cases "h ds") simp_all
qed

lemma sims_Cons: "sims R lax g h \<Longrightarrow> sims R lax (seq gs) (seq hs) \<Longrightarrow> sims R lax (seq (g # gs)) (seq (h # hs))"
  using sims_bind [of R lax g h "seq gs" "seq hs"] by (simp add: sims_def)

lemma sims_loop: "(\<And>x. x \<in> set xs \<Longrightarrow> sims R lax (g x) (h x)) \<Longrightarrow> sims R lax (seq (map g xs)) (seq (map h xs))"
  by (induction xs) (auto intro: sims_Nil sims_Cons)

lemma sims_if: "(c \<Longrightarrow> sims R lax g h) \<Longrightarrow> (\<not> c \<Longrightarrow> sims R lax g' h') \<Longrightarrow> sims R lax (if c then g else g') (if c then h else h')"
  by simp

section \<open>Builders that only add rows\<close>

text \<open>They leave the witness and the names alone.\<close>

definition silent :: "'f builder \<Rightarrow> bool" where
  "silent g \<longleftrightarrow> (\<forall>cs cs'. g cs = Ok cs' \<longrightarrow> (\<exists>a b c. cs' = cs\<lparr>cs_a := a, cs_b := b, cs_c := c\<rparr>))"

lemma silentD: "silent g \<Longrightarrow> g cs = Ok cs' \<Longrightarrow> \<exists>a b c. cs' = cs\<lparr>cs_a := a, cs_b := b, cs_c := c\<rparr>"
  by (simp add: silent_def)

lemma rows_same: "\<exists>a b c. cs = cs\<lparr>cs_a := a, cs_b := b, cs_c := c\<rparr>" for cs :: "'f r1cs"
proof -
  have "cs = cs\<lparr>cs_a := cs_a cs, cs_b := cs_b cs, cs_c := cs_c cs\<rparr>" by simp
  then show ?thesis by blast
qed

lemma silent_Nil: "silent (seq [])"
  by (auto simp: silent_def intro: rows_same)

lemma silent_Cons: "silent g \<Longrightarrow> silent (seq gs) \<Longrightarrow> silent (seq (g # gs))"
  unfolding silent_def by (fastforce simp: result_simps)

lemma silent_loop: "(\<And>x. x \<in> set xs \<Longrightarrow> silent (g x)) \<Longrightarrow> silent (seq (map g xs))"
  by (induction xs) (auto intro: silent_Nil silent_Cons)

lemma silent_constraint: "silent (constraint a b c)"
  unfolding silent_def constraint_def Let_def by (auto simp: result_simps rows_same split: if_splits)

lemma silent_Panic: "silent (\<lambda>cs. Panic)"
  by (simp add: silent_def)

lemma silent_if: "silent g \<Longrightarrow> silent h \<Longrightarrow> silent (if c then g else h)"
  by simp

lemmas silent_rules = silent_Cons silent_Nil silent_loop silent_if silent_Panic silent_constraint

lemma silent_rows [simp]:
  "silent (eqi v0 x)" "silent (cs_add v0 v1 v2)" "silent (cs_addi v0 v1 x)" "silent (cs_mul v0 v1 v2)"
  "silent (cs_muli v0 v1 x)" "silent (cs_nand v0 v1)"
  by (simp_all add: eqi_def cs_add_def cs_addi_def cs_mul_def cs_muli_def cs_nand_def silent_constraint)

lemma silent_member_constraints: "silent (member_constraints name s i)"
  unfolding member_constraints_def Let_def by (intro silent_rules) simp_all

section \<open>Declared names\<close>

lemma dom_new_var: "dom (cs_vars (fst (new_var cs n))) = insert n (dom (cs_vars cs))"
  by (auto simp: new_var_def Let_def split: option.splits)

lemma seq_last: "seq [g] cs = g cs"
  by (cases "g cs") simp_all

lemma set_bit_vars:
  assumes "set_bit n b cs = Ok ds"
  shows "dom (cs_vars ds) = insert n (dom (cs_vars cs))"
proof -
  obtain c d where c: "declare_var n cs = Ok c" "assign n (of_bool b) c = Ok d"
    and ds: "constraint [Put One (- 1), Put (Var n) 1] [Put (Var n) 1] [] d = Ok ds"
    using assms unfolding set_bit_def seq.simps(2) by (auto simp: result_simps)
  have "cs_vars ds = cs_vars d" using silentD [OF silent_constraint ds] by auto
  moreover have "cs_vars d = cs_vars c" using c(2) by (auto simp: assign_def result_simps split: if_splits)
  ultimately show ?thesis using c(1) dom_new_var [of cs n] by (simp add: declare_var_def)
qed

lemma set_bits_vars: "seq (map (\<lambda>n. set_bit n (f n)) ns) cs = Ok ds \<Longrightarrow> dom (cs_vars ds) = set ns \<union> dom (cs_vars cs)"
proof (induction ns arbitrary: cs)
  case (Cons n ns)
  then obtain c where c: "set_bit n (f n) cs = Ok c" "seq (map (\<lambda>n. set_bit n (f n)) ns) c = Ok ds"
    by (auto simp: result_simps)
  show ?case using Cons.IH [OF c(2)] set_bit_vars [OF c(1)] by auto
qed simp

lemma set_var_declared: "n \<in> dom (cs_vars cs) \<Longrightarrow> set_var n x cs = assign n (of_nat (unat x)) cs"
proof -
  assume "n \<in> dom (cs_vars cs)"
  then have "declare_var n cs = Ok cs" by (auto simp: declare_var_def new_var_def)
  then show ?thesis unfolding set_var_def set_field_var_def seq.simps(2) [of "declare_var n"] by (simp only: result_bind.simps seq_last)
qed

abbreviation type_names :: "string list" where
  "type_names \<equiv> [''type=R'', ''type=I'', ''type=S'', ''type=B'', ''type=U'', ''type=J'', ''type=A'']"

lemma opcode_type_assigns:
  assumes "set type_names \<subseteq> dom (cs_vars cs)"
  shows "opcode_type opc cs = Panic \<or> (\<exists>n. opcode_type opc cs = assign n 1 cs)"
  using assms by (auto simp: opcode_type_def set_var_declared)

section \<open>The interface\<close>

text \<open>A relation on systems that the primitive operations preserve.  When \<open>lax\<close> holds the two runs may write
  different values, and the second may panic; otherwise they write the same.\<close>

locale builder_rel =
  fixes R :: "'f::field r1cs \<Rightarrow> 'f r1cs \<Rightarrow> bool" and lax :: bool
  assumes same_vars: "R cs ds \<Longrightarrow> cs_vars ds = cs_vars cs"
    and read: "R cs ds \<Longrightarrow> get_var cs n = Ok x \<Longrightarrow> lax \<or> get_var ds n = Ok x"
    and declare_sims: "sims R lax (declare_var n) (declare_var n)"
    and new_local_sims: "sims R lax (new_local_var n) (new_local_var n)"
    and assign_sims: "sims R lax (assign n x) (assign n x)"
    and assign_any: "lax \<Longrightarrow> sims R lax (assign n x) (assign m y)"
    and seal_sims: "sims R lax seal seal"
    and constraint_sims: "sims R lax (constraint a b c) (constraint a b c)"
    and unless_sims: "silent g \<Longrightarrow> sims R lax g g \<Longrightarrow> sims R lax (unless_witness_only g) (unless_witness_only g)"
begin

text \<open>Two inputs of a gadget are free when they agree, or may differ.\<close>

definition free :: "'w \<Rightarrow> 'w \<Rightarrow> bool" where
  "free x y \<longleftrightarrow> x = y \<or> lax"

lemma free_refl [simp]: "free x x"
  by (simp add: free_def)

lemma free_lax: "lax \<Longrightarrow> free x y"
  unfolding free_def by simp

lemma free_map: "free x y \<Longrightarrow> free (f x) (f y)"
  by (auto simp: free_def)

lemma free_map2: "free x y \<Longrightarrow> free x' y' \<Longrightarrow> free (f x x') (f y y')"
  by (auto simp: free_def)

lemma sims_assign: "free x y \<Longrightarrow> sims R lax (assign n x) (assign n y)"
  unfolding free_def using assign_sims assign_any by metis

lemma sims_with_var:
  assumes "\<And>x y. free x y \<Longrightarrow> sims R lax (f x) (h y)"
  shows "sims R lax (with_var n f) (with_var n h)"
proof (rule simsI)
  fix cs ds cs' assume R: "R cs ds" and "with_var n f cs = Ok cs'"
  then obtain x where x: "get_var cs n = Ok x" "f x cs = Ok cs'" by (auto simp: with_var_def result_simps)
  show "case with_var n h ds of Ok ds' \<Rightarrow> R cs' ds' | _ \<Rightarrow> lax"
  proof (cases "get_var ds n")
    case (Ok y)
    then have "free x y" using read [OF R x(1)] by (auto simp: free_def)
    from simsD [OF assms [OF this] R x(2)] Ok show ?thesis by (simp add: with_var_def)
  qed (use read [OF R x(1)] in \<open>simp_all add: with_var_def\<close>)
qed

lemma sims_with_any:
  assumes lax "\<And>x y. sims R lax (f x) (h y)"
  shows "sims R lax (with_var n f) (with_var m h)"
proof (rule simsI)
  fix cs ds cs' assume R: "R cs ds" and "with_var n f cs = Ok cs'"
  then obtain x where x: "f x cs = Ok cs'" by (auto simp: with_var_def result_simps)
  show "case with_var m h ds of Ok ds' \<Rightarrow> R cs' ds' | _ \<Rightarrow> lax"
    using simsD [OF assms(2) R x] assms(1) by (cases "get_var ds m") (simp_all add: with_var_def)
qed

lemma sims_with_col:
  assumes "\<And>j. sims R lax (f j) (h j)"
  shows "sims R lax (with_col n f) (with_col n h)"
proof (rule simsI)
  fix cs ds cs' assume R: "R cs ds" and "with_col n f cs = Ok cs'"
  then obtain j where j: "cs_var cs n = Ok j" "f j cs = Ok cs'" by (auto simp: with_col_def result_simps)
  moreover have "cs_var ds n = Ok j" using j(1) same_vars [OF R] by (simp add: cs_var_def)
  ultimately show "case with_col n h ds of Ok ds' \<Rightarrow> R cs' ds' | _ \<Rightarrow> lax"
    using simsD [OF assms R j(2)] by (simp add: with_col_def)
qed

lemma sims_with_result:
  assumes "free r r'" "\<And>x y. free x y \<Longrightarrow> sims R lax (f x) (h y)"
  shows "sims R lax (with_result r f) (with_result r' h)"
proof (rule simsI)
  fix cs ds cs' assume R: "R cs ds" and "with_result r f cs = Ok cs'"
  then obtain x where x: "r = Ok x" "f x cs = Ok cs'" by (auto simp: with_result_def result_simps)
  show "case with_result r' h ds of Ok ds' \<Rightarrow> R cs' ds' | _ \<Rightarrow> lax"
  proof (cases r')
    case (Ok y)
    then have "free x y" using assms(1) x(1) by (auto simp: free_def)
    from simsD [OF assms(2) [OF this] R x(2)] Ok show ?thesis by (simp add: with_result_def)
  qed (use assms(1) x(1) in \<open>simp_all add: with_result_def free_def\<close>)
qed

text \<open>A test on a value that may differ guards a panic.\<close>

lemma sims_assert: "free c c' \<Longrightarrow> sims R lax g h \<Longrightarrow> sims R lax (if c then (\<lambda>cs. Panic) else g) (if c' then (\<lambda>cs. Panic) else h)"
  by (auto simp: free_def sims_def)

text \<open>A test on a value that may differ selects between two pairs of builders.\<close>

lemma sims_select:
  "free c c' \<Longrightarrow> sims R lax g h \<Longrightarrow> sims R lax g' h' \<Longrightarrow> (lax \<Longrightarrow> sims R lax g h') \<Longrightarrow> (lax \<Longrightarrow> sims R lax g' h)
   \<Longrightarrow> sims R lax (if c then g else g') (if c' then h else h')"
  by (auto simp: free_def)

lemmas basic_sims = declare_sims new_local_sims seal_sims constraint_sims sims_assign sims_with_var sims_with_col
  sims_Cons sims_Nil sims_loop unless_sims

lemma sims_set_field_var: "free x y \<Longrightarrow> sims R lax (set_field_var n x) (set_field_var n y)"
  unfolding set_field_var_def by (intro basic_sims)

lemma sims_set_var: "free x y \<Longrightarrow> sims R lax (set_var n x) (set_var n y)"
  unfolding set_var_def by (intro sims_set_field_var free_map [where f = "\<lambda>x. of_nat (unat x)"])

lemma sims_set_local: "free x y \<Longrightarrow> sims R lax (set_local n x) (set_local n y)"
  unfolding set_local_def by (intro basic_sims)

lemma sims_set_eq: "sims R lax (set_eq n v) (set_eq n v)"
  unfolding set_eq_def by (intro basic_sims)

lemma sims_set_bit: "free x y \<Longrightarrow> sims R lax (set_bit n x) (set_bit n y)"
  unfolding set_bit_def by (intro basic_sims free_map [where f = of_bool])

lemma sims_to_bits: "free x y \<Longrightarrow> sims R lax (to_bits n x) (to_bits n y)"
  unfolding to_bits_def
  by (intro basic_sims sims_set_var sims_set_bit) (auto intro: free_map [where f = "\<lambda>x. drop_bit _ x AND 1 = 1"])

lemma sims_rows:
  "sims R lax (eqi v0 z) (eqi v0 z)" "sims R lax (cs_add v0 v1 v2) (cs_add v0 v1 v2)"
  "sims R lax (cs_addi v0 v1 z) (cs_addi v0 v1 z)" "sims R lax (cs_mul v0 v1 v2) (cs_mul v0 v1 v2)"
  "sims R lax (cs_muli v0 v1 z) (cs_muli v0 v1 z)" "sims R lax (cs_nand v0 v1) (cs_nand v0 v1)"
  by (simp_all add: eqi_def cs_add_def cs_addi_def cs_mul_def cs_muli_def cs_nand_def constraint_sims)

lemmas sims_intros = basic_sims sims_set_field_var sims_set_var sims_set_local sims_set_eq sims_set_bit sims_to_bits sims_rows
  silent_Cons silent_Nil silent_loop silent_constraint silent_rows

lemma sims_member_constraints: "sims R lax (member_constraints name s i) (member_constraints name s i)"
  unfolding member_constraints_def Let_def by (intro sims_if sims_intros sims_Panic)

lemma sims_member: "free k k' \<Longrightarrow> sims R lax (member name k s) (member name k' s)"
  unfolding member_def member_witness_def Let_def
  by (intro sims_intros sims_member_constraints silent_member_constraints) (auto simp: free_def)

lemma sims_selector: "free k k' \<Longrightarrow> sims R lax (selector name n k) (selector name n k')"
proof -
  assume k: "free k k'"
  then have "sims R lax (if \<not> (n > 2 \<and> k < n) then (\<lambda>cs. Panic) else member name k (map word_of_nat [0..<unat n]))
      (if \<not> (n > 2 \<and> k' < n) then (\<lambda>cs. Panic) else member name k' (map word_of_nat [0..<unat n]))"
    by (intro sims_assert sims_member) (auto simp: free_def)
  moreover have "(selector name n k :: 'f builder) = (if \<not> (n > 2 \<and> k < n) then (\<lambda>cs. Panic) else member name k (map word_of_nat [0..<unat n]))" for k
    by (auto simp: selector_def fun_eq_iff)
  ultimately show ?thesis by (simp only:)
qed

lemma sims_load_array: "free k k' \<Longrightarrow> sims R lax (load_array input output arr n k) (load_array input output arr n k')"
proof -
  assume k: "free k k'"
  have "sims R lax (with_var (arr @ u32_str k) (assign output)) (with_var (arr @ u32_str k') (assign output))"
  proof (cases "k = k'")
    case False
    with k have lax by (simp add: free_def)
    then show ?thesis by (intro sims_with_any assign_any)
  qed (use sims_with_var sims_assign in simp)
  with k show ?thesis unfolding load_array_def
    by (intro sims_intros sims_selector) (auto simp: free_def)
qed

lemma sims_load_reg: "free k k' \<Longrightarrow> sims R lax (load_reg input output k) (load_reg input output k')"
  unfolding load_reg_def by (rule sims_load_array)

lemma sims_store_reg: "free k k' \<Longrightarrow> sims R lax (store_reg input output k) (store_reg input output k')"
  unfolding store_reg_def by (intro sims_intros sims_selector) (auto simp: free_def)

lemmas sims_gadgets = sims_intros sims_member sims_selector sims_load_array sims_load_reg sims_store_reg

lemma sims_add_cir: "free u u' \<Longrightarrow> free v v' \<Longrightarrow> sims R lax (add_cir z x y u v) (add_cir z x y u' v')"
  unfolding add_cir_def by (intro sims_gadgets) (auto simp: free_def)

lemma sims_sub_cir: "free u u' \<Longrightarrow> free v v' \<Longrightarrow> sims R lax (sub_cir z x y u v) (sub_cir z x y u' v')"
  unfolding sub_cir_def Let_def by (intro sims_gadgets) (auto simp: free_def)

lemma sims_branch: "sims R lax (branch J c i) (branch J c i)"
  unfolding branch_def Let_def by (intro sims_gadgets sims_assert) (auto simp: free_def)

lemma sims_choose: "sims R lax (cir_choose r b m n) (cir_choose r b m n)"
  unfolding cir_choose_def Let_def by (intro sims_gadgets sims_select sims_with_any) (erule free_lax | fastforce simp: free_def)+

lemma sims_split128: "sims R lax (split128 bigint scalar widths) (split128 bigint scalar widths)"
  unfolding split128_def Let_def by (intro sims_gadgets sims_assert) (auto simp: free_def)

lemma sims_load_arrays: "free x y \<Longrightarrow> sims R lax (load_arrays a n ws c x) (load_arrays a n ws c y)"
proof (induction ws arbitrary: c x y)
  case (Cons w ws)
  then show ?case using free_map [of x y "drop_bit 1"] unfolding load_arrays.simps by (intro sims_gadgets) simp_all
qed (simp add: sims_def)

lemma sims_load_select: "free x y \<Longrightarrow> sims R lax (load_select bigint a n x wo) (load_select bigint a n y wo)"
  unfolding load_select_def Let_def
  by (intro sims_gadgets sims_choose sims_split128 sims_if sims_load_arrays) (auto simp: free_def)

lemma sims_sx: "sims R lax (sx8 bigint n m) (sx8 bigint n m)" "sims R lax (sx16 bigint n m) (sx16 bigint n m)"
  unfolding sx8_def sx16_def Let_def by (intro sims_gadgets; auto simp: free_def)+

lemma sims_shifts:
  "free X Y \<Longrightarrow> free I J \<Longrightarrow> sims R lax (shift_right n X I arith) (shift_right n Y J arith)"
  "free X Y \<Longrightarrow> free I J \<Longrightarrow> sims R lax (shift_left n X I) (shift_left n Y J)"
  unfolding shift_right_def shift_left_def by (intro sims_gadgets sims_if; auto simp: free_def)+

lemma sims_bitop: "free x y \<Longrightarrow> sims R lax (bitop n m x adj) (bitop n m y adj)"
  unfolding bitop_def by (intro sims_gadgets) (auto simp: free_def)

lemmas sims_parts = sims_gadgets sims_add_cir sims_sub_cir sims_branch sims_choose sims_split128 sims_load_arrays
  sims_load_select sims_sx sims_shifts sims_bitop

lemma sims_alu: "free vm vm' \<Longrightarrow> sims R lax (alu vm) (alu vm')"
  unfolding alu_def cir_add_def cir_addi_def cir_sub_def cir_subi_def cir_slt_def cir_shift_def bitops_def Let_def
  by (intro sims_parts) (auto simp: free_def)

lemma sims_memory:
  "free vm vm' \<Longrightarrow> sims R lax (cir_load bigint vm) (cir_load bigint vm')"
  "free vm vm' \<Longrightarrow> sims R lax (cir_store bigint vm) (cir_store bigint vm')"
  unfolding cir_load_def cir_store_def store_word_def store_half_def store_byte_def Let_def
  by (intro sims_parts; auto simp: free_def)+

lemma sims_control:
  "free vm vm' \<Longrightarrow> sims R lax (cir_lui vm) (cir_lui vm')" "sims R lax cir_auipc cir_auipc" "sims R lax cir_jal cir_jal"
  "sims R lax cir_jalr cir_jalr" "sims R lax cir_br cir_br" "free vm vm' \<Longrightarrow> sims R lax (cir_ecall vm) (cir_ecall vm')"
  "sims R lax cir_misc cir_misc" "free vm vm' \<Longrightarrow> sims R lax (select_J vm) (select_J vm')"
  unfolding cir_lui_def cir_auipc_def cir_jal_def cir_jalr_def cir_br_def cir_ecall_def cir_misc_def select_J_def
  by (intro sims_parts; auto simp: free_def)+

lemma sims_parse_rest:
  "free x y \<Longrightarrow> sims R lax (parse_imm x) (parse_imm y)" "free x y \<Longrightarrow> sims R lax (parse_shamt x) (parse_shamt y)"
  "free x y \<Longrightarrow> sims R lax (parse_J x) (parse_J y)"
  unfolding parse_imm_def parse_shamt_def parse_J_def j_locals_def j_control_def j_alui_def j_alu_def j_misc_def
  by (intro sims_parts; auto simp: free_def)+

text \<open>The instruction type is written to one of seven names, which depends on the opcode; all are declared
  before.\<close>

lemma sims_types:
  assumes "free x y"
  shows "sims R lax (seq [seq (map (\<lambda>n. set_bit n False) type_names), opcode_type x])
    (seq [seq (map (\<lambda>n. set_bit n False) type_names), opcode_type y])"
proof (rule simsI)
  let ?g = "seq (map (\<lambda>n. set_bit n False) type_names) :: 'f builder"
  fix cs ds cs' assume R: "R cs ds" and run: "seq [?g, opcode_type x] cs = Ok cs'"
  then obtain c where c: "?g cs = Ok c" "opcode_type x c = Ok cs'" unfolding seq.simps(2) [of ?g] by (auto simp: result_simps)
  have "sims R lax ?g ?g" by (intro sims_intros) simp
  note g = simsD [OF this R c(1)]
  show "case seq [?g, opcode_type y] ds of Ok ds' \<Rightarrow> R cs' ds' | _ \<Rightarrow> lax"
  proof (cases "?g ds")
    case (Ok d)
    with g have d: "R c d" by simp
    have "sims R lax (opcode_type x) (opcode_type y)" if "x = y"
      unfolding that opcode_type_def by (intro sims_if sims_intros sims_Panic free_refl)
    moreover have "case opcode_type y d of Ok ds' \<Rightarrow> R cs' ds' | _ \<Rightarrow> lax" if "lax"
    proof -
      have dom: "set type_names \<subseteq> dom (cs_vars c)" "set type_names \<subseteq> dom (cs_vars d)"
        using set_bits_vars [OF c(1)] same_vars [OF d] by auto
      obtain n where n: "assign n 1 c = Ok cs'" using opcode_type_assigns [OF dom(1), of x] c(2) by auto
      from opcode_type_assigns [OF dom(2), of y] show ?thesis
      proof
        assume "\<exists>m. opcode_type y d = assign m 1 d"
        then obtain m where "opcode_type y d = assign m 1 d" by blast
        then show ?thesis using simsD [OF assign_any [OF that] d n, of m 1] by simp
      qed (simp add: that)
    qed
    ultimately show ?thesis using assms simsD [of R lax "opcode_type x" "opcode_type y", OF _ d c(2)] Ok unfolding seq.simps(2) [of ?g] free_def
      by (auto simp: result_simps split: result.splits)
  qed (use g in \<open>simp_all only: seq.simps result_bind.simps result.case\<close>)
qed

lemma sims_append:
  "sims R lax (seq gs) (seq hs) \<Longrightarrow> sims R lax (seq gs') (seq hs') \<Longrightarrow> sims R lax (seq (gs @ gs')) (seq (hs @ hs'))"
  unfolding seq_append [abs_def] by (rule sims_bind)

lemma sims_types_then:
  assumes "free x y" "sims R lax (seq gs) (seq hs)"
  shows "sims R lax
    (seq (set_bit ''type=R'' False # set_bit ''type=I'' False # set_bit ''type=S'' False # set_bit ''type=B'' False
        # set_bit ''type=U'' False # set_bit ''type=J'' False # set_bit ''type=A'' False # opcode_type x # gs))
    (seq (set_bit ''type=R'' False # set_bit ''type=I'' False # set_bit ''type=S'' False # set_bit ''type=B'' False
        # set_bit ''type=U'' False # set_bit ''type=J'' False # set_bit ''type=A'' False # opcode_type y # hs))"
proof -
  let ?bits = "map (\<lambda>n. set_bit n False) type_names :: 'f builder list"
  have "seq (?bits @ [opcode_type x]) = seq [seq ?bits, opcode_type x]" for x
    unfolding seq_append [abs_def] by (simp only: seq.simps [abs_def])
  then have "sims R lax (seq (?bits @ [opcode_type x])) (seq (?bits @ [opcode_type y]))" using sims_types [OF assms(1)] by (simp only:)
  from sims_append [OF this assms(2)] show ?thesis by (simp only: list.map append_Cons append_Nil)
qed

lemma sims_parse_opc:
  assumes "free x y"
  shows "sims R lax (parse_opc x) (parse_opc y)"
proof -
  have "free (opcode x) (opcode y)" using assms by (rule free_map)
  with assms show ?thesis unfolding parse_opc_def
    by (intro sims_Cons [of R lax "to_bits _ _"] sims_to_bits sims_types_then) (assumption | intro sims_gadgets)+
qed

lemma sims_step_body:
  assumes "free vm vm'"
  shows "sims R lax (step_body bigint vm) (step_body bigint vm')"
  unfolding step_body_def select_XY_def select_Z_def
  by (intro sims_parts sims_parse_opc sims_parse_rest sims_alu sims_control sims_memory) (use assms in \<open>auto simp: free_def\<close>)

end

section \<open>The initial system\<close>

text \<open>The initial system has no rows, and its names do not depend on the machine witness.\<close>

definition unrowed :: "'f r1cs \<Rightarrow> bool" where
  "unrowed cs \<longleftrightarrow> \<not> cs_witness_only cs \<and> cs_a cs = [] \<and> cs_b cs = [] \<and> cs_c cs = []"

definition init_builder :: "('p, 'f::field) proof_ops \<Rightarrow> 'p witness \<Rightarrow> 'f builder" where
  "init_builder pops w = seq
     [set_var ''pc'' (r_pc (w_regs w)),
      seq (map (\<lambda>i. with_result (index (r_x (w_regs w)) i) (set_var (''x'' @ nat_str i))) [0..<32]),
      set_field_var ''root'' (proof_commit pops (w_pc_proof w)),
      set_var ''PC'' (w_PC w),
      seq (map (\<lambda>i. with_result (index (r_x (w_regs w)) i) (set_var (xout i))) [0..<32]),
      set_field_var ''ROOT'' (proof_commit pops (w_write_proof w)),
      add_proof pops ''pc_mem'' (w_pc_proof w),
      add_proof pops ''read_mem'' (w_read_proof w),
      add_proof pops ''write_mem'' (w_write_proof w)]"

lemma init_cs_builder: "init_cs pops w = init_builder pops w (r1cs_default\<lparr>cs_arity := ARITY\<rparr>)"
  by (simp only: init_cs_def init_builder_def)

definition plain :: "'f builder \<Rightarrow> bool" where
  "plain g \<longleftrightarrow> (\<forall>cs cs'. unrowed cs \<longrightarrow> g cs = Ok cs' \<longrightarrow> unrowed cs')"

lemma plain_rules:
  "plain (seq [])" "plain g \<Longrightarrow> plain (seq gs) \<Longrightarrow> plain (seq (g # gs))" "plain (set_field_var n x)" "plain (set_var n w)"
  "(\<And>x. plain (f x)) \<Longrightarrow> plain (with_result r f)"
proof -
  show *: "plain (set_field_var n x)" for x
    by (auto simp: plain_def unrowed_def set_field_var_def declare_var_def new_var_def Let_def assign_def result_simps
        split: option.splits if_splits)
  show "plain (set_var n w)" unfolding set_var_def by (rule *)
  show "plain (seq (g # gs))" if "plain g" "plain (seq gs)"
    using that unfolding plain_def seq.simps result_bind_Ok_iff by blast
  show "plain (with_result r f)" if "\<And>x. plain (f x)"
    using that unfolding plain_def with_result_def result_bind_Ok_iff by blast
qed (simp add: plain_def)

lemma plain_loop: "(\<And>x. x \<in> set xs \<Longrightarrow> plain (g x)) \<Longrightarrow> plain (seq (map g xs))"
  by (induction xs) (auto intro: plain_rules)

lemma init_unrowed: "init_cs pops w = Ok cs \<Longrightarrow> unrowed cs"
proof -
  have "plain (init_builder pops w)" unfolding init_builder_def add_proof_def by (intro plain_rules plain_loop)
  moreover have "unrowed (r1cs_default\<lparr>cs_arity := ARITY\<rparr>)" by (simp add: unrowed_def r1cs_default_def)
  ultimately show "init_cs pops w = Ok cs \<Longrightarrow> unrowed cs" unfolding init_cs_builder plain_def by blast
qed

context builder_rel
begin

lemma sims_init:
  assumes "free w w'"
  shows "sims R lax (init_builder pops w) (init_builder pops w')"
  unfolding init_builder_def add_proof_def
  by (intro sims_intros sims_with_result) (use assms in \<open>auto simp: free_def\<close>)

end

section \<open>Uniformity\<close>

definition same_shape :: "'f r1cs \<Rightarrow> 'f r1cs \<Rightarrow> bool" where
  "same_shape cs ds \<longleftrightarrow> length (cs_w ds) = length (cs_w cs) \<and> cs_a ds = cs_a cs \<and> cs_b ds = cs_b cs \<and> cs_c ds = cs_c cs
     \<and> cs_arity ds = cs_arity cs \<and> cs_witness_only ds = cs_witness_only cs \<and> cs_vars ds = cs_vars cs \<and> cs_locals ds = cs_locals cs"

lemma same_shape_new_var: "same_shape cs ds \<Longrightarrow> same_shape (fst (new_var cs n)) (fst (new_var ds n))"
  by (auto simp: same_shape_def new_var_def Let_def split: option.splits)

lemma same_shape_resolve: "same_shape cs ds \<Longrightarrow> resolve ds r = resolve cs r"
  by (cases r) (auto simp: same_shape_def cs_var_def)

lemma same_shape_fill: "same_shape cs ds \<Longrightarrow> fill ds es row = fill cs es row"
  by (induction es arbitrary: row) (auto simp: same_shape_resolve intro: result_bind_cong)

lemma same_shape_local: "sims same_shape True (new_local_var n) (new_local_var n)"
proof (rule simsI)
  fix cs ds cs' :: "'f::field r1cs" assume R: "same_shape cs ds" and "new_local_var n cs = Ok cs'"
  then show "case new_local_var n ds of Ok ds' \<Rightarrow> same_shape cs' ds' | _ \<Rightarrow> True"
    using same_shape_new_var [OF R, of n] by (auto simp: new_local_var_def Let_def same_shape_def split: if_splits)
qed

lemma same_shape_assign: "sims same_shape True (assign n x) (assign m y)"
  by (auto simp: sims_def assign_def same_shape_def result_simps split: result.splits if_splits)

lemma constraint_Ok:
  assumes "constraint a b c cs = Ok cs'" "\<not> cs_witness_only cs"
  obtains ra rb rc where "fill cs a (replicate (length (cs_w cs)) 0) = Ok ra" "fill cs b (replicate (length (cs_w cs)) 0) = Ok rb"
    "fill cs c (replicate (length (cs_w cs)) 0) = Ok rc" "cs' = cs\<lparr>cs_a := cs_a cs @ [ra], cs_b := cs_b cs @ [rb], cs_c := cs_c cs @ [rc]\<rparr>"
  using assms by (auto simp: constraint_def Let_def result_simps)

lemma same_shape_constraint: "sims same_shape True (constraint a b c) (constraint a b c)"
proof (rule simsI)
  fix cs ds cs' assume R: "same_shape cs ds" and run: "constraint a b c cs = Ok cs'"
  then have w: "cs_witness_only ds = cs_witness_only cs" "length (cs_w ds) = length (cs_w cs)" by (simp_all add: same_shape_def)
  show "case constraint a b c ds of Ok ds' \<Rightarrow> same_shape cs' ds' | _ \<Rightarrow> True"
  proof (cases "cs_witness_only cs")
    case False
    from run False show ?thesis
      by (rule constraint_Ok) (use False R in \<open>simp add: constraint_def same_shape_fill [OF R] w, simp add: same_shape_def\<close>)
  qed (use R run w in \<open>simp add: constraint_def\<close>)
qed

interpretation uniform: builder_rel same_shape True
proof (unfold_locales, goal_cases)
  case 3
  show ?case by (auto simp: sims_def declare_var_def same_shape_new_var)
next
  case 7
  show ?case by (auto simp: sims_def seal_def same_shape_def)
next
  case 9
  then show ?case by (auto simp: sims_def unless_witness_only_def same_shape_def)
qed (simp_all add: same_shape_def same_shape_local same_shape_assign same_shape_constraint)

text \<open>Whatever the machine witness, the step circuit has the same rows and the same columns.\<close>

lemma step_shape:
  assumes "step bigint pops vm wo = Ok cs" "step bigint pops vm' wo = Ok ds"
  shows "same_shape cs ds"
proof -
  obtain c where c: "init_cs pops vm = Ok c" "step_body bigint vm (c\<lparr>cs_witness_only := wo\<rparr>) = Ok cs"
    using assms(1) by (auto simp: step_def result_simps)
  obtain d where d: "init_cs pops vm' = Ok d" "step_body bigint vm' (d\<lparr>cs_witness_only := wo\<rparr>) = Ok ds"
    using assms(2) by (auto simp: step_def result_simps)
  have free: "uniform.free x y" for x y :: 'x by (simp add: uniform.free_def)
  have "same_shape cs cs" for cs :: "'a r1cs" by (simp add: same_shape_def)
  from simsD [OF uniform.sims_init [OF free] this, of pops vm "r1cs_default\<lparr>cs_arity := ARITY\<rparr>" c vm'] c(1) d(1)
  have "same_shape c d" by (simp add: init_cs_builder)
  then have "same_shape (c\<lparr>cs_witness_only := wo\<rparr>) (d\<lparr>cs_witness_only := wo\<rparr>)" by (simp add: same_shape_def)
  from simsD [OF uniform.sims_step_body [OF free] this c(2), of vm'] d(2) show ?thesis by simp
qed

section \<open>Witness-only mode\<close>

text \<open>The second system is the first without its rows.\<close>

definition rowless :: "'f r1cs \<Rightarrow> 'f r1cs \<Rightarrow> bool" where
  "rowless cs ds \<longleftrightarrow> \<not> cs_witness_only cs \<and> ds = cs\<lparr>cs_witness_only := True, cs_a := [], cs_b := [], cs_c := []\<rparr>"

lemma rowless_new_var: "rowless cs ds \<Longrightarrow> rowless (fst (new_var cs n)) (fst (new_var ds n))"
  by (auto simp: rowless_def new_var_def Let_def split: option.splits)

lemma rowless_local: "sims rowless False (new_local_var n) (new_local_var n)"
proof (rule simsI)
  fix cs ds cs' :: "'f::field r1cs" assume R: "rowless cs ds" and "new_local_var n cs = Ok cs'"
  then show "case new_local_var n ds of Ok ds' \<Rightarrow> rowless cs' ds' | _ \<Rightarrow> False"
    using rowless_new_var [OF R, of n] by (auto simp: new_local_var_def Let_def rowless_def split: if_splits)
qed

lemma rowless_silent: "rowless cs ds \<Longrightarrow> cs' = cs\<lparr>cs_a := a, cs_b := b, cs_c := c\<rparr> \<Longrightarrow> rowless cs' ds"
  by (auto simp: rowless_def)

interpretation witness_only: builder_rel rowless False
proof (unfold_locales, goal_cases)
  case (2 cs ds n x)
  then show ?case by (simp add: rowless_def get_var_def cs_var_def)
next
  case 3
  show ?case by (auto simp: sims_def declare_var_def rowless_new_var)
next
  case 4
  show ?case by (rule rowless_local)
next
  case 5
  show ?case by (auto simp: sims_def assign_def rowless_def cs_var_def result_simps split: if_splits)
next
  case 7
  show ?case by (auto simp: sims_def seal_def rowless_def)
next
  case (8 a b c)
  show ?case
  proof (rule simsI)
    fix cs ds cs' assume R: "rowless cs ds" and run: "constraint a b c cs = Ok cs'"
    have "rowless cs' ds" using silentD [OF silent_constraint run] rowless_silent [OF R] by blast
    moreover have "constraint a b c ds = Ok ds" using R by (simp add: constraint_def rowless_def)
    ultimately show "case constraint a b c ds of Ok ds' \<Rightarrow> rowless cs' ds' | _ \<Rightarrow> False" by simp
  qed
next
  case (9 g)
  show ?case
  proof (rule simsI)
    fix cs ds cs' assume R: "rowless cs ds" and run: "unless_witness_only g cs = Ok cs'"
    then have "g cs = Ok cs'" by (simp add: unless_witness_only_def rowless_def)
    then have "rowless cs' ds" using silentD [OF 9(1)] rowless_silent [OF R] by blast
    moreover have "unless_witness_only g ds = Ok ds" using R by (simp add: unless_witness_only_def rowless_def)
    ultimately show "case unless_witness_only g ds of Ok ds' \<Rightarrow> rowless cs' ds' | _ \<Rightarrow> False" by simp
  qed
qed (simp_all add: rowless_def)

text \<open>The witness-only run computes the witness of the full run, and no rows.\<close>

lemma step_witness_only_rows:
  assumes "step bigint pops vm False = Ok cs"
  shows "step bigint pops vm True = Ok (cs\<lparr>cs_witness_only := True, cs_a := [], cs_b := [], cs_c := []\<rparr>)"
proof -
  obtain c where c: "init_cs pops vm = Ok c" "step_body bigint vm (c\<lparr>cs_witness_only := False\<rparr>) = Ok cs"
    using assms(1) by (auto simp: step_def result_simps)
  have "rowless (c\<lparr>cs_witness_only := False\<rparr>) (c\<lparr>cs_witness_only := True\<rparr>)" 
    using init_unrowed [OF c(1)] by (simp add: rowless_def unrowed_def)
  from simsD [OF witness_only.sims_step_body [OF witness_only.free_refl] this c(2)] c(1) show ?thesis
    by (auto simp: step_def rowless_def split: result.splits)
qed

end
