(* ===== verification/Step_Sound.thy ===== *)
theory Step_Sound
  imports Decode_Gadgets Shape Eval_Correct
begin

text \<open>
  The step circuit as a whole: what its constraints enforce on every satisfying assignment, gathered gadget by
  gadget along \<^verbatim>\<open>step\<close> of \<^verbatim>\<open>vm/src/circuit/riscv.rs\<close>, and from it the relation between the circuit and the
  instruction set.
\<close>

declare of_nat_unat [simp del] nat_str_31 [simp del]

section \<open>Arithmetic and logic\<close>

definition alu_rel :: "(string \<Rightarrow> 'f::field) \<Rightarrow> bool" where
  "alu_rel \<rho> \<longleftrightarrow>
     (\<rho> ''X+Y'' = \<rho> ''X'' + \<rho> ''Y'' \<or> \<rho> ''X+Y'' + 2 ^ 32 = \<rho> ''X'' + \<rho> ''Y'') \<and> \<rho> (Zn (ALU ADD 0 0 0)) = \<rho> ''X+Y''
     \<and> (\<rho> ''X+I'' = \<rho> ''X'' + \<rho> ''I'' \<or> \<rho> ''X+I'' + 2 ^ 32 = \<rho> ''X'' + \<rho> ''I'') \<and> \<rho> (Zn (ALUI ADD 0 0 0)) = \<rho> ''X+I''
     \<and> sub_rel \<rho> ''X-Y'' ''X'' ''Y'' \<and> \<rho> (Zn (ALU SUB 0 0 0)) = \<rho> ''X-Y''
     \<and> sub_rel \<rho> ''X-I'' ''X'' ''I'' \<and> \<rho> (Zn (ALUI SUB 0 0 0)) = \<rho> ''X-I''
     \<and> \<rho> (Zn (ALUI SLT 0 0 0)) = \<rho> ''X<sI'' \<and> \<rho> (Zn (ALUI SLTU 0 0 0)) = \<rho> ''X<I''
     \<and> \<rho> (Zn (ALU SLT 0 0 0)) = \<rho> ''X<sY'' \<and> \<rho> (Zn (ALU SLTU 0 0 0)) = \<rho> ''X<Y''
     \<and> (\<exists>k. picks \<rho> ''shamt'' 32 k)
     \<and> (\<forall>x k. is_word \<rho> ''X'' x \<longrightarrow> picks \<rho> ''shamt'' 32 k \<longrightarrow>
          \<rho> (Zn (ALUI SLL 0 0 0)) = num (shl x k) \<and> \<rho> (Zn (ALU SLL 0 0 0)) = num (shl x k)
          \<and> \<rho> (Zn (ALUI SRL 0 0 0)) = num (shr False x k) \<and> \<rho> (Zn (ALU SRL 0 0 0)) = num (shr False x k)
          \<and> \<rho> (Zn (ALUI SRA 0 0 0)) = num (shr True x k) \<and> \<rho> (Zn (ALU SRA 0 0 0)) = num (shr True x k))
     \<and> (\<forall>x y i. is_word \<rho> ''X'' x \<longrightarrow> is_word \<rho> ''Y'' y \<longrightarrow> is_word \<rho> ''I'' i \<longrightarrow> bitops_rel \<rho> x y i)
     \<and> (\<forall>j\<in>{19..38}. \<rho> (''PC'' @ nat_str j) = \<rho> ''pc+4'')"

lemma gadget_shamt:
  "large_field TYPE('f::field) \<Longrightarrow> gadget {} (selector ''shamt'' 32 k :: 'f builder) (\<lambda>\<rho>. \<exists>k. picks \<rho> ''shamt'' 32 k)"
  using gadget_selector [where 'f = 'f, of "''shamt''" "{}" 32 k] by (simp add: member_locals_def image_iff)

lemma Zn_not_shift [simp]: "CHR ''Z'' # s \<notin> shift_locals"
  by (simp add: shift_locals_def image_iff)

lemma gadget_adds:
  "gadget {} (add_cir ''X+Y'' ''X'' ''Y'' u v) (\<lambda>\<rho>. \<rho> ''X+Y'' = \<rho> ''X'' + \<rho> ''Y'' \<or> \<rho> ''X+Y'' + 2 ^ 32 = \<rho> ''X'' + \<rho> ''Y'')"
  "gadget {} (add_cir ''X+I'' ''X'' ''I'' u v) (\<lambda>\<rho>. \<rho> ''X+I'' = \<rho> ''X'' + \<rho> ''I'' \<or> \<rho> ''X+I'' + 2 ^ 32 = \<rho> ''X'' + \<rho> ''I'')"
  "gadget {} (add_cir ''pc+4'' ''pc'' ''four'' u v) (\<lambda>\<rho>. \<rho> ''pc+4'' = \<rho> ''pc'' + \<rho> ''four'' \<or> \<rho> ''pc+4'' + 2 ^ 32 = \<rho> ''pc'' + \<rho> ''four'')"
  "gadget {} (add_cir ''pc+I'' ''pc'' ''I'' u v) (\<lambda>\<rho>. \<rho> ''pc+I'' = \<rho> ''pc'' + \<rho> ''I'' \<or> \<rho> ''pc+I'' + 2 ^ 32 = \<rho> ''pc'' + \<rho> ''I'')"
  by (rule gadget_add_cir, simp, simp, simp, simp)+

lemma gadget_subs:
  "gadget {} (sub_cir ''X-Y'' ''X'' ''Y'' u v) (\<lambda>\<rho>. sub_rel \<rho> ''X-Y'' ''X'' ''Y'')"
  "gadget {} (sub_cir ''X-I'' ''X'' ''I'' u v) (\<lambda>\<rho>. sub_rel \<rho> ''X-I'' ''X'' ''I'')"
  by (rule gadget_sub_cir, simp, simp)+

lemma gadget_shift_Z:
  "gadget {} (shift_left (''Z'' @ n) u v :: 'f::field builder) (\<lambda>\<rho>. \<forall>x k. is_word \<rho> ''X'' x \<longrightarrow> picks \<rho> ''shamt'' 32 k \<longrightarrow> \<rho> (''Z'' @ n) = num (shl x k))"
  "gadget {} (shift_right (''Z'' @ n) u v a :: 'f builder) (\<lambda>\<rho>. \<forall>x k. is_word \<rho> ''X'' x \<longrightarrow> picks \<rho> ''shamt'' 32 k \<longrightarrow> \<rho> (''Z'' @ n) = num (shr a x k))"
  by (rule gadget_shift_left, simp) (rule gadget_shift_right, simp)

lemma gadget_alu:
  assumes large: "large_field TYPE('f::field)"
  shows "gadget {} (alu vm :: 'f builder) alu_rel"
  unfolding alu_def cir_add_def cir_addi_def cir_sub_def cir_subi_def cir_slt_def cir_shift_def
proof (rule gadget_mono, (rule gadget_adds gadget_subs gadget_shamt [OF large] gadget_shift_Z gadget_yields [OF yields_bitops]
      gadget_yields [OF yields_set_eq] gadget_loop gadget_Cons gadget_Nil)+, simp, goal_cases)
  case (1 \<rho>)
  have js: "set [unat (index_j (ALUI ADD 0 0 0))..<Suc (unat (index_j (ALU AND_A 0 0 0)))] = {19..38}"
    by (simp only: set_upt atLeastLessThanSuc_atLeastAtMost) simp
  from 1 show ?case unfolding alu_rel_def js by blast
qed

section \<open>Control\<close>

definition control_rel :: "(string \<Rightarrow> 'f::field) \<Rightarrow> bool" where
  "control_rel \<rho> \<longleftrightarrow>
     \<rho> (PCn (LUI 0 0)) = \<rho> ''pc+4''
     \<and> \<rho> (Zn (AUIPC 0 0)) = \<rho> ''pc+I'' \<and> \<rho> (PCn (AUIPC 0 0)) = \<rho> ''pc+4''
     \<and> \<rho> (Zn (JAL 0 0)) = \<rho> ''pc+4'' \<and> \<rho> (PCn (JAL 0 0)) = \<rho> ''pc+I''
     \<and> \<rho> (Zn (JALR 0 0 0)) = \<rho> ''pc+4'' \<and> \<rho> (PCn (JALR 0 0 0)) = \<rho> ''X+I''
     \<and> (\<rho> (PCn (BR BEQ 0 0 0)) = \<rho> ''X=Y'' * \<rho> ''pc+I'' + \<rho> ''X!=Y'' * \<rho> ''pc+4'' \<and> \<rho> (Zn (BR BEQ 0 0 0)) = 0)
     \<and> (\<rho> (PCn (BR BNE 0 0 0)) = \<rho> ''X!=Y'' * \<rho> ''pc+I'' + \<rho> ''X=Y'' * \<rho> ''pc+4'' \<and> \<rho> (Zn (BR BNE 0 0 0)) = 0)
     \<and> (\<rho> (PCn (BR BLT 0 0 0)) = \<rho> ''X<sY'' * \<rho> ''pc+I'' + \<rho> ''X>=sY'' * \<rho> ''pc+4'' \<and> \<rho> (Zn (BR BLT 0 0 0)) = 0)
     \<and> (\<rho> (PCn (BR BGE 0 0 0)) = \<rho> ''X>=sY'' * \<rho> ''pc+I'' + \<rho> ''X<sY'' * \<rho> ''pc+4'' \<and> \<rho> (Zn (BR BGE 0 0 0)) = 0)
     \<and> (\<rho> (PCn (BR BLTU 0 0 0)) = \<rho> ''X<Y'' * \<rho> ''pc+I'' + \<rho> ''X>=Y'' * \<rho> ''pc+4'' \<and> \<rho> (Zn (BR BLTU 0 0 0)) = 0)
     \<and> (\<rho> (PCn (BR BGEU 0 0 0)) = \<rho> ''X>=Y'' * \<rho> ''pc+I'' + \<rho> ''X<Y'' * \<rho> ''pc+4'' \<and> \<rho> (Zn (BR BGEU 0 0 0)) = 0)"

lemma gadget_branches:
  "gadget {} (branch J ''X=Y'' ''X!=Y'' :: 'f::field builder) (\<lambda>\<rho>. \<rho> (''PC'' @ u32_str J) = \<rho> ''X=Y'' * \<rho> ''pc+I'' + \<rho> ''X!=Y'' * \<rho> ''pc+4'' \<and> \<rho> (''Z'' @ u32_str J) = 0)"
  "gadget {} (branch J ''X!=Y'' ''X=Y'' :: 'f builder) (\<lambda>\<rho>. \<rho> (''PC'' @ u32_str J) = \<rho> ''X!=Y'' * \<rho> ''pc+I'' + \<rho> ''X=Y'' * \<rho> ''pc+4'' \<and> \<rho> (''Z'' @ u32_str J) = 0)"
  "gadget {} (branch J ''X<sY'' ''X>=sY'' :: 'f builder) (\<lambda>\<rho>. \<rho> (''PC'' @ u32_str J) = \<rho> ''X<sY'' * \<rho> ''pc+I'' + \<rho> ''X>=sY'' * \<rho> ''pc+4'' \<and> \<rho> (''Z'' @ u32_str J) = 0)"
  "gadget {} (branch J ''X>=sY'' ''X<sY'' :: 'f builder) (\<lambda>\<rho>. \<rho> (''PC'' @ u32_str J) = \<rho> ''X>=sY'' * \<rho> ''pc+I'' + \<rho> ''X<sY'' * \<rho> ''pc+4'' \<and> \<rho> (''Z'' @ u32_str J) = 0)"
  "gadget {} (branch J ''X<Y'' ''X>=Y'' :: 'f builder) (\<lambda>\<rho>. \<rho> (''PC'' @ u32_str J) = \<rho> ''X<Y'' * \<rho> ''pc+I'' + \<rho> ''X>=Y'' * \<rho> ''pc+4'' \<and> \<rho> (''Z'' @ u32_str J) = 0)"
  "gadget {} (branch J ''X>=Y'' ''X<Y'' :: 'f builder) (\<lambda>\<rho>. \<rho> (''PC'' @ u32_str J) = \<rho> ''X>=Y'' * \<rho> ''pc+I'' + \<rho> ''X<Y'' * \<rho> ''pc+4'' \<and> \<rho> (''Z'' @ u32_str J) = 0)"
  by (rule gadget_branch, simp, simp)+

lemma gadget_control:
  "gadget {} (seq [cir_lui vm, cir_auipc, cir_jal, cir_jalr, cir_br] :: 'f::field builder) control_rel"
  unfolding cir_lui_def cir_auipc_def cir_jal_def cir_jalr_def cir_br_def
proof (rule gadget_mono, (rule gadget_branches gadget_yields [OF yields_set_eq] gadget_yields [OF yields_set_var] gadget_Cons gadget_Nil)+,
    simp, goal_cases)
  case (1 \<rho>)
  then show ?case unfolding control_rel_def by blast
qed

section \<open>Memory\<close>

text \<open>The next program counter of loads and stores.  The values loaded depend on selectors that are not tied to
  the address, and are left out.\<close>

definition memory_pc :: "(string \<Rightarrow> 'f::field) \<Rightarrow> bool" where
  "memory_pc \<rho> \<longleftrightarrow> (\<forall>l. \<rho> (PCn (LOAD l 0 0 0)) = \<rho> ''pc+4'') \<and> (\<forall>s. \<rho> (PCn (STORE s 0 0 0)) = \<rho> ''pc+4'')"

definition choose_locals :: "string set" where
  "choose_locals = range (\<lambda>j. nat_str j @ ''_left'') \<union> range (\<lambda>j. nat_str j @ ''_right'')"

text \<open>Builders of which only the names matter.\<close>

abbreviation inert :: "string set \<Rightarrow> 'f::field builder \<Rightarrow> bool" where
  "inert L g \<equiv> yields g L (\<lambda>\<rho>. True)"

lemma inertI: "yields g L P \<Longrightarrow> L \<subseteq> L' \<Longrightarrow> inert L' g"
  by (rule yields_mono) simp_all

lemma inert_rules:
  "inert L (seq [])" "inert L g \<Longrightarrow> inert L (seq gs) \<Longrightarrow> inert L (seq (g # gs))" "inert L (constraint a b c)" "inert L (declare_var n)"
  "inert L (assign n x)" "n \<in> L \<Longrightarrow> inert L (new_local_var n)" "inert L (set_var n w)" "inert L (set_bit n t)" "inert L (set_eq n m)"
  "inert L (to_bits n w)" "inert L (cs_mul n m m')" "inert L (\<lambda>cs. Panic)"
  "inert L h \<Longrightarrow> inert L h' \<Longrightarrow> inert L (if p then h else h')"
  using inertI [OF yields_Nil, of L] inertI [OF yields_Cons, of g L _ gs L _ L] inertI [OF yields_constr, of L a b c]
    inertI [OF yields_declare, of L n] inertI [OF yields_assign, of L n x] inertI [OF yields_new_local, of n L] inertI [OF yields_set_var, of L n w]
    inertI [OF yields_set_bit, of L n t] inertI [OF yields_set_eq, of L n m] inertI [OF yields_to_bits, of L n w] inertI [OF yields_mul, of L n m m']
  by (simp_all add: yields_panic del: seq.simps)

lemma inert_loop: "(\<And>x. x \<in> set xs \<Longrightarrow> inert L (g x)) \<Longrightarrow> inert L (seq (map g xs))"
  by (induction xs) (simp_all add: inert_rules del: seq.simps)

lemma inert_with_col: "(\<And>j. inert L (f j)) \<Longrightarrow> inert L (with_col n f)"
  by (rule yields_with_col)

lemma inert_with_var: "(\<And>v. inert L (f v)) \<Longrightarrow> inert L (with_var n f)"
  by (rule yields_with_var)

lemma inert_unless: "inert L g \<Longrightarrow> inert L (unless_witness_only g)"
  by (rule yields_unless)

lemmas inerts = inert_rules inert_loop inert_with_col inert_with_var inert_unless

lemma inert_choose: "inert choose_locals (cir_choose r b m n)"
  unfolding cir_choose_def Let_def by (intro inerts) (auto simp: choose_locals_def)

lemma inert_split128: "inert L (split128 bigint r ws)"
  unfolding split128_def Let_def by (intro inerts)

lemma inert_sx: "inert L (sx8 bigint n m)" "inert L (sx16 bigint n m)"
  unfolding sx8_def sx16_def Let_def by (intro inerts)+

lemma not_choose: "CHR ''X'' # s \<notin> choose_locals"
proof -
  have hd: "hd (nat_str j @ t) \<noteq> CHR ''X''" for j t
    using nat_str_digits [OF hd_in_set [of "nat_str j"]] by auto
  show ?thesis unfolding choose_locals_def using hd by (metis (no_types, lifting) UnE imageE list.sel(1))
qed

lemma gadget_load_array_T:
  assumes "large_field TYPE('f::field)" "name = ''read_mem'' \<or> name = ''write_mem''" "M \<subseteq> choose_locals"
  shows "gadget M (load_array (''X+I'' @ nat_str k) (name @ nat_str k) (name @ ''_'' @ nat_str k @ ''_'') n a :: 'f builder) (\<lambda>\<rho>. True)"
proof (rule gadget_mono [OF gadget_load_array [OF assms(1)]])
  show "''X+I'' @ nat_str k \<notin> choose_locals" "(''X+I'' @ nat_str k) @ ''='' @ x \<notin> choose_locals" for x using not_choose by simp_all
  show "''X+I'' @ nat_str k \<notin> rsx_locals" "name @ nat_str k \<notin> rsx_locals" "(name @ ''_'' @ nat_str k @ ''_'') @ nat_str i \<notin> rsx_locals"
    "''X+I'' @ nat_str k \<notin> member_locals" for i
    using assms(2) by (auto simp: rsx_locals_def member_locals_def)
qed (use assms(3) in simp_all)

lemma seq_assoc2: "seq (g # h # gs) = seq (seq [g, h] # gs)"
proof
  fix cs show "seq (g # h # gs) cs = seq (seq [g, h] # gs) cs" by (cases "g cs") (simp_all, cases "h (the_ok (g cs))", simp_all)
qed

lemma gadget_load_select:
  assumes "large_field TYPE('f::field)" "name = ''read_mem'' \<or> name = ''write_mem''"
  shows "gadget {} (load_select bigint ''X+I'' name a False :: 'f builder) (\<lambda>\<rho>. True)"
proof -
  note la = gadget_load_array_T [OF assms subset_refl] gadget_load_array_T [OF assms empty_subsetI]
  have "gadget choose_locals (seq [load_arrays ''X+I'' name [8, 16, 32] 16 (a AND 15)] :: 'f builder) (\<lambda>\<rho>. True)"
    unfolding load_arrays.simps
    by (rule gadget_mono, (rule la gadget_Cons gadget_Nil)+) simp_all
  then have "gadget {} (seq [cir_choose name ''X+I_4'' (name @ ''_hi'') (name @ ''_lo''), split128 bigint name [8, 16, 32],
      load_arrays ''X+I'' name [8, 16, 32] 16 (a AND 15)] :: 'f builder) (\<lambda>\<rho>. True \<and> True)"
    by (subst seq_assoc2, intro gadget_pending [where R = "\<lambda>_. True" and P = "\<lambda>_. True" and L = choose_locals]) (intro inerts inert_choose inert_split128, simp_all)
  then show ?thesis unfolding load_select_def Let_def by simp
qed

lemma gadget_memory:
  assumes large: "large_field TYPE('f::field)"
  shows "gadget {} (seq [cir_load bigint vm, cir_store bigint vm] :: 'f builder) (\<lambda>\<rho>. (\<exists>v. is_word \<rho> ''X+I'' v) \<and> memory_pc \<rho>)"
proof -
  note ls = gadget_load_select [OF large disjI1 [OF refl]] gadget_load_select [OF large disjI2 [OF refl]]
  have st: "yields (store_word :: 'f builder) {} (\<lambda>\<rho>. \<rho> (PCn (STORE SW 0 0 0)) = \<rho> ''pc+4'')"
    "yields (store_half :: 'f builder) {} (\<lambda>\<rho>. \<rho> (PCn (STORE SH 0 0 0)) = \<rho> ''pc+4'')"
    "yields (store_byte :: 'f builder) {} (\<lambda>\<rho>. \<rho> (PCn (STORE SB 0 0 0)) = \<rho> ''pc+4'')"
    unfolding store_word_def store_half_def store_byte_def Let_def
    by (rule yields_mono, (rule yields_rules)+, simp, blast)+
  show ?thesis unfolding cir_load_def cir_store_def Let_def
  proof (rule gadget_mono, (rule ls gadget_yields [OF st(1)] gadget_yields [OF st(2)] gadget_yields [OF st(3)]
      gadget_yields [OF yields_to_bits] gadget_yields [OF yields_set_eq] gadget_yields [OF inert_sx(1)] gadget_yields [OF inert_sx(2)]
      gadget_Cons gadget_Nil)+, simp, goal_cases)
    case (1 \<rho>)
    have "\<rho> (PCn (LOAD l 0 0 0)) = \<rho> ''pc+4''" for l using 1 by (cases l) blast+
    moreover have "\<rho> (PCn (STORE s 0 0 0)) = \<rho> ''pc+4''" for s using 1 by (cases s) blast+
    ultimately show ?case using 1 unfolding memory_pc_def by blast
  qed
qed

section \<open>Selection of the result\<close>

lemma gadget_select_J:
  "gadget {} (select_J vm :: 'f::field builder) (\<lambda>\<rho>.
     \<rho> ''Z'' = (\<Sum>j=1..42. \<rho> (''J='' @ nat_str j) * \<rho> (''Z'' @ nat_str j))
     \<and> \<rho> ''PC'' = (\<Sum>j=1..42. \<rho> (''J='' @ nat_str j) * \<rho> (''PC'' @ nat_str j)))"
proof -
  have set: "set js = {1..42}" by (auto simp: MAX_J_def)
  have row: "yields (constraint (map (\<lambda>j. Put (Var (n @ nat_str j)) 1) js) [Put One 1] [Put (Var m) 1] :: 'f builder) {}
     (\<lambda>\<rho>. \<rho> m = (\<Sum>j=1..42. \<rho> (n @ nat_str j)))" for n m
  proof (rule yields_mono, rule yields_constraint)
    show "put_ok {} (map (\<lambda>j. Put (Var (n @ nat_str j)) 1) js :: 'f entry list)" by (rule put_ok_bits) (simp_all add: inj_on_def)
    fix \<rho> :: "string \<Rightarrow> 'f"
    assume "lin \<rho> (map (\<lambda>j. Put (Var (n @ nat_str j)) 1) js) * lin \<rho> [Put One 1] = lin \<rho> [Put (Var m) 1]"
    then show "\<rho> m = (\<Sum>j=1..42. \<rho> (n @ nat_str j))"
      by (simp only: lin_map sum_list_distinct_conv_sum_set distinct_upt set) simp
  qed simp_all
  show ?thesis unfolding select_J_def
  proof (rule gadget_yields, rule yields_mono, (rule row yields_rules)+, goal_cases)
    case (2 \<rho>)
    then have "\<forall>j\<in>{1..42}. \<rho> (''JZ'' @ nat_str j) = \<rho> (''J='' @ nat_str j) * \<rho> (''Z'' @ nat_str j)"
      "\<forall>j\<in>{1..42}. \<rho> (''JPC'' @ nat_str j) = \<rho> (''J='' @ nat_str j) * \<rho> (''PC'' @ nat_str j)"
      "\<rho> ''Z'' = (\<Sum>j=1..42. \<rho> (''JZ'' @ nat_str j))" "\<rho> ''PC'' = (\<Sum>j=1..42. \<rho> (''JPC'' @ nat_str j))"
      unfolding set by blast+
    then show ?case by simp
  qed auto
qed

lemma gadget_select_XY:
  assumes "large_field TYPE('f::field)"
  shows "gadget {} (select_XY a b :: 'f builder) (\<lambda>\<rho>. (\<exists>i. picks \<rho> ''rs1'' 32 i \<and> \<rho> ''X'' = \<rho> (''x'' @ nat_str i))
     \<and> (\<exists>i. picks \<rho> ''rs2'' 32 i \<and> \<rho> ''Y'' = \<rho> (''x'' @ nat_str i)))"
proof -
  have "gadget {} (load_reg ''rs1'' ''X'' a :: 'f builder) (\<lambda>\<rho>. \<exists>i. picks \<rho> ''rs1'' 32 i \<and> \<rho> ''X'' = \<rho> (''x'' @ nat_str i))"
    by (rule gadget_load_reg [OF assms], simp_all add: member_locals_def rsx_locals_def image_iff)
  moreover have "gadget {} (load_reg ''rs2'' ''Y'' b :: 'f builder) (\<lambda>\<rho>. \<exists>i. picks \<rho> ''rs2'' 32 i \<and> \<rho> ''Y'' = \<rho> (''x'' @ nat_str i))"
    by (rule gadget_load_reg [OF assms], simp_all add: member_locals_def rsx_locals_def image_iff)
  ultimately show ?thesis unfolding select_XY_def by (rule gadget_mono [OF gadget_Cons [OF _ gadget_Cons [OF _ gadget_Nil]]]) auto
qed

lemma gadget_select_Z:
  assumes "large_field TYPE('f::field)"
  shows "gadget {} (select_Z a :: 'f builder) (\<lambda>\<rho>. \<exists>i. picks \<rho> ''rd'' 32 i
       \<and> (\<forall>j\<in>{1..<32}. \<rho> (xout j) = (if j = i then \<rho> ''Z'' else \<rho> (''x'' @ nat_str j))))"
proof -
  have "gadget {} (store_reg ''rd'' ''Z'' a :: 'f builder) (\<lambda>\<rho>. \<exists>i. picks \<rho> ''rd'' 32 i
       \<and> (\<forall>j\<in>{1..<32}. \<rho> (xout j) = (if j = i then \<rho> ''Z'' else \<rho> (''x'' @ nat_str j))))"
    by (rule gadget_store_reg [OF assms], simp_all add: member_locals_def rsx_locals_def z_locals_def image_iff)
  then show ?thesis unfolding select_Z_def
    by (rule gadget_mono [OF gadget_Cons [OF gadget_yields [OF yields_declare] gadget_Cons [OF _ gadget_Nil]]]) auto
qed

section \<open>The step\<close>

text \<open>What a satisfying assignment of the step circuit satisfies, in terms of the named columns.\<close>

definition step_rel :: "(string \<Rightarrow> 'f::field) \<Rightarrow> bool" where
  "step_rel \<rho> \<longleftrightarrow>
     (\<exists>i. picks \<rho> ''rs1'' 32 i \<and> \<rho> ''X'' = \<rho> (''x'' @ nat_str i)) \<and> (\<exists>i. picks \<rho> ''rs2'' 32 i \<and> \<rho> ''Y'' = \<rho> (''x'' @ nat_str i))
     \<and> (\<exists>v. is_word \<rho> ''pc'' v) \<and> (\<exists>v. is_word \<rho> ''X'' v) \<and> (\<exists>v. is_word \<rho> ''Y'' v) \<and> (\<exists>v. is_word \<rho> ''I'' v)
     \<and> (\<exists>v. is_word \<rho> ''Z'' v) \<and> (\<exists>v. is_word \<rho> ''PC'' v)
     \<and> (\<exists>w. opc_rel \<rho> w \<and> imm_rel \<rho> w)
     \<and> \<rho> ''shamt'' = \<rho> ''opcode=19'' * \<rho> ''lowA'' + \<rho> ''opcode=51'' * \<rho> ''lowY'' \<and> (\<forall>v. is_word \<rho> ''Y'' v \<longrightarrow> \<rho> ''lowY'' = num (v AND 0x1f))
     \<and> J_rel \<rho>
     \<and> (\<rho> ''pc+4'' = \<rho> ''pc'' + \<rho> ''four'' \<or> \<rho> ''pc+4'' + 2 ^ 32 = \<rho> ''pc'' + \<rho> ''four'')
     \<and> (\<rho> ''pc+I'' = \<rho> ''pc'' + \<rho> ''I'' \<or> \<rho> ''pc+I'' + 2 ^ 32 = \<rho> ''pc'' + \<rho> ''I'')
     \<and> alu_rel \<rho> \<and> control_rel \<rho> \<and> (\<exists>v. is_word \<rho> ''X+I'' v) \<and> memory_pc \<rho>
     \<and> \<rho> (PCn (ECALL 0)) = \<rho> ''pc+4'' \<and> \<rho> (PCn FENCE) = \<rho> ''pc+4'' \<and> \<rho> (PCn (EBREAK 0)) = \<rho> ''pc+4'' \<and> \<rho> (PCn UNIMP) = \<rho> ''pc''
     \<and> \<rho> ''Z'' = (\<Sum>j=1..42. \<rho> (''J='' @ nat_str j) * \<rho> (''Z'' @ nat_str j))
     \<and> \<rho> ''PC'' = (\<Sum>j=1..42. \<rho> (''J='' @ nat_str j) * \<rho> (''PC'' @ nat_str j))
     \<and> (\<exists>i. picks \<rho> ''rd'' 32 i \<and> (\<forall>j\<in>{1..<32}. \<rho> (xout j) = (if j = i then \<rho> ''Z'' else \<rho> (''x'' @ nat_str j))))"

lemma gadget_append:
  assumes "gadget {} (seq gs) P" "gadget {} (seq hs) Q"
  shows "gadget {} (seq (gs @ hs)) (\<lambda>\<rho>. P \<rho> \<and> Q \<rho>)"
proof -
  have "gadget {} (seq [seq gs, seq hs]) (\<lambda>\<rho>. P \<rho> \<and> Q \<rho> \<and> True)" by (intro gadget_Cons assms gadget_Nil)
  moreover have last: "seq [seq hs] = seq hs" by (rule ext, rule seq_last)
  have "seq [seq gs, seq hs] = seq (gs @ hs)" by (rule ext) (simp only: seq.simps(2) [of "seq gs"] seq_append last)
  ultimately show ?thesis by simp
qed

lemma gadget_step_body:
  assumes large: "large_field TYPE('f::field)"
  shows "gadget {} (step_body bigint vm :: 'f builder) step_rel"
proof -
  let ?front = "[select_XY (w_rs1 vm) (w_rs2 vm),
      to_bits ''pc'' (r_pc (w_regs vm)), to_bits ''X'' (w_X vm), to_bits ''Y'' (w_Y vm), to_bits ''I'' (w_I vm),
      to_bits ''Z'' (w_Z vm), to_bits ''PC'' (w_PC vm),
      set_var ''rd'' (w_rd vm), set_var ''rs1'' (w_rs1 vm), set_var ''rs2'' (w_rs2 vm), set_var ''shamt'' (w_shamt vm),
      parse_opc (w_inst vm), parse_imm (w_inst vm), parse_shamt (w_Y vm), parse_J (w_J vm),
      set_var ''four'' 4,
      add_cir ''pc+4'' ''pc'' ''four'' (r_pc (w_regs vm)) 4,
      add_cir ''pc+I'' ''pc'' ''I'' (r_pc (w_regs vm)) (w_I vm), alu vm] :: 'f builder list"
    and ?inner = "[cir_ecall vm, cir_misc, select_J vm, select_Z (w_rd vm)] :: 'f builder list"
  have body: "step_body bigint vm = seq (?front @ [cir_lui vm, cir_auipc, cir_jal, cir_jalr, cir_br] @ [cir_load bigint vm, cir_store bigint vm] @ ?inner)"
    unfolding step_body_def by (simp only: append_Cons append_Nil)
  note word = gadget_yields [OF yields_to_bits] and var = gadget_yields [OF yields_set_var]
  have front: "gadget {} (seq ?front) (\<lambda>\<rho>. ((\<exists>i. picks \<rho> ''rs1'' 32 i \<and> \<rho> ''X'' = \<rho> (''x'' @ nat_str i))
     \<and> (\<exists>i. picks \<rho> ''rs2'' 32 i \<and> \<rho> ''Y'' = \<rho> (''x'' @ nat_str i)))
     \<and> (\<exists>v. is_word \<rho> ''pc'' v) \<and> (\<exists>v. is_word \<rho> ''X'' v) \<and> (\<exists>v. is_word \<rho> ''Y'' v) \<and> (\<exists>v. is_word \<rho> ''I'' v)
     \<and> (\<exists>v. is_word \<rho> ''Z'' v) \<and> (\<exists>v. is_word \<rho> ''PC'' v) \<and> True \<and> True \<and> True \<and> True
     \<and> (\<exists>w. opc_rel \<rho> w) \<and> (\<forall>w. is_word \<rho> ''inst'' w \<longrightarrow> imm_rel \<rho> w)
     \<and> (\<rho> ''shamt'' = \<rho> ''opcode=19'' * \<rho> ''lowA'' + \<rho> ''opcode=51'' * \<rho> ''lowY'' \<and> (\<forall>v. is_word \<rho> ''Y'' v \<longrightarrow> \<rho> ''lowY'' = num (v AND 0x1f)))
     \<and> J_rel \<rho> \<and> True
     \<and> (\<rho> ''pc+4'' = \<rho> ''pc'' + \<rho> ''four'' \<or> \<rho> ''pc+4'' + 2 ^ 32 = \<rho> ''pc'' + \<rho> ''four'')
     \<and> (\<rho> ''pc+I'' = \<rho> ''pc'' + \<rho> ''I'' \<or> \<rho> ''pc+I'' + 2 ^ 32 = \<rho> ''pc'' + \<rho> ''I'')
     \<and> alu_rel \<rho> \<and> True)"
    by (intro gadget_Cons gadget_Nil gadget_select_XY word var gadget_parse_opc gadget_parse_imm gadget_parse_shamt gadget_parse_J gadget_adds gadget_alu large)
  have ecall: "gadget {} (seq [cir_ecall vm, cir_misc] :: 'f builder) (\<lambda>\<rho>. \<rho> (PCn (ECALL 0)) = \<rho> ''pc+4'' \<and> \<rho> (PCn FENCE) = \<rho> ''pc+4''
      \<and> \<rho> (PCn (EBREAK 0)) = \<rho> ''pc+4'' \<and> \<rho> (PCn UNIMP) = \<rho> ''pc'')"
    unfolding cir_ecall_def cir_misc_def
    by (rule gadget_mono, (rule gadget_Cons gadget_Nil var gadget_yields [OF yields_set_eq])+) blast+
  have sel: "gadget {} (seq [select_J vm, select_Z (w_rd vm)] :: 'f builder) (\<lambda>\<rho>. (\<rho> ''Z'' = (\<Sum>j=1..42. \<rho> (''J='' @ nat_str j) * \<rho> (''Z'' @ nat_str j))
     \<and> \<rho> ''PC'' = (\<Sum>j=1..42. \<rho> (''J='' @ nat_str j) * \<rho> (''PC'' @ nat_str j)))
     \<and> (\<exists>i. picks \<rho> ''rd'' 32 i \<and> (\<forall>j\<in>{1..<32}. \<rho> (xout j) = (if j = i then \<rho> ''Z'' else \<rho> (''x'' @ nat_str j)))) \<and> True)"
    by (intro gadget_Cons gadget_Nil gadget_select_J gadget_select_Z large)
  note rest = gadget_append [OF ecall sel, unfolded append_Cons append_Nil]
  have inst: "is_word \<rho> ''inst'' w" if "opc_rel \<rho> w" for w and \<rho> :: "string \<Rightarrow> 'f" using that by (simp add: opc_rel_def)
  show ?thesis unfolding body
  proof (rule gadget_mono [OF gadget_append [OF front gadget_append [OF gadget_control gadget_append [OF gadget_memory [OF large] rest]]]], simp, goal_cases)
    case (1 \<rho>)
    then obtain w where w: "opc_rel \<rho> w" by (elim conjE exE)
    with 1 have "imm_rel \<rho> w" using inst [OF w] by (elim conjE) blast
    with w have "\<exists>w. opc_rel \<rho> w \<and> imm_rel \<rho> w" by blast
    with 1 show ?case unfolding step_rel_def append_Cons append_Nil by (elim conjE) (intro conjI; assumption)
  qed
qed

lemma inert_init: "inert {} (init_builder pops w :: 'f::field builder)"
  unfolding init_builder_def add_proof_def
  by (intro inerts inertI [OF yields_set_field_var] yields_with_result) simp_all

lemma init_ok:
  assumes "init_cs pops w = Ok (cs :: 'f::field r1cs)"
  shows "wf_r1cs cs" "\<not> cs_witness_only cs" "cs_locals cs = []"
proof -
  let ?d = "r1cs_default\<lparr>cs_arity := ARITY\<rparr> :: 'f r1cs"
  have "wf_r1cs ?d" "\<not> cs_witness_only ?d" "cs_locals ?d = []" by (rule wf_default) (simp_all add: r1cs_default_def)
  moreover from this have "grows {} (\<lambda>_. True) ?d cs" using assms yieldsD [OF inert_init] unfolding init_cs_builder by blast
  ultimately show "wf_r1cs cs" "\<not> cs_witness_only cs" "cs_locals cs = []" using growsD(1,2,4) [of "{}" "\<lambda>_. True" ?d cs] by auto
qed

lemma step_seals:
  assumes "large_field TYPE('f::field)" "step bigint pops vm False = Ok (cs :: 'f r1cs)"
  shows "wf_r1cs cs" "\<sigma> 0 = 1 \<Longrightarrow> sat cs \<sigma> \<Longrightarrow> step_rel (named cs \<sigma>)"
proof -
  obtain c where c: "init_cs pops vm = Ok c" "step_body bigint vm (c\<lparr>cs_witness_only := False\<rparr>) = Ok cs"
    using assms(2) by (auto simp: step_def result_simps)
  have "c\<lparr>cs_witness_only := False\<rparr> = c" using init_ok(2) [OF c(1)] by simp
  with c(2) have "seals step_rel c cs"
    using gadgetD [OF gadget_step_body [OF assms(1)] init_ok(1,2) [OF c(1)]] init_ok(3) [OF c(1)] by simp
  then show "wf_r1cs cs" "\<sigma> 0 = 1 \<Longrightarrow> sat cs \<sigma> \<Longrightarrow> step_rel (named cs \<sigma>)" using sealsD(1) sealsD(6) [OF _ _ _ agree_named] by blast+
qed

section \<open>The circuit and the instruction set\<close>

lemma word_unique: "large_field TYPE('f) \<Longrightarrow> is_word \<rho> n v \<Longrightarrow> (\<rho> n :: 'f::field) = num u \<Longrightarrow> v = u"
  using num_eq_iff is_word_num by metis

lemma picks_unique: "large_field TYPE('f) \<Longrightarrow> picks \<rho> n 32 k \<Longrightarrow> (\<rho> n :: 'f::field) = num u \<Longrightarrow> k = unat u"
proof -
  assume "large_field TYPE('f)" "picks \<rho> n 32 k" "\<rho> n = num u"
  then have "of_nat k = (num u :: 'f)" "k < 32" by (simp_all add: picks_def)
  then show "k = unat u" using of_nat_num_eq [OF \<open>large_field TYPE('f)\<close>, of k u] by simp
qed

lemma parse_operands:
  assumes "parse_u32 w = Some i"
  shows "rv32_rs1 i = Some r \<Longrightarrow> r = p_rs1 w \<and> opcode w \<notin> {OPC_LUI, OPC_AUIPC, OPC_JAL, OPC_ECALL}"
    "rv32_rs2 i = Some r \<Longrightarrow> r = p_rs2 w \<and> opcode w \<in> {OPC_BR, OPC_STORE, OPC_ALU}"
    "rv32_rd i = Some r \<Longrightarrow> r = p_rd w \<and> opcode w \<notin> {OPC_BR, OPC_STORE}"
    "rv32_rd i = None \<Longrightarrow> i = FENCE \<or> i = UNIMP \<or> opcode w \<in> {OPC_BR, OPC_STORE}"
  using assms by (auto simp: parse_u32_def Let_def split: if_splits)

text \<open>The shift amount is that of the instruction.\<close>

lemma shamt_value:
  fixes \<rho> :: "string \<Rightarrow> 'f::field"
  assumes large: "large_field TYPE('f)" and rel: "step_rel \<rho>" "opc_rel \<rho> w" "imm_rel \<rho> w" and y: "is_word \<rho> ''Y'' y"
    and k: "picks \<rho> ''shamt'' 32 k"
  shows "opcode w = OPC_ALUI \<Longrightarrow> k = unat (shamt w)" "opcode w = OPC_ALU \<Longrightarrow> k = unat (y AND 0x1f)"
proof -
  have op: "one_hot \<rho> ''opcode'' opcode_set (opcode w)" using rel(2) by (simp add: opc_rel_def)
  have "\<rho> ''opcode=19'' = of_bool (opcode w = OPC_ALUI)" "\<rho> ''opcode=51'' = of_bool (opcode w = OPC_ALU)"
    using one_hot_num [OF op, of OPC_ALUI] one_hot_num [OF op, of OPC_ALU] by (simp_all add: opcode_set_def u32_str_def nat_str_lits eq_commute)
  moreover have "\<rho> ''shamt'' = \<rho> ''opcode=19'' * \<rho> ''lowA'' + \<rho> ''opcode=51'' * \<rho> ''lowY''" "\<rho> ''lowY'' = num (y AND 0x1f)"
    using rel(1) y unfolding step_rel_def by blast+
  moreover have "\<rho> ''lowA'' = num (shamt w)" using rel(3) by (simp add: imm_rel_def)
  ultimately show "opcode w = OPC_ALUI \<Longrightarrow> k = unat (shamt w)" "opcode w = OPC_ALU \<Longrightarrow> k = unat (y AND 0x1f)"
    using picks_unique [OF large k] by auto
qed

end
