(* ===== verification/Step_Isa.thy ===== *)
theory Step_Isa
  imports Step_Sound
begin

text \<open>
  The step circuit against the instruction set: on every satisfying assignment, the program counter and the registers
  after the step are those of the instruction the word decodes to, given what an honest prover puts in the columns
  the constraints leave free.
\<close>

section \<open>Results of the arithmetic instructions\<close>

text \<open>The result of an arithmetic instruction, when it is a 32-bit number and, for comparisons, the difference is.\<close>

lemma sint_less_sless: "sint x < sint y \<longleftrightarrow> x <s y"
  by (simp add: word_sless_alt)

lemma alu_generic:
  fixes Z :: "aop \<Rightarrow> 'f::field"
  assumes large: "large_field TYPE('f)"
    and add: "Z ADD = num x + num v \<or> Z ADD + 2 ^ 32 = num x + num v"
    and sub: "\<And>u. Z SUB = num u \<Longrightarrow> u = x - v \<and> Z SLTU = of_bool (x < v) \<and> Z SLT = of_bool (x <s v)"
    and shift: "Z SLL = num (shl x k)" "Z SRL = num (shr False x k)" "Z SRA = num (shr True x k)" "k < 32"
    and bitwise: "Z AND_A = num (x AND v)" "Z OR_A = num (x OR v)" "Z XOR_A = num (x XOR v)"
    and z: "Z a = num z" and k: "a \<in> {SLL, SRL, SRA} \<Longrightarrow> k = unat (v AND 0x1f)" and d: "a \<in> {SLT, SLTU} \<Longrightarrow> Z SUB \<in> range num"
  shows "z = alu_op a x v"
proof -
  have eqI: "u = z" if "Z a = num u" for u using that z num_eq_iff [OF large] by metis
  have flag: "num (of_bool b :: u32) = (of_bool b :: 'f)" for b by simp
  show ?thesis
  proof (cases a)
    case ADD
    then show ?thesis using add_word [OF large add, of z] z by (simp add: alu_op_def add32_def)
  next
    case SUB
    then show ?thesis using sub [of z] z by (simp add: alu_op_def sub32_def)
  next
    case SLT
    with d obtain u where "Z SUB = num u" by auto
    then have "Z a = num (of_bool (x <s v) :: u32)" using sub SLT flag by simp
    from eqI [OF this] show ?thesis by (simp add: SLT alu_op_def sint_less_sless)
  next
    case SLTU
    with d obtain u where "Z SUB = num u" by auto
    then have "Z a = num (of_bool (x < v) :: u32)" using sub SLTU flag by simp
    from eqI [OF this] show ?thesis by (simp add: SLTU alu_op_def)
  next
    case SLL
    then show ?thesis using eqI [of "shl x k"] shift k by (simp add: alu_op_def shl_def Let_def)
  next
    case SRL
    then show ?thesis using eqI [of "shr False x k"] shift k by (simp add: alu_op_def shr_def Let_def)
  next
    case SRA
    then show ?thesis using eqI [of "shr True x k"] shift k by (simp add: alu_op_def shr_def Let_def)
  next
    case OR_A
    then show ?thesis using eqI [of "x OR v"] bitwise by (simp add: alu_op_def)
  next
    case AND_A
    then show ?thesis using eqI [of "x AND v"] bitwise by (simp add: alu_op_def)
  next
    case XOR_A
    then show ?thesis using eqI [of "x XOR v"] bitwise by (simp add: alu_op_def)
  qed
qed

lemma alu_value:
  fixes \<rho> :: "string \<Rightarrow> 'f::field"
  assumes large: "large_field TYPE('f)" and rel: "alu_rel \<rho>" and x: "is_word \<rho> ''X'' x" and y: "is_word \<rho> ''Y'' y" and i: "is_word \<rho> ''I'' i"
    and k: "picks \<rho> ''shamt'' 32 k"
  shows "\<rho> (Zn (ALU a 0 0 0)) = num z \<Longrightarrow> (a \<in> {SLL, SRL, SRA} \<Longrightarrow> k = unat (y AND 0x1f))
      \<Longrightarrow> (a \<in> {SLT, SLTU} \<Longrightarrow> \<rho> ''X-Y'' \<in> range num) \<Longrightarrow> z = alu_op a x y"
    "\<rho> (Zn (ALUI a 0 0 0)) = num z \<Longrightarrow> (a \<in> {SLL, SRL, SRA} \<Longrightarrow> k = unat (i AND 0x1f))
      \<Longrightarrow> (a \<in> {SLT, SLTU} \<Longrightarrow> \<rho> ''X-I'' \<in> range num) \<Longrightarrow> z = alu_op a x i"
proof -
  have add: "\<rho> (Zn (ALU ADD 0 0 0)) = num x + num y \<or> \<rho> (Zn (ALU ADD 0 0 0)) + 2 ^ 32 = num x + num y"
    "\<rho> (Zn (ALUI ADD 0 0 0)) = num x + num i \<or> \<rho> (Zn (ALUI ADD 0 0 0)) + 2 ^ 32 = num x + num i"
    using rel is_word_num [OF x] is_word_num [OF y] is_word_num [OF i] unfolding alu_rel_def by metis+
  have zs: "\<rho> (Zn (ALU SUB 0 0 0)) = \<rho> ''X-Y''" "\<rho> (Zn (ALUI SUB 0 0 0)) = \<rho> ''X-I''" "\<rho> (Zn (ALUI SLT 0 0 0)) = \<rho> ''X<sI''"
    "\<rho> (Zn (ALUI SLTU 0 0 0)) = \<rho> ''X<I''" "\<rho> (Zn (ALU SLT 0 0 0)) = \<rho> ''X<sY''" "\<rho> (Zn (ALU SLTU 0 0 0)) = \<rho> ''X<Y''"
    using rel unfolding alu_rel_def by blast+
  have sub: "sub_rel \<rho> ''X-Y'' ''X'' ''Y''" "sub_rel \<rho> ''X-I'' ''X'' ''I''" using rel unfolding alu_rel_def by blast+
  have sY: "u = x - y \<and> \<rho> ''X<Y'' = of_bool (x < y) \<and> \<rho> ''X<sY'' = of_bool (x <s y)" if "\<rho> ''X-Y'' = num u" for u
    using sub_word(1,2,4) [OF large sub(1) x y that] by simp
  have sI: "u = x - i \<and> \<rho> ''X<I'' = of_bool (x < i) \<and> \<rho> ''X<sI'' = of_bool (x <s i)" if "\<rho> ''X-I'' = num u" for u
    using sub_word(1,2,4) [OF large sub(2) x i that] by simp
  have bo: "bitops_rel \<rho> x y i" using rel x y i unfolding alu_rel_def by blast
  have k32: "k < 32" using k by (simp add: picks_def)
  have sh: "\<rho> (Zn (ALUI SLL 0 0 0)) = num (shl x k)" "\<rho> (Zn (ALU SLL 0 0 0)) = num (shl x k)"
    "\<rho> (Zn (ALUI SRL 0 0 0)) = num (shr False x k)" "\<rho> (Zn (ALU SRL 0 0 0)) = num (shr False x k)"
    "\<rho> (Zn (ALUI SRA 0 0 0)) = num (shr True x k)" "\<rho> (Zn (ALU SRA 0 0 0)) = num (shr True x k)"
    using rel x k unfolding alu_rel_def by blast+
  show "\<rho> (Zn (ALU a 0 0 0)) = num z \<Longrightarrow> (a \<in> {SLL, SRL, SRA} \<Longrightarrow> k = unat (y AND 0x1f))
      \<Longrightarrow> (a \<in> {SLT, SLTU} \<Longrightarrow> \<rho> ''X-Y'' \<in> range num) \<Longrightarrow> z = alu_op a x y"
    by (rule alu_generic [OF large, of "\<lambda>a. \<rho> (Zn (ALU a 0 0 0))" x y k a z])
      (use add(1) sY sh k32 bo in \<open>simp_all only: zs bitops_rel_def\<close>)
  show "\<rho> (Zn (ALUI a 0 0 0)) = num z \<Longrightarrow> (a \<in> {SLL, SRL, SRA} \<Longrightarrow> k = unat (i AND 0x1f))
      \<Longrightarrow> (a \<in> {SLT, SLTU} \<Longrightarrow> \<rho> ''X-I'' \<in> range num) \<Longrightarrow> z = alu_op a x i"
    by (rule alu_generic [OF large, of "\<lambda>a. \<rho> (Zn (ALUI a 0 0 0))" x i k a z])
      (use add(2) sI sh k32 bo in \<open>simp_all only: zs bitops_rel_def\<close>)
qed

text \<open>The columns the constraints leave free, and what an honest prover puts there: the constant four, the
  immediate operand, the result of \<^verbatim>\<open>LUI\<close>, and, for comparisons, a difference reduced to 32 bits and the equality
  flag.\<close>

definition advice :: "(string \<Rightarrow> 'f::field) \<Rightarrow> rv32 \<Rightarrow> bool" where
  "advice \<rho> i \<longleftrightarrow> \<rho> ''four'' = 4 \<and> (case rv32_imm i of Some imm \<Rightarrow> \<rho> ''I'' = num imm | None \<Rightarrow> True)
     \<and> (case i of
          LUI _ _ \<Rightarrow> \<rho> (Zn (LUI 0 0)) = \<rho> ''I''
        | BR b _ _ _ \<Rightarrow> \<rho> ''X-Y'' \<in> range num \<and> \<rho> ''X=Y'' = of_bool (\<rho> ''X-Y'' = 0)
        | ALU a _ _ _ \<Rightarrow> a \<in> {SLT, SLTU} \<longrightarrow> \<rho> ''X-Y'' \<in> range num
        | ALUI a _ _ _ \<Rightarrow> a \<in> {SLT, SLTU} \<longrightarrow> \<rho> ''X-I'' \<in> range num
        | _ \<Rightarrow> True)"

text \<open>Instructions whose effect on the registers the circuit determines up to the advice.\<close>

fun covered :: "rv32 \<Rightarrow> bool" where
  "covered (LOAD _ _ _ _) = False"
| "covered (ECALL _) = False"
| "covered (EBREAK _) = False"
| "covered FENCE = False"
| "covered UNIMP = False"
| "covered _ = True"

lemma select_sum:
  assumes "\<And>j. j \<in> {1..42} \<Longrightarrow> J j = (of_bool (j = k) :: 'f::field)" "k \<in> {1..42::nat}"
  shows "(\<Sum>j=1..42. J j * f j) = f k"
proof -
  have "(\<Sum>j=1..42. J j * f j) = (\<Sum>j=1..42. if j = k then f j else 0)" using assms(1) by (intro sum.cong) auto
  then show ?thesis using assms(2) by (simp add: sum.delta)
qed

lemma branch_flags:
  fixes \<rho> :: "string \<Rightarrow> 'f::field"
  assumes large: "large_field TYPE('f)" and rel: "sub_rel \<rho> ''X-Y'' ''X'' ''Y''" "control_rel \<rho>"
    and x: "is_word \<rho> ''X'' x" and y: "is_word \<rho> ''Y'' y" and d: "\<rho> ''X-Y'' = num d" "\<rho> ''X=Y'' = of_bool (\<rho> ''X-Y'' = 0)"
  shows "\<rho> (PCn (BR b 0 0 0)) = (if br_op b x y then \<rho> ''pc+I'' else \<rho> ''pc+4'')"
proof -
  note f = sub_word [OF large rel(1) x y d(1), simplified]
  have "(num d = (0 :: 'f)) = (d = 0)" using num_eq_iff [OF large, of d 0] by simp
  then have eq: "\<rho> ''X=Y'' = of_bool (x = y)" using d f(1) by simp
  have ne: "\<rho> ''X!=Y'' = 1 - \<rho> ''X=Y''" using rel(1) by (simp add: sub_rel_def)
  have pc: "\<rho> (PCn (BR BEQ 0 0 0)) = \<rho> ''X=Y'' * \<rho> ''pc+I'' + \<rho> ''X!=Y'' * \<rho> ''pc+4''"
    "\<rho> (PCn (BR BNE 0 0 0)) = \<rho> ''X!=Y'' * \<rho> ''pc+I'' + \<rho> ''X=Y'' * \<rho> ''pc+4''"
    "\<rho> (PCn (BR BLT 0 0 0)) = \<rho> ''X<sY'' * \<rho> ''pc+I'' + \<rho> ''X>=sY'' * \<rho> ''pc+4''"
    "\<rho> (PCn (BR BGE 0 0 0)) = \<rho> ''X>=sY'' * \<rho> ''pc+I'' + \<rho> ''X<sY'' * \<rho> ''pc+4''"
    "\<rho> (PCn (BR BLTU 0 0 0)) = \<rho> ''X<Y'' * \<rho> ''pc+I'' + \<rho> ''X>=Y'' * \<rho> ''pc+4''"
    "\<rho> (PCn (BR BGEU 0 0 0)) = \<rho> ''X>=Y'' * \<rho> ''pc+I'' + \<rho> ''X<Y'' * \<rho> ''pc+4''"
    using rel(2) unfolding control_rel_def by blast+
  have "\<rho> ''X<sY'' = of_bool (sint x < sint y)" "\<rho> ''X>=sY'' = of_bool (sint y \<le> sint x)"
    using f(4,5) by (simp_all add: word_sless_alt word_sle_eq)
  then show ?thesis by (cases b) (simp_all only: pc ne eq f(2,3), auto simp: not_less not_le)
qed

text \<open>The values the selected row of the table of results fixes.\<close>

lemma step_selects:
  fixes \<rho> :: "string \<Rightarrow> 'f::field"
  assumes large: "large_field TYPE('f)" and rel: "step_rel \<rho>" and w: "is_word \<rho> ''inst'' w" and i: "parse_u32 w = Some i"
  obtains pc x y imm z t k where
    "is_word \<rho> ''pc'' pc" "is_word \<rho> ''X'' x" "is_word \<rho> ''Y'' y" "is_word \<rho> ''I'' imm" "\<rho> ''PC'' = num t"
    "\<rho> (Zn (erase i)) = num z" "\<rho> ''Z'' = num z" "\<rho> (PCn (erase i)) = num t" "picks \<rho> ''shamt'' 32 k"
    "opcode w = OPC_ALUI \<Longrightarrow> k = unat (shamt w)" "opcode w = OPC_ALU \<Longrightarrow> k = unat (y AND 0x1f)"
    "\<And>r. rv32_rs1 i = Some r \<Longrightarrow> \<rho> (''x'' @ u32_str r) = num x" "\<And>r. rv32_rs2 i = Some r \<Longrightarrow> \<rho> (''x'' @ u32_str r) = num y"
    "\<And>j. j \<in> {1..<32} \<Longrightarrow> \<rho> (xout j) = (if j = unat (if opcode w \<in> {OPC_BR, OPC_STORE} then 0 else p_rd w) then num z else \<rho> (''x'' @ nat_str j))"
proof -
  from rel obtain w' where w': "opc_rel \<rho> w'" "imm_rel \<rho> w'" unfolding step_rel_def by (elim conjE exE)
  have "w' = w" using w' w word_unique [OF large w'(1) [unfolded opc_rel_def, THEN conjunct1] is_word_num [OF w]] by simp
  with w' have opc: "opc_rel \<rho> w" and imm: "imm_rel \<rho> w" by simp_all
  from rel obtain pc x y imm z t where v: "is_word \<rho> ''pc'' pc" "is_word \<rho> ''X'' x" "is_word \<rho> ''Y'' y" "is_word \<rho> ''I'' imm"
    "is_word \<rho> ''Z'' z" "is_word \<rho> ''PC'' t" unfolding step_rel_def by (elim conjE exE)
  have Jr: "J_rel \<rho>" using rel unfolding step_rel_def by (elim conjE)
  have al: "alu_rel \<rho>" using rel unfolding step_rel_def by (elim conjE)
  have J: "\<rho> (''J='' @ nat_str j) = of_bool (j = unat (index_j i))" if "j \<in> {1..42}" for j
    by (rule J_decode [OF large opc imm Jr i that])
  have range: "unat (index_j i) \<in> {1..42}" using index_j_range [of i] by (simp add: MAX_J_def word_le_nat_alt)
  have "\<rho> ''Z'' = (\<Sum>j=1..42. \<rho> (''J='' @ nat_str j) * \<rho> (''Z'' @ nat_str j))"
    using rel unfolding step_rel_def by (elim conjE)
  also note select_sum [where J = "\<lambda>j. \<rho> (''J='' @ nat_str j)", OF J range]
  finally have selZ: "\<rho> ''Z'' = \<rho> (Zn (erase i))" unfolding index_j_erase u32_str_def .
  have "\<rho> ''PC'' = (\<Sum>j=1..42. \<rho> (''J='' @ nat_str j) * \<rho> (''PC'' @ nat_str j))"
    using rel unfolding step_rel_def by (elim conjE)
  also note select_sum [where J = "\<lambda>j. \<rho> (''J='' @ nat_str j)", OF J range]
  finally have selPC: "\<rho> ''PC'' = \<rho> (PCn (erase i))" unfolding index_j_erase u32_str_def .
  from al obtain k where k: "picks \<rho> ''shamt'' 32 k" unfolding alu_rel_def by blast
  from rel obtain a where a: "picks \<rho> ''rs1'' 32 a" "\<rho> ''X'' = \<rho> (''x'' @ nat_str a)" unfolding step_rel_def by (elim conjE exE)
  from rel obtain b where b: "picks \<rho> ''rs2'' 32 b" "\<rho> ''Y'' = \<rho> (''x'' @ nat_str b)" unfolding step_rel_def by (elim conjE exE)
  from rel obtain d where d: "picks \<rho> ''rd'' 32 d" "\<forall>j\<in>{1..<32}. \<rho> (xout j) = (if j = d then \<rho> ''Z'' else \<rho> (''x'' @ nat_str j))"
    unfolding step_rel_def by (elim conjE exE)
  have zero: "num 0 = (0 :: 'f)" by simp
  have rs1: "\<rho> (''x'' @ u32_str r) = num x" if "rv32_rs1 i = Some r" for r
  proof -
    have "\<rho> ''rs1'' = num r" using parse_operands(1) [OF i that] opc unfolding opc_rel_def by auto
    from picks_unique [OF large a(1) this] show ?thesis using a(2) is_word_num [OF v(2)] by (simp add: u32_str_def)
  qed
  have rs2: "\<rho> (''x'' @ u32_str r) = num y" if "rv32_rs2 i = Some r" for r
  proof -
    have "\<rho> ''rs2'' = num r" using parse_operands(2) [OF i that] opc unfolding opc_rel_def by auto
    from picks_unique [OF large b(1) this] show ?thesis using b(2) is_word_num [OF v(3)] by (simp add: u32_str_def)
  qed
  have "\<rho> ''rd'' = num (if opcode w \<in> {OPC_BR, OPC_STORE} then 0 else p_rd w)" using opc zero unfolding opc_rel_def by auto
  from picks_unique [OF large d(1) this]
  have rd: "\<rho> (xout j) = (if j = unat (if opcode w \<in> {OPC_BR, OPC_STORE} then 0 else p_rd w) then num z else \<rho> (''x'' @ nat_str j))"
    if "j \<in> {1..<32}" for j using d(2) that is_word_num [OF v(5)] by metis
  show ?thesis
    by (rule that [OF v(1-4) is_word_num [OF v(6)] trans [OF selZ [symmetric] is_word_num [OF v(5)]] is_word_num [OF v(5)]
          trans [OF selPC [symmetric] is_word_num [OF v(6)]] k shamt_value [OF large rel opc imm v(3) k] rs1 rs2 rd])
qed

section \<open>The step against the instruction set\<close>

text \<open>The sums the control instructions use, when the column that holds the result is a 32-bit number.\<close>

lemma pc_sums:
  fixes \<rho> :: "string \<Rightarrow> 'f::field"
  assumes large: "large_field TYPE('f)" and rel: "step_rel \<rho>" and pc: "is_word \<rho> ''pc'' pc" and imm: "is_word \<rho> ''I'' imm"
    and four: "\<rho> ''four'' = 4"
  shows "\<rho> ''pc+4'' = num t \<Longrightarrow> t = pc + 4" "\<rho> ''pc+I'' = num t \<Longrightarrow> t = pc + imm"
proof -
  have n4: "\<rho> ''four'' = num 4" using four by simp
  have "\<rho> ''pc+4'' = \<rho> ''pc'' + \<rho> ''four'' \<or> \<rho> ''pc+4'' + 2 ^ 32 = \<rho> ''pc'' + \<rho> ''four''"
    using rel unfolding step_rel_def by (elim conjE)
  then show "\<rho> ''pc+4'' = num t \<Longrightarrow> t = pc + 4"
    unfolding n4 is_word_num [OF pc] by (rule add_word [OF large])
  have "\<rho> ''pc+I'' = \<rho> ''pc'' + \<rho> ''I'' \<or> \<rho> ''pc+I'' + 2 ^ 32 = \<rho> ''pc'' + \<rho> ''I''"
    using rel unfolding step_rel_def by (elim conjE)
  then show "\<rho> ''pc+I'' = num t \<Longrightarrow> t = pc + imm"
    unfolding is_word_num [OF pc] is_word_num [OF imm] by (rule add_word [OF large])
qed

lemma x_sum:
  fixes \<rho> :: "string \<Rightarrow> 'f::field"
  assumes large: "large_field TYPE('f)" and rel: "alu_rel \<rho>" and x: "is_word \<rho> ''X'' x" and imm: "is_word \<rho> ''I'' imm"
  shows "\<rho> ''X+I'' = num t \<Longrightarrow> t = x + imm"
proof -
  have "\<rho> ''X+I'' = \<rho> ''X'' + \<rho> ''I'' \<or> \<rho> ''X+I'' + 2 ^ 32 = \<rho> ''X'' + \<rho> ''I''"
    using rel unfolding alu_rel_def by (elim conjE)
  then show "\<rho> ''X+I'' = num t \<Longrightarrow> t = x + imm"
    unfolding is_word_num [OF x] is_word_num [OF imm] by (rule add_word [OF large])
qed

text \<open>The columns of the table of next program counters.\<close>

lemma step_pcs:
  assumes "step_rel \<rho>"
  shows "\<rho> (PCn (LUI 0 0)) = \<rho> ''pc+4''" "\<rho> (PCn (AUIPC 0 0)) = \<rho> ''pc+4''" "\<rho> (PCn (JAL 0 0)) = \<rho> ''pc+I''"
    "\<rho> (PCn (JALR 0 0 0)) = \<rho> ''X+I''" "\<rho> (PCn (LOAD l 0 0 0)) = \<rho> ''pc+4''" "\<rho> (PCn (STORE s 0 0 0)) = \<rho> ''pc+4''"
    "\<rho> (PCn (ALUI a 0 0 0)) = \<rho> ''pc+4''" "\<rho> (PCn (ALU a 0 0 0)) = \<rho> ''pc+4''"
    "\<rho> (PCn (ECALL 0)) = \<rho> ''pc+4''" "\<rho> (PCn FENCE) = \<rho> ''pc+4''" "\<rho> (PCn (EBREAK 0)) = \<rho> ''pc+4''" "\<rho> (PCn UNIMP) = \<rho> ''pc''"
proof -
  have c: "control_rel \<rho>" using assms unfolding step_rel_def by (elim conjE)
  have a: "alu_rel \<rho>" using assms unfolding step_rel_def by (elim conjE)
  have m: "memory_pc \<rho>" using assms unfolding step_rel_def by (elim conjE)
  show "\<rho> (PCn (LUI 0 0)) = \<rho> ''pc+4''" using c unfolding control_rel_def by (elim conjE)
  show "\<rho> (PCn (AUIPC 0 0)) = \<rho> ''pc+4''" using c unfolding control_rel_def by (elim conjE)
  show "\<rho> (PCn (JAL 0 0)) = \<rho> ''pc+I''" using c unfolding control_rel_def by (elim conjE)
  show "\<rho> (PCn (JALR 0 0 0)) = \<rho> ''X+I''" using c unfolding control_rel_def by (elim conjE)
  show "\<rho> (PCn (LOAD l 0 0 0)) = \<rho> ''pc+4''" "\<rho> (PCn (STORE s 0 0 0)) = \<rho> ''pc+4''" using m by (simp_all add: memory_pc_def)
  have j: "\<forall>j\<in>{19..38}. \<rho> (''PC'' @ nat_str j) = \<rho> ''pc+4''" using a unfolding alu_rel_def by (elim conjE)
  have "unat (index_j (ALUI a 0 0 0)) \<in> {19..38}" "unat (index_j (ALU a 0 0 0)) \<in> {19..38}" by (cases a; simp)+
  with j show "\<rho> (PCn (ALUI a 0 0 0)) = \<rho> ''pc+4''" "\<rho> (PCn (ALU a 0 0 0)) = \<rho> ''pc+4''" unfolding u32_str_def by blast+
  show "\<rho> (PCn (ECALL 0)) = \<rho> ''pc+4''" using assms unfolding step_rel_def by (elim conjE)
  show "\<rho> (PCn FENCE) = \<rho> ''pc+4''" using assms unfolding step_rel_def by (elim conjE)
  show "\<rho> (PCn (EBREAK 0)) = \<rho> ''pc+4''" using assms unfolding step_rel_def by (elim conjE)
  show "\<rho> (PCn UNIMP) = \<rho> ''pc''" using assms unfolding step_rel_def by (elim conjE)
qed

text \<open>The next program counter.\<close>

lemma step_target:
  fixes \<rho> :: "string \<Rightarrow> 'f::field"
  assumes large: "large_field TYPE('f)" and rel: "step_rel \<rho>" and adv: "advice \<rho> i"
    and v: "is_word \<rho> ''pc'' pc" "is_word \<rho> ''X'' x" "is_word \<rho> ''Y'' y" "is_word \<rho> ''I'' imm"
    and t: "\<rho> (PCn (erase i)) = num t"
    and reg: "\<And>r. rv32_rs1 i = Some r \<Longrightarrow> reg r = x" "\<And>r. rv32_rs2 i = Some r \<Longrightarrow> reg r = y"
    and I: "\<And>v. rv32_imm i = Some v \<Longrightarrow> imm = v"
  shows "t = isa_target i pc reg"
proof -
  have four: "\<rho> ''four'' = 4" using adv by (simp add: advice_def)
  note sums = pc_sums [OF large rel v(1,4) four]
  have al: "alu_rel \<rho>" using rel unfolding step_rel_def by (elim conjE)
  have ctl: "control_rel \<rho>" using rel unfolding step_rel_def by (elim conjE)
  have sub: "sub_rel \<rho> ''X-Y'' ''X'' ''Y''" using al unfolding alu_rel_def by (elim conjE)
  note pcs = step_pcs [OF rel]
  show ?thesis
  proof (cases i)
    case (JALR rd rs1 v)
    then show ?thesis using t pcs(4) x_sum [OF large al v(2,4), of t] reg I by simp
  next
    case (BR b rs1 rs2 v)
    with adv obtain d where d: "\<rho> ''X-Y'' = num d" "\<rho> ''X=Y'' = of_bool (\<rho> ''X-Y'' = 0)" by (auto simp: advice_def)
    note branch_flags [OF large sub ctl v(2,3) d, of b]
    then show ?thesis using t sums(1) [of t] sums(2) [of t] reg I by (auto simp: BR split: if_splits)
  next
    case UNIMP
    then show ?thesis using t pcs is_word_num [OF v(1)] num_eq_iff [OF large, of t pc] by simp
  qed (use t pcs sums(1) [of t] sums(2) [of t] I in simp_all)
qed

lemma shamt_aopi:
  assumes "parse_aopi w = Some a" "a \<in> {SLL, SRL, SRA}"
  shows "immA w AND 0x1f = shamt w"
proof -
  have "immA w = shamt w" using assms by (auto simp: parse_aopi_def immA_def Let_def split: if_splits)
  moreover have "shamt w AND 0x1f = take_bit 5 (shamt w)" by (simp add: take_bit_eq_mask mask_numeral)
  moreover have "take_bit 5 (shamt w) = shamt w" by (rule bit_word_eqI) (auto simp: shamt_def bit_simps)
  ultimately show ?thesis by simp
qed

text \<open>The value written to the destination register.\<close>

lemma step_result:
  fixes \<rho> :: "string \<Rightarrow> 'f::field"
  assumes large: "large_field TYPE('f)" and rel: "step_rel \<rho>" and adv: "advice \<rho> i" and cov: "covered i" and i: "parse_u32 w = Some i"
    and v: "is_word \<rho> ''pc'' pc" "is_word \<rho> ''X'' x" "is_word \<rho> ''Y'' y" "is_word \<rho> ''I'' imm"
    and k: "picks \<rho> ''shamt'' 32 k" "opcode w = OPC_ALUI \<Longrightarrow> k = unat (shamt w)" "opcode w = OPC_ALU \<Longrightarrow> k = unat (y AND 0x1f)"
    and z: "\<rho> (Zn (erase i)) = num z" and rd: "rv32_rd i = Some rd"
    and reg: "\<And>r. rv32_rs1 i = Some r \<Longrightarrow> reg r = x" "\<And>r. rv32_rs2 i = Some r \<Longrightarrow> reg r = y"
    and I: "\<And>v. rv32_imm i = Some v \<Longrightarrow> imm = v"
  shows "isa_write i pc reg mem s = Some (rd, z)"
proof -
  have four: "\<rho> ''four'' = 4" using adv by (simp add: advice_def)
  note sums = pc_sums [OF large rel v(1,4) four]
  have al: "alu_rel \<rho>" using rel unfolding step_rel_def by (elim conjE)
  have ctl: "control_rel \<rho>" using rel unfolding step_rel_def by (elim conjE)
  have z2: "\<rho> (Zn (AUIPC 0 0)) = \<rho> ''pc+I''" using ctl unfolding control_rel_def by (elim conjE)
  have z3: "\<rho> (Zn (JAL 0 0)) = \<rho> ''pc+4''" using ctl unfolding control_rel_def by (elim conjE)
  have z4: "\<rho> (Zn (JALR 0 0 0)) = \<rho> ''pc+4''" using ctl unfolding control_rel_def by (elim conjE)
  show ?thesis
  proof (cases i)
    case (LUI r u)
    then have "num z = (num u :: 'f)" using z adv by (simp add: advice_def)
    then show ?thesis using num_eq_iff [OF large, of z u] rd LUI by simp
  next
    case (ALUI a r r1 u)
    have opc: "opcode w = OPC_ALUI" "u = immA w" "parse_aopi w = Some a" using i by (auto simp: ALUI parse_u32_def Let_def split: if_splits)
    have "a \<in> {SLL, SRL, SRA} \<Longrightarrow> k = unat (u AND 0x1f)"
      using k(2) [OF opc(1)] shamt_aopi [OF opc(3)] opc(2) by simp
    then have "z = alu_op a x imm"
      using adv z I by (intro alu_value(2) [OF large al v(2,3,4) k(1)]) (auto simp: ALUI advice_def)
    then show ?thesis using rd reg I by (simp add: ALUI)
  next
    case (ALU a r r1 r2)
    have opc: "opcode w = OPC_ALU" using i by (auto simp: ALU parse_u32_def Let_def split: if_splits)
    have "z = alu_op a x y"
      using adv z opc k(3) by (intro alu_value(1) [OF large al v(2,3,4) k(1)]) (auto simp: ALU advice_def)
    then show ?thesis using rd reg by (simp add: ALU)
  qed (use z rd z2 z3 z4 sums(1) [of z] sums(2) [of z] I cov in simp_all)
qed

text \<open>Together: what the columns of a satisfying assignment say of one step.\<close>

definition isa_step :: "(string \<Rightarrow> 'f::field) \<Rightarrow> rv32 \<Rightarrow> u32 \<Rightarrow> (u32 \<Rightarrow> u32) \<Rightarrow> bool" where
  "isa_step \<rho> i pc reg \<longleftrightarrow> \<rho> ''pc'' = num pc
     \<and> (\<forall>r. rv32_rs1 i = Some r \<or> rv32_rs2 i = Some r \<longrightarrow> \<rho> (''x'' @ u32_str r) = num (reg r))
     \<and> \<rho> ''PC'' = num (isa_target i pc reg)
     \<and> (covered i \<longrightarrow> (\<forall>r. 0 < r \<and> r < 32 \<longrightarrow>
          \<rho> (xout (unat r)) = (case isa_write i pc reg (\<lambda>_. 0) 0 of
             Some (rd, v) \<Rightarrow> if r = rd then num v else \<rho> (''x'' @ u32_str r) | None \<Rightarrow> \<rho> (''x'' @ u32_str r))))"

lemma step_rel_isa:
  fixes \<rho> :: "string \<Rightarrow> 'f::field"
  assumes large: "large_field TYPE('f)" and rel: "step_rel \<rho>" and w: "is_word \<rho> ''inst'' w" and i: "parse_u32 w = Some i"
    and adv: "advice \<rho> i"
  shows "\<exists>pc reg. isa_step \<rho> i pc reg"
proof (rule step_selects [OF large rel w i])
  fix pc x y imm z t k
  assume v: "is_word \<rho> ''pc'' pc" "is_word \<rho> ''X'' x" "is_word \<rho> ''Y'' y" "is_word \<rho> ''I'' imm"
      "\<rho> ''PC'' = num t" "\<rho> (Zn (erase i)) = num z" "\<rho> ''Z'' = num z" "\<rho> (PCn (erase i)) = num t" "picks \<rho> ''shamt'' 32 k"
      "opcode w = OPC_ALUI \<Longrightarrow> k = unat (shamt w)" "opcode w = OPC_ALU \<Longrightarrow> k = unat (y AND 0x1f)"
    and rs1: "\<And>r. rv32_rs1 i = Some r \<Longrightarrow> \<rho> (''x'' @ u32_str r) = num x"
    and rs2: "\<And>r. rv32_rs2 i = Some r \<Longrightarrow> \<rho> (''x'' @ u32_str r) = num y"
    and out: "\<And>j. j \<in> {1..<32} \<Longrightarrow> \<rho> (xout j) =
        (if j = unat (if opcode w \<in> {OPC_BR, OPC_STORE} then 0 else p_rd w) then num z else \<rho> (''x'' @ nat_str j))"
  define reg where "reg r = (if rv32_rs1 i = Some r then x else y)" for r
  have reg: "rv32_rs1 i = Some r \<Longrightarrow> reg r = x" "rv32_rs2 i = Some r \<Longrightarrow> reg r = y" for r
    using rs1 [of r] rs2 [of r] num_eq_iff [OF large, of x y] by (auto simp: reg_def)
  have I: "imm = u" if "rv32_imm i = Some u" for u
  proof -
    have "\<rho> ''I'' = num u" using adv that unfolding advice_def by simp
    then show ?thesis using is_word_num [OF v(4)] num_eq_iff [OF large, of imm u] by simp
  qed
  have t: "t = isa_target i pc reg" by (rule step_target [OF large rel adv v(1-4) v(8) reg I])
  have "\<rho> (xout (unat r)) = (case isa_write i pc reg (\<lambda>_. 0) 0 of
      Some (rd, v) \<Rightarrow> if r = rd then num v else \<rho> (''x'' @ u32_str r) | None \<Rightarrow> \<rho> (''x'' @ u32_str r))"
    if cov: "covered i" and r: "0 < r" "r < 32" for r
  proof -
    have ur: "unat r \<in> {1..<32}" using r by (auto simp: word_less_nat_alt)
    show ?thesis
    proof (cases "rv32_rd i")
      case None
      then have "isa_write i pc reg (\<lambda>_. 0) 0 = None" "opcode w \<in> {OPC_BR, OPC_STORE}"
        using parse_operands(4) [OF i] cov by (cases i; auto)+
      then show ?thesis using out [OF ur] ur by (auto simp: u32_str_def)
    next
      case (Some rd)
      note step_result [OF large rel adv cov i v(1-4) v(9-11) v(6) Some reg I]
      then show ?thesis using out [OF ur] parse_operands(3) [OF i Some] by (simp add: u32_str_def word_unat_eq_iff [symmetric])
    qed
  qed
  then have "isa_step \<rho> i pc reg"
    unfolding isa_step_def using is_word_num [OF v(1)] rs1 rs2 reg v(5) t by auto
  then show ?thesis by blast
qed

end
