(* ===== verification/Honest.thy ===== *)
theory Honest
  imports Gadgets
begin

text \<open>
  The other direction: the builder does not fail, and the witness it computes satisfies the rows it emits.
  A state of the builder is described by the values of the declared names, the pending local names, and the
  names that are still \<^emph>\<open>open\<close>, with the values their columns may take without violating a row emitted so
  far (an assignment to such a name is harmless).  \<open>wp g Q\<close> is the weakest precondition of a builder on such
  descriptions; every operation has a rule that computes it.
\<close>

section \<open>States\<close>

type_synonym 'f opens = "string \<rightharpoonup> 'f set"
type_synonym 'f vals = "string \<rightharpoonup> 'f"

definition fits :: "'f opens \<Rightarrow> 'f r1cs \<Rightarrow> (nat \<Rightarrow> 'f) \<Rightarrow> bool" where
  "fits F cs \<sigma> \<longleftrightarrow> (\<forall>j<length (cs_w cs).
     (\<forall>n A. cs_vars cs n = Some j \<longrightarrow> F n = Some A \<longrightarrow> \<sigma> j \<in> A)
     \<and> ((\<forall>n. cs_vars cs n = Some j \<longrightarrow> F n = None) \<longrightarrow> \<sigma> j = cs_w cs ! j))"

definition vals :: "'f r1cs \<Rightarrow> 'f vals" where
  "vals cs n = map_option (\<lambda>j. cs_w cs ! j) (cs_vars cs n)"

definition honest :: "'f opens \<Rightarrow> 'f vals \<Rightarrow> string list \<Rightarrow> 'f::field r1cs \<Rightarrow> bool" where
  "honest F v l cs \<longleftrightarrow> wf_r1cs cs \<and> \<not> cs_witness_only cs \<and> cs_w cs ! 0 = 1 \<and> dom F \<subseteq> dom v
     \<and> vals cs = v \<and> cs_locals cs = l \<and> fits F cs (\<lambda>j. cs_w cs ! j) \<and> (\<forall>\<sigma>. fits F cs \<sigma> \<longrightarrow> sat cs \<sigma>)"

definition wp :: "'f::field builder \<Rightarrow> ('f opens \<Rightarrow> 'f vals \<Rightarrow> string list \<Rightarrow> bool) \<Rightarrow> 'f opens \<Rightarrow> 'f vals \<Rightarrow> string list \<Rightarrow> bool" where
  "wp g Q F v l \<longleftrightarrow> (\<forall>cs. honest F v l cs \<longrightarrow> (\<exists>cs' F' v' l'. g cs = Ok cs' \<and> honest F' v' l' cs' \<and> Q F' v' l'))"

lemma fitsD:
  assumes "fits F cs \<sigma>" "j < length (cs_w cs)"
  shows "\<And>n A. cs_vars cs n = Some j \<Longrightarrow> F n = Some A \<Longrightarrow> \<sigma> j \<in> A"
    "(\<And>n. cs_vars cs n = Some j \<Longrightarrow> F n = None) \<Longrightarrow> \<sigma> j = cs_w cs ! j"
  using assms unfolding fits_def by blast+

lemma honest_is_sat: "honest F v l cs \<Longrightarrow> is_sat cs"
  by (simp add: honest_def is_sat_iff)

lemma honest_default: "honest Map.empty Map.empty [] (r1cs_default :: 'f::field r1cs)"
  unfolding honest_def
  by (simp add: vals_def fun_eq_iff fits_def sat_def) (simp add: r1cs_default_def)

lemma wpI: "(\<And>cs. honest F v l cs \<Longrightarrow> \<exists>cs' F' v' l'. g cs = Ok cs' \<and> honest F' v' l' cs' \<and> Q F' v' l') \<Longrightarrow> wp g Q F v l"
  by (simp add: wp_def)

lemma wpD:
  assumes "wp g Q F v l" "honest F v l cs"
  obtains cs' F' v' l' where "g cs = Ok cs'" "honest F' v' l' cs'" "Q F' v' l'"
  using assms by (auto simp: wp_def)

lemma wp_mono: "wp g Q F v l \<Longrightarrow> (\<And>F v l. Q F v l \<Longrightarrow> R F v l) \<Longrightarrow> wp g R F v l"
  unfolding wp_def by blast

lemma vals_Some: "vals cs n = Some x \<longleftrightarrow> (\<exists>j. cs_vars cs n = Some j \<and> cs_w cs ! j = x)"
  by (auto simp: vals_def)

lemma vals_None: "vals cs n = None \<longleftrightarrow> cs_vars cs n = None"
  by (simp add: vals_def)

lemma vals_dom: "dom (vals cs) = dom (cs_vars cs)"
  by (auto simp: vals_def dom_def)

lemma honest_var: "honest F v l cs \<Longrightarrow> v n = Some x \<Longrightarrow> \<exists>j<length (cs_w cs). cs_vars cs n = Some j \<and> cs_w cs ! j = x"
  using wf_r1csD(5) unfolding honest_def by (metis vals_Some)

section \<open>Control\<close>

lemma wp_Nil: "Q F v l \<Longrightarrow> wp (seq []) Q F v l"
  unfolding wp_def by auto

lemma wp_Cons: "wp g (wp (seq gs) Q) F v l \<Longrightarrow> wp (seq (g # gs)) Q F v l"
  unfolding wp_def by fastforce

lemma wp_with_var: "v n = Some x \<Longrightarrow> wp (f x) Q F v l \<Longrightarrow> wp (with_var n f) Q F v l"
proof (rule wpI)
  fix cs assume v: "v n = Some x" and f: "wp (f x) Q F v l" and cs: "honest F v l cs"
  obtain j where "j < length (cs_w cs)" "cs_vars cs n = Some j" "cs_w cs ! j = x" using honest_var [OF cs v] by blast
  then have "with_var n f cs = f x cs" by (simp add: with_var_def get_var_def cs_var_def index_def)
  then show "\<exists>cs' F' v' l'. with_var n f cs = Ok cs' \<and> honest F' v' l' cs' \<and> Q F' v' l'"
    using f cs by (auto simp: wp_def)
qed

lemma wp_unless: "wp g Q F v l \<Longrightarrow> wp (unless_witness_only g) Q F v l"
  unfolding wp_def by (auto simp: unless_witness_only_def honest_def)

lemma wp_loop:
  assumes "\<And>i Q. i < length xs \<Longrightarrow> Q (F (Suc i)) (v (Suc i)) (l (Suc i)) \<Longrightarrow> wp (g (xs ! i)) Q (F i) (v i) (l i)"
  shows "Q (F (length xs)) (v (length xs)) (l (length xs)) \<Longrightarrow> wp (seq (map g xs)) Q (F 0) (v 0) (l 0)"
  using assms
proof (induction xs arbitrary: F v l)
  case Nil
  then show ?case by (simp add: wp_Nil del: seq.simps)
next
  case (Cons x xs)
  have "wp (seq (map g xs)) Q (F (Suc 0)) (v (Suc 0)) (l (Suc 0))"
    by (rule Cons.IH [where F = "\<lambda>i. F (Suc i)" and v = "\<lambda>i. v (Suc i)" and l = "\<lambda>i. l (Suc i)"])
      (use Cons.prems(1) Cons.prems(2) [of "Suc _"] in auto)
  then show ?case using Cons.prems(2) [of 0] by (simp add: wp_Cons del: seq.simps)
qed

section \<open>Declarations and assignments\<close>

lemma fits_new_var:
  assumes "wf_r1cs cs" "cs_vars cs name = None" "fits (F(name \<mapsto> UNIV)) (fst (new_var cs name)) \<sigma>" "dom F \<subseteq> dom (cs_vars cs)"
  shows "fits F cs \<sigma>"
proof -
  have lt: "\<And>n j. cs_vars cs n = Some j \<Longrightarrow> j < length (cs_w cs)" using wf_r1csD(5) [OF assms(1)] by blast
  have new: "cs_vars (fst (new_var cs name)) = (cs_vars cs)(name \<mapsto> length (cs_w cs))"
    "cs_w (fst (new_var cs name)) = cs_w cs @ [0]"
    using assms(2) by (cases rule: new_var_cases [of cs name]; simp)+
  show ?thesis unfolding fits_def
  proof (intro allI impI conjI)
    fix j n A assume "j < length (cs_w cs)" "cs_vars cs n = Some j" "F n = Some A"
    then show "\<sigma> j \<in> A" using fitsD(1) [OF assms(3), of j n A] assms(2) by (cases "n = name") (simp_all add: new)
  next
    fix j assume j: "j < length (cs_w cs)" and free: "\<forall>n. cs_vars cs n = Some j \<longrightarrow> F n = None"
    then have "\<forall>n. ((cs_vars cs)(name \<mapsto> length (cs_w cs))) n = Some j \<longrightarrow> (F(name \<mapsto> UNIV)) n = None" by auto
    then show "\<sigma> j = cs_w cs ! j" using fitsD(2) [OF assms(3), of j] j by (simp add: new nth_append)
  qed
qed

lemma honest_new_var:
  assumes h: "honest F v l cs" and n: "v name = None"
  shows "honest (F(name \<mapsto> UNIV)) (v(name \<mapsto> 0)) l (fst (new_var cs name))"
proof -
  have wf: "wf_r1cs cs" and none: "cs_vars cs name = None" and dom: "dom F \<subseteq> dom (cs_vars cs)" and v: "vals cs = v"
    using h n vals_dom [of cs] unfolding honest_def by (auto simp: vals_None)
  have lt: "\<And>n j. cs_vars cs n = Some j \<Longrightarrow> j < length (cs_w cs)" using wf_r1csD(5) [OF wf] by blast
  have new: "cs_vars (fst (new_var cs name)) = (cs_vars cs)(name \<mapsto> length (cs_w cs))"
    "cs_w (fst (new_var cs name)) = cs_w cs @ [0]"
    using none by (cases rule: new_var_cases [of cs name]; simp)+
  have "vals (fst (new_var cs name)) = v(name \<mapsto> 0)"
    unfolding v [symmetric] by (auto simp: fun_eq_iff vals_def new nth_append dest: lt intro!: option.map_cong)
  moreover have "fits (F(name \<mapsto> UNIV)) (fst (new_var cs name)) (\<lambda>j. cs_w (fst (new_var cs name)) ! j)"
    using h none lt unfolding honest_def fits_def new by (auto simp: nth_append less_Suc_eq split: if_splits dest: lt)
  moreover have "sat (fst (new_var cs name)) \<sigma>" if "fits (F(name \<mapsto> UNIV)) (fst (new_var cs name)) \<sigma>" for \<sigma>
    using fits_new_var [OF wf none that dom] h by (simp add: sat_new_var [OF wf] honest_def)
  moreover have "cs_w (fst (new_var cs name)) ! 0 = 1"
    using h wf_r1csD(1) [OF wf] by (simp add: new honest_def nth_append)
  moreover have "dom (F(name \<mapsto> UNIV)) \<subseteq> dom (v(name \<mapsto> 0))" using h unfolding honest_def by auto
  ultimately show ?thesis
    using h wf_new_var [OF wf] unfolding honest_def by (simp add: new_var_frame)
qed

lemma wp_declare_new: "v n = None \<Longrightarrow> Q (F(n \<mapsto> UNIV)) (v(n \<mapsto> 0)) l \<Longrightarrow> wp (declare_var n) Q F v l"
  by (rule wpI) (auto simp: declare_var_def intro: honest_new_var)

lemma wp_declare_old: "v n = Some x \<Longrightarrow> Q F v l \<Longrightarrow> wp (declare_var n) Q F v l"
proof (rule wpI)
  fix cs assume "v n = Some x" "Q F v l" and h: "honest F v l cs"
  then obtain j where "cs_vars cs n = Some j" using honest_var by blast
  then have "declare_var n cs = Ok cs" by (simp add: declare_var_def new_var_def)
  with h \<open>Q F v l\<close> show "\<exists>cs' F' v' l'. declare_var n cs = Ok cs' \<and> honest F' v' l' cs' \<and> Q F' v' l'" by blast
qed

lemma wp_new_local:
  assumes "v n = None" "Q (F(n \<mapsto> UNIV)) (v(n \<mapsto> 0)) (l @ [n])"
  shows "wp (new_local_var n) Q F v l"
proof (rule wpI)
  fix cs assume h: "honest F v l cs"
  let ?cs = "(fst (new_var cs n))\<lparr>cs_locals := cs_locals cs @ [n]\<rparr>"
  have none: "cs_vars cs n = None" using h assms(1) vals_None unfolding honest_def by blast
  then have run: "new_local_var n cs = Ok ?cs" by (simp add: new_local_var_def Let_def new_var_frame)
  note new = honest_new_var [OF h assms(1)]
  have "wf_r1cs ?cs"
    using new new_var_frame(2) [of cs n] new_var_frame(4) [of n cs] unfolding honest_def wf_r1cs_def by auto
  moreover have "vals ?cs = vals (fst (new_var cs n))" by (simp add: fun_eq_iff vals_def)
  moreover have "fits G ?cs \<sigma> = fits G (fst (new_var cs n)) \<sigma>" "sat ?cs \<sigma> = sat (fst (new_var cs n)) \<sigma>" for G \<sigma>
    by (simp_all add: fits_def sat_def)
  ultimately have "honest (F(n \<mapsto> UNIV)) (v(n \<mapsto> 0)) (l @ [n]) ?cs"
    using new h unfolding honest_def by simp
  then show "\<exists>cs' F' v' l'. new_local_var n cs = Ok cs' \<and> honest F' v' l' cs' \<and> Q F' v' l'"
    using run assms(2) by blast
qed

text \<open>An open name may be assigned any of its values; a closed one only the value it has.\<close>

lemma wp_assign_open:
  assumes "F n = Some A" "x \<in> A" "Q F (v(n \<mapsto> x)) l"
  shows "wp (assign n x) Q F v l"
proof (rule wpI)
  fix cs assume h: "honest F v l cs"
  have wf: "wf_r1cs cs" using h by (simp add: honest_def)
  from h assms(1) have "n \<in> dom v" unfolding honest_def by blast
  then obtain j where j: "j < length (cs_w cs)" "cs_vars cs n = Some j" using honest_var [OF h] by blast
  let ?cs = "cs\<lparr>cs_w := (cs_w cs)[j := x]\<rparr>"
  have run: "assign n x cs = Ok ?cs" using j by (simp add: assign_def cs_var_def)
  have uniq: "m = n" if "cs_vars cs m = Some j" for m using wf_r1csD(6) [OF wf that j(2)] .
  have own: "fits F cs (\<lambda>j. cs_w cs ! j)" using h by (simp add: honest_def)
  have fits: "fits F ?cs \<sigma> \<Longrightarrow> fits F cs \<sigma>" for \<sigma>
    unfolding fits_def using j assms(1) by (auto simp: nth_list_update)
  have "0 < j" using wf_r1csD(5) [OF wf j(2)] by simp
  moreover have "wf_r1cs ?cs" using wf by (auto simp: wf_r1cs_def)
  moreover have "vals ?cs = (vals cs)(n \<mapsto> x)"
  proof
    fix m show "vals ?cs m = ((vals cs)(n \<mapsto> x)) m"
      using j uniq [of m] by (cases "cs_vars cs m") (auto simp: vals_def nth_list_update)
  qed
  moreover have "fits F ?cs (\<lambda>i. cs_w ?cs ! i)"
    unfolding fits_def
  proof (intro allI impI conjI)
    fix i m A' assume i: "i < length (cs_w ?cs)" "cs_vars ?cs m = Some i" "F m = Some A'"
    show "cs_w ?cs ! i \<in> A'"
    proof (cases "i = j")
      case True
      then show ?thesis using i uniq [of m] j(1) assms(1,2) by simp
    next
      case False
      then show ?thesis using i fitsD(1) [OF own, of i m A'] by simp
    qed
  qed simp
  moreover have "sat ?cs \<sigma>" if "fits F ?cs \<sigma>" for \<sigma>
    using fits [OF that] h by (simp add: honest_def sat_def)
  ultimately have "honest F (v(n \<mapsto> x)) l ?cs" using h unfolding honest_def by auto
  then show "\<exists>cs' F' v' l'. assign n x cs = Ok cs' \<and> honest F' v' l' cs' \<and> Q F' v' l'" using run assms(3) by blast
qed

lemma wp_assign_same:
  assumes "v n = Some x" "Q F v l"
  shows "wp (assign n x) Q F v l"
proof (rule wpI)
  fix cs assume h: "honest F v l cs"
  obtain j where j: "j < length (cs_w cs)" "cs_vars cs n = Some j" "cs_w cs ! j = x" using honest_var [OF h assms(1)] by blast
  then have "assign n x cs = Ok (cs\<lparr>cs_w := (cs_w cs)[j := cs_w cs ! j]\<rparr>)" by (simp add: assign_def cs_var_def)
  then have "assign n x cs = Ok cs" by simp
  then show "\<exists>cs' F' v' l'. assign n x cs = Ok cs' \<and> honest F' v' l' cs' \<and> Q F' v' l'" using h assms(2) by blast
qed

text \<open>Closing a name, and restricting the values it may take.\<close>

lemma honest_restrict:
  assumes h: "honest F v l cs" and F': "dom F' \<subseteq> dom F" "\<And>n A. F' n = Some A \<Longrightarrow> A \<subseteq> the (F n) \<and> the (v n) \<in> A"
  shows "honest F' v l cs"
proof -
  have v: "cs_w cs ! j = the (v n)" if "cs_vars cs n = Some j" for n j
    using h that by (auto simp: honest_def vals_def)
  have own: "fits F cs (\<lambda>j. cs_w cs ! j)" using h by (simp add: honest_def)
  have "fits F cs \<sigma>" if f: "fits F' cs \<sigma>" for \<sigma>
    unfolding fits_def
  proof (intro allI impI conjI)
    fix j n A assume j: "j < length (cs_w cs)" "cs_vars cs n = Some j" "F n = Some A"
    show "\<sigma> j \<in> A"
    proof (cases "F' n")
      case None
      have "m = n" if "cs_vars cs m = Some j" for m using wf_r1csD(6) [OF _ that j(2)] h by (simp add: honest_def)
      then have "\<sigma> j = cs_w cs ! j" using None by (intro fitsD(2) [OF f j(1)]) auto
      then show ?thesis using fitsD(1) [OF own j] by simp
    next
      case (Some B)
      then show ?thesis using fitsD(1) [OF f j(1,2) Some] F'(2) [OF Some] j(3) by auto
    qed
  next
    fix j assume j: "j < length (cs_w cs)" and "\<forall>n. cs_vars cs n = Some j \<longrightarrow> F n = None"
    then show "\<sigma> j = cs_w cs ! j" using F'(1) by (intro fitsD(2) [OF f j]) (auto simp: dom_def)
  qed
  moreover have "fits F' cs (\<lambda>j. cs_w cs ! j)" unfolding fits_def using F'(2) v by auto
  ultimately show ?thesis using h F'(1) unfolding honest_def by blast
qed

lemma honest_close:
  assumes h: "honest F v l cs"
  shows "honest (F(n := None)) v l cs"
proof (rule honest_restrict [OF h])
  fix m A assume m: "(F(n := None)) m = Some A"
  then have "F m = Some A" by (simp split: if_splits)
  then obtain j where j: "j < length (cs_w cs)" "cs_vars cs m = Some j" "cs_w cs ! j = the (v m)"
    using honest_var [OF h, of m "the (v m)"] h unfolding honest_def by fastforce
  then show "A \<subseteq> the (F m) \<and> the (v m) \<in> A"
    using fitsD(1) [of F cs "\<lambda>j. cs_w cs ! j" j m A] h \<open>F m = Some A\<close> by (simp add: honest_def)
qed auto

lemma wp_close: "wp g Q (F(n := None)) v l \<Longrightarrow> wp g Q F v l"
  using honest_close unfolding wp_def by blast

lemma wp_close_post: "wp g (\<lambda>F v l. Q (F(n := None)) v l) F v l \<Longrightarrow> wp g Q F v l"
  using honest_close unfolding wp_def by meson

section \<open>Constraints and sealing\<close>

text \<open>The refs of a row are declared and closed.\<close>

definition closed :: "'f opens \<Rightarrow> 'f vals \<Rightarrow> 'f entry list \<Rightarrow> bool" where
  "closed F v es \<longleftrightarrow> (\<forall>e \<in> set es. case entry_ref e of One \<Rightarrow> True | Var n \<Rightarrow> v n \<noteq> None)"

text \<open>A valuation that respects the closed values and the open sets.\<close>

definition compat :: "'f opens \<Rightarrow> 'f vals \<Rightarrow> (string \<Rightarrow> 'f) \<Rightarrow> bool" where
  "compat F v \<rho> \<longleftrightarrow> (\<forall>n. v n \<noteq> None \<longrightarrow> (case F n of None \<Rightarrow> \<rho> n = the (v n) | Some A \<Rightarrow> \<rho> n \<in> A))"

lemma resolve_closed:
  assumes "honest F v l cs" "e \<in> set es" "closed F v es"
  shows "\<exists>j<length (cs_w cs). resolve cs (entry_ref e) = Ok j"
proof (cases "entry_ref e")
  case One
  then show ?thesis using assms(1) wf_r1csD(1) by (fastforce simp: honest_def)
next
  case (Var n)
  then obtain x where "v n = Some x" using assms(2,3) by (fastforce simp: closed_def)
  then show ?thesis using honest_var [OF assms(1)] Var by (fastforce simp: cs_var_def)
qed

lemma fill_closed:
  assumes "honest F v l cs" "closed F v es" "length row = length (cs_w cs)"
  shows "\<exists>row'. fill cs es row = Ok row'"
  using assms(2,3)
proof (induction es arbitrary: row)
  case (Cons e es)
  obtain j where "j < length (cs_w cs)" "resolve cs (entry_ref e) = Ok j"
    using resolve_closed [OF assms(1), of e "e # es"] Cons.prems(1) by auto
  moreover have "closed F v es" using Cons.prems(1) by (simp add: closed_def)
  ultimately show ?case using Cons.IH [of "row[j := _]"] Cons.prems(2) by simp
qed simp

lemma fits_compat:
  assumes "honest F v l cs" "fits F cs \<sigma>"
  shows "compat F v (named cs \<sigma>)" "\<sigma> 0 = 1"
proof -
  have wf: "wf_r1cs cs" and v: "vals cs = v" using assms(1) by (simp_all add: honest_def)
  show "compat F v (named cs \<sigma>)" unfolding compat_def
  proof (intro allI impI)
    fix n assume "v n \<noteq> None"
    then obtain j where j: "j < length (cs_w cs)" "cs_vars cs n = Some j" "cs_w cs ! j = the (v n)"
      using honest_var [OF assms(1)] by fastforce
    show "case F n of None \<Rightarrow> named cs \<sigma> n = the (v n) | Some A \<Rightarrow> named cs \<sigma> n \<in> A"
    proof (cases "F n")
      case None
      have "m = n" if "cs_vars cs m = Some j" for m using wf_r1csD(6) [OF wf that j(2)] .
      then have "\<sigma> j = cs_w cs ! j" using None by (intro fitsD(2) [OF assms(2) j(1)]) auto
      then show ?thesis using None j by (simp add: named_def)
    next
      case (Some A)
      then show ?thesis using fitsD(1) [OF assms(2) j(1,2)] j(2) by (simp add: named_def)
    qed
  qed
  have "\<sigma> 0 = cs_w cs ! 0"
  proof (rule fitsD(2) [OF assms(2)])
    show "0 < length (cs_w cs)" using wf_r1csD(1) [OF wf] by simp
    fix n assume "cs_vars cs n = Some 0"
    then show "F n = None" using wf_r1csD(5) [OF wf] by blast
  qed
  then show "\<sigma> 0 = 1" using assms(1) by (simp add: honest_def)
qed

lemma wp_constraint:
  assumes "closed F v a" "closed F v b" "closed F v c" "put_ok {} a" "put_ok {} b" "put_ok {} c"
    and sem: "\<And>\<rho>. compat F v \<rho> \<Longrightarrow> lin \<rho> a * lin \<rho> b = lin \<rho> c" and "Q F v l"
  shows "wp (constraint a b c) Q F v l"
proof (rule wpI)
  fix cs assume h: "honest F v l cs"
  have wf: "wf_r1cs cs" using h by (simp add: honest_def)
  let ?z = "replicate (length (cs_w cs)) 0"
  obtain ra rb rc where r: "fill cs a ?z = Ok ra" "fill cs b ?z = Ok rb" "fill cs c ?z = Ok rc"
    using fill_closed [OF h assms(1), of ?z] fill_closed [OF h assms(2), of ?z] fill_closed [OF h assms(3), of ?z] by auto
  let ?cs = "cs\<lparr>cs_a := cs_a cs @ [ra], cs_b := cs_b cs @ [rb], cs_c := cs_c cs @ [rc]\<rparr>"
  have run: "constraint a b c cs = Ok ?cs" using h r by (simp add: constraint_def honest_def)
  have len: "length ra = length (cs_w cs)" "length rb = length (cs_w cs)" "length rc = length (cs_w cs)"
    using fill_length [OF r(1)] fill_length [OF r(2)] fill_length [OF r(3)] by simp_all
  have wf': "wf_r1cs ?cs" using wf len by (auto simp: wf_r1cs_def)
  have fits: "fits F ?cs = fits F cs" and "vals ?cs = vals cs" by (simp_all add: fun_eq_iff fits_def vals_def)
  have "sat ?cs \<sigma>" if f: "fits F cs \<sigma>" for \<sigma>
  proof -
    have val: "row_val ro \<sigma> = lin (named cs \<sigma>) e" if "fill cs e ?z = Ok ro" "put_ok {} e" for e ro
      using fill_val [OF wf agree_named [of cs \<sigma>] _ that] fits_compat(2) [OF h f] by simp
    have "row_val ra \<sigma> * row_val rb \<sigma> = row_val rc \<sigma>"
      using val [OF r(1) assms(4)] val [OF r(2) assms(5)] val [OF r(3) assms(6)] sem [OF fits_compat(1) [OF h f]] by simp
    moreover have "sat cs \<sigma>" using h f by (simp add: honest_def)
    ultimately show ?thesis using wf_r1csD(2,3) [OF wf] by (auto simp: sat_def nth_append less_Suc_eq)
  qed
  then have "honest F v l ?cs" using h wf' \<open>vals ?cs = vals cs\<close> unfolding honest_def fits by simp
  then show "\<exists>cs' F' v' l'. constraint a b c cs = Ok cs' \<and> honest F' v' l' cs' \<and> Q F' v' l'" using run assms(8) by blast
qed

lemma wp_seal:
  assumes "Q (F |` (- set l)) (v |` (- set l)) []"
  shows "wp seal Q F v l"
proof (rule wpI)
  fix cs assume h: "honest F v l cs"
  let ?F = "F |` (- set l)" and ?cs = "cs\<lparr>cs_vars := pub cs, cs_locals := []\<rparr>"
  have l: "cs_locals cs = l" and wf: "wf_r1cs cs" and v: "vals cs = v" using h by (simp_all add: honest_def)
  have own: "fits F cs (\<lambda>j. cs_w cs ! j)" using h by (simp add: honest_def)
  have "honest ?F v l cs"
  proof (rule honest_restrict [OF h])
    fix m A assume "?F m = Some A"
    then have A: "F m = Some A" by (simp add: restrict_map_def split: if_splits)
    then obtain j where "j < length (cs_w cs)" "cs_vars cs m = Some j" "cs_w cs ! j = the (v m)"
      using honest_var [OF h, of m "the (v m)"] h unfolding honest_def by fastforce
    then show "A \<subseteq> the (F m) \<and> the (v m) \<in> A" using fitsD(1) [OF own, of j m A] A by simp
  qed (auto simp: restrict_map_def split: if_splits)
  moreover have "fits ?F ?cs \<sigma> \<longleftrightarrow> fits ?F cs \<sigma>" for \<sigma>
    unfolding fits_def pub_def l by (auto simp: restrict_map_def)
  moreover have "vals ?cs = v |` (- set l)" unfolding v [symmetric]
    by (auto simp: fun_eq_iff vals_def pub_def l restrict_map_def)
  moreover have "dom ?F \<subseteq> dom (v |` (- set l))" using h by (auto simp: honest_def)
  ultimately have "honest ?F (v |` (- set l)) [] ?cs"
    using wf_seal [OF wf] unfolding honest_def by (simp add: sat_def)
  then show "\<exists>cs' F' v' l'. seal cs = Ok cs' \<and> honest F' v' l' cs' \<and> Q F' v' l'" using assms seal_Ok by blast
qed

section \<open>Derived rules\<close>

lemma wp_honest: "(dom F \<subseteq> dom v \<Longrightarrow> wp g Q F v l) \<Longrightarrow> wp g Q F v l"
  unfolding wp_def honest_def by blast

lemma no_open: "dom F \<subseteq> dom v \<Longrightarrow> v n = None \<Longrightarrow> F(n := None) = F"
  by (metis domIff fun_upd_triv in_mono)

lemma upd_same: "v n = Some x \<Longrightarrow> v(n \<mapsto> x) = v"
  by auto

text \<open>The names of a row are declared and closed; then only their values matter.\<close>

definition shut :: "'f opens \<Rightarrow> 'f vals \<Rightarrow> string \<Rightarrow> bool" where
  "shut F v n \<longleftrightarrow> v n \<noteq> None \<and> F n = None"

fun shut_row :: "'f opens \<Rightarrow> 'f vals \<Rightarrow> 'f entry list \<Rightarrow> bool" where
  "shut_row F v [] = True"
| "shut_row F v (e # es) \<longleftrightarrow> (case entry_ref e of One \<Rightarrow> True | Var n \<Rightarrow> shut F v n) \<and> shut_row F v es"

lemma shut_row_iff: "shut_row F v es \<longleftrightarrow> (\<forall>e \<in> set es. case entry_ref e of One \<Rightarrow> True | Var n \<Rightarrow> shut F v n)"
  by (induction es) auto

lemma shut_closed: "shut_row F v es \<Longrightarrow> closed F v es"
  unfolding shut_row_iff closed_def shut_def by (auto split: ref.splits)

lemma shut_lin: "shut_row F v es \<Longrightarrow> compat F v \<rho> \<Longrightarrow> lin \<rho> es = lin (\<lambda>n. the (v n)) es"
  by (induction es) (auto simp: compat_def shut_def split: ref.splits)

lemma wp_row:
  assumes "shut_row F v a" "shut_row F v b" "shut_row F v c" "put_ok {} a" "put_ok {} b" "put_ok {} c"
    and "lin (\<lambda>n. the (v n)) a * lin (\<lambda>n. the (v n)) b = lin (\<lambda>n. the (v n)) c" and "Q F v l"
  shows "wp (constraint a b c) Q F v l"
proof (rule wp_constraint)
  fix \<rho> assume "compat F v \<rho>"
  then show "lin \<rho> a * lin \<rho> b = lin \<rho> c" using assms(1-3,7) shut_lin by metis
qed (use assms in \<open>simp_all add: shut_closed\<close>)

end
