(* ===== verification/Runs.thy ===== *)
theory Runs
  imports Honest Alu_Gadgets
begin

text \<open>
  Completeness of builders against a valuation.  Fix the value \<open>\<rho> n\<close> a name is to have.  \<open>runs \<rho> s g t\<close> says
  that the builder \<open>g\<close>, started on an honest system described by \<open>s\<close>, does not fail and leaves an honest
  system described by \<open>t\<close>: a description holds the names that may still be assigned freely, names that are
  declared, and a bound for the pending local names.  Every operation then has one rule, whose premises
  say that the value it assigns is the one \<open>\<rho>\<close> gives and that the row it emits holds for \<open>\<rho>\<close>.
\<close>

declare of_nat_unat [simp del]

lemma bit_drop_iff: "(drop_bit i x AND 1 = 1) = bit x i" for x :: u32
  by (simp add: bit_iff_odd_drop_bit flip: odd_iff_mod_2_eq_one take_bit_eq_mod) (simp add: and_one_eq odd_iff_mod_2_eq_one)

section \<open>Stems of names\<close>

text \<open>A name is a stem followed by a decimal numeral, which may be missing.\<close>

definition is_digit :: "char \<Rightarrow> bool" where
  "is_digit c \<longleftrightarrow> c \<in> digits"

definition stem :: "string \<Rightarrow> string" where
  "stem n = rev (dropWhile is_digit (rev n))"

definition suffix :: "string \<Rightarrow> string" where
  "suffix n = rev (takeWhile is_digit (rev n))"

definition suffix_num :: "string \<Rightarrow> nat" where
  "suffix_num n = foldl (\<lambda>k c. 10 * k + (of_char c - 48)) 0 (suffix n)"

lemma takeWhile_append_last: "(\<And>x. x \<in> set xs \<Longrightarrow> P x) \<Longrightarrow> ys = [] \<or> \<not> P (hd ys) \<Longrightarrow> takeWhile P (xs @ ys) = xs"
  by (induction xs) (cases ys; auto)+

lemma dropWhile_append_last: "(\<And>x. x \<in> set xs \<Longrightarrow> P x) \<Longrightarrow> ys = [] \<or> \<not> P (hd ys) \<Longrightarrow> dropWhile P (xs @ ys) = ys"
  by (induction xs) (cases ys; auto)+

lemma stem_nat_str:
  assumes "b = [] \<or> \<not> is_digit (last b)"
  shows "stem (b @ nat_str i) = b" "suffix (b @ nat_str i) = nat_str i"
proof -
  have d: "\<And>c. c \<in> set (rev (nat_str i)) \<Longrightarrow> is_digit c"
    using nat_str_digits unfolding set_rev is_digit_def by blast
  have h: "rev b = [] \<or> \<not> is_digit (hd (rev b))" using assms by (simp add: hd_rev)
  show "stem (b @ nat_str i) = b" "suffix (b @ nat_str i) = nat_str i"
    using dropWhile_append_last [of "rev (nat_str i)" is_digit "rev b"] takeWhile_append_last [of "rev (nat_str i)" is_digit "rev b"] d h
    unfolding stem_def suffix_def rev_append by auto
qed

lemma nat_str_value: "foldl (\<lambda>k c. 10 * k + (of_char c - 48)) 0 (nat_str n) = n"
proof (induction n rule: nat_str.induct)
  case (1 n)
  have c: "of_char (char_of (48 + m) :: char) - 48 = m" if "m < 10" for m :: nat using that by simp
  show ?case
  proof (cases "n < 10")
    case True
    then show ?thesis using c [of n] by (subst nat_str.simps) simp
  next
    case False
    then show ?thesis using "1.IH" c [of "n mod 10"] by (subst nat_str.simps) simp
  qed
qed

lemma suffix_num_nat_str: "b = [] \<or> \<not> is_digit (last b) \<Longrightarrow> suffix_num (b @ nat_str i) = i"
  unfolding suffix_num_def stem_nat_str(2) nat_str_value ..

text \<open>Computing with names whose end is a numeral.\<close>

lemma stem_rec: "stem [] = []" "stem (c # cs) = (if stem cs = [] \<and> is_digit c then [] else c # stem cs)"
  by (auto simp: stem_def dropWhile_append)

lemma suffix_rec: "suffix [] = []" "suffix (c # cs) = (if stem cs = [] \<and> is_digit c then c # cs else suffix cs)"
proof -
  show "suffix (c # cs) = (if stem cs = [] \<and> is_digit c then c # cs else suffix cs)"
  proof (cases "\<forall>x\<in>set cs. is_digit x")
    case True
    then have t: "takeWhile is_digit (rev cs) = rev cs" and "stem cs = []" by (simp_all add: takeWhile_eq_all_conv stem_def)
    then show ?thesis using True unfolding suffix_def rev.simps takeWhile_append t by simp
  next
    case False
    then have "stem cs \<noteq> []" by (auto simp: stem_def)
    with False show ?thesis by (auto simp: suffix_def takeWhile_append)
  qed
qed (simp add: suffix_def)

lemma stem_numeral: "stem (nat_str i) = []" "suffix (nat_str i) = nat_str i"
  using stem_nat_str [of "[]" i] by simp_all

lemma stem_case: "stem (c # cs) = (case stem cs of [] \<Rightarrow> if is_digit c then [] else [c] | x # xs \<Rightarrow> c # x # xs)"
  unfolding stem_rec(2) by (cases "stem cs") simp_all

lemma suffix_case: "suffix (c # cs) = (case stem cs of [] \<Rightarrow> if is_digit c then c # cs else suffix cs | _ # _ \<Rightarrow> suffix cs)"
  unfolding suffix_rec(2) by (cases "stem cs") simp_all

named_theorems name_simps \<open>evaluation of names\<close>

lemmas [name_simps] = stem_rec(1) stem_case suffix_rec(1) suffix_case stem_numeral suffix_num_def nat_str_value is_digit_def u32_str_def

text \<open>Overriding a valuation by a table from stems to functions of the numeral.\<close>

definition alt :: "(string \<times> (nat \<Rightarrow> 'f)) list \<Rightarrow> (string \<Rightarrow> 'f) \<Rightarrow> string \<Rightarrow> 'f" where
  "alt t \<rho> n = (case map_of t (stem n) of Some f \<Rightarrow> f (suffix_num n) | None \<Rightarrow> \<rho> n)"

lemma alt_nat_str:
  "b = [] \<or> \<not> is_digit (last b) \<Longrightarrow> alt t \<rho> (b @ nat_str i) = (case map_of t b of Some f \<Rightarrow> f i | None \<Rightarrow> \<rho> (b @ nat_str i))"
  unfolding alt_def stem_nat_str suffix_num_nat_str ..

section \<open>Local names\<close>

definition local_stems :: "string list" where
  "local_stems = [''x-'', ''l'', ''r'', ''cx'', ''rsx'', ''z'', ''O'', ''ds'', ''Xs*Ys'', ''sltl'', ''sltr'', ''tiI'', ''tiS'',
     ''tiB'', ''tiU'', ''tiJ'', ''tiA'', ''is_shift'', ''a'', ''shamt_i'', ''shamt_r'', ''f3=0a'', ''f3=0b'', ''f3=5a'', ''f3=5b'',
     ''ecall'', ''left'', ''right'', ''out'', ''SZ'']"

text \<open>The local names of \<^verbatim>\<open>choose\<close> begin with the number of a column.\<close>

definition choose_names :: "string set" where
  "choose_names = {n. n \<noteq> [] \<and> is_digit (hd n)}"

definition locals :: "string set" where
  "locals = {n. stem n \<in> set local_stems} \<union> choose_names"

lemma choose_Cons [name_simps]: "c # cs \<in> choose_names \<longleftrightarrow> is_digit c" "[] \<notin> choose_names"
  by (simp_all add: choose_names_def)

lemmas [name_simps] = locals_def local_stems_def

lemma insert_locals: "insert n E \<inter> locals = {} \<longleftrightarrow> n \<notin> locals \<and> E \<inter> locals = {}" "(D \<union> E) \<inter> locals = {} \<longleftrightarrow> D \<inter> locals = {} \<and> E \<inter> locals = {}"
  by auto

lemma locals_nat_str:
  "b \<noteq> [] \<Longrightarrow> \<not> is_digit (last b) \<Longrightarrow> \<not> is_digit (hd b) \<Longrightarrow> b @ nat_str i \<in> locals \<longleftrightarrow> b \<in> set local_stems"
  by (simp add: locals_def stem_nat_str choose_names_def)

section \<open>Descriptions\<close>

type_synonym descr = "string set \<times> string set \<times> string set"

fun holds :: "(string \<Rightarrow> 'f) \<Rightarrow> descr \<Rightarrow> 'f opens \<Rightarrow> 'f vals \<Rightarrow> string list \<Rightarrow> bool" where
  "holds \<rho> (Op, D, A) F v l \<longleftrightarrow>
     (\<forall>n. F n = None \<or> n \<in> Op \<and> F n = Some UNIV)
     \<and> (\<forall>n. n \<notin> choose_names \<longrightarrow> F n = None \<longrightarrow> v n = None \<or> v n = Some (\<rho> n))
     \<and> D \<subseteq> dom v \<and> set l = dom v \<inter> locals \<and> set l \<subseteq> A"

declare holds.simps [simp del]

definition runs :: "(string \<Rightarrow> 'f) \<Rightarrow> descr \<Rightarrow> 'f::field builder \<Rightarrow> descr \<Rightarrow> bool" where
  "runs \<rho> s g t \<longleftrightarrow> (\<forall>F v l. holds \<rho> s F v l \<longrightarrow> wp g (holds \<rho> t) F v l)"

lemma runsI: "(\<And>F v l. holds \<rho> s F v l \<Longrightarrow> wp g (holds \<rho> t) F v l) \<Longrightarrow> runs \<rho> s g t"
  by (simp add: runs_def)

lemma holdsD:
  assumes "holds \<rho> (Op, D, A) F v l"
  shows "F n = None \<or> n \<in> Op \<and> F n = Some UNIV"
    "n \<notin> choose_names \<Longrightarrow> F n = None \<Longrightarrow> v n = None \<or> v n = Some (\<rho> n)"
    "n \<in> D \<Longrightarrow> \<exists>x. v n = Some x" "set l = dom v \<inter> locals" "set l \<subseteq> A"
  using assms unfolding holds.simps by blast+

lemma holdsI:
  assumes "\<And>n. F n = None \<or> n \<in> Op \<and> F n = Some UNIV"
    "\<And>n. n \<notin> choose_names \<Longrightarrow> F n = None \<Longrightarrow> v n = None \<or> v n = Some (\<rho> n)"
    "D \<subseteq> dom v" "set l = dom v \<inter> locals" "set l \<subseteq> A"
  shows "holds \<rho> (Op, D, A) F v l"
  using assms unfolding holds.simps by blast

lemma holds_dom: "holds \<rho> (Op, D, A) F v l \<Longrightarrow> D \<subseteq> dom v"
  unfolding holds.simps by blast

lemma holds_tracked:
  assumes "holds \<rho> (Op, D, A) F v l" "n \<in> D" "n \<notin> Op" "n \<notin> choose_names"
  shows "v n = Some (\<rho> n)" "F n = None"
proof -
  show F: "F n = None" using holdsD(1) [OF assms(1), of n] assms(3) by blast
  obtain x where "v n = Some x" using holdsD(3) [OF assms(1,2)] by (elim exE)
  with holdsD(2) [OF assms(1,4) F] show "v n = Some (\<rho> n)" by (elim disjE) simp_all
qed

lemma holds_mono: "holds \<rho> (Op, D, A) F v l \<Longrightarrow> Op \<subseteq> Op' \<Longrightarrow> D' \<subseteq> D \<Longrightarrow> A \<subseteq> A' \<Longrightarrow> holds \<rho> (Op', D', A') F v l"
  unfolding holds.simps by (elim conjE, intro conjI allI) (blast | assumption)+

lemma runsD: "runs \<rho> s g t \<Longrightarrow> holds \<rho> s F v l \<Longrightarrow> wp g (holds \<rho> t) F v l"
  by (simp add: runs_def)

lemma runs_mono:
  assumes "runs \<rho> s g (Op, D, A)" "Op \<subseteq> Op'" "D' \<subseteq> D" "A \<subseteq> A'"
  shows "runs \<rho> s g (Op', D', A')"
  by (rule runsI, rule wp_mono [OF runsD [OF assms(1)]], assumption, rule holds_mono [OF _ assms(2-4)])

lemma runs_pre: "runs \<rho> (Op, D, A) g t \<Longrightarrow> Op' \<subseteq> Op \<Longrightarrow> D \<subseteq> D' \<Longrightarrow> A' \<subseteq> A \<Longrightarrow> runs \<rho> (Op', D', A') g t"
  unfolding runs_def by (intro allI impI) (drule (3) holds_mono, blast)

named_theorems runs_rules \<open>completeness of the operations of the builder\<close>

section \<open>Control\<close>

lemma runs_Nil: "Op \<subseteq> Op' \<Longrightarrow> D' \<subseteq> D \<Longrightarrow> A \<subseteq> A' \<Longrightarrow> runs \<rho> (Op, D, A) (seq []) (Op', D', A')"
  unfolding runs_def by (blast intro: wp_Nil holds_mono)

lemma runs_Cons: "runs \<rho> s g t \<Longrightarrow> runs \<rho> t (seq gs) u \<Longrightarrow> runs \<rho> s (seq (g # gs)) u"
  unfolding runs_def by (blast intro: wp_Cons wp_mono)

lemma runs_with_var [runs_rules]:
  "n \<in> D \<Longrightarrow> n \<notin> Op \<Longrightarrow> n \<notin> choose_names \<Longrightarrow> runs \<rho> (Op, D, A) (f (\<rho> n)) t \<Longrightarrow> runs \<rho> (Op, D, A) (with_var n f) t"
  unfolding runs_def using holds_tracked by (meson wp_with_var)

lemma runs_with_col [runs_rules]:
  assumes "n \<in> D" "\<And>j. runs \<rho> (Op, D, A) (f j) t"
  shows "runs \<rho> (Op, D, A) (with_col n f) t"
proof (rule runsI, rule wpI)
  fix F v l cs assume h: "holds \<rho> (Op, D, A) F v l" and cs: "honest F v l cs"
  from holdsD(3) [OF h assms(1)] obtain j where "cs_vars cs n = Some j" using honest_var [OF cs] by blast
  then have "with_col n f cs = f j cs" by (simp add: with_col_def cs_var_def)
  moreover have "wp (f j) (holds \<rho> t) F v l" using assms(2) h by (simp add: runs_def)
  ultimately show "\<exists>cs' F' v' l'. with_col n f cs = Ok cs' \<and> honest F' v' l' cs' \<and> holds \<rho> t F' v' l'"
    using cs by (auto simp: wp_def)
qed

lemma runs_with_result [runs_rules]: "r = Ok x \<Longrightarrow> runs \<rho> s (f x) t \<Longrightarrow> runs \<rho> s (with_result r f) t"
  by (simp add: with_result_def runs_def wp_def)

lemma runs_unless [runs_rules]: "runs \<rho> s g t \<Longrightarrow> runs \<rho> s (unless_witness_only g) t"
  unfolding runs_def by (simp add: wp_unless)

text \<open>A loop whose descriptions follow an index.\<close>

lemma runs_loop:
  assumes "\<And>i. i < length xs \<Longrightarrow> runs \<rho> (s i) (g (xs ! i)) (s (Suc i))"
  shows "runs \<rho> (s 0) (seq (map g xs)) (s (length xs))"
  using assms
proof (induction xs arbitrary: s)
  case Nil
  then show ?case by (cases "s 0") (simp add: runs_Nil del: seq.simps)
next
  case (Cons x xs)
  have "runs \<rho> (s (Suc 0)) (seq (map g xs)) (s (Suc (length xs)))"
    by (rule Cons.IH [of "\<lambda>i. s (Suc i)"]) (use Cons.prems [of "Suc _"] in auto)
  then show ?case using Cons.prems [of 0] by (auto intro: runs_Cons simp del: seq.simps)
qed

text \<open>A loop whose iterations are independent.\<close>

lemma runs_each:
  assumes "\<And>x D'. x \<in> set xs \<Longrightarrow> D \<subseteq> D' \<Longrightarrow> runs \<rho> (Op, D', A) (g x) (Op, D' \<union> E x, A)"
  shows "runs \<rho> (Op, D, A) (seq (map g xs)) (Op, D \<union> (\<Union>x\<in>set xs. E x), A)"
proof -
  have "runs \<rho> (Op, D \<union> (\<Union>x\<in>set (take i xs). E x), A) (g (xs ! i)) (Op, D \<union> (\<Union>x\<in>set (take (Suc i) xs). E x), A)"
    if i: "i < length xs" for i
    using assms [of "xs ! i" "D \<union> (\<Union>x\<in>set (take i xs). E x)"] i by (simp add: take_Suc_conv_app_nth ac_simps)
  from runs_loop [of xs \<rho> "\<lambda>i. (Op, D \<union> (\<Union>x\<in>set (take i xs). E x), A)", OF this] show ?thesis by simp
qed

section \<open>Declarations, assignments and sealing\<close>

lemma dom_upd_locals: "n \<notin> locals \<Longrightarrow> dom (v(n \<mapsto> x)) \<inter> locals = dom v \<inter> locals"
  by auto

lemma runs_declare:
  assumes "n \<notin> locals"
  shows "runs \<rho> (Op, D, A) (declare_var n) (insert n Op, insert n D, A)"
proof (rule runsI)
  fix F v l assume h: "holds \<rho> (Op, D, A) F v l"
  note h' = h [unfolded holds.simps]
  show "wp (declare_var n) (holds \<rho> (insert n Op, insert n D, A)) F v l"
  proof (cases "v n")
    case None
    have "holds \<rho> (insert n Op, insert n D, A) (F(n \<mapsto> UNIV)) (v(n \<mapsto> 0)) l"
      unfolding holds.simps dom_upd_locals [OF assms] using h' by auto
    then show ?thesis by (intro wp_declare_new [of v n] None)
  next
    case (Some x)
    have "holds \<rho> (insert n Op, insert n D, A) F v l"
    proof (rule holdsI)
      show "F m = None \<or> m \<in> insert n Op \<and> F m = Some UNIV" for m using holdsD(1) [OF h, of m] by blast
      show "insert n D \<subseteq> dom v" using holds_dom [OF h] Some by blast
    qed (rule holdsD [OF h], assumption+, rule holdsD [OF h], rule holdsD [OF h])
    then show ?thesis by (rule wp_declare_old [of v, OF Some])
  qed
qed

lemma runs_new_local:
  assumes "n \<in> locals" "n \<notin> A"
  shows "runs \<rho> (Op, D, A) (new_local_var n) (insert n Op, insert n D, insert n A)"
proof (rule runsI)
  fix F v l assume h: "holds \<rho> (Op, D, A) F v l"
  note h' = h [unfolded holds.simps]
  have None: "v n = None" using h' assms by auto
  have "holds \<rho> (insert n Op, insert n D, insert n A) (F(n \<mapsto> UNIV)) (v(n \<mapsto> 0)) (l @ [n])"
    unfolding holds.simps using h' assms by auto
  then show "wp (new_local_var n) (holds \<rho> (insert n Op, insert n D, insert n A)) F v l" by (intro wp_new_local [of v n] None)
qed

lemma runs_assign:
  assumes "n \<in> D" "\<rho> n = x" "n \<notin> choose_names"
  shows "runs \<rho> (Op, D, A) (assign n x) (Op - {n}, D, A)"
proof (rule runsI)
  fix F v l assume h: "holds \<rho> (Op, D, A) F v l"
  note h' = h [unfolded holds.simps]
  obtain y where y: "v n = Some y" using holdsD(3) [OF h assms(1)] by (elim exE)
  show "wp (assign n x) (holds \<rho> (Op - {n}, D, A)) F v l"
  proof (cases "F n")
    case None
    then have "y = x" using holdsD(2) [OF h assms(3) None] y assms(2) by simp
    moreover have "holds \<rho> (Op - {n}, D, A) F v l"
    proof (rule holdsI)
      show "F m = None \<or> m \<in> Op - {n} \<and> F m = Some UNIV" for m using holdsD(1) [OF h, of m] None by (cases "m = n") auto
      show "D \<subseteq> dom v" by (rule holds_dom [OF h])
    qed (rule holdsD [OF h], assumption+, rule holdsD [OF h], rule holdsD [OF h])
    ultimately show ?thesis using y wp_assign_same by metis
  next
    case (Some B)
    then have "F n = Some UNIV" using holdsD(1) [OF h, of n] by simp
    moreover have "holds \<rho> (Op - {n}, D, A) (F(n := None)) (v(n \<mapsto> x)) l"
    proof (rule holdsI)
      show "(F(n := None)) m = None \<or> m \<in> Op - {n} \<and> (F(n := None)) m = Some UNIV" for m
        using holdsD(1) [OF h, of m] by (cases "m = n") auto
      show "(v(n \<mapsto> x)) m = None \<or> (v(n \<mapsto> x)) m = Some (\<rho> m)" if "m \<notin> choose_names" "(F(n := None)) m = None" for m
        using holdsD(2) [OF h that(1)] that(2) assms(2) by (cases "m = n") auto
      show "D \<subseteq> dom (v(n \<mapsto> x))" using holds_dom [OF h] by auto
      show "set l = dom (v(n \<mapsto> x)) \<inter> locals" using holdsD(4) [OF h] y by auto
    qed (rule holdsD [OF h])
    ultimately show ?thesis by - (rule wp_close_post [of _ _ n], rule wp_assign_open [of F n UNIV x], assumption, rule UNIV_I)
  qed
qed

lemma runs_declare_old: "n \<in> D \<Longrightarrow> runs \<rho> (Op, D, A) (declare_var n) (Op, D, A)"
proof (rule runsI)
  fix F v l assume n: "n \<in> D" and h: "holds \<rho> (Op, D, A) F v l"
  obtain x where "v n = Some x" using holdsD(3) [OF h n] by (elim exE)
  then show "wp (declare_var n) (holds \<rho> (Op, D, A)) F v l" using h by (rule wp_declare_old [of v])
qed

text \<open>A name that may be set: a public one, or a pending local one.\<close>

definition settable :: "string set \<Rightarrow> string \<Rightarrow> bool" where
  "settable D n \<longleftrightarrow> n \<notin> locals \<or> n \<in> D \<and> n \<notin> choose_names"

lemma settable_tracked: "settable D n \<Longrightarrow> n \<notin> choose_names"
  by (auto simp: settable_def locals_def)

lemma runs_set_pair:
  assumes "settable D n" "\<rho> n = x" "runs \<rho> (Op - {n}, insert n D, A) (seq gs) t"
  shows "runs \<rho> (Op, D, A) (seq (declare_var n # assign n x # gs)) t"
proof -
  note c = settable_tracked [OF assms(1)]
  have "runs \<rho> (Op, D, A) (declare_var n) (insert n Op, insert n D, A)"
    using assms(1) runs_declare runs_mono [OF runs_declare_old [of n D \<rho> Op A], of "insert n Op" "insert n D" A]
    by (auto simp: settable_def insert_absorb subset_insertI)
  moreover have "runs \<rho> (insert n Op, insert n D, A) (assign n x) (Op - {n}, insert n D, A)"
    using runs_assign [of n "insert n D" \<rho> x "insert n Op" A] c assms(2) by simp
  ultimately show ?thesis using assms(3) by (intro runs_Cons)
qed

lemma runs_set_field_var_open:
  "settable D n \<Longrightarrow> \<rho> n = x \<Longrightarrow> runs \<rho> (Op, D, A) (set_field_var n x) (Op - {n}, insert n D, A)"
  unfolding set_field_var_def by (rule runs_set_pair) (auto intro: runs_Nil)

lemma runs_set_field_var [runs_rules]:
  "settable D n \<Longrightarrow> \<rho> n = x \<Longrightarrow> runs \<rho> (Op, D, A) (set_field_var n x) (Op, insert n D, A)"
  by (rule runs_mono [OF runs_set_field_var_open]) auto

lemma runs_set_var [runs_rules]: "settable D n \<Longrightarrow> \<rho> n = num x \<Longrightarrow> runs \<rho> (Op, D, A) (set_var n x) (Op, insert n D, A)"
  unfolding set_var_def by (rule runs_set_field_var)

lemma runs_set_local_open:
  assumes "n \<in> locals" "n \<notin> A" "n \<notin> choose_names" "\<rho> n = x"
  shows "runs \<rho> (Op, D, A) (set_local n x) (Op - {n}, insert n D, insert n A)"
  unfolding set_local_def
  by (rule runs_Cons [OF runs_new_local [OF assms(1,2)]], rule runs_Cons [OF runs_assign]) (use assms in \<open>auto intro: runs_Nil\<close>)

lemma runs_set_local [runs_rules]:
  "n \<in> locals \<Longrightarrow> n \<notin> A \<Longrightarrow> n \<notin> choose_names \<Longrightarrow> \<rho> n = x \<Longrightarrow> runs \<rho> (Op, D, A) (set_local n x) (Op, insert n D, insert n A)"
  by (rule runs_mono [OF runs_set_local_open]) auto

lemma runs_seal: "runs \<rho> (Op, D, A) seal (Op, D - locals, {})"
proof (rule runsI)
  fix F v l assume h: "holds \<rho> (Op, D, A) F v l"
  have l: "set l = dom v \<inter> locals" by (rule holdsD(4) [OF h])
  have "holds \<rho> (Op, D - locals, {}) (F |` (- set l)) (v |` (- set l)) []"
    using h unfolding holds.simps by (auto simp: restrict_map_def l split: if_splits)
  then show "wp seal (holds \<rho> (Op, D - locals, {})) F v l" by (rule wp_seal)
qed

lemma runs_finish: "E \<subseteq> D \<Longrightarrow> E \<inter> locals = {} \<Longrightarrow> runs \<rho> (Op, D, A) (seq [seal]) (Op, E, {})"
  by (rule runs_Cons [OF runs_seal], rule runs_Nil) auto

text \<open>Different values for local names, while none is declared.\<close>

lemma holds_cong:
  assumes "holds \<rho> (Op, D, A) F v l" "\<And>n. n \<notin> locals \<Longrightarrow> \<rho>' n = \<rho> n" "A \<subseteq> choose_names"
  shows "holds \<rho>' (Op, D, A) F v l"
proof -
  note h = assms(1) [unfolded holds.simps]
  have "v n = None \<or> v n = Some (\<rho>' n)" if n: "n \<notin> choose_names" "F n = None" for n
  proof (cases "n \<in> locals")
    case True
    moreover have "n \<notin> dom v \<inter> locals" using h assms(3) n(1) by blast
    ultimately have "v n = None" by blast
    then show ?thesis by simp
  next
    case False
    then show ?thesis using h n assms(2) by metis
  qed
  then show ?thesis using h unfolding holds.simps by blast
qed

lemma runs_local:
  assumes "runs \<rho>' (Op, D, A) g (Op', D', A')" "\<And>n. n \<notin> locals \<Longrightarrow> \<rho>' n = \<rho> n" "A \<subseteq> choose_names" "A' \<subseteq> choose_names"
  shows "runs \<rho> (Op, D, A) g (Op', D', A')"
proof (rule runsI)
  fix F v l assume "holds \<rho> (Op, D, A) F v l"
  then have "holds \<rho>' (Op, D, A) F v l" using assms(2,3) by (rule holds_cong)
  note runsD [OF assms(1) this]
  then show "wp g (holds \<rho> (Op', D', A')) F v l"
    by (rule wp_mono) (rule holds_cong, assumption, simp add: assms(2), rule assms(4))
qed

section \<open>Rows\<close>

text \<open>A name a row may use.\<close>

definition usable :: "descr \<Rightarrow> string \<Rightarrow> bool" where
  "usable s n \<longleftrightarrow> (case s of (Op, D, A) \<Rightarrow> n \<in> D \<and> n \<notin> Op \<and> n \<notin> choose_names)"

fun row_ok :: "descr \<Rightarrow> 'f entry list \<Rightarrow> bool" where
  "row_ok s [] = True"
| "row_ok s (e # es) \<longleftrightarrow> (case entry_ref e of One \<Rightarrow> True | Var n \<Rightarrow> usable s n) \<and> row_ok s es"

lemma row_ok_iff: "row_ok s es \<longleftrightarrow> (\<forall>e \<in> set es. case entry_ref e of One \<Rightarrow> True | Var n \<Rightarrow> usable s n)"
  by (induction es) auto

lemma row_ok_append [simp]: "row_ok s (xs @ ys) \<longleftrightarrow> row_ok s xs \<and> row_ok s ys"
  unfolding row_ok_iff by auto

lemma row_shut:
  assumes "holds \<rho> (Op, D, A) F v l"
  shows "row_ok (Op, D, A) es \<Longrightarrow> shut_row F v es \<and> lin (\<lambda>n. the (v n)) es = lin \<rho> es"
proof (induction es)
  case (Cons e es)
  have "shut F v n \<and> the (v n) = \<rho> n" if "entry_ref e = Var n" for n
    using Cons.prems that holds_tracked [OF assms, of n] by (simp add: usable_def shut_def)
  then show ?case using Cons by (cases "entry_ref e") auto
qed simp

lemma runs_constraint [runs_rules]:
  assumes "row_ok (Op, D, A) a" "row_ok (Op, D, A) b" "row_ok (Op, D, A) c" "put_ok {} a" "put_ok {} b" "put_ok {} c"
    and "lin \<rho> a * lin \<rho> b = lin \<rho> c"
  shows "runs \<rho> (Op, D, A) (constraint a b c) (Op, D, A)"
proof (rule runsI)
  fix F v l assume h: "holds \<rho> (Op, D, A) F v l"
  show "wp (constraint a b c) (holds \<rho> (Op, D, A)) F v l"
    by (rule wp_row) (use assms row_shut [OF h] h in simp_all)
qed

lemma runs_eqi [runs_rules]: "usable (Op, D, A) n \<Longrightarrow> \<rho> n = x \<Longrightarrow> runs \<rho> (Op, D, A) (eqi n x) (Op, D, A)"
  unfolding eqi_def by (rule runs_constraint) simp_all

lemma runs_add [runs_rules]:
  "usable (Op, D, A) a \<Longrightarrow> usable (Op, D, A) b \<Longrightarrow> usable (Op, D, A) c \<Longrightarrow> b \<noteq> c \<Longrightarrow> \<rho> a = \<rho> b + \<rho> c
   \<Longrightarrow> runs \<rho> (Op, D, A) (cs_add a b c) (Op, D, A)"
  unfolding cs_add_def by (rule runs_constraint) simp_all

lemma runs_addi [runs_rules]:
  "usable (Op, D, A) a \<Longrightarrow> usable (Op, D, A) b \<Longrightarrow> \<rho> a = \<rho> b + x \<Longrightarrow> runs \<rho> (Op, D, A) (cs_addi a b x) (Op, D, A)"
  unfolding cs_addi_def by (rule runs_constraint) (simp_all add: add.commute)

lemma runs_mul [runs_rules]:
  "usable (Op, D, A) a \<Longrightarrow> usable (Op, D, A) b \<Longrightarrow> usable (Op, D, A) c \<Longrightarrow> \<rho> a = \<rho> b * \<rho> c
   \<Longrightarrow> runs \<rho> (Op, D, A) (cs_mul a b c) (Op, D, A)"
  unfolding cs_mul_def by (rule runs_constraint) simp_all

lemma runs_muli [runs_rules]:
  "usable (Op, D, A) a \<Longrightarrow> usable (Op, D, A) b \<Longrightarrow> \<rho> a = x * \<rho> b \<Longrightarrow> runs \<rho> (Op, D, A) (cs_muli a b x) (Op, D, A)"
  unfolding cs_muli_def by (rule runs_constraint) simp_all

lemma runs_nand [runs_rules]:
  "usable (Op, D, A) a \<Longrightarrow> usable (Op, D, A) b \<Longrightarrow> \<rho> a = 0 \<or> \<rho> b = 0 \<Longrightarrow> runs \<rho> (Op, D, A) (cs_nand a b) (Op, D, A)"
  unfolding cs_nand_def by (rule runs_constraint) auto

lemma runs_set_bit_open:
  assumes "settable D n" "\<rho> n = of_bool b"
  shows "runs \<rho> (Op, D, A) (set_bit n b) (Op - {n}, insert n D, A)"
  unfolding set_bit_def
  by (rule runs_set_pair [of D n \<rho>, OF assms], rule runs_Cons [OF runs_constraint])
    (use assms settable_tracked [OF assms(1)] in \<open>auto simp: usable_def intro: runs_Nil\<close>)

lemma runs_set_bit [runs_rules]:
  "settable D n \<Longrightarrow> \<rho> n = of_bool b \<Longrightarrow> runs \<rho> (Op, D, A) (set_bit n b) (Op, insert n D, A)"
  by (rule runs_mono [OF runs_set_bit_open]) auto

lemma runs_set_eq_open:
  assumes "settable D n" "usable (Op, D, A) m" "\<rho> n = \<rho> m"
  shows "runs \<rho> (Op, D, A) (set_eq n m) (Op - {n}, insert n D, A)"
  unfolding set_eq_def
  by (rule runs_with_var, rule_tac [4] runs_set_pair [of D n \<rho>, OF assms(1,3)], rule_tac [4] runs_Cons [OF runs_constraint])
    (use assms settable_tracked [OF assms(1)] in \<open>auto simp: usable_def intro: runs_Nil\<close>)

lemma runs_set_eq [runs_rules]:
  "settable D n \<Longrightarrow> usable (Op, D, A) m \<Longrightarrow> \<rho> n = \<rho> m \<Longrightarrow> runs \<rho> (Op, D, A) (set_eq n m) (Op, insert n D, A)"
  by (rule runs_mono [OF runs_set_eq_open]) auto

text \<open>A local name declared first and assigned by the next operation.\<close>

lemma runs_local_then:
  assumes "n \<in> locals" "n \<notin> A" "runs \<rho> (insert n Op, insert n D, insert n A) g (Op', insert n D', A')"
  shows "runs \<rho> (Op, D, A) (seq [new_local_var n, g]) (Op', insert n D', A')"
  by (rule runs_Cons [OF runs_new_local [OF assms(1,2)]], rule runs_Cons [OF assms(3)]) (simp add: runs_Nil)

section \<open>Words\<close>

abbreviation word_names :: "string \<Rightarrow> string set" where
  "word_names n \<equiv> insert n (bits_of n ` {..<32})"

lemma runs_to_bits [runs_rules]:
  assumes n: "n \<notin> locals" "\<And>i. bits_of n i \<notin> locals" and op: "n \<notin> Op" "\<And>i. bits_of n i \<notin> Op" and w: "is_word \<rho> n x"
  shows "runs \<rho> (Op, D, A) (to_bits n x) (Op, D \<union> word_names n, A)"
proof -
  have c: "n \<notin> choose_names" "\<And>i. bits_of n i \<notin> choose_names" using n by (auto simp: locals_def)
  have set: "settable D' n" "settable D' (bits_of n i)" for D' i using n by (simp_all add: settable_def)
  have bits: "runs \<rho> (Op, insert n D, A) (seq (map (\<lambda>i. set_bit (bits_of n i) (drop_bit i x AND 1 = 1)) [0..<32]))
      (Op, insert n D \<union> (\<Union>i\<in>set [0..<32]. {bits_of n i}), A)"
  proof (rule runs_each)
    fix i D' assume "i \<in> set [0..<32]"
    then show "runs \<rho> (Op, D', A) (set_bit (bits_of n i) (drop_bit i x AND 1 = 1)) (Op, D' \<union> {bits_of n i}, A)"
      using runs_set_bit [OF set(2), of \<rho> i "bit x i" Op D' A] w by (simp add: bit_drop_iff is_word_def)
  qed
  have lin: "lin \<rho> (map (\<lambda>i. Put (Var (bits_of n i)) (of_nat (2 ^ i))) [0..<32]) = num x"
  proof -
    have "lin \<rho> (map (\<lambda>i. Put (Var (bits_of n i)) (of_nat (2 ^ i))) [0..<32]) = (\<Sum>i<32. 2 ^ i * \<rho> (bits_of n i))"
      unfolding lin_map by (simp add: sum_list_distinct_conv_sum_set atLeast0LessThan)
    also have "\<dots> = (\<Sum>i<32. 2 ^ i * of_bool (bit x i))" by (rule sum.cong) (use w in \<open>simp_all add: is_word_def\<close>)
    finally show ?thesis unfolding num_bits .
  qed
  have row: "runs \<rho> (Op, insert n D \<union> (\<Union>i\<in>set [0..<32]. {bits_of n i}), A)
      (constraint (map (\<lambda>i. Put (Var (bits_of n i)) (of_nat (2 ^ i))) [0..<32]) [Put One 1] [Put (Var n) 1])
      (Op, insert n D \<union> (\<Union>i\<in>set [0..<32]. {bits_of n i}), A)"
  proof (rule runs_constraint)
    show "put_ok {} (map (\<lambda>i. Put (Var (bits_of n i)) (of_nat (2 ^ i) :: 'a)) [0..<32])"
      by (rule put_ok_bits) (simp_all add: inj_on_def)
  qed (use op c lin w in \<open>auto simp: row_ok_iff usable_def is_word_def\<close>)
  show ?thesis unfolding to_bits_def
    by (rule runs_Cons [OF runs_set_var [OF set(1)]], simp add: is_word_num [OF w], rule runs_Cons [OF bits],
        rule runs_Cons [OF row], rule runs_Nil) auto
qed

section \<open>Gadgets\<close>

text \<open>A gadget needs the public names \<open>D\<close> and declares the public names \<open>E\<close>; only the output registers are open.\<close>

abbreviation outs :: "string set" where
  "outs \<equiv> range xout"

definition does :: "(string \<Rightarrow> 'f) \<Rightarrow> string set \<Rightarrow> 'f::field builder \<Rightarrow> string set \<Rightarrow> bool" where
  "does \<rho> D g E \<longleftrightarrow> E \<inter> locals = {}
     \<and> (\<forall>D'. D \<subseteq> D' \<longrightarrow> D' \<inter> locals = {} \<longrightarrow> runs \<rho> (outs, D', {}) g (outs, D' \<union> E, {}))"

lemma doesI: "E \<inter> locals = {} \<Longrightarrow> (\<And>D'. D \<subseteq> D' \<Longrightarrow> D' \<inter> locals = {} \<Longrightarrow> runs \<rho> (outs, D', {}) g (outs, D' \<union> E, {})) \<Longrightarrow> does \<rho> D g E"
  by (simp add: does_def)

lemma doesD: "does \<rho> D g E \<Longrightarrow> D \<subseteq> D' \<Longrightarrow> D' \<inter> locals = {} \<Longrightarrow> runs \<rho> (outs, D', {}) g (outs, D' \<union> E, {})"
  by (simp add: does_def)

lemma does_Nil: "does \<rho> D (seq []) {}"
  by (rule doesI) (simp_all add: runs_Nil del: seq.simps)

lemma does_Cons:
  assumes "does \<rho> D g E" "does \<rho> (D \<union> E) (seq gs) E'"
  shows "does \<rho> D (seq (g # gs)) (E \<union> E')"
proof (rule doesI)
  show "(E \<union> E') \<inter> locals = {}" using assms by (auto simp: does_def)
  fix D' assume D: "D \<subseteq> D'" "D' \<inter> locals = {}"
  then have "runs \<rho> (outs, D' \<union> E, {}) (seq gs) (outs, D' \<union> E \<union> E', {})"
    using assms by (intro doesD [OF assms(2)]) (auto simp: does_def)
  then show "runs \<rho> (outs, D', {}) (seq (g # gs)) (outs, D' \<union> (E \<union> E'), {})"
    using runs_Cons [OF doesD [OF assms(1) D]] by (simp add: Un_assoc)
qed

lemma does_mono: "does \<rho> D g E \<Longrightarrow> D \<subseteq> D' \<Longrightarrow> E' \<subseteq> E \<Longrightarrow> does \<rho> D' g E'"
  unfolding does_def by (meson Un_mono disjoint_iff order_refl order_trans runs_mono subsetD)

lemma does_runs:
  assumes "E \<inter> locals = {}" "\<And>D'. D \<subseteq> D' \<Longrightarrow> runs \<rho> (outs, D', {}) g (outs, D' \<union> E, {})"
  shows "does \<rho> D g E"
  using assms by (simp add: does_def)

lemma does_each:
  assumes "\<And>x. x \<in> set xs \<Longrightarrow> does \<rho> D (g x) (E x)"
  shows "does \<rho> D (seq (map g xs)) (\<Union>x\<in>set xs. E x)"
  using assms
proof (induction xs arbitrary: D)
  case (Cons x xs)
  have "does \<rho> (D \<union> E x) (seq (map g xs)) (\<Union>x\<in>set xs. E x)"
    by (rule Cons.IH, rule does_mono [OF Cons.prems]) auto
  then show ?case using does_Cons [OF Cons.prems [of x]] by (simp del: seq.simps)
qed (simp add: does_Nil del: seq.simps)

lemma usable_iff: "usable (Op, D, A) n \<longleftrightarrow> n \<in> D \<and> n \<notin> Op \<and> n \<notin> choose_names"
  by (simp add: usable_def)

lemma not_out: "n \<in> outs \<longleftrightarrow> (\<exists>i. n = xout i)"
  by auto

lemma outs_Cons [name_simps]: "c # d # cs \<in> outs \<longleftrightarrow> c = CHR ''x'' \<and> d = CHR 0x27 \<and> cs \<in> range nat_str" "[c] \<notin> outs" "[] \<notin> outs"
  by (auto simp: xout_def)

lemma outs_numeral [name_simps]: "c # nat_str i \<notin> outs"
proof
  assume "c # nat_str i \<in> outs"
  then obtain j where "nat_str i = CHR 0x27 # nat_str j" by (auto simp: xout_def)
  then show False by simp
qed

section \<open>Public and local names\<close>

definition pubname :: "string \<Rightarrow> bool" where
  "pubname n \<longleftrightarrow> n \<notin> locals \<and> n \<notin> outs"

definition locname :: "string \<Rightarrow> bool" where
  "locname n \<longleftrightarrow> n \<in> locals \<and> n \<notin> choose_names \<and> n \<notin> outs"

lemma pubnameD: "pubname n \<Longrightarrow> n \<notin> locals" "pubname n \<Longrightarrow> n \<notin> outs" "pubname n \<Longrightarrow> n \<notin> choose_names"
  by (simp_all add: pubname_def locals_def)

lemma usable_public [simp]: "pubname n \<Longrightarrow> usable (outs, D, A) n \<longleftrightarrow> n \<in> D" "locname n \<Longrightarrow> usable (outs, D, A) n \<longleftrightarrow> n \<in> D"
  by (simp_all add: usable_def pubnameD locname_def)

lemma settable_public [simp]: "pubname n \<Longrightarrow> settable D n" "locname n \<Longrightarrow> settable D n \<longleftrightarrow> n \<in> D"
  by (simp_all add: settable_def pubnameD locname_def)

lemma locnameD: "locname n \<Longrightarrow> n \<in> locals" "locname n \<Longrightarrow> n \<notin> choose_names" "locname n \<Longrightarrow> n \<notin> outs"
  by (simp_all add: locname_def)

lemma alt_publics: "fst ` set t \<subseteq> set local_stems \<Longrightarrow> pubname n \<Longrightarrow> alt t \<rho> n = \<rho> n"
  by (auto simp: alt_def pubname_def locals_def split: option.splits dest!: map_of_SomeD)

end
