(* ===== verification/Names.thy ===== *)
theory Names
  imports Runs
begin

text \<open>The names of the step circuit: which are public, and which local to a gadget.\<close>

lemma public_names [simp]:
  "pubname ''pc''" "pubname ''root''" "pubname ''PC''" "pubname ''ROOT''" "pubname ''pc_mem_lo''" "pubname ''pc_mem_hi''"
  "pubname ''read_mem_lo''" "pubname ''read_mem_hi''" "pubname ''write_mem_lo''" "pubname ''write_mem_hi''" "pubname ''rs1''"
  "pubname ''rs2''" "pubname ''rd''" "pubname ''X''" "pubname ''Y''" "pubname ''I''" "pubname ''Z''" "pubname ''shamt''"
  "pubname ''inst''" "pubname ''opcode''" "pubname ''type=R''" "pubname ''type=I''" "pubname ''type=S''" "pubname ''type=B''"
  "pubname ''type=U''" "pubname ''type=J''" "pubname ''type=A''" "pubname ''immI''" "pubname ''immS''" "pubname ''immB''"
  "pubname ''immU''" "pubname ''immJ''" "pubname ''immA''" "pubname ''lowA''" "pubname ''lowY''" "pubname ''f7''" "pubname ''f7-32''"
  "pubname ''f3''" "pubname ''J''" "pubname ''four''" "pubname ''pc+4''" "pubname ''pc+I''" "pubname ''X+Y''" "pubname ''X+I''"
  "pubname ''X-Y''" "pubname ''X-I''" "pubname ''X<Y''" "pubname ''X=Y''" "pubname ''X>=Y''" "pubname ''X!=Y''" "pubname ''X<sY''"
  "pubname ''X>=sY''" "pubname ''X<I''" "pubname ''X=I''" "pubname ''X>=I''" "pubname ''X!=I''" "pubname ''X<sI''" "pubname ''X>=sI''"
  "pubname ''X&Y''" "pubname ''X&I''" "pubname ''read_mem''" "pubname ''write_mem''" "pubname ''read_mem8''" "pubname ''read_mem16''"
  "pubname ''read_mem32''" "pubname ''write_mem8''" "pubname ''write_mem16''" "pubname ''write_mem32''" "pubname ''read_mem8_sb''"
  "pubname ''read_mem8_sv''" "pubname ''read_mem16_sb''" "pubname ''read_mem16_sv''" "pubname ''X+I8''" "pubname ''X+I16''"
  "pubname ''X+I32''" "pubname ''J=16,w8''" "pubname ''J=17,w16''" "pubname ''J=18,w32''" "pubname ''X_31''" "pubname ''Y_31''"
  "pubname ''I_31''" "pubname ''inst_31''" "pubname ''inst_30''" "pubname ''inst_12''" "pubname ''inst_20''" "pubname ''X+I_4''"
  by (simp_all add: pubname_def name_simps)

lemma private_names [simp]:
  "locname ''O''" "locname ''ds''" "locname ''Xs*Ys''" "locname ''sltl''" "locname ''sltr''" "locname ''left''"
  "locname ''right''" "locname ''tiI''" "locname ''tiS''" "locname ''tiB''" "locname ''tiU''" "locname ''tiJ''"
  "locname ''tiA''" "locname ''is_shift''" "locname ''a1''" "locname ''a2''" "locname ''shamt_i''" "locname ''shamt_r''"
  "locname ''f3=0a''" "locname ''f3=0b''" "locname ''f3=5a''" "locname ''f3=5b''" "locname ''ecall''"
  by (simp_all add: locname_def name_simps)

lemma public_families [simp]:
  "pubname (CHR ''x'' # nat_str i)" "pubname (CHR ''r'' # CHR ''s'' # CHR ''1'' # CHR ''='' # nat_str i)"
  "pubname (CHR ''r'' # CHR ''s'' # CHR ''2'' # CHR ''='' # nat_str i)" "pubname (CHR ''r'' # CHR ''d'' # CHR ''='' # nat_str i)"
  "pubname (CHR ''s'' # CHR ''h'' # CHR ''a'' # CHR ''m'' # CHR ''t'' # CHR ''='' # nat_str i)"
  "pubname (CHR ''f'' # CHR ''3'' # CHR ''='' # nat_str i)"
  "pubname (CHR ''o'' # CHR ''p'' # CHR ''c'' # CHR ''o'' # CHR ''d'' # CHR ''e'' # CHR ''='' # nat_str i)"
  "pubname (CHR ''J'' # CHR ''='' # nat_str i)" "pubname (CHR ''X'' # CHR ''+'' # CHR ''I'' # CHR ''8'' # CHR ''='' # nat_str i)"
  "pubname (CHR ''X'' # CHR ''+'' # CHR ''I'' # CHR ''1'' # CHR ''6'' # CHR ''='' # nat_str i)"
  "pubname (CHR ''X'' # CHR ''+'' # CHR ''I'' # CHR ''3'' # CHR ''2'' # CHR ''='' # nat_str i)"
  "pubname (CHR ''p'' # CHR ''c'' # CHR ''_'' # nat_str i)" "pubname (CHR ''X'' # CHR ''_'' # nat_str i)"
  "pubname (CHR ''Y'' # CHR ''_'' # nat_str i)" "pubname (CHR ''I'' # CHR ''_'' # nat_str i)"
  "pubname (CHR ''Z'' # CHR ''_'' # nat_str i)" "pubname (CHR ''P'' # CHR ''C'' # CHR ''_'' # nat_str i)"
  "pubname (CHR ''i'' # CHR ''n'' # CHR ''s'' # CHR ''t'' # CHR ''_'' # nat_str i)"
  "pubname (CHR ''X'' # CHR ''+'' # CHR ''I'' # CHR ''_'' # nat_str i)"
  "pubname (CHR ''X'' # CHR ''&'' # CHR ''Y'' # CHR ''_'' # nat_str i)"
  "pubname (CHR ''X'' # CHR ''&'' # CHR ''I'' # CHR ''_'' # nat_str i)" "pubname (CHR ''Z'' # nat_str i)"
  "pubname (CHR ''P'' # CHR ''C'' # nat_str i)" "pubname (CHR ''J'' # CHR ''Z'' # nat_str i)"
  "pubname (CHR ''J'' # CHR ''P'' # CHR ''C'' # nat_str i)"
  "pubname (CHR ''r'' # CHR ''e'' # CHR ''a'' # CHR ''d'' # CHR ''_'' # CHR ''m'' # CHR ''e'' # CHR ''m'' # CHR ''_'' # nat_str i)"
  "pubname (CHR ''w'' # CHR ''r'' # CHR ''i'' # CHR ''t'' # CHR ''e'' # CHR ''_'' # CHR ''m'' # CHR ''e'' # CHR ''m'' # CHR ''_'' # nat_str i)"
  "pubname (CHR ''r'' # CHR ''e'' # CHR ''a'' # CHR ''d'' # CHR ''_'' # CHR ''m'' # CHR ''e'' # CHR ''m'' # CHR ''_'' # CHR ''8'' # CHR ''_'' # nat_str i)"
  "pubname (CHR ''r'' # CHR ''e'' # CHR ''a'' # CHR ''d'' # CHR ''_'' # CHR ''m'' # CHR ''e'' # CHR ''m'' # CHR ''_'' # CHR ''1'' # CHR ''6'' # CHR ''_'' # nat_str i)"
  "pubname (CHR ''r'' # CHR ''e'' # CHR ''a'' # CHR ''d'' # CHR ''_'' # CHR ''m'' # CHR ''e'' # CHR ''m'' # CHR ''_'' # CHR ''3'' # CHR ''2'' # CHR ''_'' # nat_str i)"
  "pubname (CHR ''w'' # CHR ''r'' # CHR ''i'' # CHR ''t'' # CHR ''e'' # CHR ''_'' # CHR ''m'' # CHR ''e'' # CHR ''m'' # CHR ''_'' # CHR ''8'' # CHR ''_'' # nat_str i)"
  "pubname (CHR ''w'' # CHR ''r'' # CHR ''i'' # CHR ''t'' # CHR ''e'' # CHR ''_'' # CHR ''m'' # CHR ''e'' # CHR ''m'' # CHR ''_'' # CHR ''1'' # CHR ''6'' # CHR ''_'' # nat_str i)"
  "pubname (CHR ''w'' # CHR ''r'' # CHR ''i'' # CHR ''t'' # CHR ''e'' # CHR ''_'' # CHR ''m'' # CHR ''e'' # CHR ''m'' # CHR ''_'' # CHR ''3'' # CHR ''2'' # CHR ''_'' # nat_str i)"
  by (simp_all add: pubname_def name_simps)

lemma private_families [simp]:
  "locname (CHR ''o'' # CHR ''u'' # CHR ''t'' # nat_str i)" "locname (CHR ''S'' # CHR ''Z'' # nat_str i)"
  "locname (CHR ''r'' # CHR ''s'' # CHR ''x'' # nat_str i)" "locname (CHR ''z'' # nat_str i)"
  by (simp_all add: locname_def name_simps)

lemma public_result_bits [simp]: "pubname (CHR ''Z'' # nat_str j @ CHR ''_'' # nat_str i)"
proof -
  obtain c cs where c: "nat_str j @ ''_'' = c # cs" by (cases "nat_str j @ ''_''") auto
  have "stem ((''Z'' @ nat_str j @ ''_'') @ nat_str i) = ''Z'' @ nat_str j @ ''_''"
    by (rule stem_nat_str) (simp add: is_digit_def)
  moreover have "(''Z'' @ nat_str j @ ''_'') @ nat_str i = CHR ''Z'' # nat_str j @ CHR ''_'' # nat_str i" by simp
  moreover have "''Z'' @ nat_str j @ ''_'' = CHR ''Z'' # c # cs" by (simp only: c append_Cons append_Nil)
  ultimately have "stem (CHR ''Z'' # nat_str j @ CHR ''_'' # nat_str i) = CHR ''Z'' # c # cs" by metis
  then show ?thesis by (auto simp: pubname_def locals_def local_stems_def choose_Cons is_digit_def xout_def)
qed

end
