(* ===== verification/Honest_Gadgets.thy ===== *)
theory Honest_Gadgets
  imports Names
begin

text \<open>
  Completeness of the gadgets of the circuit: each one has a rule that says which values make it succeed, with its
  local names valued by a table over the given valuation.
\<close>

section \<open>Membership\<close>

definition member_names :: "nat \<Rightarrow> nat \<Rightarrow> string set" where
  "member_names n i = (\<Union>j<i. {''x-'' @ nat_str j, ''l'' @ nat_str j, ''r'' @ nat_str (n - 1 - j), ''cx'' @ nat_str j})"

lemma member_names_Suc:
  "member_names n (Suc i) = {''x-'' @ nat_str i, ''l'' @ nat_str i, ''r'' @ nat_str (n - 1 - i), ''cx'' @ nat_str i} \<union> member_names n i"
  unfolding member_names_def lessThan_Suc by blast

lemma local_stem_names:
  "''x-'' @ nat_str i \<in> locals" "''l'' @ nat_str i \<in> locals" "''r'' @ nat_str i \<in> locals" "''cx'' @ nat_str i \<in> locals"
  "''rsx'' @ nat_str i \<in> locals" "''z'' @ nat_str i \<in> locals" "''out'' @ nat_str i \<in> locals" "''SZ'' @ nat_str i \<in> locals"
  using locals_nat_str [of "''x-''" i] locals_nat_str [of "''l''" i] locals_nat_str [of "''r''" i] locals_nat_str [of "''cx''" i]
    locals_nat_str [of "''rsx''" i] locals_nat_str [of "''z''" i] locals_nat_str [of "''out''" i] locals_nat_str [of "''SZ''" i]
  by (simp_all add: is_digit_def local_stems_def)

lemma tracked_stem_names:
  "''x-'' @ nat_str i \<notin> choose_names" "''l'' @ nat_str i \<notin> choose_names" "''r'' @ nat_str i \<notin> choose_names" "''cx'' @ nat_str i \<notin> choose_names"
  "''rsx'' @ nat_str i \<notin> choose_names" "''z'' @ nat_str i \<notin> choose_names" "''out'' @ nat_str i \<notin> choose_names" "''SZ'' @ nat_str i \<notin> choose_names"
  by (simp_all add: choose_names_def is_digit_def)

lemmas stem_names = local_stem_names [simplified] tracked_stem_names [simplified]

lemma prod_list_take: "i \<le> length s \<Longrightarrow> prod_list (map f (take i s)) = (\<Prod>t<i. f (s ! t))" for f :: "'a \<Rightarrow> 'f::field"
  by (induction i) (simp_all add: take_Suc_conv_app_nth)

lemma prod_list_drop: "prod_list (map f (drop i s)) = (\<Prod>t=i..<length s. f (s ! t))" for f :: "'a \<Rightarrow> 'f::field"
proof (cases "i \<le> length s")
  case True
  then show ?thesis
  proof (induction rule: inc_induct)
    case (step n)
    then show ?case by (simp add: Cons_nth_drop_Suc [symmetric] prod.atLeast_Suc_lessThan)
  qed simp
qed simp

lemma member_cx:
  assumes "distinct s" "k \<in> set s" "i < length s"
  shows "(if s ! i = k then member_C s (s ! i) else 0)
    = (\<Prod>t<i. num k - num (s ! t)) * (\<Prod>t=Suc i..<length s. num k - num (s ! t) :: 'f::field)"
proof (cases "s ! i = k")
  case True
  then show ?thesis using member_C_prod [OF assms(1,3), where 'f = 'f] by (simp add: prod_nat_remove [OF assms(3)])
next
  case False
  obtain t where t: "t < length s" "s ! t = k" using assms(2) by (auto simp: in_set_conv_nth)
  with False have "t \<in> {..<length s} - {i}" by auto
  then have "(\<Prod>t\<in>{..<length s} - {i}. num k - num (s ! t) :: 'f) = 0" using t by (auto intro!: prod_zero)
  then show ?thesis using False by (simp add: prod_nat_remove [OF assms(3)])
qed

text \<open>The local names of \<open>member\<close>, and the values it gives them.\<close>

definition member_table :: "u32 \<Rightarrow> u32 list \<Rightarrow> (string \<times> (nat \<Rightarrow> 'f::field)) list" where
  "member_table k s =
    [(''x-'', \<lambda>i. num k - num (s ! i)), (''l'', \<lambda>i. \<Prod>t<Suc i. num k - num (s ! t)),
     (''r'', \<lambda>i. \<Prod>t=i..<length s. num k - num (s ! t)),
     (''cx'', \<lambda>i. (\<Prod>t<i. num k - num (s ! t)) * (\<Prod>t=Suc i..<length s. num k - num (s ! t)))]"

lemma member_table_values:
  "alt (member_table k s) \<rho> (''x-'' @ nat_str i) = num k - num (s ! i)"
  "alt (member_table k s) \<rho> (''l'' @ nat_str i) = (\<Prod>t<Suc i. num k - num (s ! t))"
  "alt (member_table k s) \<rho> (''r'' @ nat_str i) = (\<Prod>t=i..<length s. num k - num (s ! t))"
  "alt (member_table k s) \<rho> (''cx'' @ nat_str i) = (\<Prod>t<i. num k - num (s ! t)) * (\<Prod>t=Suc i..<length s. num k - num (s ! t))"
  using alt_nat_str [of "''x-''" "member_table k s" \<rho> i] alt_nat_str [of "''l''" "member_table k s" \<rho> i]
    alt_nat_str [of "''r''" "member_table k s" \<rho> i] alt_nat_str [of "''cx''" "member_table k s" \<rho> i]
  by (simp_all add: is_digit_def member_table_def)

lemma alt_public: "fst ` set t \<subseteq> set local_stems \<Longrightarrow> n \<notin> locals \<Longrightarrow> alt t \<rho> n = \<rho> n"
  by (auto simp: alt_def locals_def split: option.splits dest!: map_of_SomeD)

lemma runs_member_witness:
  fixes \<rho> :: "string \<Rightarrow> 'f::field"
  assumes s: "distinct s" "k \<in> set s" "i < length s" and name: "\<And>x. sel name x \<notin> locals"
    and \<rho>: "\<And>x. x \<in> set s \<Longrightarrow> \<rho> (sel name x) = of_bool (x = k)"
    and A: "A \<subseteq> choose_names"
  shows "runs (alt (member_table k s) \<rho>) (Op, D \<union> member_names (length s) i \<union> sel name ` set (take i s), A \<union> member_names (length s) i)
    (member_witness name k s i)
    (Op, D \<union> member_names (length s) (Suc i) \<union> sel name ` set (take (Suc i) s), A \<union> member_names (length s) (Suc i))"
proof -
  let ?N = "member_names (length s) i" and ?r = "alt (member_table k s) \<rho>"
  have new: "''x-'' @ nat_str i \<notin> A \<union> ?N" "''l'' @ nat_str i \<notin> A \<union> ?N" "''r'' @ nat_str (length s - 1 - i) \<notin> A \<union> ?N"
    "''cx'' @ nat_str i \<notin> A \<union> ?N"
    using A tracked_stem_names s(3) by (auto simp: member_names_def)
  have vals: "prod_list (map (\<lambda>y. num k - num y :: 'f) (take (Suc i) s)) = (\<Prod>t<Suc i. num k - num (s ! t))"
    "prod_list (map (\<lambda>y. num k - num y :: 'f) (drop (length s - 1 - i) s)) = (\<Prod>t=length s - 1 - i..<length s. num k - num (s ! t))"
    using s(3) by (simp_all only: prod_list_take prod_list_drop Suc_leI)
  have sel: "?r (sel name (s ! i)) = (if s ! i = k then 1 else 0)"
    using alt_public [OF _ name, of "member_table k s" \<rho>] \<rho> s(3) by (simp add: member_table_def local_stems_def)
  have set: "settable D' (sel name (s ! i))" for D' using name by (simp add: settable_def)
  show ?thesis unfolding member_witness_def Let_def vals member_cx [OF s]
    by ((rule runs_Cons runs_set_local local_stem_names tracked_stem_names member_table_values runs_set_field_var set sel
          runs_Nil | use new in force | use s(3) in \<open>auto simp: member_names_Suc take_Suc_conv_app_nth\<close>)+)
qed

lemma member_names_all:
  assumes "i < n"
  shows "''x-'' @ nat_str i \<in> member_names n n" "''l'' @ nat_str i \<in> member_names n n" "''r'' @ nat_str i \<in> member_names n n"
    "''cx'' @ nat_str i \<in> member_names n n"
proof -
  have lt: "n - 1 - i < n" and eq: "n - 1 - (n - 1 - i) = i" using assms by auto
  have "''r'' @ nat_str (n - 1 - (n - 1 - i)) \<in> member_names n n" unfolding member_names_def using lt by blast
  then show "''r'' @ nat_str i \<in> member_names n n" unfolding eq .
qed (use assms in \<open>auto simp: member_names_def\<close>)

lemma member_names_sub: "member_names n i \<subseteq> locals" "member_names n i \<inter> choose_names = {}"
  unfolding member_names_def using local_stem_names tracked_stem_names by blast+

lemma usableI: "n \<in> D \<Longrightarrow> n \<notin> Op \<Longrightarrow> n \<notin> choose_names \<Longrightarrow> usable (Op, D, A) n"
  by (simp add: usable_def)

lemma runs_member_constraints:
  fixes \<rho> :: "string \<Rightarrow> 'f::field"
  assumes s: "distinct s" "k \<in> set s" "i < length s" "1 < length s" and large: "large_field TYPE('f)"
    and D: "insert name (member_names (length s) (length s) \<union> sel name ` set s) \<subseteq> D"
    and Op: "Op \<inter> locals = {}" "name \<notin> Op" "\<And>x. sel name x \<notin> Op" and name: "name \<notin> locals" "\<And>x. sel name x \<notin> locals"
    and \<rho>: "\<rho> name = num k" "\<And>x. x \<in> set s \<Longrightarrow> \<rho> (sel name x) = of_bool (x = k)"
  shows "runs (alt (member_table k s) \<rho>) (Op, D, A) (member_constraints name s i) (Op, D, A)"
proof -
  let ?n = "length s" and ?r = "alt (member_table k s) \<rho>"
  have pub: "?r n = \<rho> n" if "n \<notin> locals" for n
    by (rule alt_public) (use that in \<open>simp_all add: member_table_def local_stems_def\<close>)
  have loc: "usable (Op, D, A) n" if "n \<in> member_names ?n ?n" for n
    using that D Op(1) member_names_sub [of ?n ?n] by (intro usableI) auto
  have us: "usable (Op, D, A) name" "usable (Op, D, A) (sel name (s ! i))"
    using D Op name s(3) by (auto simp: locals_def intro!: usableI)
  note u = loc [OF member_names_all(1)] loc [OF member_names_all(2)] loc [OF member_names_all(3)] loc [OF member_names_all(4)]
  note v = member_table_values [where s = s and k = k and \<rho> = \<rho>]
  have C: "member_C s (s ! i) \<noteq> (0 :: 'f)"
    using s(3) s(1) large by (auto simp: member_C_prod num_eq_iff nth_eq_iff_index_eq)
  have "?r (sel name (s ! i)) = 1 / member_C s (s ! i) * ?r (''cx'' @ nat_str i)"
    using C member_cx [OF s(1-3), where 'f = 'f] pub [OF name(2)] \<rho>(2) [of "s ! i"] s(3) unfolding v by (auto split: if_splits)
  then have e: "runs ?r (Op, D, A) (if member_C s (s ! i) = (0 :: 'f) then (\<lambda>cs. Panic)
        else cs_muli (sel name (s ! i)) (''cx'' @ nat_str i) (1 / member_C s (s ! i))) (Op, D, A)"
    using C u(4) [OF s(3)] us by (simp only: if_False) (rule runs_muli)
  have a: "runs ?r (Op, D, A) (cs_addi (''x-'' @ nat_str i) name (0 - num (s ! i))) (Op, D, A)"
    using u(1) [OF s(3)] us(1) v(1) [of i] pub [OF name(1)] \<rho>(1) by (intro runs_addi) simp_all
  have b: "runs ?r (Op, D, A) (if i = 0 then cs_muli ''l0'' ''x-0'' 1
        else cs_mul (''l'' @ nat_str i) (''l'' @ nat_str (i - 1)) (''x-'' @ nat_str i)) (Op, D, A)"
  proof (cases i)
    case 0
    then show ?thesis using u(1,2) [OF s(3)] v(1,2) [of 0] by (auto intro!: runs_muli)
  next
    case (Suc j)
    then show ?thesis using s(3) u(1,2) [of i] u(2) [of j] v(1,2) [of i] v(2) [of j] by (auto intro!: runs_mul)
  qed
  have split: "(\<Prod>t=i..<?n. num k - num (s ! t)) = (num k - num (s ! i)) * (\<Prod>t=Suc i..<?n. num k - num (s ! t) :: 'f)"
    using s(3) by (simp add: prod.atLeast_Suc_lessThan)
  have c: "runs ?r (Op, D, A) (if i = ?n - 1 then cs_muli (''r'' @ nat_str i) (''x-'' @ nat_str i) 1
        else cs_mul (''r'' @ nat_str i) (''x-'' @ nat_str i) (''r'' @ nat_str (i + 1))) (Op, D, A)"
  proof (cases "Suc i < ?n")
    case True
    then show ?thesis using u(1,3) [OF s(3)] u(3) [OF True] v(1,3) [of i] v(3) [of "Suc i"] split by (auto intro!: runs_mul)
  next
    case False
    then have "Suc i = ?n" using s(3) by simp
    then show ?thesis using u(1,3) [OF s(3)] v(1,3) [of i] split by (auto intro!: runs_muli)
  qed
  have d: "runs ?r (Op, D, A) (if i = 0 then cs_muli ''cx0'' ''r1'' 1
        else if i = ?n - 1 then cs_muli (''cx'' @ nat_str i) (''l'' @ nat_str (i - 1)) 1
        else cs_mul (''cx'' @ nat_str i) (''l'' @ nat_str (i - 1)) (''r'' @ nat_str (i + 1))) (Op, D, A)"
  proof (cases i)
    case 0
    then show ?thesis using u(4) [OF s(3)] u(3) [OF s(4)] v(4) [of 0] v(3) [of 1] by (auto intro!: runs_muli)
  next
    case (Suc j)
    have j: "j < ?n" using Suc s(3) by simp
    show ?thesis
    proof (cases "Suc i < ?n")
      case True
      then show ?thesis using Suc u(4) [OF s(3)] u(2) [OF j] u(3) [OF True] v(4) [of i] v(2) [of j] v(3) [of "Suc i"]
        by (auto intro!: runs_mul)
    next
      case False
      then have n: "?n = Suc (Suc j)" using s(3) Suc by simp
      show ?thesis using u(4) [OF s(3)] u(2) [OF j] v(4) [of i] v(2) [of j] unfolding Suc by (auto simp: n intro!: runs_muli)
    qed
  qed
  show ?thesis unfolding member_constraints_def Let_def
    by (rule runs_Cons [OF a] runs_Cons [OF b] runs_Cons [OF c] runs_Cons [OF d] runs_Cons [OF e])+ (simp add: runs_Nil)
qed

lemma runs_same: "(\<And>x. x \<in> set xs \<Longrightarrow> runs \<rho> (Op, D, A) (g x) (Op, D, A)) \<Longrightarrow> runs \<rho> (Op, D, A) (seq (map g xs)) (Op, D, A)"
  using runs_loop [of xs \<rho> "\<lambda>_. (Op, D, A)" g] by simp

lemma runs_member:
  fixes \<rho> :: "string \<Rightarrow> 'f::field"
  assumes s: "distinct s" "1 < length s" and hot: "one_hot \<rho> name s k" and large: "large_field TYPE('f)"
    and Op: "Op \<inter> locals = {}" "name \<notin> Op" "\<And>x. sel name x \<notin> Op" and name: "name \<notin> locals" "\<And>x. sel name x \<notin> locals"
    and D: "D \<inter> locals = {}" and A: "A \<subseteq> choose_names"
  shows "runs \<rho> (Op, D, A) (member name k s) (Op, D \<union> insert name (sel name ` set s), {})"
proof (rule runs_local [of "alt (member_table k s) \<rho>"])
  let ?n = "length s" and ?r = "alt (member_table k s) \<rho>"
  show pub: "?r n = \<rho> n" if "n \<notin> locals" for n
    by (rule alt_public) (use that in \<open>simp_all add: member_table_def local_stems_def\<close>)
  have \<rho>: "k \<in> set s" "\<rho> name = num k" "\<And>x. x \<in> set s \<Longrightarrow> \<rho> (sel name x) = of_bool (x = k)"
    using hot by (simp_all add: one_hot_def)
  let ?D = "insert name D \<union> member_names ?n ?n \<union> sel name ` set s" and ?A = "A \<union> member_names ?n ?n"
  have "runs ?r (Op, insert name D \<union> member_names ?n 0 \<union> sel name ` set (take 0 s), A \<union> member_names ?n 0)
      (seq (map (member_witness name k s) [0..<?n]))
      (Op, insert name D \<union> member_names ?n (length [0..<?n]) \<union> sel name ` set (take (length [0..<?n]) s), A \<union> member_names ?n (length [0..<?n]))"
    by (rule runs_loop [where s = "\<lambda>i. (Op, insert name D \<union> member_names ?n i \<union> sel name ` set (take i s), A \<union> member_names ?n i)"])
      (simp only: length_upt nth_upt diff_zero add_0, rule runs_member_witness [OF s(1) \<rho>(1) _ name(2) \<rho>(3) A])
  then have loop: "runs ?r (Op, insert name D, A) (seq (map (member_witness name k s) [0..<?n])) (Op, ?D, ?A)"
    by (simp add: member_names_def)
  have u: "usable (Op, ?D, ?A) n" if "n \<in> member_names ?n ?n" for n
    using that Op(1) member_names_sub [of ?n ?n] by (intro usableI) auto
  have last: "0 < ?n" "?n - 1 < ?n" "Suc (?n - 1) = ?n" using s(2) by linarith+
  have zero: "(\<Prod>t<?n. num k - num (s ! t) :: 'f) = 0" using \<rho>(1) by (auto simp: in_set_conv_nth)
  have "''r'' @ nat_str 0 \<in> member_names ?n ?n" by (rule member_names_all(3) [OF last(1)])
  from u [OF this] have r0: "runs ?r (Op, ?D, ?A) (eqi ''r0'' 0) (Op, ?D, ?A)"
    using member_table_values(3) [of k s \<rho> 0] zero by (intro runs_eqi) (simp_all add: atLeast0LessThan)
  have ln: "runs ?r (Op, ?D, ?A) (eqi (''l'' @ nat_str (?n - 1)) 0) (Op, ?D, ?A)"
    using member_table_values(2) [of k s \<rho> "?n - 1"] zero last(3) by (intro runs_eqi u member_names_all(2) last(2)) metis
  have rows: "runs ?r (Op, ?D, ?A) (seq (map (member_constraints name s) [0..<?n])) (Op, ?D, ?A)"
    by (rule runs_same, rule runs_member_constraints [OF s(1) \<rho>(1) _ s(2) large _ Op name \<rho>(2,3)]) auto
  have set: "settable D name" using name by (simp add: settable_def)
  have fin: "runs ?r (Op, ?D, ?A) seal (Op, D \<union> insert name (sel name ` set s), {})"
    by (rule runs_mono [OF runs_seal]) (use D name in auto)
  have "runs ?r (Op - {name}, insert name D, A) (seq
       [seq (map (member_witness name k s) [0..<?n]), unless_witness_only (seq
         [eqi ''r0'' 0, eqi (''l'' @ nat_str (?n - 1)) 0, seq (map (member_constraints name s) [0..<?n])]), seal])
       (Op, D \<union> insert name (sel name ` set s), {})"
    unfolding Diff_insert0 [OF Op(2)] Diff_empty
    by (rule runs_Cons [OF loop] runs_Cons [OF fin] runs_Cons [OF runs_unless] runs_Cons [OF r0] runs_Cons [OF ln] runs_Cons [OF rows]
        runs_Nil order_refl)+
  then show "runs ?r (Op, D, A) (member name k s) (Op, D \<union> insert name (sel name ` set s), {})"
    unfolding member_def Let_def by (intro runs_set_pair set) (simp_all add: pub [OF name(1)] \<rho>(2))
qed (use A in simp_all)

section \<open>Selection\<close>

abbreviation pick_names :: "string \<Rightarrow> nat \<Rightarrow> string set" where
  "pick_names name n \<equiv> insert name ((\<lambda>i. name @ ''='' @ nat_str i) ` {..<n})"

lemma picks_one_hot:
  fixes n k :: u32
  assumes "picks \<rho> name (unat n) (unat k)"
  shows "one_hot \<rho> name (map word_of_nat [0..<unat n]) k"
proof -
  have "\<rho> (sel name (word_of_nat i)) = of_bool (word_of_nat i = k)" if "i < unat n" for i
  proof -
    have i: "unat (word_of_nat i :: u32) = i" using that unat_less_32 [of n] by (simp add: unat_of_nat)
    then have "word_of_nat i = k \<longleftrightarrow> i = unat k" by (metis word_unat_eq_iff)
    then show ?thesis using assms that by (simp add: picks_def u32_str_def i)
  qed
  moreover have "k \<in> set (map word_of_nat [0..<unat n])"
    using assms by (auto intro!: image_eqI [of _ _ "unat k"] simp: of_nat_unat picks_def)
  ultimately show ?thesis using assms by (auto simp: one_hot_def picks_def)
qed

lemma sel_word_names:
  fixes n :: u32
  shows "sel name ` set (map word_of_nat [0..<unat n] :: u32 list) = (\<lambda>i. name @ ''='' @ nat_str i) ` {..<unat n}"
proof -
  have "u32_str (word_of_nat i) = nat_str i" if "i < unat n" for i
    using that unat_less_32 [of n] by (simp add: u32_str_def unat_of_nat)
  then show ?thesis by (auto simp: image_iff)
qed

lemma runs_selector:
  fixes \<rho> :: "string \<Rightarrow> 'f::field"
  assumes n: "2 < n" and pick: "picks \<rho> name (unat n) (unat k)" and large: "large_field TYPE('f)"
    and Op: "Op \<inter> locals = {}" "name \<notin> Op" "\<And>x. name @ ''='' @ x \<notin> Op" and name: "name \<notin> locals" "\<And>x. name @ ''='' @ x \<notin> locals"
    and D: "D \<inter> locals = {}" and A: "A \<subseteq> choose_names"
  shows "runs \<rho> (Op, D, A) (selector name n k) (Op, D \<union> pick_names name (unat n), {})"
proof -
  have k: "k < n" using pick by (simp add: picks_def word_less_nat_alt)
  have n2: "2 < unat n" using n by (simp add: word_less_nat_alt)
  have "inj_on (word_of_nat :: nat \<Rightarrow> u32) {0..<unat n}" using unat_less_32 [of n] by (intro inj_on_word_of_nat) simp
  then have "runs \<rho> (Op, D, A) (member name k (map word_of_nat [0..<unat n])) (Op, D \<union> pick_names name (unat n), {})"
    unfolding sel_word_names [symmetric]
    by (intro runs_member [OF _ _ picks_one_hot [OF pick] large Op name D A]) (use n2 in \<open>simp_all add: distinct_map\<close>)
  then show ?thesis using n k unfolding runs_def wp_def selector_def by simp
qed

section \<open>Registers\<close>

lemma runs_load_array:
  fixes \<rho> :: "string \<Rightarrow> 'f::field"
  assumes n: "2 < n" and pick: "picks \<rho> input (unat n) (unat k)" and large: "large_field TYPE('f)"
    and Op: "Op \<inter> locals = {}" "input \<notin> Op" "\<And>x. input @ ''='' @ x \<notin> Op" "output \<notin> Op" "\<And>i. arr @ nat_str i \<notin> Op"
    and pub: "input \<notin> locals" "\<And>x. input @ ''='' @ x \<notin> locals" "output \<notin> locals" "\<And>i. arr @ nat_str i \<notin> locals"
    and arr: "\<And>i. i < unat n \<Longrightarrow> arr @ nat_str i \<in> D" and out: "\<rho> output = \<rho> (arr @ nat_str (unat k))"
    and D: "D \<inter> locals = {}" and A: "A \<subseteq> choose_names"
  shows "runs \<rho> (Op, D, A) (load_array input output arr n k) (Op, D \<union> insert output (pick_names input (unat n)), {})"
proof (rule runs_local [of "alt [(''rsx'', \<lambda>i. if i = unat k then \<rho> output else 0)] \<rho>"])
  let ?r = "alt [(''rsx'', \<lambda>i. if i = unat k then \<rho> output else 0)] \<rho>" and ?n = "unat n"
  show pubv: "?r m = \<rho> m" if "m \<notin> locals" for m
    by (rule alt_public) (use that in \<open>simp_all add: local_stems_def\<close>)
  have rsx: "?r (''rsx'' @ nat_str i) = (if i = unat k then \<rho> output else 0)" for i
    using alt_nat_str [of "''rsx''" "[(''rsx'', \<lambda>i. if i = unat k then \<rho> output else 0)]" \<rho> i] by (simp add: is_digit_def)
  have pick': "picks ?r input ?n (unat k)" using pick pub by (simp add: picks_def pubv)
  have lt: "unat k < ?n" using pick by (simp add: picks_def)
  let ?D = "D \<union> pick_names input ?n" and ?R = "\<lambda>i. (\<lambda>i. ''rsx'' @ nat_str i) ` {..<i}"
  have sel: "runs ?r (Op, D, A) (selector input n k) (Op, ?D, {})"
    by (rule runs_selector [OF n pick' large Op(1-3) pub(1,2) D A])
  have again: "runs ?r (Op, ?D, {}) (seq (declare_var input # assign input (num k) # gs)) t" if "runs ?r (Op, ?D, {}) (seq gs) t" for gs t
    by (rule runs_set_pair) (use that pub(1) Op(2) pick' in \<open>simp_all add: settable_def picks_def insert_absorb\<close>)
  have loop: "runs ?r (Op, ?D \<union> ?R 0, ?R 0) (seq (map (\<lambda>i. with_var (arr @ nat_str i) (\<lambda>reg.
        set_local (''rsx'' @ nat_str i) (if i = unat k then reg else 0))) [0..<?n])) (Op, ?D \<union> ?R (length [0..<?n]), ?R (length [0..<?n]))"
  proof (rule runs_loop [where s = "\<lambda>i. (Op, ?D \<union> ?R i, ?R i)"])
    fix i assume i: "i < length [0..<?n]"
    have "runs ?r (Op, ?D \<union> ?R i, ?R i) (set_local (''rsx'' @ nat_str i) (if i = unat k then ?r (arr @ nat_str i) else 0))
        (Op, insert (''rsx'' @ nat_str i) (?D \<union> ?R i), insert (''rsx'' @ nat_str i) (?R i))"
      by (rule runs_set_local [OF local_stem_names(5) _ tracked_stem_names(5)]) (use rsx [of i] pubv [OF pub(4)] out in auto)
    then have "runs ?r (Op, ?D \<union> ?R i, ?R i) (set_local (''rsx'' @ nat_str i) (if i = unat k then ?r (arr @ nat_str i) else 0))
        (Op, ?D \<union> ?R (Suc i), ?R (Suc i))" by (simp add: lessThan_Suc)
    then show "runs ?r (Op, ?D \<union> ?R i, ?R i) (with_var (arr @ nat_str ([0..<?n] ! i)) (\<lambda>reg.
        set_local (''rsx'' @ nat_str ([0..<?n] ! i)) (if [0..<?n] ! i = unat k then reg else 0))) (Op, ?D \<union> ?R (Suc i), ?R (Suc i))"
      using i arr Op(5) pub(4) by (intro runs_with_var) (auto simp: locals_def)
  qed
  have loop0: "?R 0 = {}" "length [0..<?n] = ?n" "?D \<union> {} = ?D" by simp_all
  let ?E = "insert output (?D \<union> ?R ?n)"
  have copy: "runs ?r (Op, ?D \<union> ?R ?n, ?R ?n) (seq (declare_var output # with_var (arr @ u32_str k) (assign output) # gs)) t"
    if "runs ?r (Op, ?E, ?R ?n) (seq gs) t" for gs t
  proof -
    have o': "output \<notin> choose_names" "arr @ nat_str (unat k) \<notin> choose_names" using pub by (auto simp: locals_def)
    have a: "arr @ nat_str (unat k) \<in> D" using arr lt by simp
    show ?thesis
    proof (cases "arr @ nat_str (unat k) = output")
      case True
      have "runs ?r (Op, ?D \<union> ?R ?n, ?R ?n) (declare_var output) (Op, ?E, ?R ?n)"
        using runs_declare_old [where n = "output" and D = "?D \<union> ?R ?n"] a True by (simp add: insert_absorb)
      moreover have "runs ?r (Op, ?E, ?R ?n) (with_var (arr @ u32_str k) (assign output)) (Op, ?E, ?R ?n)"
        unfolding u32_str_def True using o' Op(4)
        by (intro runs_with_var) (use runs_assign [of "output" ?E ?r _ Op "?R ?n"] in \<open>simp_all\<close>)
      ultimately show ?thesis using that by (intro runs_Cons)
    next
      case False
      have "runs ?r (Op, ?D \<union> ?R ?n, ?R ?n) (declare_var output) (insert output Op, ?E, ?R ?n)" by (rule runs_declare [OF pub(3)])
      moreover have "runs ?r (insert output Op, ?E, ?R ?n) (with_var (arr @ u32_str k) (assign output)) (Op, ?E, ?R ?n)"
        unfolding u32_str_def using o' a False Op(4,5) out pubv [OF pub(3)] pubv [OF pub(4)]
        by (intro runs_with_var) (use runs_assign [of "output" ?E ?r _ "insert output Op" "?R ?n"] in \<open>simp_all\<close>)
      ultimately show ?thesis using that by (intro runs_Cons)
    qed
  qed
  have u: "usable (Op, ?E, ?R ?n) (''rsx'' @ nat_str i)" "usable (Op, ?E, ?R ?n) (input @ ''='' @ nat_str i)"
    "usable (Op, ?E, ?R ?n) (arr @ nat_str i)" if "i < ?n" for i
    using that Op local_stem_names(5) [of i] tracked_stem_names(5) [of i] pub arr [of i] by (auto simp: usable_def locals_def)
  have uo: "usable (Op, ?E, ?R ?n) output" using Op(4) pub(3) by (auto simp: usable_def locals_def)
  have val: "?r (arr @ nat_str (unat k)) = \<rho> output" "\<And>i. i < ?n \<Longrightarrow> ?r (input @ ''='' @ nat_str i) = of_bool (i = unat k)" "?r output = \<rho> output"
    using out pubv [OF pub(4)] pubv [OF pub(3)] pick' by (simp_all add: picks_def)
  have rows: "runs ?r (Op, ?E, ?R ?n) (seq (map (\<lambda>i. cs_mul (''rsx'' @ nat_str i) (input @ ''='' @ nat_str i) (arr @ nat_str i)) [0..<?n]))
      (Op, ?E, ?R ?n)"
    by (rule runs_same, rule runs_mul [OF u]) (use rsx val in \<open>auto\<close>)
  have sum: "runs ?r (Op, ?E, ?R ?n) (constraint (map (\<lambda>i. Put (Var (''rsx'' @ nat_str i)) 1) [0..<?n]) [Put One 1] [Put (Var output) 1])
      (Op, ?E, ?R ?n)"
  proof (rule runs_constraint)
    have "(\<Sum>i\<leftarrow>[0..<?n]. 1 * ?r (''rsx'' @ nat_str i)) = (\<Sum>i<?n. if i = unat k then \<rho> output else 0)"
      unfolding rsx by (simp add: sum_list_distinct_conv_sum_set atLeast0LessThan)
    then show "lin ?r (map (\<lambda>i. Put (Var (''rsx'' @ nat_str i)) 1) [0..<?n]) * lin ?r [Put One 1] = lin ?r [Put (Var output) 1]"
      unfolding lin_map using lt val by simp
    show "put_ok {} (map (\<lambda>i. Put (Var (''rsx'' @ nat_str i)) 1 :: 'f entry) [0..<?n])"
      by (rule put_ok_bits) (simp_all add: inj_on_def)
  qed (use u uo in \<open>auto simp: row_ok_iff\<close>)
  have fin: "runs ?r (Op, ?E, ?R ?n) seal (Op, D \<union> insert output (pick_names input ?n), {})"
    by (rule runs_mono [OF runs_seal]) (use D pub in auto)
  show "runs ?r (Op, D, A) (load_array input output arr n k) (Op, D \<union> insert output (pick_names input ?n), {})"
    unfolding load_array_def
    by (rule runs_Cons [OF sel], rule again, rule runs_Cons [OF loop [unfolded loop0]], rule copy)
      (rule runs_Cons [OF runs_unless] runs_Cons [OF rows] runs_Cons [OF sum] runs_Cons [OF fin] runs_Nil order_refl)+
qed (use A in simp_all)

lemma xout_neq [simp]: "xout i \<noteq> xout j \<longleftrightarrow> i \<noteq> j" "xout i \<notin> choose_names" "xout i \<notin> locals"
proof -
  show "xout i \<noteq> xout j \<longleftrightarrow> i \<noteq> j" by (simp add: xout_def)
  have "''x'' @ [CHR 0x27] @ nat_str i \<notin> locals" using locals_nat_str [of "''x'' @ [CHR 0x27]" i]
    by (simp add: is_digit_def local_stems_def)
  then show "xout i \<notin> locals" by (simp only: xout_def not_False_eq_True)
  then show "xout i \<notin> choose_names" by (simp add: locals_def)
qed

lemma runs_store_reg:
  fixes \<rho> :: "string \<Rightarrow> 'f::field"
  assumes pick: "picks \<rho> input 32 (unat k)" and large: "large_field TYPE('f)"
    and Op: "Op \<inter> locals = {}" "input \<notin> Op" "\<And>x. input @ ''='' @ x \<notin> Op" "output \<notin> Op" "\<And>i. ''x'' @ nat_str i \<notin> Op"
    and pub: "input \<notin> locals" "\<And>x. input @ ''='' @ x \<notin> locals" "output \<notin> locals" "\<And>i. ''x'' @ nat_str i \<notin> locals"
    and D: "output \<in> D" "\<And>i. i < 32 \<Longrightarrow> ''x'' @ nat_str i \<in> D" "D \<inter> locals = {}"
    and neq: "output \<noteq> xout 0" "input \<noteq> xout 0" "\<And>x. input @ ''='' @ x \<noteq> xout 0" "\<And>i. ''x'' @ nat_str i \<noteq> xout 0"
    and out: "\<And>i. 0 < i \<Longrightarrow> i < 32 \<Longrightarrow> \<rho> (xout i) = (if i = unat k then \<rho> output else \<rho> (''x'' @ nat_str i))"
    and A: "A \<subseteq> choose_names"
  shows "runs \<rho> (Op, D, A) (store_reg input output k)
    (insert (xout 0) (Op \<union> {''rsx0'', ''z0''}), D \<union> pick_names input 32 \<union> xout ` {..<32}, {})"
proof (rule runs_local [of "alt [(''rsx'', \<lambda>i. if i \<noteq> unat k then \<rho> (''x'' @ nat_str i) else 0), (''z'', \<lambda>i. if i = unat k then \<rho> output else 0)] \<rho>"])
  let ?t = "[(''rsx'', \<lambda>i. if i \<noteq> unat k then \<rho> (''x'' @ nat_str i) else 0), (''z'', \<lambda>i. if i = unat k then \<rho> output else 0)]"
  let ?r = "alt ?t \<rho>"
  show pubv: "?r m = \<rho> m" if "m \<notin> locals" for m
    by (rule alt_public) (use that in \<open>simp_all add: local_stems_def\<close>)
  have loc: "?r (''rsx'' @ nat_str i) = (if i \<noteq> unat k then \<rho> (''x'' @ nat_str i) else 0)" "?r (''z'' @ nat_str i) = (if i = unat k then \<rho> output else 0)" for i
    using alt_nat_str [of "''rsx''" ?t \<rho> i] alt_nat_str [of "''z''" ?t \<rho> i] by (simp_all add: is_digit_def)
  have pick': "picks ?r input (unat (32 :: u32)) (unat k)" using pick pub by (simp add: picks_def pubv)
  let ?D = "D \<union> pick_names input 32"
  have sel: "runs ?r (Op, D, A) (selector input 32 k) (Op, ?D, {})"
    using runs_selector [OF _ pick' large Op(1-3) pub(1,2) D(3) A] by simp
  have again: "runs ?r (Op, ?D, {}) (seq (declare_var input # assign input (num k) # gs)) t" if "runs ?r (Op, ?D, {}) (seq gs) t" for gs t
    by (rule runs_set_pair) (use that pub(1) Op(2) pick' in \<open>simp_all add: settable_def picks_def insert_absorb\<close>)
  let ?O = "insert (xout 0) (Op \<union> {''rsx0'', ''z0''})" and ?E = "insert ''z0'' (insert ''rsx0'' (insert (xout 0) ?D))"
  let ?N = "\<lambda>n. (\<lambda>i. ''rsx'' @ nat_str i) ` {..<n} \<union> (\<lambda>i. ''z'' @ nat_str i) ` {..<n}"
  have l0: "''rsx0'' \<in> locals" "''z0'' \<in> locals" using local_stem_names(5,6) [of 0] by simp_all
  have start: "runs ?r (Op, ?D, {}) (seq (declare_var (xout 0) # new_local_var ''rsx0'' # new_local_var ''z0'' # gs)) t"
    if "runs ?r (?O, ?E, {''rsx0'', ''z0''}) (seq gs) t" for gs t
  proof (rule runs_Cons [OF runs_declare], simp, rule runs_Cons [OF runs_new_local [OF l0(1)]], simp, rule runs_Cons [OF runs_new_local [OF l0(2)]], simp)
    have "insert ''z0'' (insert ''rsx0'' (insert (xout 0) Op)) = ?O" "insert ''z0'' (insert ''rsx0'' {}) = {''rsx0'', ''z0''}" by blast+
    with that show "runs ?r (insert ''z0'' (insert ''rsx0'' (insert (xout 0) Op)), ?E, insert ''z0'' {''rsx0''}) (seq gs) t" by simp
  qed
  have O': "''x'' @ nat_str i \<notin> ?O" for i
    using Op(5) neq(4) by (auto simp del: append_Cons append_Nil) simp_all
  let ?P = "\<lambda>n. ?O - xout ` {0<..<Suc n}" and ?F = "\<lambda>n. ?E \<union> ?N (Suc n) \<union> xout ` {0<..<Suc n}"
  let ?g = "\<lambda>i. with_var (''x'' @ nat_str i) (\<lambda>reg. seq
        [set_field_var (xout i) (if i = unat k then ?r output else reg),
         set_local (''rsx'' @ nat_str i) (if i \<noteq> unat k then reg else 0),
         set_local (''z'' @ nat_str i) (if i = unat k then ?r output else 0)])"
  have body: "runs ?r (?P i, ?F i, ?N (Suc i)) (?g (Suc i)) (?P (Suc i), ?F (Suc i), ?N (Suc (Suc i)))" if "i < 31" for i
  proof (rule runs_with_var)
    let ?i = "Suc i"
    have x: "?r (xout ?i) = (if ?i = unat k then ?r output else ?r (''x'' @ nat_str ?i))"
      using out [of ?i] that pubv [OF pub(3)] pubv [OF pub(4)] pubv [OF xout_neq(3)] by simp
    have P: "?P i - {xout ?i} = ?P ?i" by (auto simp: greaterThanLessThan_iff less_Suc_eq)
    have "settable (?F i) (xout ?i)" by (simp add: settable_def)
    note s1 = runs_set_field_var_open [of "?F i" "xout ?i" ?r, OF this x, where Op = "?P i" and A = "?N ?i", unfolded P]
    have new: "''rsx'' @ nat_str ?i \<notin> ?N ?i" "''z'' @ nat_str ?i \<notin> insert (''rsx'' @ nat_str ?i) (?N ?i)" by auto
    have v: "?r (''rsx'' @ nat_str ?i) = (if ?i \<noteq> unat k then ?r (''x'' @ nat_str ?i) else 0)"
      "?r (''z'' @ nat_str ?i) = (if ?i = unat k then ?r output else 0)"
      unfolding loc pubv [OF pub(3)] pubv [OF pub(4)] by (rule refl)+
    note s2 = runs_set_local [of "''rsx'' @ nat_str ?i" "?N ?i" ?r, OF local_stem_names(5) new(1) tracked_stem_names(5) v(1)]
      and s3 = runs_set_local [of "''z'' @ nat_str ?i" "insert (''rsx'' @ nat_str ?i) (?N ?i)" ?r, OF local_stem_names(6) new(2) tracked_stem_names(6) v(2)]
    show "runs ?r (?P i, ?F i, ?N ?i) (seq
        [set_field_var (xout ?i) (if ?i = unat k then ?r output else ?r (''x'' @ nat_str ?i)),
         set_local (''rsx'' @ nat_str ?i) (if ?i \<noteq> unat k then ?r (''x'' @ nat_str ?i) else 0),
         set_local (''z'' @ nat_str ?i) (if ?i = unat k then ?r output else 0)]) (?P ?i, ?F ?i, ?N (Suc ?i))"
      by (rule runs_Cons [OF s1], rule runs_Cons [OF s2], rule runs_Cons [OF s3], rule runs_Nil) (auto simp: less_Suc_eq)
  qed (use D(2) [of "Suc i"] that O' [of "Suc i"] pub(4) [of "Suc i"] in \<open>auto simp: locals_def\<close>)
  have upt: "[1..<32] = map Suc [0..<31]" by (simp add: map_Suc_upt)
  have zero: "{0<..<Suc 0} = {}" "{..<Suc 0} = {0}" by auto
  have Suc31: "Suc 31 = 32" by simp
  have s0: "(?P 0, ?F 0, ?N (Suc 0)) = (?O, ?E, {''rsx0'', ''z0''})" unfolding zero by auto
  have s31: "(?P (length [0..<31]), ?F (length [0..<31]), ?N (Suc (length [0..<31])))
      = (?O - xout ` {0<..<32}, ?E \<union> ?N 32 \<union> xout ` {0<..<32}, ?N 32)"
    unfolding length_upt diff_zero Suc31 ..
  have "runs ?r (?P 0, ?F 0, ?N (Suc 0)) (seq (map (?g \<circ> Suc) [0..<31])) (?P (length [0..<31]), ?F (length [0..<31]), ?N (Suc (length [0..<31])))"
    by (rule runs_loop [where s = "\<lambda>i. (?P i, ?F i, ?N (Suc i))"]) (simp only: length_upt nth_upt diff_zero add_0 o_def, rule body)
  then have loop: "runs ?r (?O, ?E, {''rsx0'', ''z0''}) (seq (map ?g [1..<32])) (?O - xout ` {0<..<32}, ?E \<union> ?N 32 \<union> xout ` {0<..<32}, ?N 32)"
    unfolding s0 s31 upt map_map .
  let ?s = "(?O - xout ` {0<..<32}, ?E \<union> ?N 32 \<union> xout ` {0<..<32}, ?N 32)"
  have notO: "m \<notin> ?O - xout ` {0<..<32}" if "m \<notin> locals" "m \<notin> Op" "m \<noteq> xout 0" for m using that l0 by auto
  have u: "usable ?s (''x'' @ nat_str i)" "usable ?s (input @ ''='' @ nat_str i)" "usable ?s (''rsx'' @ nat_str i)" "usable ?s (''z'' @ nat_str i)"
    "usable ?s (xout i)" if "i \<in> set [1..<32]" for i
  proof -
    have i: "0 < i" "i < 32" using that by auto
    show "usable ?s (''x'' @ nat_str i)"
      using D(2) [OF i(2)] notO [OF pub(4) Op(5) neq(4)] pub(4) [of i] by (intro usableI) (auto simp: locals_def)
    show "usable ?s (input @ ''='' @ nat_str i)"
      using i notO [OF pub(2) Op(3) neq(3)] pub(2) [of "nat_str i"] by (intro usableI) (auto simp: locals_def)
    show "usable ?s (xout i)" using i by (intro usableI) auto
    have O: "''rsx'' @ nat_str i \<notin> ?O" "''z'' @ nat_str i \<notin> ?O"
      using local_stem_names(5,6) [of i] Op(1) i nat_str_eq_iff [of i 0] by (auto simp: xout_def)
    then show "usable ?s (''rsx'' @ nat_str i)" "usable ?s (''z'' @ nat_str i)"
      using i tracked_stem_names(5,6) [of i] by (auto intro!: usableI)
  qed
  have uo: "usable ?s output" using D(1) notO [OF pub(3) Op(4) neq(1)] pub(3) by (intro usableI) (auto simp: locals_def)
  have rows: "runs ?r ?s (seq (map (\<lambda>i. seq
        [constraint [Put One 1, Put (Var (input @ ''='' @ nat_str i)) (- 1)] [Put (Var (''x'' @ nat_str i)) 1]
           [Put (Var (''rsx'' @ nat_str i)) 1],
         cs_mul (''z'' @ nat_str i) (input @ ''='' @ nat_str i) output,
         cs_add (xout i) (''rsx'' @ nat_str i) (''z'' @ nat_str i)]) [1..<32])) ?s"
  proof (rule runs_same)
    fix i assume i: "i \<in> set [1..<32]"
    have v: "?r (input @ ''='' @ nat_str i) = of_bool (i = unat k)" "?r (xout i) = (if i = unat k then \<rho> output else \<rho> (''x'' @ nat_str i))"
      using pick' out [of i] i pubv [OF xout_neq(3)] by (simp_all add: picks_def)
    show "runs ?r ?s (seq
        [constraint [Put One 1, Put (Var (input @ ''='' @ nat_str i)) (- 1)] [Put (Var (''x'' @ nat_str i)) 1]
           [Put (Var (''rsx'' @ nat_str i)) 1],
         cs_mul (''z'' @ nat_str i) (input @ ''='' @ nat_str i) output,
         cs_add (xout i) (''rsx'' @ nat_str i) (''z'' @ nat_str i)]) ?s"
      by (rule runs_Cons [OF runs_constraint], (use u [OF i] v loc(1) [of i] pubv [OF pub(4), of i] in simp_all)[7],
          rule runs_Cons [OF runs_mul [OF u(4) [OF i] u(2) [OF i] uo]], (use v loc(2) [of i] pubv [OF pub(3)] in simp)[1],
          rule runs_Cons [OF runs_add [OF u(5) [OF i] u(3) [OF i] u(4) [OF i]]], simp, (use v loc [of i] in simp)[1], rule runs_Nil)
        simp_all
  qed
  have "{..<32 :: nat} = insert 0 {0<..<32}" by auto
  then have fin: "runs ?r ?s seal (?O, D \<union> pick_names input 32 \<union> xout ` {..<32}, {})"
    by (intro runs_mono [OF runs_seal]) (use D(3) pub in auto)
  show "runs ?r (Op, D, A) (store_reg input output k)
    (insert (xout 0) (Op \<union> {''rsx0'', ''z0''}), D \<union> pick_names input 32 \<union> xout ` {..<32}, {})"
    unfolding store_reg_def
    by (rule runs_with_var, (use D(1) Op(4) pub(3) in \<open>simp_all add: locals_def\<close>)[3],
        rule runs_Cons [OF sel], rule again, rule start, rule runs_Cons [OF loop])
      (rule runs_Cons [OF runs_unless] runs_Cons [OF rows] runs_Cons [OF fin] rows runs_Nil order_refl)+
qed (use A in simp_all)

end
