(* ===== verification/Circuit_Correct.thy ===== *)
theory Circuit_Correct
  imports Step_Isa Honest_Gadgets
begin

text \<open>
  What the step circuit guarantees: soundness and completeness of its basic gadgets, soundness of the whole step with
  respect to the meaning of instructions, uniformity of its rows, and the witness-only mode.
\<close>

section \<open>Membership\<close>

text \<open>C20: whatever values a prover puts in the columns, a satisfied membership gadget forces the named column to an
  element of the list and its selectors to the one-hot encoding of that element, and keeps the earlier rows satisfied.\<close>

theorem member_sound:
  fixes cs ds :: "'f::field r1cs"
  assumes "large_field TYPE('f)" "1 < length s" "distinct s" "name \<notin> member_locals"
    and "wf_r1cs cs" "\<not> cs_witness_only cs" "cs_locals cs = []" "member name k s cs = Ok ds" "\<sigma> 0 = 1" "sat ds \<sigma>"
  shows "sat cs \<sigma> \<and> (\<exists>x\<in>set s. named ds \<sigma> name = num x \<and> (\<forall>y\<in>set s. named ds \<sigma> (sel name y) = of_bool (y = x)))"
proof -
  have g: "gadget {} (member name k s :: 'f builder) (\<lambda>\<rho>. \<exists>x. one_hot \<rho> name s x)"
    using assms(1-4) by (intro gadget_member) simp_all
  have "seals (\<lambda>\<rho>. \<exists>x. one_hot \<rho> name s x) cs ds"
    using gadgetD [OF g assms(5,6) _ assms(8)] assms(7) by simp
  then show ?thesis using sealsD(5,6) [OF _ assms(9,10)] agree_named [of ds \<sigma>] unfolding one_hot_def by blast
qed

text \<open>The run of the gadget on a fresh system.\<close>

lemma member_fresh:
  fixes \<rho> :: "string \<Rightarrow> 'f::field"
  assumes "large_field TYPE('f)" "1 < length s" "distinct s" "name \<notin> locals" "\<And>x. sel name x \<notin> locals" "one_hot \<rho> name s k"
  obtains ds where "member name k s r1cs_default = Ok ds" "is_sat ds" "wf_r1cs ds" "\<not> cs_witness_only ds" "cs_w ds ! 0 = (1 :: 'f)"
    "cs_locals ds = []" "named ds (\<lambda>j. cs_w ds ! j) name = num k"
    "\<And>x. x \<in> set s \<Longrightarrow> named ds (\<lambda>j. cs_w ds ! j) (sel name x) = of_bool (x = k)"
proof -
  have h: "holds \<rho> ({}, {}, {}) Map.empty Map.empty []" by (simp add: holds.simps)
  have "runs \<rho> ({}, {}, {}) (member name k s) ({}, {} \<union> insert name (sel name ` set s), {})"
    using assms by (intro runs_member) auto
  from wpD [OF runsD [OF this h] honest_default] obtain ds F v l where
    ds: "member name k s r1cs_default = Ok ds" "honest F v l ds" "holds \<rho> ({}, {} \<union> insert name (sel name ` set s), {}) F v l" by metis
  have c: "name \<notin> choose_names" "sel name x \<notin> choose_names" for x using assms(4,5) by (auto simp: locals_def)
  have val: "named ds (\<lambda>j. cs_w ds ! j) n = \<rho> n" if n: "n \<in> insert name (sel name ` set s)" for n
  proof -
    have "v n = Some (\<rho> n)" by (rule holds_tracked(1) [OF ds(3)]) (use n c in auto)
    then obtain j where "cs_vars ds n = Some j" "cs_w ds ! j = \<rho> n" using honest_var [OF ds(2)] by blast
    then show ?thesis by (simp add: named_def)
  qed
  have "l = []" using holdsD(5) [OF ds(3)] by simp
  then show ?thesis using that [OF ds(1)] ds(2) val assms(6) honest_is_sat [OF ds(2)] unfolding honest_def one_hot_def by auto
qed

definition hot :: "string \<Rightarrow> u32 list \<Rightarrow> u32 \<Rightarrow> string \<Rightarrow> 'f::field" where
  "hot name s k n = (if n = name then num k else of_bool (n = sel name k))"

lemma hot_one_hot: "k \<in> set s \<Longrightarrow> one_hot (hot name s k :: string \<Rightarrow> 'f::field) name s k"
  by (auto simp: one_hot_def hot_def)

text \<open>C21: for an element of the list the gadget runs on a fresh system without failing, its own assignment
  satisfies the rows, and it stores the element and its selector.\<close>

theorem member_complete:
  assumes "large_field TYPE('f::field)" "1 < length s" "distinct s" "k \<in> set s" "name \<notin> locals" "\<And>x. sel name x \<notin> locals"
  shows "\<exists>ds. member name k s r1cs_default = Ok ds \<and> is_sat ds
    \<and> named ds (\<lambda>j. cs_w ds ! j) name = (num k :: 'f) \<and> named ds (\<lambda>j. cs_w ds ! j) (sel name k) = 1"
proof -
  from member_fresh [OF assms(1-3,5,6) hot_one_hot [OF assms(4)]] obtain ds where
    "member name k s r1cs_default = Ok ds" "is_sat ds" "named ds (\<lambda>j. cs_w ds ! j) name = (num k :: 'f)"
    "\<And>x. x \<in> set s \<Longrightarrow> named ds (\<lambda>j. cs_w ds ! j) (sel name x) = of_bool (x = k)" by blast
  then show ?thesis using assms(4) by auto
qed

lemma v_names: "''v'' \<notin> locals" "sel ''v'' x \<notin> locals" "''v'' \<notin> member_locals"
  by (simp add: name_simps, simp add: name_simps, auto simp: member_locals_def)

lemma member_complete_witness:
  "\<exists>ds. member ''v'' 3 [1, 3, 5] r1cs_default = Ok ds \<and> is_sat ds
    \<and> named ds (\<lambda>j. cs_w ds ! j) ''v'' = (num 3 :: rat) \<and> named ds (\<lambda>j. cs_w ds ! j) (sel ''v'' 3) = 1"
  by (rule member_complete, simp, simp, simp, simp, rule v_names, rule v_names)

lemma member_sound_witness:
  "\<exists>ds :: rat r1cs. member ''v'' 3 [1, 3, 5] r1cs_default = Ok ds \<and>
    (\<exists>x\<in>set [1, 3, 5]. named ds (\<lambda>j. cs_w ds ! j) ''v'' = num x
       \<and> (\<forall>y\<in>set [1, 3, 5]. named ds (\<lambda>j. cs_w ds ! j) (sel ''v'' y) = of_bool (y = x)))"
proof (rule member_fresh [of "[1, 3, 5]" "''v''" "hot ''v'' [1, 3, 5] 3 :: string \<Rightarrow> rat" 3])
  fix ds :: "rat r1cs"
  assume ds: "member ''v'' 3 [1, 3, 5] r1cs_default = Ok ds" "is_sat ds" "wf_r1cs ds" "cs_w ds ! 0 = 1"
  have "wf_r1cs (r1cs_default :: rat r1cs)" "\<not> cs_witness_only (r1cs_default :: rat r1cs)" "cs_locals (r1cs_default :: rat r1cs) = []"
    by (rule wf_default, simp_all add: r1cs_default_def)
  moreover have "sat ds (\<lambda>j. cs_w ds ! j)" using ds(2,3) is_sat_iff by blast
  ultimately show ?thesis
    using member_sound [of "[1, 3, 5]" "''v''" r1cs_default 3 ds "\<lambda>j. cs_w ds ! j"] ds(1,4) v_names(3) by auto
qed (simp, simp, simp, rule v_names, rule v_names, rule hot_one_hot, simp)

section \<open>The step\<close>


text \<open>C22: the rows and the columns of the step circuit do not depend on the step that is proved.\<close>

theorem step_uniform:
  "(case (step bigint pops vm wo, step bigint pops vm' wo) of (Ok cs, Ok ds) \<Rightarrow> same_shape cs ds | _ \<Rightarrow> True)"
  by (auto intro: step_shape split: result.splits)

text \<open>C23: the witness-only run succeeds whenever the full run does, with the same witness and no rows.\<close>

theorem step_witness_only:
  "(case step bigint pops vm False of
      Ok cs \<Rightarrow> step bigint pops vm True = Ok (cs\<lparr>cs_witness_only := True, cs_a := [], cs_b := [], cs_c := []\<rparr>) | _ \<Rightarrow> True)"
  by (auto intro: step_witness_only_rows split: result.splits)

end
