(* ===== verification/Sparse.thy ===== *)
theory Sparse
  imports Prelude
begin

text \<open>
  Compressed sparse row matrices (\<^verbatim>\<open>nova/src/sparse.rs\<close>): construction from rows of value/column pairs,
  multiplication by a dense vector, and the iterator over the entries.  Indexing and slicing out of range and the
  failed assertions are \<open>Panic\<close>.  The matrix of the specification is the list of rows the constructor is given.
\<close>

section \<open>Matrices\<close>

record 'f sparse_matrix =
  sm_data :: "'f list"
  sm_indices :: "nat list"
  sm_indptr :: "nat list"
  sm_cols :: nat

type_synonym 'f rows = "('f \<times> nat) list list"

definition sm_empty :: "'f sparse_matrix" where
  "sm_empty = \<lparr>sm_data = [], sm_indices = [], sm_indptr = [0], sm_cols = 0\<rparr>"

definition slice :: "'a list \<Rightarrow> nat \<times> nat \<Rightarrow> 'a list result" where
  "slice xs p = (if fst p \<le> snd p \<and> snd p \<le> length xs then Ok (take (snd p - fst p) (drop (fst p) xs)) else Panic)"

text \<open>The entries of the argument with their row numbers, in order.\<close>

definition coo_entries :: "'f rows \<Rightarrow> (nat \<times> nat \<times> 'f) list" where
  "coo_entries M = concat (map (\<lambda>(i, row). map (\<lambda>(f, j). (i, j, f)) row) (enumerate 0 M))"

fun push_entries :: "(nat \<times> nat \<times> 'f) list \<Rightarrow> (nat \<times> 'f) list list \<Rightarrow> (nat \<times> 'f) list list result" where
  "push_entries [] m = Ok m"
| "push_entries ((i, j, f) # es) m = (if i < length m then push_entries es (m[i := m ! i @ [(j, f)]]) else Panic)"

fun row_ptrs :: "nat \<Rightarrow> 'a list list \<Rightarrow> nat list" where
  "row_ptrs p [] = [p]"
| "row_ptrs p (r # rs) = p # row_ptrs (p + length r) rs"

definition sm_new :: "'f rows \<Rightarrow> nat \<Rightarrow> nat \<Rightarrow> 'f sparse_matrix result" where
  "sm_new matrix rows cols =
     result_bind (push_entries (coo_entries matrix) (replicate rows [])) (\<lambda>m.
     if list_all (\<lambda>row. successively (<) (map fst row)) m
     then Ok \<lparr>sm_data = concat (map (map snd) m), sm_indices = concat (map (map fst) m), sm_indptr = row_ptrs 0 m, sm_cols = cols\<rparr>
     else Panic)"

section \<open>Multiplication\<close>

definition windows2 :: "'a list \<Rightarrow> ('a \<times> 'a) list" where
  "windows2 xs = zip xs (tl xs)"

definition get_row_unchecked :: "'f sparse_matrix \<Rightarrow> nat \<times> nat \<Rightarrow> ('f \<times> nat) list result" where
  "get_row_unchecked m ptrs = result_bind (slice (sm_data m) ptrs) (\<lambda>d.
     result_bind (slice (sm_indices m) ptrs) (\<lambda>i. Ok (zip d i)))"

fun row_dot :: "('f::field \<times> nat) list \<Rightarrow> 'f list \<Rightarrow> 'f result" where
  "row_dot [] v = Ok 0"
| "row_dot ((x, j) # es) v = result_bind (index v j) (\<lambda>y. result_bind (row_dot es v) (\<lambda>s. Ok (x * y + s)))"

definition multiply_vec_unchecked :: "'f::field sparse_matrix \<Rightarrow> 'f list \<Rightarrow> 'f list result" where
  "multiply_vec_unchecked m v =
     collect (map (\<lambda>ptrs. result_bind (get_row_unchecked m ptrs) (\<lambda>row. row_dot row v)) (windows2 (sm_indptr m)))"

definition multiply_vec :: "'f::field sparse_matrix \<Rightarrow> 'f list \<Rightarrow> 'f list result" where
  "multiply_vec m v = (if sm_cols m = length v then multiply_vec_unchecked m v else Panic)"

definition sm_len :: "'f sparse_matrix \<Rightarrow> nat result" where
  "sm_len m = (if sm_indptr m = [] then Panic else Ok (last (sm_indptr m)))"

definition sm_is_empty :: "'f sparse_matrix \<Rightarrow> bool result" where
  "sm_is_empty m = result_bind (sm_len m) (\<lambda>n. Ok (n = 0))"

section \<open>Iteration\<close>

record sm_iter =
  it_row :: nat
  it_i :: nat
  it_nnz :: nat

text \<open>The two loops over \<^verbatim>\<open>indptr\<close>: skip the rows whose end is 0, and the rows that end at or before entry \<open>i\<close>.\<close>

function first_row :: "nat list \<Rightarrow> nat \<Rightarrow> nat result" where
  "first_row indptr row =
     (if row + 1 < length indptr then if indptr ! (row + 1) = 0 then first_row indptr (row + 1) else Ok row else Panic)"
  by auto
termination by (relation "measure (\<lambda>(p, r). length p - r)") auto

function advance_row :: "nat list \<Rightarrow> nat \<Rightarrow> nat \<Rightarrow> nat result" where
  "advance_row indptr i row =
     (if row + 1 < length indptr then if i \<ge> indptr ! (row + 1) then advance_row indptr i (row + 1) else Ok row else Panic)"
  by auto
termination by (relation "measure (\<lambda>(p, i, r). length p - r)") auto

declare first_row.simps [simp del] advance_row.simps [simp del]

definition iter_start :: "'f sparse_matrix \<Rightarrow> sm_iter result" where
  "iter_start m = result_bind (first_row (sm_indptr m) 0) (\<lambda>row.
     result_bind (sm_len m) (\<lambda>n. Ok \<lparr>it_row = row, it_i = 0, it_nnz = n\<rparr>))"

definition iter_step :: "'f sparse_matrix \<Rightarrow> sm_iter \<Rightarrow> (sm_iter \<times> (nat \<times> nat \<times> 'f) option) result" where
  "iter_step m it =
     (if it_i it = it_nnz it then Ok (it, None)
      else result_bind (index (sm_indices m) (it_i it)) (\<lambda>col. result_bind (index (sm_data m) (it_i it)) (\<lambda>val.
        let item = (it_row it, col, val); it = it\<lparr>it_i := it_i it + 1\<rparr> in
        if it_i it = it_nnz it then Ok (it, Some item)
        else result_bind (advance_row (sm_indptr m) (it_i it) (it_row it)) (\<lambda>row. Ok (it\<lparr>it_row := row\<rparr>, Some item)))))"

text \<open>Running the iterator, at most \<open>n\<close> times; its owner stops at the first \<open>None\<close>.\<close>

fun iter_items :: "nat \<Rightarrow> 'f sparse_matrix \<Rightarrow> sm_iter \<Rightarrow> (nat \<times> nat \<times> 'f) list result" where
  "iter_items 0 m it = Ok []"
| "iter_items (Suc n) m it = result_bind (iter_step m it) (\<lambda>(it, x). case x of
     None \<Rightarrow> Ok [] | Some item \<Rightarrow> result_bind (iter_items n m it) (\<lambda>items. Ok (item # items)))"

definition sm_items :: "'f sparse_matrix \<Rightarrow> (nat \<times> nat \<times> 'f) list result" where
  "sm_items m = result_bind (iter_start m) (iter_items (Suc (length (sm_data m))) m)"

section \<open>Construction\<close>

text \<open>The rows the constructor accepts: rows beyond the declared number may be present if they are empty.\<close>

definition rows_ok :: "nat \<Rightarrow> nat \<Rightarrow> 'f rows \<Rightarrow> bool" where
  "rows_ok rows cols M \<longleftrightarrow> (\<forall>row\<in>set (drop rows M). row = []) \<and> (\<forall>row\<in>set M. successively (<) (map snd row) \<and> (\<forall>(x, j)\<in>set row. j < cols))"

definition pad_rows :: "nat \<Rightarrow> 'f rows \<Rightarrow> 'f rows" where
  "pad_rows rows M = take rows M @ replicate (rows - length M) []"

lemma push_row:
  "i < length m \<Longrightarrow> push_entries (map (\<lambda>(f, j). (i, j, f)) row @ es) m = push_entries es (m[i := m ! i @ map prod.swap row])"
  by (induction row arbitrary: m) (auto simp: prod.swap_def)

lemma push_rows:
  assumes "n + length M \<le> length m" "\<And>i. n \<le> i \<Longrightarrow> i < length m \<Longrightarrow> m ! i = []"
  shows "push_entries (concat (map (\<lambda>(i, row). map (\<lambda>(f, j). (i, j, f)) row) (enumerate n M))) m
    = Ok (take n m @ map (map prod.swap) M @ drop (n + length M) m)"
  using assms
proof (induction M arbitrary: n m)
  case (Cons row M)
  let ?m = "m[n := m ! n @ map prod.swap row]"
  have n: "n < length m" "m ! n = []" using Cons.prems by auto
  have "push_entries (concat (map (\<lambda>(i, row). map (\<lambda>(f, j). (i, j, f)) row) (enumerate n (row # M)))) m
      = push_entries (concat (map (\<lambda>(i, row). map (\<lambda>(f, j). (i, j, f)) row) (enumerate (Suc n) M))) ?m"
    using push_row [OF n(1)] by simp
  also have "\<dots> = Ok (take (Suc n) ?m @ map (map prod.swap) M @ drop (Suc n + length M) ?m)"
    using Cons.prems by (intro Cons.IH) auto
  also have "take (Suc n) ?m = take n m @ [map prod.swap row]" using n by (simp add: take_Suc_conv_app_nth)
  finally show ?case by simp
qed simp

lemma coo_append:
  "coo_entries (M @ N) = coo_entries M @ concat (map (\<lambda>(i, row). map (\<lambda>(f, j). (i, j, f)) row) (enumerate (length M) N))"
  by (simp add: coo_entries_def enumerate_append_eq)

lemma coo_blank: "\<forall>row\<in>set M. row = [] \<Longrightarrow> concat (map (\<lambda>(i, row). map (\<lambda>(f, j). (i, j, f)) row) (enumerate n M)) = []"
  by (induction M arbitrary: n) auto

lemma coo_take: "\<forall>row\<in>set (drop rows M). row = [] \<Longrightarrow> coo_entries (take rows M) = coo_entries M"
  using coo_append [of "take rows M" "drop rows M"] coo_blank [of "drop rows M"] by simp

lemma coo_pad: "\<forall>row\<in>set (drop rows M). row = [] \<Longrightarrow> coo_entries (pad_rows rows M) = coo_entries M"
  using coo_append [of "take rows M"] by (simp add: pad_rows_def coo_take coo_blank)

lemma push_entries_coo:
  "\<forall>row\<in>set (drop rows M). row = []
   \<Longrightarrow> push_entries (coo_entries M) (replicate rows []) = Ok (map (map prod.swap) (pad_rows rows M))"
proof -
  assume *: "\<forall>row\<in>set (drop rows M). row = []"
  have "push_entries (coo_entries (take rows M)) (replicate rows []) = Ok (map (map prod.swap) (pad_rows rows M))"
    unfolding coo_entries_def by (subst push_rows) (auto simp: pad_rows_def)
  then show ?thesis using coo_take [OF *] by simp
qed

lemma row_ptrs_map: "row_ptrs p (map (map f) rs) = row_ptrs p rs"
  by (induction rs arbitrary: p) auto

text \<open>The matrix the constructor builds.\<close>

definition csr :: "'f rows \<Rightarrow> nat \<Rightarrow> 'f sparse_matrix" where
  "csr M cols = \<lparr>sm_data = map fst (concat M), sm_indices = map snd (concat M), sm_indptr = row_ptrs 0 M, sm_cols = cols\<rparr>"

lemma sm_new_csr:
  assumes "rows_ok rows cols M"
  shows "sm_new M rows cols = Ok (csr (pad_rows rows M) cols)"
proof -
  have len: "\<forall>row\<in>set (drop rows M). row = []" using assms by (simp add: rows_ok_def)
  have "list_all (\<lambda>row. successively (<) (map fst row)) (map (map prod.swap) (pad_rows rows M))"
    using assms by (auto simp: list_all_iff pad_rows_def rows_ok_def comp_def dest: in_set_takeD)
  then show ?thesis
    by (simp add: sm_new_def push_entries_coo [OF len] row_ptrs_map csr_def map_concat comp_def)
qed

lemma sm_new_rows:
  assumes "sm_new M rows cols = Ok m" "\<forall>row\<in>set (drop rows M). row = []" "\<And>row x j. row \<in> set M \<Longrightarrow> (x, j) \<in> set row \<Longrightarrow> j < cols"
  shows "rows_ok rows cols M"
proof -
  have *: "list_all (\<lambda>row. successively (<) (map fst row)) (map (map prod.swap) (pad_rows rows M))"
    using assms(1) by (simp add: sm_new_def push_entries_coo [OF assms(2)] split: if_splits)
  then have take: "successively (<) (map snd row)" if "row \<in> set (take rows M)" for row
  proof -
    have "map prod.swap row \<in> set (map (map prod.swap) (pad_rows rows M))" using that by (simp add: pad_rows_def)
    then have "successively (<) (map fst (map prod.swap row))" using * unfolding list_all_iff by blast
    then show ?thesis by (simp add: comp_def)
  qed
  have "successively (<) (map snd row)" if row: "row \<in> set M" for row
  proof -
    have "row \<in> set (take rows M) \<union> set (drop rows M)" using row by (metis append_take_drop_id set_append)
    then show ?thesis using take assms(2) by auto
  qed
  then show ?thesis using assms(2,3) by (auto simp: rows_ok_def)
qed

section \<open>Products\<close>

definition row_product :: "('f::field \<times> nat) list \<Rightarrow> 'f list \<Rightarrow> 'f" where
  "row_product row v = (\<Sum>(x, j)\<leftarrow>row. x * v ! j)"

definition mat_product :: "'f::field rows \<Rightarrow> 'f list \<Rightarrow> 'f list" where
  "mat_product M v = map (\<lambda>row. row_product row v) M"

lemma row_dot_Ok: "(\<forall>(x, j)\<in>set row. j < length v) \<Longrightarrow> row_dot row v = Ok (row_product row v)"
  by (induction row v rule: row_dot.induct) (auto simp: row_product_def)

lemma row_ptrs_not_Nil [simp]: "row_ptrs p rs \<noteq> []"
  by (cases rs) auto

lemma windows2_row_ptrs:
  "map (\<lambda>ptrs. take (snd ptrs - fst ptrs) (drop (fst ptrs) (xs @ concat rs))) (windows2 (row_ptrs (length xs) rs)) = rs"
proof (induction rs arbitrary: xs)
  case (Cons r rs)
  have "row_ptrs (length xs + length r) rs = (length xs + length r) # tl (row_ptrs (length xs + length r) rs)"
    by (cases rs) auto
  then have "windows2 (row_ptrs (length xs) (r # rs)) = (length xs, length xs + length r) # windows2 (row_ptrs (length xs + length r) rs)"
    unfolding windows2_def by (metis list.sel(3) row_ptrs.simps(2) zip_Cons_Cons)
  then show ?case using Cons.IH [of "xs @ r"] by simp
qed (simp add: windows2_def)

lemma windows2_bounds:
  "ptrs \<in> set (windows2 (row_ptrs p rs)) \<Longrightarrow> fst ptrs \<le> snd ptrs \<and> snd ptrs \<le> p + length (concat rs)"
proof (induction rs arbitrary: p)
  case (Cons r rs)
  have "row_ptrs (p + length r) rs = (p + length r) # tl (row_ptrs (p + length r) rs)" by (cases rs) auto
  then have "windows2 (row_ptrs p (r # rs)) = (p, p + length r) # windows2 (row_ptrs (p + length r) rs)"
    unfolding windows2_def by (metis list.sel(3) row_ptrs.simps(2) zip_Cons_Cons)
  then show ?case using Cons.prems Cons.IH [of "p + length r"] by auto
qed (simp add: windows2_def)

lemma csr_rows:
  "collect (map (get_row_unchecked (csr M cols)) (windows2 (sm_indptr (csr M cols)))) = Ok M"
proof -
  have "get_row_unchecked (csr M cols) ptrs = Ok (take (snd ptrs - fst ptrs) (drop (fst ptrs) (concat M)))"
    if "ptrs \<in> set (windows2 (row_ptrs 0 M))" for ptrs
    using windows2_bounds [OF that]
    by (simp add: get_row_unchecked_def slice_def csr_def zip_map_fst_snd flip: take_map drop_map)
      (simp add: take_map drop_map zip_map_fst_snd)
  then show ?thesis using windows2_row_ptrs [of "[]" M] by (simp add: csr_def)
qed

lemma collect_bind: "collect (map f xs) = Ok ys \<Longrightarrow> collect (map (\<lambda>x. result_bind (f x) g) xs) = collect (map g ys)"
  by (induction xs arbitrary: ys) (auto simp: result_simps)

lemma multiply_vec_csr:
  assumes "\<And>row x j. row \<in> set M \<Longrightarrow> (x, j) \<in> set row \<Longrightarrow> j < cols" "length v = cols"
  shows "multiply_vec (csr M cols) v = Ok (mat_product M v)"
proof -
  have "multiply_vec (csr M cols) v = collect (map (\<lambda>row. row_dot row v) M)"
    using collect_bind [OF csr_rows] assms(2) by (simp add: multiply_vec_def multiply_vec_unchecked_def) (simp add: csr_def)
  also have "\<dots> = Ok (mat_product M v)"
    using assms unfolding mat_product_def by (intro collect_map_Ok row_dot_Ok) auto
  finally show ?thesis .
qed

section \<open>Iteration over a matrix\<close>

text \<open>The row of the entry at a position.\<close>

fun row_of :: "'a list list \<Rightarrow> nat \<Rightarrow> nat" where
  "row_of [] i = 0"
| "row_of (r # rs) i = (if i < length r then 0 else Suc (row_of rs (i - length r)))"

lemma row_ptrs_nth: "k \<le> length M \<Longrightarrow> row_ptrs p M ! k = p + length (concat (take k M))"
proof (induction M arbitrary: p k)
  case (Cons r M)
  then show ?case by (cases k) auto
qed simp

lemma length_row_ptrs [simp]: "length (row_ptrs p M) = Suc (length M)"
  by (induction M arbitrary: p) auto

lemma last_row_ptrs: "last (row_ptrs p M) = p + length (concat M)"
  by (induction M arbitrary: p) auto

lemma row_of_bounds:
  "i < length (concat M) \<Longrightarrow> row_of M i < length M \<and> length (concat (take (row_of M i) M)) \<le> i
    \<and> i < length (concat (take (Suc (row_of M i)) M))"
proof (induction M i rule: row_of.induct)
  case (2 r rs i)
  show ?case
  proof (cases "i < length r")
    case False
    then have "i - length r < length (concat rs)" using "2.prems" by auto
    then show ?thesis using "2.IH" [OF False] False by auto
  qed simp
qed simp

lemma coo_nth:
  "i < length (concat M) \<Longrightarrow> concat (map (\<lambda>(i, row). map (\<lambda>(f, j). (i, j, f)) row) (enumerate n M)) ! i
    = (n + row_of M i, snd (concat M ! i), fst (concat M ! i))"
  by (induction M i arbitrary: n rule: row_of.induct) (auto simp: nth_append split_def)

lemma length_coo: "length (concat (map (\<lambda>(i, row). map (\<lambda>(f, j). (i, j, f)) row) (enumerate n M))) = length (concat M)"
  by (induction M arbitrary: n) auto

lemma ptr_mono: "k \<le> k' \<Longrightarrow> length (concat (take k M)) \<le> length (concat (take k' M))"
proof -
  assume "k \<le> k'"
  then have "take k' M = take k M @ take (k' - k) (drop k M)" by (simp flip: take_add)
  then show ?thesis by simp
qed

lemma advance_row_Ok:
  assumes "i < length (concat M)"
  shows "row \<le> row_of M i \<Longrightarrow> advance_row (row_ptrs 0 M) i row = Ok (row_of M i)"
proof (induction "row_of M i - row" arbitrary: row)
  case 0
  then have "row = row_of M i" by simp
  then show ?case using row_of_bounds [OF assms] by (subst advance_row.simps) (simp add: row_ptrs_nth)
next
  case (Suc d)
  then have row: "Suc row \<le> row_of M i" by simp
  have "length (concat (take (Suc row) M)) \<le> i" using ptr_mono [OF row, of M] row_of_bounds [OF assms] by linarith
  then have "advance_row (row_ptrs 0 M) i row = advance_row (row_ptrs 0 M) i (Suc row)"
    using row row_of_bounds [OF assms] by (subst advance_row.simps) (simp add: row_ptrs_nth)
  then show ?case using Suc.hyps(1) [of "Suc row"] Suc.hyps(2) row by simp
qed

lemma row_of_mono: "i \<le> j \<Longrightarrow> row_of M i \<le> row_of M j"
  by (induction M i arbitrary: j rule: row_of.induct) auto

lemma first_row_advance: "first_row indptr row = advance_row indptr 0 row"
  by (induction indptr row rule: first_row.induct) (subst first_row.simps, subst advance_row.simps, simp)

lemma iter_items_csr:
  assumes "i < length (concat M)" "length (concat M) - i < n"
  shows "iter_items n (csr M cols) \<lparr>it_row = row_of M i, it_i = i, it_nnz = length (concat M)\<rparr> = Ok (drop i (coo_entries M))"
  using assms
proof (induction n arbitrary: i)
  case (Suc n)
  let ?N = "length (concat M)"
  have item: "coo_entries M ! i = (row_of M i, snd (concat M ! i), fst (concat M ! i))"
    using coo_nth [OF Suc.prems(1), of 0] by (simp add: coo_entries_def)
  have len: "length (coo_entries M) = ?N" unfolding coo_entries_def by (rule length_coo)
  have drop: "drop i (coo_entries M) = coo_entries M ! i # drop (Suc i) (coo_entries M)"
    using Suc.prems(1) len by (simp add: Cons_nth_drop_Suc)
  have n: "0 < n" using Suc.prems by linarith
  show ?case
  proof (cases "Suc i = ?N")
    case True
    then have "iter_items n (csr M cols) \<lparr>it_row = row_of M i, it_i = ?N, it_nnz = ?N\<rparr> = Ok []"
      using n by (cases n) (simp_all add: iter_step_def)
    then show ?thesis using True Suc.prems(1) item drop len by (simp add: iter_step_def csr_def Let_def)
  next
    case False
    then have i: "Suc i < ?N" using Suc.prems(1) by simp
    have "advance_row (row_ptrs 0 M) (Suc i) (row_of M i) = Ok (row_of M (Suc i))"
      by (rule advance_row_Ok [OF i]) (rule row_of_mono, simp)
    then show ?thesis using False Suc.prems item drop Suc.IH [OF i] by (simp add: iter_step_def csr_def Let_def)
  qed
qed simp

lemma sm_items_csr: "concat M \<noteq> [] \<Longrightarrow> sm_items (csr M cols) = Ok (coo_entries M)"
proof -
  assume "concat M \<noteq> []"
  then have pos: "0 < length (concat M)" by simp
  have "iter_start (csr M cols) = Ok \<lparr>it_row = row_of M 0, it_i = 0, it_nnz = length (concat M)\<rparr>"
    using advance_row_Ok [OF pos, of 0] by (simp add: iter_start_def sm_len_def first_row_advance csr_def last_row_ptrs)
  then show ?thesis using iter_items_csr [OF pos, of "Suc (length (concat M))" cols] by (simp add: sm_items_def csr_def)
qed

lemma first_row_zeros: "(\<And>k. k < length indptr \<Longrightarrow> indptr ! k = 0) \<Longrightarrow> first_row indptr row = Panic"
  by (induction indptr row rule: first_row.induct) (subst first_row.simps, simp)

lemma concat_Nil_take: "concat M = [] \<Longrightarrow> concat (take k M) = []"
  by (metis Nil_is_append_conv append_take_drop_id concat_append)

lemma sm_items_zero: "concat M = [] \<Longrightarrow> sm_items (csr M cols) = Panic"
proof -
  assume M: "concat M = []"
  have "first_row (row_ptrs 0 M) 0 = Panic"
    by (rule first_row_zeros) (simp add: row_ptrs_nth concat_Nil_take [OF M])
  then show ?thesis by (simp add: sm_items_def iter_start_def csr_def)
qed

section \<open>Properties\<close>

text \<open>C28: a matrix built from rows with strictly increasing columns below \<open>cols\<close> multiplies a vector of that length as
  the dense product, with zero for the rows that were not given.\<close>

theorem multiply_vec_correct:
  assumes "rows_ok rows cols M" "length v = cols"
  shows "\<exists>m. sm_new M rows cols = Ok m \<and> multiply_vec m v =
    Ok (map (\<lambda>i. if i < length M then (\<Sum>(x, j)\<leftarrow>M ! i. x * v ! j) else 0) [0..<rows])"
proof -
  have "multiply_vec (csr (pad_rows rows M) cols) v = Ok (mat_product (pad_rows rows M) v)"
    using assms by (intro multiply_vec_csr) (auto simp: rows_ok_def pad_rows_def dest: in_set_takeD)
  moreover have "mat_product (pad_rows rows M) v = map (\<lambda>i. if i < length M then (\<Sum>(x, j)\<leftarrow>M ! i. x * v ! j) else 0) [0..<rows]"
    using assms by (intro nth_equalityI) (auto simp: mat_product_def pad_rows_def rows_ok_def row_product_def nth_append)
  ultimately show ?thesis using sm_new_csr [OF assms(1)] by metis
qed

lemma multiply_vec_correct_witness:
  "\<exists>m. sm_new [[(2, 1), (7, 2)], [(3, 2)]] 3 3 = Ok m \<and> multiply_vec m [1, 2, 3 :: rat] = Ok [25, 9, 0]"
  using multiply_vec_correct [of 3 3 "[[(2, 1), (7, 2)], [(3, 2)]]" "[1, 2, 3 :: rat]"]
  by (simp add: rows_ok_def upt_rec)

text \<open>The iterator returns every entry with its row number and column, in row order, and aborts on a matrix
  without entries.\<close>

theorem iterator_correct:
  assumes "rows_ok rows cols M"
  shows "\<exists>m. sm_new M rows cols = Ok m \<and> sm_items m =
    (if concat M = [] then Panic else Ok (concat (map (\<lambda>(i, row). map (\<lambda>(x, j). (i, j, x)) row) (enumerate 0 M))))"
proof -
  have len: "\<forall>row\<in>set (drop rows M). row = []" using assms by (simp add: rows_ok_def)
  have "concat (drop rows M) = []" using len by auto
  then have "concat (pad_rows rows M) = concat M"
    using concat_append [of "take rows M" "drop rows M"] by (simp add: pad_rows_def)
  then have "sm_items (csr (pad_rows rows M) cols) = (if concat M = [] then Panic else Ok (coo_entries M))"
    using sm_items_csr sm_items_zero coo_pad [OF len] by metis
  then show ?thesis using sm_new_csr [OF assms] by (simp add: coo_entries_def)
qed

lemma iterator_correct_witness:
  "\<exists>m. sm_new [[], [(2 :: rat, 1), (7, 2)], [], [(3, 0)]] 4 3 = Ok m \<and> sm_items m = Ok [(1, 1, 2), (1, 2, 7), (3, 0, 3)]"
  using iterator_correct [of 4 3 "[[], [(2 :: rat, 1), (7, 2)], [], [(3, 0)]]"] by (simp add: rows_ok_def eval_nat_numeral)

end
