(* ===== verification/Relaxed.thy ===== *)
theory Relaxed
  imports Sparse
begin

text \<open>
  R1CS and relaxed R1CS over sparse matrices (\<^verbatim>\<open>nova/src/r1cs/mod.rs\<close>), and the non-interactive folding scheme
  (\<^verbatim>\<open>nova/src/folding/nova/nifs.rs\<close>).  A function that returns Rust's \<^verbatim>\<open>Result\<close> has the sum type inside
  \<open>result\<close>: \<open>Panic\<close> outside, the errors of the enum inside.  The curve group is an abelian group with a scalar
  multiplication \<open>smul\<close>; its \<^verbatim>\<open>Default\<close> is the neutral element.  A commitment scheme is the function \<open>commit\<close>; the
  sponge of the random oracle is a record of operations.
\<close>

section \<open>Errors\<close>

datatype r1cs_error = ConstraintNumberMismatch | InputLengthMismatch | InvalidWitnessLength | InvalidInputLength | NotSatisfied

type_synonym 'a checked = "(r1cs_error + 'a) result"

fun checked_bind :: "'a checked \<Rightarrow> ('a \<Rightarrow> 'b checked) \<Rightarrow> 'b checked" where
  "checked_bind (Ok (Inr a)) k = k a"
| "checked_bind (Ok (Inl e)) k = Ok (Inl e)"
| "checked_bind (Err e) k = Err e"
| "checked_bind Panic k = Panic"

text \<open>\<^verbatim>\<open>any\<close> over a range of indices: stops at the first hit.\<close>

fun any_result :: "(nat \<Rightarrow> bool result) \<Rightarrow> nat list \<Rightarrow> bool result" where
  "any_result f [] = Ok False"
| "any_result f (i # is) = result_bind (f i) (\<lambda>b. if b then Ok True else any_result f is)"

section \<open>Shapes\<close>

record 'f r1cs_shape =
  num_constraints :: nat
  num_vars :: nat
  num_io :: nat
  sh_A :: "'f sparse_matrix"
  sh_B :: "'f sparse_matrix"
  sh_C :: "'f sparse_matrix"

fun validate_row :: "nat \<Rightarrow> nat \<Rightarrow> nat \<Rightarrow> ('f \<times> nat) list \<Rightarrow> r1cs_error + unit" where
  "validate_row nc width i [] = Inr ()"
| "validate_row nc width i ((x, j) # es) =
     (if i \<ge> nc then Inl ConstraintNumberMismatch else if j \<ge> width then Inl InputLengthMismatch else validate_row nc width i es)"

fun validate_rows :: "nat \<Rightarrow> nat \<Rightarrow> nat \<Rightarrow> 'f rows \<Rightarrow> r1cs_error + unit" where
  "validate_rows nc width i [] = Inr ()"
| "validate_rows nc width i (row # M) = (case validate_row nc width i row of Inl e \<Rightarrow> Inl e | Inr _ \<Rightarrow> validate_rows nc width (Suc i) M)"

definition validate :: "nat \<Rightarrow> nat \<Rightarrow> nat \<Rightarrow> 'f rows \<Rightarrow> unit checked" where
  "validate nc nv nio M = Ok (validate_rows nc (nio + nv) 0 M)"

definition shape_new :: "nat \<Rightarrow> nat \<Rightarrow> nat \<Rightarrow> 'f rows \<Rightarrow> 'f rows \<Rightarrow> 'f rows \<Rightarrow> 'f r1cs_shape checked" where
  "shape_new nc nv nio A B C =
     (if nio = 0 then Ok (Inl InvalidInputLength)
      else checked_bind (validate nc nv nio A) (\<lambda>_. checked_bind (validate nc nv nio B) (\<lambda>_. checked_bind (validate nc nv nio C) (\<lambda>_.
        result_bind (sm_new A nc (nio + nv)) (\<lambda>a. result_bind (sm_new B nc (nio + nv)) (\<lambda>b. result_bind (sm_new C nc (nio + nv)) (\<lambda>c.
        Ok (Inr \<lparr>num_constraints = nc, num_vars = nv, num_io = nio, sh_A = a, sh_B = b, sh_C = c\<rparr>))))))))"

section \<open>Instances and witnesses\<close>

record 'f r1cs_witness =
  rw_W :: "'f list"

record ('f, 'c) r1cs_instance =
  ru_commitment_W :: 'c
  ru_X :: "'f list"

record 'f relaxed_witness =
  xw_W :: "'f list"
  xw_E :: "'f list"

record ('f, 'c) relaxed_instance =
  xu_commitment_W :: 'c
  xu_commitment_E :: 'c
  xu_X :: "'f list"

definition witness_new :: "'f r1cs_shape \<Rightarrow> 'f list \<Rightarrow> 'f r1cs_witness checked" where
  "witness_new S W = (if num_vars S \<noteq> length W then Ok (Inl InvalidWitnessLength) else Ok (Inr \<lparr>rw_W = W\<rparr>))"

definition witness_zero :: "'f::field r1cs_shape \<Rightarrow> 'f r1cs_witness" where
  "witness_zero S = \<lparr>rw_W = replicate (num_vars S) 0\<rparr>"

definition instance_new :: "'f r1cs_shape \<Rightarrow> 'c \<Rightarrow> 'f list \<Rightarrow> ('f, 'c) r1cs_instance checked" where
  "instance_new S c X = (if X = [] then Ok (Inl InvalidInputLength) else if num_io S \<noteq> length X then Ok (Inl InvalidInputLength)
     else Ok (Inr \<lparr>ru_commitment_W = c, ru_X = X\<rparr>))"

definition relaxed_instance_new :: "'f::field r1cs_shape \<Rightarrow> ('f, 'c::ab_group_add) relaxed_instance" where
  "relaxed_instance_new S = \<lparr>xu_commitment_W = 0, xu_commitment_E = 0, xu_X = replicate (num_io S) 0\<rparr>"

definition relaxed_of_instance :: "('f, 'c::ab_group_add) r1cs_instance \<Rightarrow> ('f, 'c) relaxed_instance" where
  "relaxed_of_instance U = \<lparr>xu_commitment_W = ru_commitment_W U, xu_commitment_E = 0, xu_X = ru_X U\<rparr>"

definition relaxed_witness_zero :: "'f::field r1cs_shape \<Rightarrow> 'f relaxed_witness" where
  "relaxed_witness_zero S = \<lparr>xw_W = replicate (num_vars S) 0, xw_E = replicate (num_constraints S) 0\<rparr>"

definition from_r1cs_witness :: "'f::field r1cs_shape \<Rightarrow> 'f r1cs_witness \<Rightarrow> 'f relaxed_witness" where
  "from_r1cs_witness S W = \<lparr>xw_W = rw_W W, xw_E = replicate (num_constraints S) 0\<rparr>"

section \<open>Satisfaction\<close>

definition with_products :: "'f::field r1cs_shape \<Rightarrow> 'f list \<Rightarrow> ('f list \<Rightarrow> 'f list \<Rightarrow> 'f list \<Rightarrow> 'a result) \<Rightarrow> 'a result" where
  "with_products S z k = result_bind (multiply_vec (sh_A S) z) (\<lambda>a. result_bind (multiply_vec (sh_B S) z) (\<lambda>b.
     result_bind (multiply_vec (sh_C S) z) (\<lambda>c. k a b c)))"

definition is_satisfied ::
  "('f list \<Rightarrow> 'c) \<Rightarrow> 'f::field r1cs_shape \<Rightarrow> ('f, 'c) r1cs_instance \<Rightarrow> 'f r1cs_witness \<Rightarrow> unit checked" where
  "is_satisfied commit S U W =
     (if length (rw_W W) \<noteq> num_vars S \<or> length (ru_X U) \<noteq> num_io S then Panic
      else with_products S (ru_X U @ rw_W W) (\<lambda>az bz cz.
        result_bind (any_result (\<lambda>i. result_bind (index az i) (\<lambda>a. result_bind (index bz i) (\<lambda>b. result_bind (index cz i) (\<lambda>c.
          Ok (a * b \<noteq> c))))) [0..<num_constraints S]) (\<lambda>bad.
        if bad then Ok (Inl NotSatisfied)
        else if ru_commitment_W U \<noteq> commit (rw_W W) then Ok (Inl NotSatisfied) else Ok (Inr ()))))"

definition is_relaxed_satisfied ::
  "('f list \<Rightarrow> 'c) \<Rightarrow> 'f::field r1cs_shape \<Rightarrow> ('f, 'c) relaxed_instance \<Rightarrow> 'f relaxed_witness \<Rightarrow> unit checked" where
  "is_relaxed_satisfied commit S U W =
     (if length (xw_W W) \<noteq> num_vars S \<or> length (xu_X U) \<noteq> num_io S \<or> length (xw_E W) \<noteq> num_constraints S then Panic
      else with_products S (xu_X U @ xw_W W) (\<lambda>az bz cz. result_bind (index (xu_X U) 0) (\<lambda>u.
        result_bind (any_result (\<lambda>i. result_bind (index az i) (\<lambda>a. result_bind (index bz i) (\<lambda>b. result_bind (index cz i) (\<lambda>c.
          result_bind (index (xw_E W) i) (\<lambda>e. Ok (a * b \<noteq> u * c + e)))))) [0..<num_constraints S]) (\<lambda>bad.
        if bad then Ok (Inl NotSatisfied)
        else if xu_commitment_W U \<noteq> commit (xw_W W) \<or> xu_commitment_E U \<noteq> commit (xw_E W) then Ok (Inl NotSatisfied)
        else Ok (Inr ())))))"

section \<open>Folding\<close>

definition witness_fold :: "'f::field relaxed_witness \<Rightarrow> 'f r1cs_witness \<Rightarrow> 'f list \<Rightarrow> 'f \<Rightarrow> 'f relaxed_witness checked" where
  "witness_fold W1 W2 T r =
     (if length (xw_W W1) \<noteq> length (rw_W W2) then Ok (Inl InvalidWitnessLength)
      else Ok (Inr \<lparr>xw_W = map2 (\<lambda>a b. a + r * b) (xw_W W1) (rw_W W2), xw_E = map2 (\<lambda>a b. a + r * b) (xw_E W1) T\<rparr>))"

definition witness_fold_with_relaxed ::
  "'f::field relaxed_witness \<Rightarrow> 'f relaxed_witness \<Rightarrow> 'f list \<Rightarrow> 'f \<Rightarrow> 'f relaxed_witness checked" where
  "witness_fold_with_relaxed W1 W2 T r =
     (if length (xw_W W1) \<noteq> length (xw_W W2) \<or> length (xw_E W1) \<noteq> length (xw_E W2) then Ok (Inl InvalidWitnessLength)
      else Ok (Inr \<lparr>xw_W = map2 (\<lambda>a b. a + r * b) (xw_W W1) (xw_W W2),
        xw_E = map2 (\<lambda>(e1, e2) t. e1 + r * t + r ^ 2 * e2) (zip (xw_E W1) (xw_E W2)) T\<rparr>))"

definition instance_fold ::
  "('f \<Rightarrow> 'c \<Rightarrow> 'c) \<Rightarrow> ('f::field, 'c::ab_group_add) relaxed_instance \<Rightarrow> ('f, 'c) r1cs_instance \<Rightarrow> 'c \<Rightarrow> 'f
   \<Rightarrow> ('f, 'c) relaxed_instance checked" where
  "instance_fold smul U1 U2 comm_T r = Ok (Inr
     \<lparr>xu_commitment_W = xu_commitment_W U1 + smul r (ru_commitment_W U2),
      xu_commitment_E = xu_commitment_E U1 + smul r comm_T,
      xu_X = map2 (\<lambda>a b. a + r * b) (xu_X U1) (ru_X U2)\<rparr>)"

definition instance_fold_with_relaxed ::
  "('f \<Rightarrow> 'c \<Rightarrow> 'c) \<Rightarrow> ('f::field, 'c::ab_group_add) relaxed_instance \<Rightarrow> ('f, 'c) relaxed_instance \<Rightarrow> 'c \<Rightarrow> 'f
   \<Rightarrow> ('f, 'c) relaxed_instance checked" where
  "instance_fold_with_relaxed smul U1 U2 comm_T r = Ok (Inr
     \<lparr>xu_commitment_W = xu_commitment_W U1 + smul r (xu_commitment_W U2),
      xu_commitment_E = xu_commitment_E U1 + smul r comm_T + smul (r ^ 2) (xu_commitment_E U2),
      xu_X = map2 (\<lambda>a b. a + r * b) (xu_X U1) (xu_X U2)\<rparr>)"

text \<open>The cross term, entry by entry, from the four products and the two leading inputs.\<close>

definition cross_term :: "'f::field \<Rightarrow> 'f \<Rightarrow> 'f list \<Rightarrow> 'f list \<Rightarrow> 'f list \<Rightarrow> 'f list \<Rightarrow> 'f list \<Rightarrow> 'f list \<Rightarrow> 'f list result" where
  "cross_term u1 u2 az1 bz1 cz1 az2 bz2 cz2 =
     (let ab12 = map2 (*) az1 bz2; ab21 = map2 (*) az2 bz1; uc12 = map ((*) u1) cz2; uc21 = map ((*) u2) cz1 in
      collect (map (\<lambda>i. result_bind (index ab12 i) (\<lambda>a. result_bind (index ab21 i) (\<lambda>b. result_bind (index uc12 i) (\<lambda>c.
        result_bind (index uc21 i) (\<lambda>d. Ok (a + b - c - d)))))) [0..<length ab12]))"

definition commit_T ::
  "('f list \<Rightarrow> 'c) \<Rightarrow> 'f::field r1cs_shape \<Rightarrow> ('f, 'c) relaxed_instance \<Rightarrow> 'f relaxed_witness \<Rightarrow> ('f, 'c) r1cs_instance \<Rightarrow> 'f r1cs_witness
   \<Rightarrow> ('f list \<times> 'c) checked" where
  "commit_T commit S U1 W1 U2 W2 =
     with_products S (xu_X U1 @ xw_W W1) (\<lambda>az1 bz1 cz1. with_products S (ru_X U2 @ rw_W W2) (\<lambda>az2 bz2 cz2.
       result_bind (index (xu_X U1) 0) (\<lambda>u1. result_bind (cross_term u1 1 az1 bz1 cz1 az2 bz2 cz2) (\<lambda>T. Ok (Inr (T, commit T))))))"

definition commit_T_with_relaxed ::
  "('f list \<Rightarrow> 'c) \<Rightarrow> 'f::field r1cs_shape \<Rightarrow> ('f, 'c) relaxed_instance \<Rightarrow> 'f relaxed_witness \<Rightarrow> ('f, 'c) relaxed_instance
   \<Rightarrow> 'f relaxed_witness \<Rightarrow> ('f list \<times> 'c) checked" where
  "commit_T_with_relaxed commit S U1 W1 U2 W2 =
     with_products S (xu_X U1 @ xw_W W1) (\<lambda>az1 bz1 cz1. with_products S (xu_X U2 @ xw_W W2) (\<lambda>az2 bz2 cz2.
       result_bind (index (xu_X U1) 0) (\<lambda>u1. result_bind (index (xu_X U2) 0) (\<lambda>u2.
       result_bind (cross_term u1 u2 az1 bz1 cz1 az2 bz2 cz2) (\<lambda>T. Ok (Inr (T, commit T)))))))"

section \<open>The folding scheme\<close>

record ('s, 'f, 'c) random_oracle =
  ro_absorb_instance :: "'s \<Rightarrow> ('f, 'c) relaxed_instance \<Rightarrow> 's"
  ro_absorb_commitment :: "'s \<Rightarrow> 'c \<Rightarrow> 's"
  ro_squeeze :: "'s \<Rightarrow> 'f \<times> 's"

text \<open>The proof is the commitment to the cross term.\<close>

definition nifs_prove ::
  "('f \<Rightarrow> 'c \<Rightarrow> 'c) \<Rightarrow> ('f list \<Rightarrow> 'c) \<Rightarrow> ('s, 'f, 'c) random_oracle \<Rightarrow> 's \<Rightarrow> 'f::field r1cs_shape
   \<Rightarrow> ('f, 'c::ab_group_add) relaxed_instance \<times> 'f relaxed_witness \<Rightarrow> ('f, 'c) relaxed_instance \<times> 'f relaxed_witness
   \<Rightarrow> 's \<times> ('c \<times> ('f, 'c) relaxed_instance \<times> 'f relaxed_witness) checked" where
  "nifs_prove smul commit ro s S p1 p2 =
     (let (U1, W1) = p1; (U2, W2) = p2; s = ro_absorb_instance ro (ro_absorb_instance ro s U1) U2 in
      case commit_T_with_relaxed commit S U1 W1 U2 W2 of
        Ok (Inr (T, comm_T)) \<Rightarrow>
          let (r, s) = ro_squeeze ro (ro_absorb_commitment ro s comm_T) in
          (s, checked_bind (instance_fold_with_relaxed smul U1 U2 comm_T r) (\<lambda>U.
              checked_bind (witness_fold_with_relaxed W1 W2 T r) (\<lambda>W. Ok (Inr (comm_T, U, W)))))
      | Ok (Inl e) \<Rightarrow> (s, Ok (Inl e)) | Err e \<Rightarrow> (s, Err e) | Panic \<Rightarrow> (s, Panic))"

definition nifs_verify ::
  "('f \<Rightarrow> 'c \<Rightarrow> 'c) \<Rightarrow> ('s, 'f, 'c) random_oracle \<Rightarrow> 's \<Rightarrow> 'c \<Rightarrow> ('f::field, 'c::ab_group_add) relaxed_instance
   \<Rightarrow> ('f, 'c) relaxed_instance \<Rightarrow> 's \<times> ('f, 'c) relaxed_instance checked" where
  "nifs_verify smul ro s comm_T U1 U2 =
     (let s = ro_absorb_instance ro (ro_absorb_instance ro s U1) U2;
          (r, s) = ro_squeeze ro (ro_absorb_commitment ro s comm_T) in
      (s, instance_fold_with_relaxed smul U1 U2 comm_T r))"

section \<open>Pedersen commitments\<close>

text \<open>\<^verbatim>\<open>msm_unchecked\<close> of \<^verbatim>\<open>provider/pedersen.rs\<close>: the sum of the scaled bases, up to the shorter length.\<close>

definition pedersen_commit :: "('f \<Rightarrow> 'c \<Rightarrow> 'c) \<Rightarrow> 'c list \<Rightarrow> 'f list \<Rightarrow> 'c::ab_group_add" where
  "pedersen_commit smul bases scalars = (\<Sum>(g, x)\<leftarrow>zip bases scalars. smul x g)"

end
