(* ===== verification/Relaxed_Correct.thy ===== *)
theory Relaxed_Correct
  imports Relaxed
begin

text \<open>
  The folding scheme is complete and specially sound.  The commitment scheme is used through the contract
  \<open>commitment_scheme\<close>: a vector space and a commitment that is linear on vectors of one length.  Pedersen
  commitments meet it.
\<close>

section \<open>Commitments\<close>

locale commitment_scheme = vector_space smul
  for smul :: "'f::field \<Rightarrow> 'c::ab_group_add \<Rightarrow> 'c" +
  fixes commit :: "'f list \<Rightarrow> 'c"
  assumes commit_fold: "length xs = length ys \<Longrightarrow> commit (map2 (\<lambda>a b. a + r * b) xs ys) = commit xs + smul r (commit ys)"
begin

lemma commit_zeros: "commit (replicate n 0) = 0"
  using commit_fold [of "replicate n 0" "replicate n 0" "- 1"] by (simp add: zip_replicate)

lemma cancel_two:
  assumes "a + smul r b = c + smul r d" "a + smul s b = c + smul s d" "r \<noteq> s"
  shows "a = c \<and> b = d"
proof -
  have "smul r (b - d) = c - a" "smul s (b - d) = c - a"
    using assms(1,2) by (simp_all add: scale_right_diff_distrib algebra_simps)
  then have "smul (r - s) (b - d) = 0" by (simp add: scale_left_diff_distrib)
  then have "b = d" using assms(3) by simp
  then show ?thesis using assms(1) by simp
qed

lemma cancel_three:
  assumes "a + smul r b + smul (r ^ 2) c = a' + smul r b' + smul (r ^ 2) c'"
    "a + smul s b + smul (s ^ 2) c = a' + smul s b' + smul (s ^ 2) c'"
    "a + smul t b + smul (t ^ 2) c = a' + smul t b' + smul (t ^ 2) c'" "r \<noteq> s" "r \<noteq> t" "s \<noteq> t"
  shows "a = a' \<and> b = b' \<and> c = c'"
proof -
  let ?b = "b - b'" and ?c = "c - c'"
  have e: "a - a' + smul x ?b + smul (x ^ 2) ?c = 0" if "a + smul x b + smul (x ^ 2) c = a' + smul x b' + smul (x ^ 2) c'" for x
    using that by (simp add: scale_right_diff_distrib algebra_simps)
  have pair: "?b + smul (x + y) ?c = 0"
    if "a - a' + smul x ?b + smul (x ^ 2) ?c = 0" "a - a' + smul y ?b + smul (y ^ 2) ?c = 0" "x \<noteq> y" for x y
  proof -
    have "smul (x - y) (?b + smul (x + y) ?c) = (smul x ?b + smul (x ^ 2) ?c) - (smul y ?b + smul (y ^ 2) ?c)"
      by (simp add: scale_left_diff_distrib scale_left_distrib scale_right_distrib power2_eq_square algebra_simps)
    also have "\<dots> = (a - a' + smul x ?b + smul (x ^ 2) ?c) - (a - a' + smul y ?b + smul (y ^ 2) ?c)" by simp
    also have "\<dots> = 0" using that(1,2) by simp
    finally show ?thesis using that(3) by simp
  qed
  have bc: "?b + smul (r + s) ?c = 0" "?b + smul (r + t) ?c = 0"
    using pair [OF e [OF assms(1)] e [OF assms(2)] assms(4)] pair [OF e [OF assms(1)] e [OF assms(3)] assms(5)] by simp_all
  have "smul (s - t) ?c = smul (r + s) ?c - smul (r + t) ?c" by (simp flip: scale_left_diff_distrib)
  also have "\<dots> = (?b + smul (r + s) ?c) - (?b + smul (r + t) ?c)" by simp
  also have "\<dots> = 0" using bc by simp
  finally have "smul (s - t) ?c = 0" .
  then have "?c = 0" using assms(6) by simp
  moreover from this have "?b = 0" using bc(1) by simp
  ultimately show ?thesis using e [OF assms(1)] by simp
qed

end

lemma map2_Cons_zip: "zip (g # gs) (map2 f xs ys) = (case (xs, ys) of (x # xs, y # ys) \<Rightarrow> (g, f x y) # zip gs (map2 f xs ys) | _ \<Rightarrow> [])"
  by (cases xs; cases ys) auto

lemma pedersen_scheme:
  fixes smul :: "'f::field \<Rightarrow> 'c::ab_group_add \<Rightarrow> 'c"
  assumes "vector_space smul"
  shows "commitment_scheme smul (pedersen_commit smul bases)"
proof (rule commitment_scheme.intro [OF assms], unfold_locales)
  have vs: "smul a (x + y) = smul a x + smul a y" "smul (a + b) x = smul a x + smul b x" "smul a (smul b x) = smul (a * b) x" for a b x y
    using assms unfolding vector_space_def by blast+
  have zero: "smul a 0 = 0" for a using vs(1) [of a 0 0] by simp
  fix xs ys :: "'f list" and r
  assume "length xs = length ys"
  then show "pedersen_commit smul bases (map2 (\<lambda>a b. a + r * b) xs ys)
    = pedersen_commit smul bases xs + smul r (pedersen_commit smul bases ys)"
  proof (induction bases arbitrary: xs ys)
    case Nil
    then show ?case by (simp add: pedersen_commit_def zero)
  next
    case (Cons g bases)
    show ?case
    proof (cases xs)
      case Nil
      then show ?thesis using Cons.prems by (simp add: pedersen_commit_def zero)
    next
      case (Cons x xs')
      then obtain y ys' where ys: "ys = y # ys'" "length xs' = length ys'" using Cons.prems by (cases ys) auto
      from Cons.IH [OF ys(2)] show ?thesis
        using Cons ys by (simp add: pedersen_commit_def vs algebra_simps)
    qed
  qed
qed

lemma vector_space_field: "vector_space ((*) :: 'f::field \<Rightarrow> 'f \<Rightarrow> 'f)"
  by (simp add: vector_space_def distrib_left distrib_right mult.assoc)

interpretation field_pedersen: commitment_scheme "(*)" "pedersen_commit (*) bases" for bases :: "'f::field list"
  by (rule pedersen_scheme [OF vector_space_field])

section \<open>Shapes and products\<close>

text \<open>The rows a valid shape was built from.\<close>

definition shape_rows :: "'f r1cs_shape \<Rightarrow> 'f rows \<Rightarrow> 'f rows \<Rightarrow> 'f rows \<Rightarrow> bool" where
  "shape_rows S A B C \<longleftrightarrow> 0 < num_io S
     \<and> (\<forall>(M, m)\<in>{(A, sh_A S), (B, sh_B S), (C, sh_C S)}. m = csr M (num_io S + num_vars S) \<and> length M = num_constraints S
         \<and> (\<forall>row\<in>set M. \<forall>(x, j)\<in>set row. j < num_io S + num_vars S))"

lemma validate_row_Ok:
  "validate_row nc width i row = Inr () \<Longrightarrow> (row = [] \<or> i < nc) \<and> (\<forall>(x, j)\<in>set row. j < width)"
  by (induction nc width i row rule: validate_row.induct) (auto split: if_splits)

lemma validate_rows_Ok:
  "validate_rows nc width i M = Inr () \<Longrightarrow> (\<forall>row\<in>set (drop (nc - i) M). row = []) \<and> (\<forall>row\<in>set M. \<forall>(x, j)\<in>set row. j < width)"
proof (induction nc width i M rule: validate_rows.induct)
  case (2 nc width i row M)
  then have row: "validate_row nc width i row = Inr ()" and M: "validate_rows nc width (Suc i) M = Inr ()"
    by (auto split: sum.splits)
  note IH = "2.IH" [OF row M]
  show ?case
  proof (cases "nc - i")
    case 0
    then show ?thesis using IH validate_row_Ok [OF row] by auto
  next
    case (Suc k)
    then have "nc - Suc i = k" by simp
    then show ?thesis using IH validate_row_Ok [OF row] Suc by auto
  qed
qed simp

lemma sm_new_validated:
  assumes "sm_new M nc width = Ok m" "validate_rows nc width 0 M = Inr ()"
  shows "rows_ok nc width M" "m = csr (pad_rows nc M) width" "length (pad_rows nc M) = nc"
    "\<forall>row\<in>set (pad_rows nc M). \<forall>(x, j)\<in>set row. j < width"
proof -
  note v = validate_rows_Ok [OF assms(2)]
  show ok: "rows_ok nc width M" by (rule sm_new_rows [OF assms(1)]) (use v in auto)
  show "m = csr (pad_rows nc M) width" using sm_new_csr [OF ok] assms(1) by simp
  show "length (pad_rows nc M) = nc" by (simp add: pad_rows_def)
  show "\<forall>row\<in>set (pad_rows nc M). \<forall>(x, j)\<in>set row. j < width"
    using v by (auto simp: pad_rows_def dest: in_set_takeD)
qed

lemma checked_bind_Ok_iff [simp]: "checked_bind r k = Ok (Inr b) \<longleftrightarrow> (\<exists>a. r = Ok (Inr a) \<and> k a = Ok (Inr b))"
  by (cases "(r, k)" rule: checked_bind.cases) auto

lemma shape_new_rows:
  assumes "shape_new nc nv nio A B C = Ok (Inr S)"
  shows "shape_rows S (pad_rows nc A) (pad_rows nc B) (pad_rows nc C)" "num_constraints S = nc" "num_vars S = nv" "num_io S = nio"
proof -
  from assms have v: "0 < nio" "validate_rows nc (nio + nv) 0 A = Inr ()" "validate_rows nc (nio + nv) 0 B = Inr ()"
      "validate_rows nc (nio + nv) 0 C = Inr ()"
    and m: "sm_new A nc (nio + nv) = Ok (sh_A S)" "sm_new B nc (nio + nv) = Ok (sh_B S)" "sm_new C nc (nio + nv) = Ok (sh_C S)"
    and n: "num_constraints S = nc" "num_vars S = nv" "num_io S = nio"
    by (auto simp: shape_new_def validate_def result_simps split: if_splits)
  show "num_constraints S = nc" "num_vars S = nv" "num_io S = nio" by (rule n)+
  show "shape_rows S (pad_rows nc A) (pad_rows nc B) (pad_rows nc C)"
    using sm_new_validated [OF m(1) v(2)] sm_new_validated [OF m(2) v(3)] sm_new_validated [OF m(3) v(4)] v(1) n
    by (simp add: shape_rows_def)
qed

lemma shape_products:
  assumes "shape_rows S A B C" "length z = num_io S + num_vars S"
  shows "with_products S z k = k (mat_product A z) (mat_product B z) (mat_product C z)"
proof -
  have "multiply_vec (sh_A S) z = Ok (mat_product A z)" "multiply_vec (sh_B S) z = Ok (mat_product B z)"
      "multiply_vec (sh_C S) z = Ok (mat_product C z)"
    using assms by (auto simp: shape_rows_def intro!: multiply_vec_csr)
  then show ?thesis by (simp add: with_products_def)
qed

lemma distrib_fold: "x * (a + r * b) + (p + r * q) = x * a + p + r * (x * b + q)" for r :: "'f::field"
  by algebra

lemma row_product_fold:
  assumes "\<forall>(x, j)\<in>set row. j < length y" "length y = length z"
  shows "row_product row (map2 (\<lambda>a b. a + r * b) y z) = row_product row y + r * row_product row z"
  using assms(1)
proof (induction row)
  case (Cons e row)
  obtain x j where e: "e = (x, j)" by (cases e)
  have "map2 (\<lambda>a b. a + r * b) y z ! j = y ! j + r * z ! j" using Cons.prems assms(2) e by simp
  moreover have "row_product row (map2 (\<lambda>a b. a + r * b) y z) = row_product row y + r * row_product row z"
    using Cons.IH Cons.prems by simp
  moreover have step: "row_product (e # row) v = x * v ! j + row_product row v" for v by (simp add: row_product_def e)
  ultimately show ?case unfolding step by (simp only: distrib_fold)
qed (simp add: row_product_def)

lemma any_result_Ok: "(\<And>i. i \<in> set is \<Longrightarrow> f i = Ok (g i)) \<Longrightarrow> any_result f is = Ok (\<exists>i\<in>set is. g i)"
  by (induction "is") auto

text \<open>What the two checks decide.\<close>

definition rows_hold :: "'f::field rows \<Rightarrow> 'f rows \<Rightarrow> 'f rows \<Rightarrow> 'f \<Rightarrow> 'f list \<Rightarrow> 'f list \<Rightarrow> bool" where
  "rows_hold A B C u z e \<longleftrightarrow> (\<forall>i<length A. row_product (A ! i) z * row_product (B ! i) z = u * row_product (C ! i) z + e ! i)"

lemma is_satisfied_iff:
  assumes "shape_rows S A B C"
  shows "is_satisfied commit S U W = Ok (Inr ()) \<longleftrightarrow> length (rw_W W) = num_vars S \<and> length (ru_X U) = num_io S
    \<and> rows_hold A B C 1 (ru_X U @ rw_W W) (replicate (num_constraints S) 0) \<and> ru_commitment_W U = commit (rw_W W)"
proof (cases "length (rw_W W) = num_vars S \<and> length (ru_X U) = num_io S")
  case True
  let ?z = "ru_X U @ rw_W W"
  have len: "length A = num_constraints S" "length B = num_constraints S" "length C = num_constraints S"
    using assms by (auto simp: shape_rows_def)
  have prod: "with_products S ?z k = k (mat_product A ?z) (mat_product B ?z) (mat_product C ?z)" for k :: "_ \<Rightarrow> _ \<Rightarrow> _ \<Rightarrow> unit checked"
    using True by (intro shape_products [OF assms]) simp
  have "any_result (\<lambda>i. result_bind (index (mat_product A ?z) i) (\<lambda>a. result_bind (index (mat_product B ?z) i) (\<lambda>b.
      result_bind (index (mat_product C ?z) i) (\<lambda>c. Ok (a * b \<noteq> c))))) [0..<num_constraints S]
    = Ok (\<exists>i\<in>set [0..<num_constraints S]. row_product (A ! i) ?z * row_product (B ! i) ?z \<noteq> row_product (C ! i) ?z)"
    by (rule any_result_Ok) (simp add: mat_product_def len)
  then show ?thesis using True len by (auto simp: is_satisfied_def prod rows_hold_def)
qed (auto simp: is_satisfied_def)

lemma is_relaxed_satisfied_iff:
  assumes "shape_rows S A B C"
  shows "is_relaxed_satisfied commit S U W = Ok (Inr ()) \<longleftrightarrow> length (xw_W W) = num_vars S \<and> length (xu_X U) = num_io S
    \<and> length (xw_E W) = num_constraints S \<and> rows_hold A B C (xu_X U ! 0) (xu_X U @ xw_W W) (xw_E W)
    \<and> xu_commitment_W U = commit (xw_W W) \<and> xu_commitment_E U = commit (xw_E W)"
proof (cases "length (xw_W W) = num_vars S \<and> length (xu_X U) = num_io S \<and> length (xw_E W) = num_constraints S")
  case True
  let ?z = "xu_X U @ xw_W W"
  have len: "length A = num_constraints S" "length B = num_constraints S" "length C = num_constraints S" "0 < num_io S"
    using assms by (auto simp: shape_rows_def)
  have prod: "with_products S ?z k = k (mat_product A ?z) (mat_product B ?z) (mat_product C ?z)" for k :: "_ \<Rightarrow> _ \<Rightarrow> _ \<Rightarrow> unit checked"
    using True by (intro shape_products [OF assms]) simp
  have "any_result (\<lambda>i. result_bind (index (mat_product A ?z) i) (\<lambda>a. result_bind (index (mat_product B ?z) i) (\<lambda>b.
      result_bind (index (mat_product C ?z) i) (\<lambda>c. result_bind (index (xw_E W) i) (\<lambda>e. Ok (a * b \<noteq> xu_X U ! 0 * c + e)))))) [0..<num_constraints S]
    = Ok (\<exists>i\<in>set [0..<num_constraints S]. row_product (A ! i) ?z * row_product (B ! i) ?z \<noteq> xu_X U ! 0 * row_product (C ! i) ?z + xw_E W ! i)"
    by (rule any_result_Ok) (use True in \<open>simp add: mat_product_def len\<close>)
  then show ?thesis using True len by (auto simp: is_relaxed_satisfied_def prod rows_hold_def)
qed (auto simp: is_relaxed_satisfied_def)

section \<open>Folding\<close>

abbreviation axpy :: "'f::field \<Rightarrow> 'f list \<Rightarrow> 'f list \<Rightarrow> 'f list" where
  "axpy r xs ys \<equiv> map2 (\<lambda>a b. a + r * b) xs ys"

text \<open>The cross term, row by row.\<close>

definition cross_row :: "'f::field rows \<Rightarrow> 'f rows \<Rightarrow> 'f rows \<Rightarrow> 'f \<Rightarrow> 'f \<Rightarrow> 'f list \<Rightarrow> 'f list \<Rightarrow> nat \<Rightarrow> 'f" where
  "cross_row A B C u1 u2 z1 z2 i = row_product (A ! i) z1 * row_product (B ! i) z2 + row_product (A ! i) z2 * row_product (B ! i) z1
     - u1 * row_product (C ! i) z2 - u2 * row_product (C ! i) z1"

lemma cross_term_rows:
  assumes "length B = length A" "length C = length A"
  shows "cross_term u1 u2 (mat_product A z1) (mat_product B z1) (mat_product C z1) (mat_product A z2) (mat_product B z2) (mat_product C z2)
    = Ok (map (cross_row A B C u1 u2 z1 z2) [0..<length A])"
  unfolding cross_term_def Let_def using assms
  by (simp add: mat_product_def) (intro collect_map_Ok, simp add: cross_row_def)

lemma fold_polynomial:
  "(a1 + r * a2) * (b1 + r * b2) - (u1 + r * u2) * (c1 + r * c2)
    = (a1 * b1 - u1 * c1) + r * (a1 * b2 + a2 * b1 - u1 * c2 - u2 * c1) + r ^ 2 * (a2 * b2 - u2 * c2)" for r :: "'f::field"
  by algebra

lemma fold_rows_hold:
  assumes "\<forall>M\<in>{A, B, C}. length M = n \<and> (\<forall>row\<in>set M. \<forall>(x, j)\<in>set row. j < length z1)" "length z1 = length z2" "i < n"
  shows "row_product (A ! i) (axpy r z1 z2) * row_product (B ! i) (axpy r z1 z2)
       - (u1 + r * u2) * row_product (C ! i) (axpy r z1 z2)
    = (row_product (A ! i) z1 * row_product (B ! i) z1 - u1 * row_product (C ! i) z1) + r * cross_row A B C u1 u2 z1 z2 i
      + r ^ 2 * (row_product (A ! i) z2 * row_product (B ! i) z2 - u2 * row_product (C ! i) z2)"
proof -
  have "row_product (M ! i) (axpy r z1 z2) = row_product (M ! i) z1 + r * row_product (M ! i) z2" if "M \<in> {A, B, C}" for M
    using assms that by (intro row_product_fold) auto
  then show ?thesis unfolding cross_row_def using fold_polynomial by simp
qed

text \<open>A polynomial of degree two with three roots is zero.\<close>

lemma three_roots:
  fixes a b c :: "'f::field"
  assumes "a + r * b + r ^ 2 * c = 0" "a + s * b + s ^ 2 * c = 0" "a + t * b + t ^ 2 * c = 0" "r \<noteq> s" "r \<noteq> t" "s \<noteq> t"
  shows "a = 0 \<and> b = 0 \<and> c = 0"
proof -
  have "(r - s) * (b + (r + s) * c) = 0" "(r - t) * (b + (r + t) * c) = 0"
    using assms(1-3) by algebra+
  then have bc: "b + (r + s) * c = 0" "b + (r + t) * c = 0" using assms(4,5) by simp_all
  then have "(s - t) * c = 0" by algebra
  then have "c = 0" using assms(6) by simp
  then show ?thesis using bc assms(1) by simp
qed

text \<open>The folded pair.\<close>

definition fold_pair ::
  "('f::field \<Rightarrow> 'c \<Rightarrow> 'c) \<Rightarrow> ('f, 'c::ab_group_add) relaxed_instance \<times> 'f relaxed_witness \<Rightarrow> ('f, 'c) relaxed_instance \<times> 'f relaxed_witness
   \<Rightarrow> 'f list \<Rightarrow> 'c \<Rightarrow> 'f \<Rightarrow> (('f, 'c) relaxed_instance \<times> 'f relaxed_witness) checked" where
  "fold_pair smul p1 p2 T comm_T r = checked_bind (instance_fold_with_relaxed smul (fst p1) (fst p2) comm_T r) (\<lambda>U.
     checked_bind (witness_fold_with_relaxed (snd p1) (snd p2) T r) (\<lambda>W. Ok (Inr (U, W))))"

definition lengths_ok :: "'f r1cs_shape \<Rightarrow> ('f, 'c) relaxed_instance \<Rightarrow> 'f relaxed_witness \<Rightarrow> bool" where
  "lengths_ok S U W \<longleftrightarrow> length (xw_W W) = num_vars S \<and> length (xu_X U) = num_io S \<and> length (xw_E W) = num_constraints S"

lemma map2_nth: "i < length xs \<Longrightarrow> i < length ys \<Longrightarrow> map2 f xs ys ! i = f (xs ! i) (ys ! i)"
  by simp

lemma fold_pair_rows:
  assumes S: "shape_rows S A B C" and l: "lengths_ok S U1 W1" "lengths_ok S U2 W2" "length T = num_constraints S"
    and f: "fold_pair smul (U1, W1) (U2, W2) T comm_T r = Ok (Inr (U, W))"
  shows "lengths_ok S U W" "rows_hold A B C (xu_X U ! 0) (xu_X U @ xw_W W) (xw_E W) \<longleftrightarrow>
    (\<forall>i<num_constraints S.
      (row_product (A ! i) (xu_X U1 @ xw_W W1) * row_product (B ! i) (xu_X U1 @ xw_W W1)
        - xu_X U1 ! 0 * row_product (C ! i) (xu_X U1 @ xw_W W1) - xw_E W1 ! i)
      + r * (cross_row A B C (xu_X U1 ! 0) (xu_X U2 ! 0) (xu_X U1 @ xw_W W1) (xu_X U2 @ xw_W W2) i - T ! i)
      + r ^ 2 * (row_product (A ! i) (xu_X U2 @ xw_W W2) * row_product (B ! i) (xu_X U2 @ xw_W W2)
        - xu_X U2 ! 0 * row_product (C ! i) (xu_X U2 @ xw_W W2) - xw_E W2 ! i) = 0)"
proof -
  let ?z1 = "xu_X U1 @ xw_W W1" and ?z2 = "xu_X U2 @ xw_W W2"
  have UW: "xu_X U = axpy r (xu_X U1) (xu_X U2)" "xw_W W = axpy r (xw_W W1) (xw_W W2)"
    "xw_E W = map2 (\<lambda>(e1, e2) t. e1 + r * t + r ^ 2 * e2) (zip (xw_E W1) (xw_E W2)) T"
    using f l by (auto simp: fold_pair_def instance_fold_with_relaxed_def witness_fold_with_relaxed_def lengths_ok_def)
  show "lengths_ok S U W" using l UW by (simp add: lengths_ok_def)
  have z: "xu_X U @ xw_W W = axpy r ?z1 ?z2" using l by (simp add: UW lengths_ok_def)
  have len: "\<forall>M\<in>{A, B, C}. length M = num_constraints S \<and> (\<forall>row\<in>set M. \<forall>(x, j)\<in>set row. j < length ?z1)" "length ?z1 = length ?z2"
    using S l by (auto simp: shape_rows_def lengths_ok_def)
  have u: "xu_X U ! 0 = xu_X U1 ! 0 + r * xu_X U2 ! 0" using S l by (simp add: UW shape_rows_def lengths_ok_def)
  have e: "xw_E W ! i = xw_E W1 ! i + r * T ! i + r ^ 2 * xw_E W2 ! i" if "i < num_constraints S" for i
    using that l by (simp add: UW lengths_ok_def)
  have eq: "(a * b = c + e) \<longleftrightarrow> (a * b - c) - e = 0" for a b c e :: 'a by (simp add: algebra_simps)
  have shuffle: "(p + r * q + r ^ 2 * s) - (e1 + r * t + r ^ 2 * e2) = (p - e1) + r * (q - t) + r ^ 2 * (s - e2)" for p q s e1 t e2 :: 'a
    by algebra
  have lenA: "length A = num_constraints S" using len(1) by simp
  have row: "row_product (A ! i) (axpy r ?z1 ?z2) * row_product (B ! i) (axpy r ?z1 ?z2)
      = (xu_X U1 ! 0 + r * xu_X U2 ! 0) * row_product (C ! i) (axpy r ?z1 ?z2) + xw_E W ! i \<longleftrightarrow>
      (row_product (A ! i) ?z1 * row_product (B ! i) ?z1 - xu_X U1 ! 0 * row_product (C ! i) ?z1 - xw_E W1 ! i)
      + r * (cross_row A B C (xu_X U1 ! 0) (xu_X U2 ! 0) ?z1 ?z2 i - T ! i)
      + r ^ 2 * (row_product (A ! i) ?z2 * row_product (B ! i) ?z2 - xu_X U2 ! 0 * row_product (C ! i) ?z2 - xw_E W2 ! i) = 0"
    if i: "i < num_constraints S" for i
    unfolding eq [of "row_product (A ! i) (axpy r ?z1 ?z2)"] fold_rows_hold [OF len i] e [OF i] shuffle ..
  show "rows_hold A B C (xu_X U ! 0) (xu_X U @ xw_W W) (xw_E W) \<longleftrightarrow>
    (\<forall>i<num_constraints S.
      (row_product (A ! i) ?z1 * row_product (B ! i) ?z1 - xu_X U1 ! 0 * row_product (C ! i) ?z1 - xw_E W1 ! i)
      + r * (cross_row A B C (xu_X U1 ! 0) (xu_X U2 ! 0) ?z1 ?z2 i - T ! i)
      + r ^ 2 * (row_product (A ! i) ?z2 * row_product (B ! i) ?z2 - xu_X U2 ! 0 * row_product (C ! i) ?z2 - xw_E W2 ! i) = 0)"
    unfolding rows_hold_def z u lenA by (rule all_cong) (rule row)
qed

context commitment_scheme
begin

lemma fold_pair_commitments:
  assumes "lengths_ok S U1 W1" "lengths_ok S U2 W2" "length T = num_constraints S"
    and "fold_pair smul (U1, W1) (U2, W2) T comm_T r = Ok (Inr (U, W))"
  shows "xu_commitment_W U = xu_commitment_W U1 + smul r (xu_commitment_W U2)"
    "xu_commitment_E U = xu_commitment_E U1 + smul r comm_T + smul (r ^ 2) (xu_commitment_E U2)"
    "commit (xw_W W) = commit (xw_W W1) + smul r (commit (xw_W W2))"
    "commit (xw_E W) = commit (xw_E W1) + smul r (commit T) + smul (r ^ 2) (commit (xw_E W2))"
proof -
  have UW: "xw_W W = axpy r (xw_W W1) (xw_W W2)" "xw_E W = map2 (\<lambda>(e1, e2) t. e1 + r * t + r ^ 2 * e2) (zip (xw_E W1) (xw_E W2)) T"
    using assms by (auto simp: fold_pair_def instance_fold_with_relaxed_def witness_fold_with_relaxed_def lengths_ok_def)
  show "xu_commitment_W U = xu_commitment_W U1 + smul r (xu_commitment_W U2)"
    "xu_commitment_E U = xu_commitment_E U1 + smul r comm_T + smul (r ^ 2) (xu_commitment_E U2)"
    using assms by (auto simp: fold_pair_def instance_fold_with_relaxed_def)
  show "commit (xw_W W) = commit (xw_W W1) + smul r (commit (xw_W W2))"
    unfolding UW using assms by (intro commit_fold) (simp add: lengths_ok_def)
  have "xw_E W = axpy (r ^ 2) (axpy r (xw_E W1) T) (xw_E W2)"
    using assms(1-3) unfolding UW lengths_ok_def by (intro nth_equalityI) simp_all
  then show "commit (xw_E W) = commit (xw_E W1) + smul r (commit T) + smul (r ^ 2) (commit (xw_E W2))"
    using assms(1-3) by (simp add: commit_fold lengths_ok_def)
qed

lemma fold_satisfied:
  assumes S: "shape_rows S A B C" and 1: "is_relaxed_satisfied commit S U1 W1 = Ok (Inr ())" and 2: "is_relaxed_satisfied commit S U2 W2 = Ok (Inr ())"
    and T: "T = map (cross_row A B C (xu_X U1 ! 0) (xu_X U2 ! 0) (xu_X U1 @ xw_W W1) (xu_X U2 @ xw_W W2)) [0..<num_constraints S]"
    and f: "fold_pair smul (U1, W1) (U2, W2) T (commit T) r = Ok (Inr (U, W))"
  shows "is_relaxed_satisfied commit S U W = Ok (Inr ())"
proof -
  note sat = is_relaxed_satisfied_iff [OF S]
  have l: "lengths_ok S U1 W1" "lengths_ok S U2 W2" "length T = num_constraints S"
    using 1 2 T unfolding sat lengths_ok_def by simp_all
  have "length A = num_constraints S" using S by (simp add: shape_rows_def)
  then have "rows_hold A B C (xu_X U ! 0) (xu_X U @ xw_W W) (xw_E W)"
    unfolding fold_pair_rows(2) [OF S l f] using 1 2 T unfolding sat rows_hold_def by (simp add: algebra_simps)
  then show ?thesis
    using fold_pair_rows(1) [OF S l f] fold_pair_commitments [OF l f] 1 2 unfolding sat lengths_ok_def by simp
qed

lemma fold_extract:
  assumes S: "shape_rows S A B C" and l: "lengths_ok S U1 W1" "lengths_ok S U2 W2" "length T = num_constraints S"
    and f: "\<And>r. r \<in> {r1, r2, r3} \<Longrightarrow> \<exists>U W. fold_pair smul (U1, W1) (U2, W2) T comm_T r = Ok (Inr (U, W)) \<and> is_relaxed_satisfied commit S U W = Ok (Inr ())"
    and d: "r1 \<noteq> r2" "r1 \<noteq> r3" "r2 \<noteq> r3"
  shows "is_relaxed_satisfied commit S U1 W1 = Ok (Inr ())" "is_relaxed_satisfied commit S U2 W2 = Ok (Inr ())" "comm_T = commit T"
    "T = map (cross_row A B C (xu_X U1 ! 0) (xu_X U2 ! 0) (xu_X U1 @ xw_W W1) (xu_X U2 @ xw_W W2)) [0..<num_constraints S]"
proof -
  note sat = is_relaxed_satisfied_iff [OF S]
  let ?a = "\<lambda>i. row_product (A ! i) (xu_X U1 @ xw_W W1) * row_product (B ! i) (xu_X U1 @ xw_W W1)
        - xu_X U1 ! 0 * row_product (C ! i) (xu_X U1 @ xw_W W1) - xw_E W1 ! i"
  let ?b = "\<lambda>i. cross_row A B C (xu_X U1 ! 0) (xu_X U2 ! 0) (xu_X U1 @ xw_W W1) (xu_X U2 @ xw_W W2) i - T ! i"
  let ?c = "\<lambda>i. row_product (A ! i) (xu_X U2 @ xw_W W2) * row_product (B ! i) (xu_X U2 @ xw_W W2)
        - xu_X U2 ! 0 * row_product (C ! i) (xu_X U2 @ xw_W W2) - xw_E W2 ! i"
  have eqs: "(\<forall>i<num_constraints S. ?a i + r * ?b i + r ^ 2 * ?c i = 0)
      \<and> xu_commitment_W U1 + smul r (xu_commitment_W U2) = commit (xw_W W1) + smul r (commit (xw_W W2))
      \<and> xu_commitment_E U1 + smul r comm_T + smul (r ^ 2) (xu_commitment_E U2)
        = commit (xw_E W1) + smul r (commit T) + smul (r ^ 2) (commit (xw_E W2))"
    if r: "r \<in> {r1, r2, r3}" for r
  proof -
    obtain U W where UW: "fold_pair smul (U1, W1) (U2, W2) T comm_T r = Ok (Inr (U, W))" "is_relaxed_satisfied commit S U W = Ok (Inr ())"
      using f [OF r] by blast
    then have "rows_hold A B C (xu_X U ! 0) (xu_X U @ xw_W W) (xw_E W)" "xu_commitment_W U = commit (xw_W W)" "xu_commitment_E U = commit (xw_E W)"
      unfolding sat by simp_all
    then show ?thesis unfolding fold_pair_rows(2) [OF S l UW(1)] using fold_pair_commitments [OF l UW(1)] by simp
  qed
  have zero: "?a i = 0 \<and> ?b i = 0 \<and> ?c i = 0" if "i < num_constraints S" for i
    by (rule three_roots [of _ r1 _ _ r2 r3]) (use eqs that d in auto)
  have lenA: "length A = num_constraints S" using S by (simp add: shape_rows_def)
  have rows: "rows_hold A B C (xu_X U1 ! 0) (xu_X U1 @ xw_W W1) (xw_E W1)" "rows_hold A B C (xu_X U2 ! 0) (xu_X U2 @ xw_W W2) (xw_E W2)"
    unfolding rows_hold_def lenA using zero by (simp_all add: algebra_simps)
  have cW: "xu_commitment_W U1 = commit (xw_W W1) \<and> xu_commitment_W U2 = commit (xw_W W2)"
    by (rule cancel_two [of _ r1 _ _ _ r2]) (use eqs d in auto)
  have cE: "xu_commitment_E U1 = commit (xw_E W1) \<and> comm_T = commit T \<and> xu_commitment_E U2 = commit (xw_E W2)"
    by (rule cancel_three [of _ r1 _ _ _ _ _ r2 r3]) (use eqs d in auto)
  show "is_relaxed_satisfied commit S U1 W1 = Ok (Inr ())" "is_relaxed_satisfied commit S U2 W2 = Ok (Inr ())"
    unfolding sat using rows cW cE l by (simp_all add: lengths_ok_def)
  show "comm_T = commit T" using cE by simp
  show "T = map (cross_row A B C (xu_X U1 ! 0) (xu_X U2 ! 0) (xu_X U1 @ xw_W W1) (xu_X U2 @ xw_W W2)) [0..<num_constraints S]"
    using zero l(3) by (intro nth_equalityI) simp_all
qed

end

section \<open>Properties\<close>

lemma shape_of_new:
  assumes "shape_new nc nv nio A B C = Ok (Inr S)"
  obtains A' B' C' where "shape_rows S A' B' C'"
  using shape_new_rows [OF assms] by blast

text \<open>C24: folding two satisfied relaxed pairs of a valid shape succeeds, the folded pair is satisfied, and the
  verifier, given the proof and the two instances, arrives at the same folded instance and sponge.\<close>

theorem nifs_complete:
  fixes smul :: "'f::field \<Rightarrow> 'c::ab_group_add \<Rightarrow> 'c"
  assumes "vector_space smul" "shape_new nc nv nio A B C = Ok (Inr S)"
    and "is_relaxed_satisfied (pedersen_commit smul bases) S U1 W1 = Ok (Inr ())"
    and "is_relaxed_satisfied (pedersen_commit smul bases) S U2 W2 = Ok (Inr ())"
  shows "\<exists>s' comm_T U W. nifs_prove smul (pedersen_commit smul bases) ro s S (U1, W1) (U2, W2) = (s', Ok (Inr (comm_T, U, W)))
    \<and> is_relaxed_satisfied (pedersen_commit smul bases) S U W = Ok (Inr ())
    \<and> nifs_verify smul ro s comm_T U1 U2 = (s', Ok (Inr U))"
proof -
  let ?commit = "pedersen_commit smul bases"
  obtain A' B' C' where S: "shape_rows S A' B' C'" using shape_of_new [OF assms(2)] by blast
  note sat = is_relaxed_satisfied_iff [OF S]
  let ?z1 = "xu_X U1 @ xw_W W1" and ?z2 = "xu_X U2 @ xw_W W2"
  define T where "T = map (cross_row A' B' C' (xu_X U1 ! 0) (xu_X U2 ! 0) ?z1 ?z2) [0..<num_constraints S]"
  have l: "lengths_ok S U1 W1" "lengths_ok S U2 W2" using assms(3,4) unfolding sat lengths_ok_def by simp_all
  have len: "length B' = length A'" "length C' = length A'" "length A' = num_constraints S" "0 < num_io S" using S by (auto simp: shape_rows_def)
  have X: "0 < length (xu_X U1)" "0 < length (xu_X U2)" using l len(4) by (simp_all add: lengths_ok_def)
  have z: "length ?z1 = num_io S + num_vars S" "length ?z2 = num_io S + num_vars S" using l by (simp_all add: lengths_ok_def)
  have T: "commit_T_with_relaxed ?commit S U1 W1 U2 W2 = Ok (Inr (T, ?commit T))"
    using X by (simp add: commit_T_with_relaxed_def shape_products [OF S z(1)] shape_products [OF S z(2)] cross_term_rows [OF len(1,2)] T_def len(3))
  obtain r s' where r: "ro_squeeze ro (ro_absorb_commitment ro (ro_absorb_instance ro (ro_absorb_instance ro s U1) U2) (?commit T)) = (r, s')"
    by fastforce
  obtain U where U: "instance_fold_with_relaxed smul U1 U2 (?commit T) r = Ok (Inr U)" by (simp add: instance_fold_with_relaxed_def)
  obtain W where W: "witness_fold_with_relaxed W1 W2 T r = Ok (Inr W)"
    using l by (simp add: witness_fold_with_relaxed_def lengths_ok_def)
  have "fold_pair smul (U1, W1) (U2, W2) T (?commit T) r = Ok (Inr (U, W))" by (simp add: fold_pair_def U W)
  note fold = commitment_scheme.fold_satisfied [OF pedersen_scheme [OF assms(1)] S assms(3,4) T_def this]
  show ?thesis
    by (intro exI [of _ s'] exI [of _ "?commit T"] exI [of _ U] exI [of _ W] conjI fold)
      (simp_all add: nifs_prove_def nifs_verify_def T r U W)
qed

text \<open>C25: special soundness.  If for three different challenges the same two pairs, cross term and commitment fold to
  satisfied pairs, then both pairs are satisfied and the commitment opens to the cross term.\<close>

theorem nifs_special_sound:
  fixes smul :: "'f::field \<Rightarrow> 'c::ab_group_add \<Rightarrow> 'c"
  assumes "vector_space smul" "shape_new nc nv nio A B C = Ok (Inr S)"
    and "length (xw_W W1) = nv" "length (xu_X U1) = nio" "length (xw_E W1) = nc"
    and "length (xw_W W2) = nv" "length (xu_X U2) = nio" "length (xw_E W2) = nc" "length T = nc"
    and "r1 \<noteq> r2" "r1 \<noteq> r3" "r2 \<noteq> r3"
    and "\<And>r. r \<in> {r1, r2, r3} \<Longrightarrow> \<exists>U W. instance_fold_with_relaxed smul U1 U2 comm_T r = Ok (Inr U)
      \<and> witness_fold_with_relaxed W1 W2 T r = Ok (Inr W) \<and> is_relaxed_satisfied (pedersen_commit smul bases) S U W = Ok (Inr ())"
  shows "is_relaxed_satisfied (pedersen_commit smul bases) S U1 W1 = Ok (Inr ())
    \<and> is_relaxed_satisfied (pedersen_commit smul bases) S U2 W2 = Ok (Inr ())
    \<and> commit_T_with_relaxed (pedersen_commit smul bases) S U1 W1 U2 W2 = Ok (Inr (T, comm_T))"
proof -
  let ?commit = "pedersen_commit smul bases"
  let ?A = "pad_rows nc A" and ?B = "pad_rows nc B" and ?C = "pad_rows nc C"
  note S = shape_new_rows [OF assms(2)]
  have l: "lengths_ok S U1 W1" "lengths_ok S U2 W2" "length T = num_constraints S"
    using assms(3-9) S(2-4) by (simp_all add: lengths_ok_def)
  have f: "\<exists>U W. fold_pair smul (U1, W1) (U2, W2) T comm_T r = Ok (Inr (U, W)) \<and> is_relaxed_satisfied ?commit S U W = Ok (Inr ())"
    if r: "r \<in> {r1, r2, r3}" for r
    using assms(13) [OF r] by (auto simp: fold_pair_def)
  note ex = commitment_scheme.fold_extract [OF pedersen_scheme [OF assms(1)] S(1) l f assms(10-12)]
  have len: "length ?B = length ?A" "length ?C = length ?A" "length ?A = num_constraints S" "0 < num_io S"
    using S(1) by (auto simp: shape_rows_def)
  have z: "length (xu_X U1 @ xw_W W1) = num_io S + num_vars S" "length (xu_X U2 @ xw_W W2) = num_io S + num_vars S"
    using l by (simp_all add: lengths_ok_def)
  have X: "0 < length (xu_X U1)" "0 < length (xu_X U2)" using l len(4) by (simp_all add: lengths_ok_def)
  have "commit_T_with_relaxed ?commit S U1 W1 U2 W2 = Ok (Inr (T, ?commit T))"
    using X ex(4) by (simp add: commit_T_with_relaxed_def shape_products [OF S(1) z(1)] shape_products [OF S(1) z(2)] cross_term_rows [OF len(1,2)] len(3))
  then show ?thesis using ex(1-3) by simp
qed

text \<open>C26: a satisfied instance with leading input 1 converts to a satisfied relaxed instance, and the zero witness
  satisfies the default instance.\<close>

theorem relaxed_embedding:
  fixes smul :: "'f::field \<Rightarrow> 'c::ab_group_add \<Rightarrow> 'c"
  assumes "vector_space smul" "shape_new nc nv nio A B C = Ok (Inr S)"
    and "is_satisfied (pedersen_commit smul bases) S U W = Ok (Inr ())" "ru_X U ! 0 = 1"
  shows "is_relaxed_satisfied (pedersen_commit smul bases) S (relaxed_of_instance U) (from_r1cs_witness S W) = Ok (Inr ())
    \<and> is_relaxed_satisfied (pedersen_commit smul bases) S (relaxed_instance_new S) (relaxed_witness_zero S) = Ok (Inr ())"
proof -
  note S = shape_new_rows(1) [OF assms(2)]
  have zeros: "pedersen_commit smul bases (replicate n 0) = 0" for n
    by (rule commitment_scheme.commit_zeros [OF pedersen_scheme [OF assms(1)]])
  have *: "row_product row (replicate n 0) = 0" if "\<forall>(x, j)\<in>set row. j < n" for row :: "('f \<times> nat) list" and n
    using that by (induction row) (auto simp: row_product_def)
  have "row_product (pad_rows nc A ! i) (replicate (num_io S + num_vars S) 0) = 0" if "i < num_constraints S" for i
  proof -
    have "pad_rows nc A ! i \<in> set (pad_rows nc A)" using S that by (simp add: shape_rows_def)
    then show ?thesis using S * unfolding shape_rows_def by blast
  qed
  moreover have "length (pad_rows nc A) = num_constraints S" "0 < num_io S" using S by (simp_all add: shape_rows_def)
  ultimately have "rows_hold (pad_rows nc A) (pad_rows nc B) (pad_rows nc C) 0 (replicate (num_io S + num_vars S) 0) (replicate (num_constraints S) 0)"
    by (simp add: rows_hold_def)
  then have 0: "is_relaxed_satisfied (pedersen_commit smul bases) S (relaxed_instance_new S) (relaxed_witness_zero S) = Ok (Inr ())"
    unfolding is_relaxed_satisfied_iff [OF S] relaxed_instance_new_def relaxed_witness_zero_def
    using \<open>0 < num_io S\<close> by (simp add: zeros replicate_add)
  have "is_relaxed_satisfied (pedersen_commit smul bases) S (relaxed_of_instance U) (from_r1cs_witness S W) = Ok (Inr ())"
    using assms(3,4) unfolding is_satisfied_iff [OF S] is_relaxed_satisfied_iff [OF S] relaxed_of_instance_def from_r1cs_witness_def
    by (simp add: zeros)
  with 0 show ?thesis by simp
qed

text \<open>C27: folding an ordinary pair into a relaxed one is folding its conversion: the same cross term, instance and
  witness.\<close>

theorem plain_fold_agrees:
  fixes smul :: "'f::field \<Rightarrow> 'c::ab_group_add \<Rightarrow> 'c"
  assumes "vector_space smul" "length (xw_E W1) = num_constraints S" "ru_X U2 \<noteq> []" "hd (ru_X U2) = 1" "xu_X U1 \<noteq> []"
    and "length T = num_constraints S"
  shows "commit_T commit S U1 W1 U2 W2 = commit_T_with_relaxed commit S U1 W1 (relaxed_of_instance U2) (from_r1cs_witness S W2)
    \<and> instance_fold smul U1 U2 comm_T r = instance_fold_with_relaxed smul U1 (relaxed_of_instance U2) comm_T r
    \<and> witness_fold W1 W2 T r = witness_fold_with_relaxed W1 (from_r1cs_witness S W2) T r"
proof -
  have "smul x (0 + 0) = smul x 0 + smul x 0" for x using assms(1) unfolding vector_space_def by blast
  then have zero: "smul x 0 = 0" for x by simp
  have u2: "index (ru_X U2) 0 = Ok 1" using assms(3,4) by (cases "ru_X U2") simp_all
  have "commit_T commit S U1 W1 U2 W2 = commit_T_with_relaxed commit S U1 W1 (relaxed_of_instance U2) (from_r1cs_witness S W2)"
    using assms(5) by (simp add: commit_T_def commit_T_with_relaxed_def relaxed_of_instance_def from_r1cs_witness_def u2)
  moreover have "instance_fold smul U1 U2 comm_T r = instance_fold_with_relaxed smul U1 (relaxed_of_instance U2) comm_T r"
    by (simp add: instance_fold_def instance_fold_with_relaxed_def relaxed_of_instance_def zero)
  moreover have "map2 (\<lambda>a b. a + r * b) (xw_E W1) T = map2 (\<lambda>(e1, e2) t. e1 + r * t + r ^ 2 * e2) (zip (xw_E W1) (replicate (num_constraints S) 0)) T"
    using assms(2,6) by (intro nth_equalityI) simp_all
  then have "witness_fold W1 W2 T r = witness_fold_with_relaxed W1 (from_r1cs_witness S W2) T r"
    using assms(2) by (simp add: witness_fold_def witness_fold_with_relaxed_def from_r1cs_witness_def)
  ultimately show ?thesis by simp
qed

section \<open>A concrete shape\<close>

text \<open>The single constraint \<open>x * x = w\<close> over the rationals.\<close>

definition square_shape :: "rat r1cs_shape" where
  "square_shape = \<lparr>num_constraints = 1, num_vars = 1, num_io = 2, sh_A = csr [[(1, 1)]] 3, sh_B = csr [[(1, 1)]] 3, sh_C = csr [[(1, 2)]] 3\<rparr>"

lemma square_shape_new: "shape_new 1 1 2 [[(1, 1)]] [[(1, 1)]] [[(1, 2)]] = Ok (Inr square_shape)"
  by (simp add: shape_new_def validate_def sm_new_csr rows_ok_def pad_rows_def square_shape_def)

lemma square_rows: "shape_rows square_shape [[(1, 1)]] [[(1, 1)]] [[(1, 2)]]"
  by (simp add: shape_rows_def square_shape_def)

abbreviation key :: "rat list" where
  "key \<equiv> [3, 5]"

definition pair1 :: "(rat, rat) relaxed_instance \<times> rat relaxed_witness" where
  "pair1 = (\<lparr>xu_commitment_W = 27, xu_commitment_E = 0, xu_X = [1, 3]\<rparr>, \<lparr>xw_W = [9], xw_E = [0]\<rparr>)"

definition pair2 :: "(rat, rat) relaxed_instance \<times> rat relaxed_witness" where
  "pair2 = (\<lparr>xu_commitment_W = 30, xu_commitment_E = 15, xu_X = [2, 5]\<rparr>, \<lparr>xw_W = [10], xw_E = [5]\<rparr>)"

lemma pairs_satisfied:
  "is_relaxed_satisfied (pedersen_commit (*) key) square_shape (fst pair1) (snd pair1) = Ok (Inr ())"
  "is_relaxed_satisfied (pedersen_commit (*) key) square_shape (fst pair2) (snd pair2) = Ok (Inr ())"
  unfolding is_relaxed_satisfied_iff [OF square_rows]
  by (simp_all add: pair1_def pair2_def square_shape_def rows_hold_def row_product_def pedersen_commit_def)

lemma nifs_complete_witness:
  "\<exists>s' comm_T U W. nifs_prove (*) (pedersen_commit (*) key)
      \<lparr>ro_absorb_instance = \<lambda>s U. s + xu_commitment_W U, ro_absorb_commitment = (+), ro_squeeze = \<lambda>s. (s, s)\<rparr> 0 square_shape pair1 pair2
      = (s', Ok (Inr (comm_T, U, W)))
    \<and> is_relaxed_satisfied (pedersen_commit (*) key) square_shape U W = Ok (Inr ())"
  using nifs_complete [OF vector_space_field square_shape_new pairs_satisfied,
      of "\<lparr>ro_absorb_instance = \<lambda>s U. s + xu_commitment_W U, ro_absorb_commitment = (+), ro_squeeze = \<lambda>s. (s, s)\<rparr>" 0]
  by auto

lemma nifs_special_sound_witness:
  "is_relaxed_satisfied (pedersen_commit (*) key) square_shape (fst pair1) (snd pair1) = Ok (Inr ())
   \<and> commit_T_with_relaxed (pedersen_commit (*) key) square_shape (fst pair1) (snd pair1) (fst pair2) (snd pair2) = Ok (Inr ([2], 6))"
proof -
  have fold: "\<exists>U W. instance_fold_with_relaxed (*) (fst pair1) (fst pair2) 6 r = Ok (Inr U)
      \<and> witness_fold_with_relaxed (snd pair1) (snd pair2) [2] r = Ok (Inr W) \<and> is_relaxed_satisfied (pedersen_commit (*) key) square_shape U W = Ok (Inr ())"
    if "r \<in> {0, 1, 2}" for r
    using that unfolding is_relaxed_satisfied_iff [OF square_rows]
    by (auto simp: pair1_def pair2_def square_shape_def rows_hold_def row_product_def pedersen_commit_def
        instance_fold_with_relaxed_def witness_fold_with_relaxed_def)
  from nifs_special_sound [OF vector_space_field square_shape_new _ _ _ _ _ _ _ _ _ _ fold, of 0 1 2] show ?thesis
    by (simp add: pair1_def pair2_def)
qed

lemma relaxed_embedding_witness:
  "is_relaxed_satisfied (pedersen_commit (*) key) square_shape (relaxed_of_instance \<lparr>ru_commitment_W = 27, ru_X = [1, 3]\<rparr>)
    (from_r1cs_witness square_shape \<lparr>rw_W = [9]\<rparr>) = Ok (Inr ())"
proof -
  have "is_satisfied (pedersen_commit (*) key) square_shape \<lparr>ru_commitment_W = 27, ru_X = [1, 3]\<rparr> \<lparr>rw_W = [9]\<rparr> = Ok (Inr ())"
    unfolding is_satisfied_iff [OF square_rows] by (simp add: square_shape_def rows_hold_def row_product_def pedersen_commit_def)
  from relaxed_embedding [OF vector_space_field square_shape_new this] show ?thesis by simp
qed

lemma plain_fold_agrees_witness:
  "commit_T (pedersen_commit (*) key) square_shape (fst pair2) (snd pair2) \<lparr>ru_commitment_W = 27, ru_X = [1, 3]\<rparr> \<lparr>rw_W = [9]\<rparr>
   = commit_T_with_relaxed (pedersen_commit (*) key) square_shape (fst pair2) (snd pair2)
       (relaxed_of_instance \<lparr>ru_commitment_W = 27, ru_X = [1, 3]\<rparr>) (from_r1cs_witness square_shape \<lparr>rw_W = [9]\<rparr>)"
  using plain_fold_agrees [OF vector_space_field, of "snd pair2" square_shape "\<lparr>ru_commitment_W = 27, ru_X = [1, 3]\<rparr>" "fst pair2" "[0]"]
  by (simp add: pair2_def square_shape_def)

end
