(* ===== verification/Mle.thy ===== *)
theory Mle
  imports Sparse
begin

text \<open>
  Multilinear polynomials: the helpers of \<^verbatim>\<open>spartan/src/math.rs\<close>, \<^verbatim>\<open>EqPolynomial\<close> and \<^verbatim>\<open>DensePolynomial\<close> of
  \<^verbatim>\<open>spartan/src/dense_mlpoly.rs\<close>, \<^verbatim>\<open>SparsePolynomial\<close> of \<^verbatim>\<open>spartan/src/sparse_mlpoly.rs\<close>, and the conversions of
  \<^verbatim>\<open>nova/src/ccs/mle.rs\<close>.  A machine word \<^verbatim>\<open>usize\<close> that counts or indexes is a natural number.
\<close>

section \<open>Integer logarithms\<close>

text \<open>The number of significant bits: 64 minus the leading zeros.\<close>

fun bit_len :: "nat \<Rightarrow> nat" where
  "bit_len n = (if n = 0 then 0 else Suc (bit_len (n div 2)))"

declare bit_len.simps [simp del]

definition is_pow2 :: "nat \<Rightarrow> bool" where
  "is_pow2 n \<longleftrightarrow> n \<noteq> 0 \<and> 2 ^ (bit_len n - 1) = n"

definition log_2 :: "nat \<Rightarrow> nat result" where
  "log_2 n = (if n = 0 then Panic else Ok (if is_pow2 n then bit_len n - bit_len 1 else bit_len n - bit_len 0))"

definition get_bits :: "nat \<Rightarrow> nat \<Rightarrow> bool list" where
  "get_bits n num_bits = map (\<lambda>s. odd (n div 2 ^ (num_bits - s - 1))) [0..<num_bits]"

definition next_power_of_two :: "nat \<Rightarrow> nat" where
  "next_power_of_two n = (if n \<le> 1 then 1 else 2 ^ bit_len (n - 1))"

text \<open>The macro \<^verbatim>\<open>safe_loglike!\<close> of \<^verbatim>\<open>nova/src/utils.rs\<close>, on unsigned arguments.\<close>

definition safe_loglike :: "nat \<Rightarrow> nat" where
  "safe_loglike x = (if x < 1 then 0 else (if x - 1 = 0 then 0 else bit_len (x - 1) - 1) + 1)"

section \<open>The equality polynomial\<close>

definition eq_evaluate :: "'f::field list \<Rightarrow> 'f list \<Rightarrow> 'f result" where
  "eq_evaluate r rx = (if length r \<noteq> length rx then Panic
     else Ok (prod_list (map (\<lambda>i. r ! i * rx ! i + (1 - r ! i) * (1 - rx ! i)) [0..<length rx])))"

text \<open>One iteration of the inner loop, and the loop over \<^verbatim>\<open>(0..size).rev().step_by(2)\<close>.\<close>

definition eq_step :: "'f::field \<Rightarrow> nat \<Rightarrow> 'f list \<Rightarrow> 'f list" where
  "eq_step rj i evals = (let scalar = evals ! (i div 2); evals = evals[i := scalar * rj] in evals[i - 1 := scalar - evals ! i])"

definition eq_round :: "'f::field \<Rightarrow> nat \<Rightarrow> 'f list \<Rightarrow> 'f list" where
  "eq_round rj sz evals = fold (eq_step rj) (map (\<lambda>k. sz - 1 - 2 * k) [0..<sz div 2]) evals"

definition eq_evals :: "'f::field list \<Rightarrow> 'f list" where
  "eq_evals r = snd (fold (\<lambda>rj (sz, evals). (2 * sz, eq_round rj (2 * sz) evals)) r (1, replicate (2 ^ length r) 1))"

definition compute_factored_lens :: "nat \<Rightarrow> nat \<times> nat" where
  "compute_factored_lens ell = (ell div 2, ell - ell div 2)"

definition compute_factored_evals :: "'f::field list \<Rightarrow> 'f list \<times> 'f list" where
  "compute_factored_evals r = (let n = fst (compute_factored_lens (length r)) in (eq_evals (take n r), eq_evals (drop n r)))"

definition identity_evaluate :: "nat \<Rightarrow> 'f::field list \<Rightarrow> 'f result" where
  "identity_evaluate sp r = (if length r \<noteq> sp then Panic
     else Ok (sum_list (map (\<lambda>i. of_nat (2 ^ (length r - i - 1)) * r ! i) [0..<length r])))"

section \<open>Dense polynomials\<close>

record 'f dense_poly =
  dp_num_vars :: nat
  dp_len :: nat
  dp_Z :: "'f list"

definition dense_new :: "'f list \<Rightarrow> 'f dense_poly result" where
  "dense_new Z = result_bind (log_2 (length Z)) (\<lambda>n. Ok \<lparr>dp_num_vars = n, dp_len = length Z, dp_Z = Z\<rparr>)"

definition dense_split :: "'f dense_poly \<Rightarrow> nat \<Rightarrow> ('f dense_poly \<times> 'f dense_poly) result" where
  "dense_split p idx = (if idx < dp_len p then
     result_bind (result_bind (slice (dp_Z p) (0, idx)) dense_new) (\<lambda>a.
     result_bind (result_bind (slice (dp_Z p) (idx, 2 * idx)) dense_new) (\<lambda>b. Ok (a, b))) else Panic)"

definition dense_bound :: "'f::field dense_poly \<Rightarrow> 'f list \<Rightarrow> 'f list result" where
  "dense_bound p L = (let (left, right) = compute_factored_lens (dp_num_vars p); L_size = 2 ^ left; R_size = 2 ^ right in
     collect (map (\<lambda>i. result_bind (collect (map (\<lambda>j. result_bind (index L j) (\<lambda>l. result_bind (index (dp_Z p) (j * R_size + i)) (\<lambda>z.
       Ok (l * z)))) [0..<L_size])) (\<lambda>ts. Ok (sum_list ts))) [0..<R_size]))"

text \<open>The in-place loops; the number of variables is a \<^verbatim>\<open>usize\<close> that wraps below 0.\<close>

fun bind_loop :: "('f list \<Rightarrow> nat \<Rightarrow> 'f result) \<Rightarrow> nat list \<Rightarrow> 'f list \<Rightarrow> 'f list result" where
  "bind_loop f [] Z = Ok Z"
| "bind_loop f (i # is) Z = result_bind (f Z i) (\<lambda>x. if i < length Z then bind_loop f is (Z[i := x]) else Panic)"

definition pred64 :: "nat \<Rightarrow> nat" where
  "pred64 n = (if n = 0 then 2 ^ 64 - 1 else n - 1)"

definition bound_poly_var_top :: "'f::field \<Rightarrow> 'f dense_poly \<Rightarrow> 'f dense_poly result" where
  "bound_poly_var_top r p = (let n = dp_len p div 2 in
     result_bind (bind_loop (\<lambda>Z i. result_bind (index Z i) (\<lambda>a. result_bind (index Z (i + n)) (\<lambda>b. Ok (a + r * (b - a))))) [0..<n] (dp_Z p))
       (\<lambda>Z. Ok \<lparr>dp_num_vars = pred64 (dp_num_vars p), dp_len = n, dp_Z = take n Z\<rparr>))"

definition bound_poly_var_bot :: "'f::field \<Rightarrow> 'f dense_poly \<Rightarrow> 'f dense_poly result" where
  "bound_poly_var_bot r p = (let n = dp_len p div 2 in
     result_bind (bind_loop (\<lambda>Z i. result_bind (index Z (2 * i)) (\<lambda>a. result_bind (index Z (2 * i + 1)) (\<lambda>b. Ok (a + r * (b - a))))) [0..<n] (dp_Z p))
       (\<lambda>Z. Ok \<lparr>dp_num_vars = pred64 (dp_num_vars p), dp_len = n, dp_Z = take n Z\<rparr>))"

definition compute_dotproduct :: "'f::field list \<Rightarrow> 'f list \<Rightarrow> 'f result" where
  "compute_dotproduct a b = (if length a \<noteq> length b then Panic else Ok (sum_list (map (\<lambda>i. a ! i * b ! i) [0..<length a])))"

definition dense_evaluate :: "'f::field dense_poly \<Rightarrow> 'f list \<Rightarrow> 'f result" where
  "dense_evaluate p r = (if length r \<noteq> dp_num_vars p then Panic
     else let chis = eq_evals r in if length chis \<noteq> length (dp_Z p) then Panic else compute_dotproduct (dp_Z p) chis)"

definition dense_extend :: "'f dense_poly \<Rightarrow> 'f dense_poly \<Rightarrow> 'f dense_poly result" where
  "dense_extend p q = (if length (dp_Z p) \<noteq> dp_len p \<or> length (dp_Z q) \<noteq> dp_len p then Panic
     else Ok \<lparr>dp_num_vars = dp_num_vars p + 1, dp_len = dp_len p * 2, dp_Z = dp_Z p @ dp_Z q\<rparr>)"

definition resize :: "nat \<Rightarrow> 'a \<Rightarrow> 'a list \<Rightarrow> 'a list" where
  "resize n x xs = take n xs @ replicate (n - length xs) x"

definition dense_merge :: "'f::field dense_poly list \<Rightarrow> 'f dense_poly result" where
  "dense_merge polys = (let Z = concat (map dp_Z polys) in dense_new (resize (next_power_of_two (length Z)) 0 Z))"

definition dense_from_usize :: "nat list \<Rightarrow> 'f::field dense_poly result" where
  "dense_from_usize Z = dense_new (map (\<lambda>i. of_nat (Z ! i)) [0..<length Z])"

section \<open>Sparse polynomials and conversions\<close>

record 'f sparse_poly =
  sp_num_vars :: nat
  sp_Z :: "(nat \<times> 'f) list"

definition compute_chi :: "bool list \<Rightarrow> 'f::field list \<Rightarrow> 'f result" where
  "compute_chi a r = (if length a \<noteq> length r then Panic
     else Ok (fold (\<lambda>j chi. if a ! j then chi * r ! j else chi * (1 - r ! j)) [0..<length r] 1))"

definition sparse_evaluate :: "'f::field sparse_poly \<Rightarrow> 'f list \<Rightarrow> 'f result" where
  "sparse_evaluate p r = (if sp_num_vars p \<noteq> length r then Panic
     else result_bind (collect (map (\<lambda>(idx, val). result_bind (compute_chi (get_bits idx (length r)) r) (\<lambda>c. Ok (c * val))) (sp_Z p)))
       (\<lambda>ts. Ok (sum_list ts)))"

definition matrix_to_mle :: "nat \<Rightarrow> nat \<Rightarrow> 'f sparse_matrix \<Rightarrow> 'f sparse_poly result" where
  "matrix_to_mle m n M = (if m > 0 \<and> n > 0 then
     let s1 = safe_loglike m; s2 = safe_loglike n; s = 2 ^ s1 in
     result_bind (sm_items M) (\<lambda>items. Ok \<lparr>sp_num_vars = s1 + s2, sp_Z = map (\<lambda>(i, j, value). (j * s + i, value)) items\<rparr>)
   else Panic)"

definition vec_to_mle :: "'f::field list \<Rightarrow> 'f dense_poly result" where
  "vec_to_mle z = (if length z > 0 then dense_new (resize (next_power_of_two (length z)) 0 z) else Panic)"

section \<open>Logarithms\<close>

lemma bit_len_0 [simp]: "bit_len 0 = 0" and bit_len_1 [simp]: "bit_len (Suc 0) = 1"
  by (simp_all add: bit_len.simps)

lemma bit_len_bounds: "n < 2 ^ bit_len n \<and> (n \<noteq> 0 \<longrightarrow> 2 ^ (bit_len n - 1) \<le> n)"
proof (induction n rule: bit_len.induct)
  case (1 n)
  show ?case
  proof (cases "n = 0")
    case False
    then have IH: "n div 2 < 2 ^ bit_len (n div 2)" "n div 2 \<noteq> 0 \<longrightarrow> 2 ^ (bit_len (n div 2) - 1) \<le> n div 2" using 1 by blast+
    have rec: "bit_len n = Suc (bit_len (n div 2))" using False by (subst bit_len.simps) simp
    show ?thesis
    proof (cases "n div 2 = 0")
      case True
      then have "n = 1" using False by linarith
      then show ?thesis by simp
    next
      case d: False
      then have "bit_len (n div 2) = Suc (bit_len (n div 2) - 1)" using bit_len.simps [of "n div 2"] by simp
      then have "(2 :: nat) ^ bit_len (n div 2) = 2 * 2 ^ (bit_len (n div 2) - 1)" by (metis power_Suc)
      then show ?thesis using IH d rec by simp linarith
    qed
  qed simp
qed

lemma bit_len_unique: "n < 2 ^ k \<Longrightarrow> 2 ^ (k - 1) \<le> n \<Longrightarrow> bit_len n = k"
proof -
  assume k: "n < 2 ^ k" "2 ^ (k - 1) \<le> n"
  then have n: "n \<noteq> 0" by (metis le_zero_eq power_not_zero zero_neq_numeral)
  note b = bit_len_bounds [of n]
  have "2 ^ (k - 1) < (2 :: nat) ^ bit_len n" "2 ^ (bit_len n - 1) < (2 :: nat) ^ k" using k b n by linarith+
  then have "k - 1 < bit_len n" "bit_len n - 1 < k" by (simp_all add: power_strict_increasing_iff)
  then show ?thesis by linarith
qed

lemma bit_len_pow2 [simp]: "bit_len (2 ^ k) = Suc k"
  by (rule bit_len_unique) simp_all

lemma is_pow2_pow2 [simp]: "is_pow2 (2 ^ k)"
  by (simp add: is_pow2_def)

lemma log_2_pow2 [simp]: "log_2 (2 ^ k) = Ok k"
  by (simp add: log_2_def)

text \<open>The logarithm is rounded up.\<close>

lemma log_2_ceil: "log_2 n = Ok k \<Longrightarrow> n \<le> 2 ^ k \<and> (k \<noteq> 0 \<longrightarrow> 2 ^ (k - 1) < n)"
proof -
  assume k: "log_2 n = Ok k"
  then have n: "n \<noteq> 0" by (auto simp: log_2_def split: if_splits)
  note b = bit_len_bounds [of n]
  show ?thesis
  proof (cases "is_pow2 n")
    case True
    then have "n = 2 ^ k" using k n by (auto simp: log_2_def is_pow2_def)
    then show ?thesis by simp
  next
    case False
    then have "k = bit_len n" using k n by (simp add: log_2_def)
    moreover have "2 ^ (bit_len n - 1) \<noteq> n" using False n by (simp add: is_pow2_def)
    ultimately show ?thesis using b n by auto
  qed
qed

lemma next_power_of_two_ge: "n \<le> next_power_of_two n"
proof (cases "n \<le> 1")
  case False
  have "n - 1 < 2 ^ bit_len (n - 1)" using bit_len_bounds by blast
  then show ?thesis using False by (simp add: next_power_of_two_def)
qed (simp add: next_power_of_two_def)

lemma next_power_of_two_log: "n > 1 \<Longrightarrow> next_power_of_two n = 2 ^ safe_loglike n"
proof -
  assume n: "n > 1"
  then have "bit_len (n - 1) \<noteq> 0" by (subst bit_len.simps) simp
  then show ?thesis using n by (simp add: next_power_of_two_def safe_loglike_def)
qed

end
