(* ===== verification/Mle_Correct.thy ===== *)
theory Mle_Correct
  imports Mle
begin

text \<open>
  The tables the multilinear routines compute.  \<open>eq_table r\<close> is the list of the values of the equality polynomial
  at the Boolean points in lexicographic order; a dense polynomial evaluates to its dot product with this table.
\<close>

section \<open>The table of the equality polynomial\<close>

fun eq_table :: "'f::field list \<Rightarrow> 'f list" where
  "eq_table [] = [1]"
| "eq_table (x # r) = map ((*) (1 - x)) (eq_table r) @ map ((*) x) (eq_table r)"

lemma length_eq_table [simp]: "length (eq_table r) = 2 ^ length r"
  by (induction r) simp_all

abbreviation pairs_of :: "'f::field \<Rightarrow> 'f list \<Rightarrow> 'f list" where
  "pairs_of x t \<equiv> concat (map (\<lambda>s. [s - s * x, s * x]) t)"

lemma pairs_of_map: "pairs_of x (map ((*) c) t) = map ((*) c) (pairs_of x t)"
  by (induction t) (simp_all add: algebra_simps)

lemma eq_table_snoc: "eq_table (r @ [x]) = pairs_of x (eq_table r)"
  by (induction r) (simp_all add: pairs_of_map del: map_map)

abbreviation tensor :: "'f::field list \<Rightarrow> 'f list \<Rightarrow> 'f list" where
  "tensor u t \<equiv> concat (map (\<lambda>c. map ((*) c) t) u)"

lemma tensor_scale: "tensor (map ((*) a) u) t = map ((*) a) (tensor u t)"
  by (induction u) (simp_all add: mult.assoc)

lemma eq_table_append: "eq_table (r @ s) = tensor (eq_table r) (eq_table s)"
  by (induction r) (simp_all add: tensor_scale map_idI del: map_map)

lemma eq_round_invariant:
  assumes "2 * m \<le> length ev" "k \<le> m"
  shows "fold (eq_step x) (map (\<lambda>k. 2 * m - 1 - 2 * k) [0..<k]) ev
    = take (2 * m - 2 * k) ev @ pairs_of x (take k (drop (m - k) ev)) @ drop (2 * m) ev"
  using assms(2)
proof (induction k)
  case (Suc k)
  let ?p = "take (2 * m - 2 * k - 2) ev" and ?q = "pairs_of x (take k (drop (m - k) ev)) @ drop (2 * m) ev"
  let ?i = "2 * m - 1 - 2 * k" and ?s = "ev ! (m - 1 - k)"
  have k: "Suc (2 * m - 2 * k - 2) = ?i" "Suc ?i = 2 * m - 2 * k" "?i < length ev" using Suc.prems assms(1) by auto
  have "take (2 * m - 2 * k) ev = ?p @ [ev ! (?i - 1), ev ! ?i]"
    using k take_Suc_conv_app_nth [of "?i" ev] take_Suc_conv_app_nth [of "?i - 1" ev] by (metis Suc_lessD append.assoc append_Cons append_Nil diff_Suc_1)
  then have step: "fold (eq_step x) (map (\<lambda>k. 2 * m - 1 - 2 * k) [0..<Suc k]) ev = eq_step x ?i (?p @ [ev ! (?i - 1), ev ! ?i] @ ?q)"
    using Suc by simp
  have len: "length ?p = ?i - 1" "Suc (?i - 1) = ?i" using k by (auto simp: min_def)
  have half: "?i div 2 = m - 1 - k" using Suc.prems by linarith
  have read: "(?p @ [ev ! (?i - 1), ev ! ?i] @ ?q) ! (?i div 2) = ?s"
    unfolding half using len Suc.prems k by (auto simp: nth_append nth_Cons')
  have "eq_step x ?i (?p @ [ev ! (?i - 1), ev ! ?i] @ ?q) = ?p @ [?s - ?s * x, ?s * x] @ ?q"
    unfolding eq_step_def Let_def read using len by (auto simp: list_update_append nth_append split: nat.splits)
  moreover have "take (Suc k) (drop (m - Suc k) ev) = ?s # take k (drop (m - k) ev)"
  proof -
    have "drop (m - Suc k) ev = ev ! (m - Suc k) # drop (Suc (m - Suc k)) ev"
      using Suc.prems assms(1) by (intro Cons_nth_drop_Suc [symmetric]) linarith
    moreover have "Suc (m - Suc k) = m - k" using Suc.prems by linarith
    ultimately show ?thesis by simp
  qed
  ultimately show ?case using step by simp
qed simp

lemma eq_round_table: "2 * m \<le> length ev \<Longrightarrow> eq_round x (2 * m) ev = pairs_of x (take m ev) @ drop (2 * m) ev"
  using eq_round_invariant [of m ev m x] by (simp add: eq_round_def)

lemma eq_evals_table: "eq_evals r = eq_table r"
proof -
  have "fold (\<lambda>rj (sz, evals). (2 * sz, eq_round rj (2 * sz) evals)) r (1, replicate (2 ^ (length r + n)) 1)
    = (2 ^ length r, eq_table r @ replicate (2 ^ (length r + n) - 2 ^ length r) 1)" for n
  proof (induction r arbitrary: n rule: rev_induct)
    case Nil
    have "(1 :: 'a) # replicate (2 ^ n - 1) 1 = replicate (2 ^ n) 1" by (metis One_nat_def Suc_pred replicate_Suc zero_less_numeral zero_less_power)
    then show ?case by simp
  next
    case (snoc x r)
    let ?k = "2 ^ length r :: nat" and ?N = "2 ^ (length r + Suc n) :: nat"
    have le: "2 * ?k \<le> ?N" using power_increasing [of "Suc (length r)" "length r + Suc n" "2 :: nat"] by simp
    let ?l = "eq_table r @ replicate (?N - ?k) (1 :: 'a)"
    have "length ?l = ?k + (?N - ?k)" by simp
    then have len: "2 * ?k \<le> length ?l" using le by linarith
    have "take ?k ?l = eq_table r" "drop (2 * ?k) ?l = replicate (?N - 2 * ?k) 1" by (simp_all add: drop_replicate mult_2)
    then have "eq_round x (2 * ?k) ?l = pairs_of x (eq_table r) @ replicate (?N - 2 * ?k) 1" using eq_round_table [OF len] by simp
    then show ?case using snoc [of "Suc n"] by (simp add: eq_table_snoc)
  qed
  from this [of 0] show ?thesis by (simp add: eq_evals_def)
qed

lemma length_eq_evals [simp]: "length (eq_evals r) = 2 ^ length r"
  by (simp add: eq_evals_table)

section \<open>Boolean points\<close>

lemma length_get_bits [simp]: "length (get_bits i n) = n"
  by (simp add: get_bits_def)

lemma get_bits_Suc: "get_bits i (Suc n) = odd (i div 2 ^ n) # get_bits i n"
proof -
  have "[0..<Suc n] = 0 # map Suc [0..<n]" by (simp add: map_Suc_upt upt_conv_Cons del: upt_Suc)
  then show ?thesis by (simp add: get_bits_def)
qed

lemma get_bits_mod: "get_bits (2 ^ n + i) n = get_bits i n"
proof -
  have "odd ((2 ^ n + i) div 2 ^ k) = odd (i div 2 ^ k)" if "k < n" for k
  proof -
    have "(2 :: nat) ^ n = 2 ^ (n - k) * 2 ^ k" using that by (simp flip: power_add)
    then have "(2 ^ n + i) div 2 ^ k = 2 ^ (n - k) + i div 2 ^ k" by (metis add.commute div_mult_self1 power_not_zero zero_neq_numeral)
    then show ?thesis using that by simp
  qed
  then show ?thesis by (simp add: get_bits_def)
qed

definition pick_factor :: "bool \<Rightarrow> 'f::field \<Rightarrow> 'f" where
  "pick_factor b x = (if b then x else 1 - x)"

lemma eq_table_nth: "i < 2 ^ length r \<Longrightarrow> eq_table r ! i = prod_list (map2 pick_factor (get_bits i (length r)) r)"
proof (induction r arbitrary: i)
  case (Cons x r)
  let ?n = "length r"
  show ?case
  proof (cases "i < 2 ^ ?n")
    case True
    then show ?thesis using Cons.IH [OF True] by (simp add: nth_append get_bits_Suc pick_factor_def)
  next
    case False
    define j where "j = i - 2 ^ ?n"
    have j: "i = 2 ^ ?n + j" "j < 2 ^ ?n" using False Cons.prems by (simp_all add: j_def)
    then have "odd (i div 2 ^ ?n)" by simp
    then show ?thesis using Cons.IH [OF j(2)] False j by (simp add: nth_append get_bits_Suc pick_factor_def get_bits_mod)
  qed
qed simp

lemma eq_evaluate_bits: "length bs = length r \<Longrightarrow> eq_evaluate r (map of_bool bs) = Ok (prod_list (map2 pick_factor bs r))"
proof -
  assume len: "length bs = length r"
  have "map (\<lambda>i. r ! i * map of_bool bs ! i + (1 - r ! i) * (1 - map of_bool bs ! i)) [0..<length r] = map2 pick_factor bs r"
    using len by (intro nth_equalityI) (simp_all add: pick_factor_def)
  then show ?thesis using len by (simp add: eq_evaluate_def)
qed

section \<open>Evaluation\<close>

definition mle :: "'f::field list \<Rightarrow> 'f list \<Rightarrow> 'f" where
  "mle Z r = sum_list (map2 (*) Z (eq_table r))"

lemma mle_Nil: "mle [z] [] = z"
  by (simp add: mle_def)

lemma sum_scale: "sum_list (map2 (*) Z (map ((*) c) t)) = c * sum_list (map2 (*) Z t)" for c :: "'f::field"
proof (induction t arbitrary: Z)
  case (Cons y t)
  then show ?case by (cases Z) (simp_all add: algebra_simps)
qed simp

lemma mle_Cons: "length lo = 2 ^ length r \<Longrightarrow> mle (lo @ hi) (x # r) = (1 - x) * mle lo r + x * mle hi r"
  by (simp add: mle_def sum_scale)

definition dense_ok :: "'f dense_poly \<Rightarrow> bool" where
  "dense_ok p \<longleftrightarrow> length (dp_Z p) = dp_len p \<and> dp_len p = 2 ^ dp_num_vars p"

lemma dotproduct_sum: "length a = length b \<Longrightarrow> compute_dotproduct a b = Ok (sum_list (map2 (*) a b))"
proof -
  assume len: "length a = length b"
  have "map (\<lambda>i. a ! i * b ! i) [0..<length a] = map2 (*) a b" using len by (intro nth_equalityI) simp_all
  then show ?thesis using len by (simp add: compute_dotproduct_def)
qed

lemma dense_evaluate_mle: "dense_ok p \<Longrightarrow> length r = dp_num_vars p \<Longrightarrow> dense_evaluate p r = Ok (mle (dp_Z p) r)"
  by (simp add: dense_evaluate_def dotproduct_sum mle_def eq_evals_table dense_ok_def)

section \<open>Binding a variable\<close>

lemma bind_loop_map:
  assumes f: "\<And>k pre. k < n \<Longrightarrow> length pre = k \<Longrightarrow> f (pre @ drop k Z) k = Ok (g k)" and n: "n \<le> length Z"
  shows "k \<le> n \<Longrightarrow> bind_loop f [k..<n] (map g [0..<k] @ drop k Z) = Ok (map g [0..<n] @ drop n Z)"
proof (induction "n - k" arbitrary: k)
  case (Suc d)
  then have k: "k < n" by simp
  then have upd: "(map g [0..<k] @ drop k Z)[k := g k] = map g [0..<Suc k] @ drop (Suc k) Z"
    using n Cons_nth_drop_Suc [of k Z, symmetric] by (simp add: list_update_append)
  have "[k..<n] = k # [Suc k..<n]" using k by (rule upt_conv_Cons)
  then have "bind_loop f [k..<n] (map g [0..<k] @ drop k Z) = bind_loop f [Suc k..<n] (map g [0..<Suc k] @ drop (Suc k) Z)"
    using f [of k "map g [0..<k]"] k n upd by simp
  then show ?case using Suc.hyps(1) [of "Suc k"] Suc.hyps(2) k by simp
qed simp

lemma bind_loop_start:
  assumes "\<And>k pre. k < n \<Longrightarrow> length pre = k \<Longrightarrow> f (pre @ drop k Z) k = Ok (g k)" "n \<le> length Z"
  shows "bind_loop f [0..<n] Z = Ok (map g [0..<n] @ drop n Z)"
  using bind_loop_map [of n f Z g 0] assms by simp

definition bind_top :: "'f::field \<Rightarrow> 'f list \<Rightarrow> 'f list" where
  "bind_top x Z = (let n = length Z div 2 in map (\<lambda>i. Z ! i + x * (Z ! (i + n) - Z ! i)) [0..<n])"

definition bind_bot :: "'f::field \<Rightarrow> 'f list \<Rightarrow> 'f list" where
  "bind_bot x Z = map (\<lambda>i. Z ! (2 * i) + x * (Z ! (2 * i + 1) - Z ! (2 * i))) [0..<length Z div 2]"

lemma top_list:
  assumes "length (dp_Z p) = dp_len p"
  shows "bound_poly_var_top x p = Ok \<lparr>dp_num_vars = pred64 (dp_num_vars p), dp_len = dp_len p div 2, dp_Z = bind_top x (dp_Z p)\<rparr>"
proof -
  let ?n = "dp_len p div 2" and ?Z = "dp_Z p"
  have "bind_loop (\<lambda>Z i. result_bind (index Z i) (\<lambda>a. result_bind (index Z (i + ?n)) (\<lambda>b. Ok (a + x * (b - a))))) [0..<?n] ?Z
    = Ok (map (\<lambda>i. ?Z ! i + x * (?Z ! (i + ?n) - ?Z ! i)) [0..<?n] @ drop ?n ?Z)"
  proof (rule bind_loop_start)
    fix k and pre :: "'a list" assume k: "k < ?n" "length pre = k"
    have "index (pre @ drop k ?Z) k = Ok (?Z ! k)" "index (pre @ drop k ?Z) (k + ?n) = Ok (?Z ! (k + ?n))"
      using k assms by (simp_all add: index_def nth_append)
    then show "result_bind (index (pre @ drop k ?Z) k) (\<lambda>a. result_bind (index (pre @ drop k ?Z) (k + ?n)) (\<lambda>b. Ok (a + x * (b - a))))
      = Ok (?Z ! k + x * (?Z ! (k + ?n) - ?Z ! k))" by simp
  qed (simp add: assms)
  then show ?thesis by (simp add: bound_poly_var_top_def Let_def bind_top_def assms)
qed

lemma bot_list:
  assumes "length (dp_Z p) = dp_len p"
  shows "bound_poly_var_bot x p = Ok \<lparr>dp_num_vars = pred64 (dp_num_vars p), dp_len = dp_len p div 2, dp_Z = bind_bot x (dp_Z p)\<rparr>"
proof -
  let ?n = "dp_len p div 2" and ?Z = "dp_Z p"
  have "bind_loop (\<lambda>Z i. result_bind (index Z (2 * i)) (\<lambda>a. result_bind (index Z (2 * i + 1)) (\<lambda>b. Ok (a + x * (b - a))))) [0..<?n] ?Z
    = Ok (map (\<lambda>i. ?Z ! (2 * i) + x * (?Z ! (2 * i + 1) - ?Z ! (2 * i))) [0..<?n] @ drop ?n ?Z)"
  proof (rule bind_loop_start)
    fix k and pre :: "'a list" assume k: "k < ?n" "length pre = k"
    have "index (pre @ drop k ?Z) (2 * k) = Ok (?Z ! (2 * k))" "index (pre @ drop k ?Z) (2 * k + 1) = Ok (?Z ! (2 * k + 1))"
      using k assms by (auto simp add: index_def nth_append mult_2)
    then show "result_bind (index (pre @ drop k ?Z) (2 * k)) (\<lambda>a. result_bind (index (pre @ drop k ?Z) (2 * k + 1)) (\<lambda>b. Ok (a + x * (b - a))))
      = Ok (?Z ! (2 * k) + x * (?Z ! (2 * k + 1) - ?Z ! (2 * k)))" by simp
  qed (simp add: assms)
  then show ?thesis by (simp add: bound_poly_var_bot_def Let_def bind_bot_def assms)
qed

lemma sum_linear:
  "length lo = length t \<Longrightarrow> length hi = length t \<Longrightarrow>
   sum_list (map2 (*) (map2 (\<lambda>a b. a + x * (b - a)) lo hi) t) = (1 - x) * sum_list (map2 (*) lo t) + x * sum_list (map2 (*) hi t)"
  for x :: "'f::field"
proof (induction t arbitrary: lo hi)
  case (Cons y t)
  then obtain a lo' b hi' where l: "lo = a # lo'" "hi = b # hi'" "length lo' = length t" "length hi' = length t"
    by (metis length_Suc_conv)
  have "(a + x * (b - a)) * y + ((1 - x) * p + x * q) = (1 - x) * (a * y + p) + x * (b * y + q)" for p q by algebra
  then show ?case using Cons.IH [OF l(3,4)] l by simp
qed simp

lemma mle_bind_top: "length Z = 2 ^ Suc (length r) \<Longrightarrow> mle (bind_top x Z) r = mle Z (x # r)"
proof -
  assume Z: "length Z = 2 ^ Suc (length r)"
  let ?n = "2 ^ length r"
  have n: "length Z div 2 = ?n" using Z by simp
  have top: "bind_top x Z = map2 (\<lambda>a b. a + x * (b - a)) (take ?n Z) (drop ?n Z)"
    unfolding bind_top_def n Let_def using Z by (intro nth_equalityI) (simp_all add: add.commute)
  have "mle Z (x # r) = (1 - x) * mle (take ?n Z) r + x * mle (drop ?n Z) r"
    using mle_Cons [of "take ?n Z" r "drop ?n Z" x] Z by simp
  then show ?thesis unfolding top mle_def using Z by (subst sum_linear) simp_all
qed

lemma bind_bot_Cons: "bind_bot x (a # b # Z) = (a + x * (b - a)) # bind_bot x Z"
proof -
  have "[0..<Suc (length Z div 2)] = 0 # map Suc [0..<length Z div 2]" by (simp add: map_Suc_upt upt_conv_Cons del: upt_Suc)
  then show ?thesis by (simp add: bind_bot_def del: upt_Suc)
qed

lemma mle_bind_bot: "length Z = 2 ^ Suc (length r) \<Longrightarrow> mle (bind_bot x Z) r = mle Z (r @ [x])"
proof -
  have "length Z = 2 * length t \<Longrightarrow> sum_list (map2 (*) (bind_bot x Z) t) = sum_list (map2 (*) Z (pairs_of x t))" for Z t
  proof (induction t arbitrary: Z)
    case (Cons s t)
    then obtain a b Z' where Z: "Z = a # b # Z'" "length Z' = 2 * length t" by (cases Z; cases "tl Z") auto
    have "(a + x * (b - a)) * s = a * (s - s * x) + b * (s * x)" by algebra
    then show ?case using Cons.IH [OF Z(2)] Z by (simp add: bind_bot_Cons)
  qed (simp add: bind_bot_def)
  then show "length Z = 2 ^ Suc (length r) \<Longrightarrow> mle (bind_bot x Z) r = mle Z (r @ [x])" by (simp add: mle_def eq_table_snoc)
qed

section \<open>Points of the cube\<close>

lemma mle_bits: "length Z = 2 ^ n \<Longrightarrow> i < 2 ^ n \<Longrightarrow> mle Z (map of_bool (get_bits i n)) = Z ! i"
proof (induction n arbitrary: Z i)
  case 0
  then show ?case by (cases Z) (simp_all add: mle_Nil get_bits_def)
next
  case (Suc n)
  let ?lo = "take (2 ^ n) Z" and ?hi = "drop (2 ^ n) Z"
  have len: "length ?lo = 2 ^ n" "length ?hi = 2 ^ n" using Suc.prems by simp_all
  have split: "mle Z (x # map of_bool (get_bits j n)) = (1 - x) * mle ?lo (map of_bool (get_bits j n)) + x * mle ?hi (map of_bool (get_bits j n))" for x j
    using mle_Cons [of ?lo "map of_bool (get_bits j n)" ?hi x] len by simp
  show ?case
  proof (cases "i < 2 ^ n")
    case True
    then show ?thesis using Suc.IH [OF len(1) True] by (simp add: get_bits_Suc split)
  next
    case False
    define j where "j = i - 2 ^ n"
    have j: "i = 2 ^ n + j" "j < 2 ^ n" using False Suc.prems by (simp_all add: j_def)
    then have "odd (i div 2 ^ n)" by simp
    then have "mle Z (map of_bool (get_bits i (Suc n))) = mle ?hi (map of_bool (get_bits j n))"
      using j(1) by (simp add: get_bits_Suc split get_bits_mod)
    then show ?thesis using Suc.IH [OF len(2) j(2)] j(1) Suc.prems by simp
  qed
qed

lemma dense_new_ok: "length Z = 2 ^ n \<Longrightarrow> dense_new Z = Ok \<lparr>dp_num_vars = n, dp_len = 2 ^ n, dp_Z = Z\<rparr>"
  by (simp add: dense_new_def)

lemma dense_ok_new: "length Z = 2 ^ n \<Longrightarrow> dense_ok \<lparr>dp_num_vars = n, dp_len = 2 ^ n, dp_Z = Z\<rparr>"
  by (simp add: dense_ok_def)

text \<open>The value of the matrix form: rows weighted by one table, columns by the other.\<close>

lemma tensor_sum:
  "length Z = length u * length t \<Longrightarrow> sum_list (map2 (*) Z (tensor u t))
    = (\<Sum>j<length u. u ! j * (\<Sum>i<length t. Z ! (j * length t + i) * t ! i))" for u t Z :: "'f::field list"
proof (induction u arbitrary: Z)
  case (Cons c u)
  let ?n = "length t"
  have Z: "length (take ?n Z) = ?n" "length (drop ?n Z) = length u * ?n" using Cons.prems by simp_all
  have split: "map2 (*) Z (map ((*) c) t @ tensor u t) = map2 (*) (take ?n Z) (map ((*) c) t) @ map2 (*) (drop ?n Z) (tensor u t)"
    using zip_append [of "take ?n Z" "map ((*) c) t" "drop ?n Z" "tensor u t"] Z(1) by simp
  have "sum_list (map2 (*) (take ?n Z) t) = (\<Sum>i<?n. Z ! i * t ! i)"
    using Z(1) by (simp add: sum_list_sum_nth atLeast0LessThan)
  moreover have "drop ?n Z ! (j * ?n + i) = Z ! (Suc j * ?n + i)" for j i using Cons.prems by (simp add: add.assoc)
  ultimately show ?case
    using Cons.IH [OF Z(2)] by (simp add: split sum_scale sum.lessThan_Suc_shift del: sum.lessThan_Suc)
qed simp

section \<open>Sparse polynomials\<close>

lemma get_bits_append: "i < 2 ^ a \<Longrightarrow> get_bits (j * 2 ^ a + i) (b + a) = get_bits j b @ get_bits i a"
proof -
  assume i: "i < 2 ^ a"
  have hi: "odd ((j * 2 ^ a + i) div 2 ^ (b + a - s - 1)) = odd (j div 2 ^ (b - s - 1))" if "s < b" for s
  proof -
    have "b + a - s - 1 = a + (b - s - 1)" using that by simp
    then have "(j * 2 ^ a + i) div 2 ^ (b + a - s - 1) = (j * 2 ^ a + i) div 2 ^ a div 2 ^ (b - s - 1)" by (simp add: power_add div_mult2_eq)
    also have "(j * 2 ^ a + i) div 2 ^ a = j" using i by simp
    finally show ?thesis by simp
  qed
  have lo: "odd ((j * 2 ^ a + i) div 2 ^ (a - s - 1)) = odd (i div 2 ^ (a - s - 1))" if "s < a" for s
  proof -
    have "j * 2 ^ a = j * 2 ^ Suc s * 2 ^ (a - s - 1)" using that 
    proof -
      have "(2 :: nat) ^ a = 2 ^ (Suc s + (a - s - 1))" using that by (intro arg_cong [of _ _ "(^) 2"]) simp
      then show ?thesis by (simp only: power_add mult.assoc)
    qed
    then have "(j * 2 ^ a + i) div 2 ^ (a - s - 1) = j * 2 ^ Suc s + i div 2 ^ (a - s - 1)" by (metis add.commute div_mult_self1 power_not_zero zero_neq_numeral)
    then show ?thesis by simp
  qed
  have "get_bits (j * 2 ^ a + i) (b + a) ! s = (get_bits j b @ get_bits i a) ! s" if s: "s < b + a" for s
  proof (cases "s < b")
    case True
    then show ?thesis using hi [OF True] by (simp add: get_bits_def nth_append)
  next
    case False
    then have "b + a - s - 1 = a - (s - b) - 1" "s - b < a" using s by simp_all
    then show ?thesis using lo [of "s - b"] False s by (simp add: get_bits_def nth_append)
  qed
  then show ?thesis by (intro nth_equalityI) simp_all
qed

lemma get_bits_inj: "i < 2 ^ n \<Longrightarrow> j < 2 ^ n \<Longrightarrow> get_bits i n = get_bits j n \<Longrightarrow> i = j"
proof -
  assume ij: "i < 2 ^ n" "j < 2 ^ n" "get_bits i n = get_bits j n"
  define Z :: "rat list" where "Z = map of_nat [0..<2 ^ n]"
  have Z: "length Z = 2 ^ n" "Z ! i = of_nat i" "Z ! j = of_nat j" using ij(1,2) by (simp_all add: Z_def)
  have "Z ! i = Z ! j" unfolding mle_bits [OF Z(1) ij(1), symmetric] mle_bits [OF Z(1) ij(2), symmetric] ij(3) ..
  then show "i = j" unfolding Z(2,3) by (simp only: of_nat_eq_iff)
qed

lemma compute_chi_prod: "length a = length r \<Longrightarrow> compute_chi a r = Ok (prod_list (map2 pick_factor a r))"
proof -
  assume len: "length a = length r"
  have "fold (\<lambda>j chi. if a ! j then chi * r ! j else chi * (1 - r ! j)) [0..<n] 1 = (\<Prod>j<n. pick_factor (a ! j) (r ! j))" for n
    by (induction n) (simp_all add: pick_factor_def mult.commute)
  moreover have "prod_list (map2 pick_factor a r) = (\<Prod>j<length r. pick_factor (a ! j) (r ! j))"
    using len by (simp add: prod.list_conv_set_nth atLeast0LessThan)
  ultimately show ?thesis using len by (simp add: compute_chi_def)
qed

lemma chi_bits: "length a = length b \<Longrightarrow> compute_chi a (map of_bool b) = Ok (of_bool (a = b) :: 'f::field)"
proof -
  have "length a = length b \<Longrightarrow> prod_list (map2 pick_factor a (map of_bool b)) = (of_bool (a = b) :: 'f)"
    by (induction a b rule: list_induct2) (auto simp: pick_factor_def)
  then show "length a = length b \<Longrightarrow> compute_chi a (map of_bool b) = Ok (of_bool (a = b) :: 'f)" by (simp add: compute_chi_prod)
qed

lemma coo_row_sum:
  "(\<Sum>(i', j', x)\<leftarrow>concat (map (\<lambda>(i, row). map (\<lambda>(f, j). (i, j, f)) row) (enumerate n M)). of_bool (i' = n + i \<and> P j') * x)
    = (\<Sum>(x, j')\<leftarrow>(if i < length M then M ! i else []). of_bool (P j') * x :: 'f::field)"
proof (induction M arbitrary: n i)
  case (Cons row M)
  have row: "(\<Sum>(i', j', x)\<leftarrow>map (\<lambda>(f, j). (n, j, f)) row. of_bool (i' = n + i \<and> P j') * x)
      = (if i = 0 then (\<Sum>(x, j')\<leftarrow>row. of_bool (P j') * x) else 0)"
    by (induction row) auto
  show ?case
  proof (cases i)
    case 0
    have "(\<Sum>(i', j', x)\<leftarrow>concat (map (\<lambda>(i, row). map (\<lambda>(f, j). (i, j, f)) row) (enumerate (Suc n) M)). of_bool (i' = n \<and> P j') * x) = (0 :: 'f)"
    proof -
      have *: "i' \<noteq> n" if "(i', j', x) \<in> set (concat (map (\<lambda>(i, row). map (\<lambda>(f, j). (i, j, f)) row) (enumerate (Suc n) M)))" for i' j' x
        using that by (auto simp: in_set_enumerate_eq)
      then have "map (\<lambda>(i', j', x). of_bool (i' = n \<and> P j') * x) (concat (map (\<lambda>(i, row). map (\<lambda>(f, j). (i, j, f)) row) (enumerate (Suc n) M)))
        = map (\<lambda>_. 0 :: 'f) (concat (map (\<lambda>(i, row). map (\<lambda>(f, j). (i, j, f)) row) (enumerate (Suc n) M)))"
        using * by (intro map_cong refl) (auto simp del: set_concat)
      then show ?thesis by (simp only: sum_list_0)
    qed
    then show ?thesis using row 0 by simp
  next
    case (Suc k)
    then show ?thesis using row Cons.IH [of "Suc n" k] by simp
  qed
qed simp

lemma safe_loglike_ge: "n \<le> 2 ^ safe_loglike n"
proof (cases "n > 1")
  case True
  then show ?thesis using next_power_of_two_ge [of n] next_power_of_two_log by metis
next
  case False
  then have "n = 0 \<or> n = 1" by linarith
  then show ?thesis by (elim disjE) (simp_all add: safe_loglike_def)
qed

section \<open>Properties\<close>

text \<open>C32: the table computed in place lists the values of the equality polynomial at all Boolean points, most
  significant bit first.\<close>

theorem eq_evals_correct:
  "map (\<lambda>i. eq_evaluate r (map of_bool (get_bits i (length r)))) [0..<2 ^ length r] = map Ok (eq_evals r)"
  by (intro nth_equalityI) (simp_all add: eq_evals_table eq_evaluate_bits eq_table_nth)

text \<open>C33: binding the first or the last variable of a dense polynomial to a value gives the dense polynomial, in one
  variable less, that evaluates as the original with that value in front or behind.\<close>

theorem bind_evaluate:
  assumes "length (dp_Z p) = dp_len p" "dp_len p = 2 ^ dp_num_vars p" "dp_num_vars p = Suc (length r)"
  shows "(case bound_poly_var_top x p of Ok q \<Rightarrow> length (dp_Z q) = 2 ^ length r \<and> dense_evaluate q r = dense_evaluate p (x # r) | _ \<Rightarrow> False)
    \<and> (case bound_poly_var_bot x p of Ok q \<Rightarrow> length (dp_Z q) = 2 ^ length r \<and> dense_evaluate q r = dense_evaluate p (r @ [x]) | _ \<Rightarrow> False)"
proof -
  have p: "dense_ok p" using assms by (simp add: dense_ok_def)
  have len: "length (dp_Z p) = 2 ^ Suc (length r)" using assms by simp
  have half: "length (bind_top x (dp_Z p)) = 2 ^ length r" "length (bind_bot x (dp_Z p)) = 2 ^ length r"
    using len by (simp_all add: bind_top_def bind_bot_def Let_def)
  note q = dense_evaluate_mle [OF dense_ok_new [OF half(1)], of r] dense_evaluate_mle [OF dense_ok_new [OF half(2)], of r]
  have "dense_evaluate p (x # r) = Ok (mle (dp_Z p) (x # r))" "dense_evaluate p (r @ [x]) = Ok (mle (dp_Z p) (r @ [x]))"
    using dense_evaluate_mle [OF p] assms by simp_all
  moreover have "dp_len p div 2 = 2 ^ length r" "pred64 (dp_num_vars p) = length r" using assms by (simp_all add: pred64_def)
  ultimately show ?thesis
    using q half mle_bind_top [OF len, of x] mle_bind_bot [OF len, of x] unfolding top_list [OF assms(1)] bot_list [OF assms(1)] by simp
qed

lemma bind_evaluate_witness:
  "(case bound_poly_var_top 4 \<lparr>dp_num_vars = 2, dp_len = 4, dp_Z = [1, 2, 1, 4 :: rat]\<rparr> of
      Ok q \<Rightarrow> dense_evaluate q [3] = dense_evaluate \<lparr>dp_num_vars = 2, dp_len = 4, dp_Z = [1, 2, 1, 4]\<rparr> [4, 3] | _ \<Rightarrow> False)"
  using bind_evaluate [of "\<lparr>dp_num_vars = 2, dp_len = 4, dp_Z = [1, 2, 1, 4 :: rat]\<rparr>" "[3]" 4] by (auto split: result.splits)

text \<open>A vector becomes the dense polynomial that takes its entries at the Boolean points and 0 at the remaining
  ones.\<close>

theorem vec_to_mle_values:
  assumes "z \<noteq> []"
  shows "\<exists>p. vec_to_mle z = Ok p \<and> length z \<le> 2 ^ dp_num_vars p
    \<and> (\<forall>i<2 ^ dp_num_vars p. dense_evaluate p (map of_bool (get_bits i (dp_num_vars p))) = Ok (if i < length z then z ! i else 0))"
proof -
  obtain n where n: "next_power_of_two (length z) = 2 ^ n"
    by (metis next_power_of_two_def power_0)
  let ?Z = "resize (2 ^ n) 0 z"
  have le: "length z \<le> 2 ^ n" using next_power_of_two_ge [of "length z"] n by simp
  then have len: "length ?Z = 2 ^ n" by (simp add: resize_def)
  have "?Z ! i = (if i < length z then z ! i else 0)" if "i < 2 ^ n" for i
    using that le by (simp add: resize_def nth_append)
  then show ?thesis
    using assms le dense_evaluate_mle [OF dense_ok_new [OF len]] mle_bits [OF len] by (simp add: vec_to_mle_def n dense_new_ok [OF len])
qed

lemma vec_to_mle_values_witness:
  "\<exists>p. vec_to_mle [5, 6, 7 :: rat] = Ok p \<and> (3 :: nat) \<le> 2 ^ dp_num_vars p
    \<and> (\<forall>i<2 ^ dp_num_vars p. dense_evaluate p (map of_bool (get_bits i (dp_num_vars p))) = Ok (if i < 3 then [5, 6, 7] ! i else 0))"
  using vec_to_mle_values [of "[5, 6, 7 :: rat]"] by (simp add: numeral_3_eq_3)

text \<open>The number of variables \<^verbatim>\<open>safe_loglike!\<close> computes for an index range is the number of variables of the
  polynomial of a vector of that length, except for length 1, where it is 1 and the polynomial is constant.\<close>

theorem safe_loglike_vars:
  "map_option dp_num_vars (case vec_to_mle (replicate (Suc n) (0 :: 'f::field)) of Ok p \<Rightarrow> Some p | _ \<Rightarrow> None)
   = Some (if n = 0 then safe_loglike (Suc n) - 1 else safe_loglike (Suc n))"
proof (cases n)
  case 0
  have "log_2 (Suc 0) = Ok 0" using log_2_pow2 [of 0] by simp
  then show ?thesis using 0 by (simp add: vec_to_mle_def next_power_of_two_def resize_def dense_new_def safe_loglike_def)
next
  case (Suc m)
  have "next_power_of_two (Suc n) = 2 ^ safe_loglike (Suc n)" using Suc by (intro next_power_of_two_log) simp
  moreover have "length (resize (2 ^ safe_loglike (Suc n)) 0 (replicate (Suc n) (0 :: 'f))) = 2 ^ safe_loglike (Suc n)"
    using next_power_of_two_ge [of "Suc n"] calculation by (simp add: resize_def)
  ultimately show ?thesis using Suc by (simp add: vec_to_mle_def dense_new_ok del: replicate_Suc)
qed

text \<open>C34: the square-root evaluation: combining the rows of the table with the first half of the point and the columns
  with the second half gives the value of the polynomial.\<close>

theorem factored_evaluate:
  assumes "length (dp_Z p) = dp_len p" "dp_len p = 2 ^ dp_num_vars p" "dp_num_vars p = length r"
  shows "result_bind (dense_bound p (fst (compute_factored_evals r))) (\<lambda>LZ. compute_dotproduct LZ (snd (compute_factored_evals r)))
    = dense_evaluate p r"
proof -
  let ?k = "length r div 2"
  define L where "L = eq_table (take ?k r)"
  define R where "R = eq_table (drop ?k r)"
  have F: "compute_factored_evals r = (L, R)" "length L = 2 ^ ?k" "length R = 2 ^ (length r - ?k)"
    by (simp_all add: compute_factored_evals_def compute_factored_lens_def eq_evals_table Let_def L_def R_def)
  have len: "length (dp_Z p) = length L * length R" using assms F by (simp flip: power_add)
  have idx: "j * length R + i < length (dp_Z p)" if "j < length L" "i < length R" for i j
  proof -
    have "Suc j * length R \<le> length L * length R" using that(1) by (intro mult_le_mono1) simp
    then show ?thesis using that(2) len by simp
  qed
  have terms: "collect (map (\<lambda>j. result_bind (index L j) (\<lambda>l. result_bind (index (dp_Z p) (j * length R + i)) (\<lambda>z. Ok (l * z)))) [0..<length L])
      = Ok (map (\<lambda>j. L ! j * dp_Z p ! (j * length R + i)) [0..<length L])" if "i < length R" for i
    using idx that by (intro collect_map_Ok) simp
  have "dense_bound p L = Ok (map (\<lambda>i. \<Sum>j<length L. L ! j * dp_Z p ! (j * length R + i)) [0..<length R])"
    unfolding dense_bound_def compute_factored_lens_def Let_def prod.case assms(3) F(2) [symmetric] F(3) [symmetric]
    by (intro collect_map_Ok) (simp add: terms interv_sum_list_conv_sum_set_nat atLeast0LessThan)
  then have "result_bind (dense_bound p L) (\<lambda>LZ. compute_dotproduct LZ R)
      = Ok (\<Sum>i<length R. (\<Sum>j<length L. L ! j * dp_Z p ! (j * length R + i)) * R ! i)"
    by (simp add: compute_dotproduct_def interv_sum_list_conv_sum_set_nat atLeast0LessThan)
  also have "(\<Sum>i<length R. (\<Sum>j<length L. L ! j * dp_Z p ! (j * length R + i)) * R ! i)
      = (\<Sum>i<length R. \<Sum>j<length L. L ! j * (dp_Z p ! (j * length R + i) * R ! i))"
    by (simp only: sum_distrib_right mult.assoc)
  also have "\<dots> = (\<Sum>j<length L. \<Sum>i<length R. L ! j * (dp_Z p ! (j * length R + i) * R ! i))" by (rule sum.swap)
  also have "\<dots> = (\<Sum>j<length L. L ! j * (\<Sum>i<length R. dp_Z p ! (j * length R + i) * R ! i))" by (simp only: sum_distrib_left)
  also have "\<dots> = mle (dp_Z p) r"
  proof -
    have "eq_table r = tensor L R" using eq_table_append [of "take ?k r" "drop ?k r"] unfolding L_def R_def append_take_drop_id .
    then show ?thesis unfolding mle_def tensor_sum [OF len, symmetric] by (rule arg_cong [of _ _ "\<lambda>t. sum_list (map2 (*) (dp_Z p) t)", symmetric])
  qed
  finally show ?thesis using dense_evaluate_mle [of p r] assms unfolding F(1) fst_conv snd_conv dense_ok_def by metis
qed

lemma factored_evaluate_witness:
  "result_bind (dense_bound \<lparr>dp_num_vars = 2, dp_len = 4, dp_Z = [1, 2, 1, 4 :: rat]\<rparr> (fst (compute_factored_evals [4, 3])))
      (\<lambda>LZ. compute_dotproduct LZ (snd (compute_factored_evals [4, 3])))
    = dense_evaluate \<lparr>dp_num_vars = 2, dp_len = 4, dp_Z = [1, 2, 1, 4]\<rparr> [4, 3]"
  by (rule factored_evaluate) simp_all

text \<open>C35: a matrix with an entry becomes the sparse polynomial whose value at the Boolean point of a column index followed
  by a row index is the entry there, and 0 outside the matrix.\<close>

theorem matrix_to_mle_values:
  assumes "rows_ok m n M" "concat M \<noteq> []" "0 < m" "0 < n" "i < 2 ^ safe_loglike m" "j < 2 ^ safe_loglike n"
  shows "\<exists>A p. sm_new M m n = Ok A \<and> matrix_to_mle m n A = Ok p
    \<and> sparse_evaluate p (map of_bool (get_bits j (safe_loglike n) @ get_bits i (safe_loglike m)))
      = Ok (\<Sum>(x, j')\<leftarrow>(if i < length M then M ! i else []). of_bool (j' = j) * x)"
proof -
  let ?s1 = "safe_loglike m" and ?s2 = "safe_loglike n" and ?A = "csr (pad_rows m M) n"
  let ?z = "map of_bool (get_bits j ?s2 @ get_bits i ?s1) :: 'a list"
  have blank: "\<forall>row\<in>set (drop m M). row = []" using assms(1) by (simp add: rows_ok_def)
  then have "concat (drop m M) = []" by auto
  then have "concat (pad_rows m M) = concat M" using concat_append [of "take m M" "drop m M"] by (simp add: pad_rows_def)
  then have items: "sm_items ?A = Ok (coo_entries M)" using sm_items_csr [of "pad_rows m M" n] assms(2) coo_pad [OF blank] by simp
  have ent: "i' < 2 ^ ?s1" "j' < 2 ^ ?s2" if e: "(i', j', x) \<in> set (coo_entries M)" for i' j' x
  proof -
    from e obtain row where row: "i' < length M" "M ! i' = row" "(x, j') \<in> set row"
      by (auto simp: coo_entries_def in_set_enumerate_eq)
    then have "row \<in> set M" by auto
    then have "j' < n" using assms(1) row(3) by (auto simp: rows_ok_def)
    moreover have "i' < m"
    proof (rule ccontr)
      assume "\<not> i' < m"
      then have "row \<in> set (drop m M)" using row(1,2) by (auto simp: in_set_conv_nth intro!: exI [of _ "i' - m"])
      then show False using blank row(3) by auto
    qed
    ultimately show "i' < 2 ^ ?s1" "j' < 2 ^ ?s2" using safe_loglike_ge [of m] safe_loglike_ge [of n] by linarith+
  qed
  have chi: "compute_chi (get_bits (j' * 2 ^ ?s1 + i') (?s1 + ?s2)) ?z = Ok (of_bool (i' = i \<and> j' = j))"
    if e: "(i', j', x) \<in> set (coo_entries M)" for i' j' x
  proof -
    have "get_bits (j' * 2 ^ ?s1 + i') (?s1 + ?s2) = get_bits j' ?s2 @ get_bits i' ?s1"
      using get_bits_append [OF ent(1) [OF e], of j' ?s2] by (simp add: add.commute)
    moreover have "get_bits j' ?s2 @ get_bits i' ?s1 = get_bits j ?s2 @ get_bits i ?s1 \<longleftrightarrow> i' = i \<and> j' = j"
      using get_bits_inj [OF ent(1) [OF e] assms(5)] get_bits_inj [OF ent(2) [OF e] assms(6)] by auto
    ultimately show ?thesis using chi_bits [of "get_bits j' ?s2 @ get_bits i' ?s1" "get_bits j ?s2 @ get_bits i ?s1"] by simp
  qed
  define p where "p = \<lparr>sp_num_vars = ?s1 + ?s2, sp_Z = map (\<lambda>(i, j, value). (j * 2 ^ ?s1 + i, value)) (coo_entries M)\<rparr>"
  have "matrix_to_mle m n ?A = Ok p" using assms(3,4) by (simp add: matrix_to_mle_def items p_def Let_def)
  moreover have "sparse_evaluate p ?z = Ok (\<Sum>(i', j', x)\<leftarrow>coo_entries M. of_bool (i' = i \<and> j' = j) * x)"
  proof -
    have "collect (map (\<lambda>(idx, val). result_bind (compute_chi (get_bits idx (?s1 + ?s2)) ?z) (\<lambda>c. Ok (c * val))) (sp_Z p))
        = Ok (map (\<lambda>(i', j', x). of_bool (i' = i \<and> j' = j) * x) (coo_entries M))"
      unfolding p_def sparse_poly.simps map_map using chi by (intro collect_map_Ok) auto
    moreover have "sp_num_vars p = length ?z" "length ?z = ?s1 + ?s2" by (simp_all add: p_def)
    ultimately show ?thesis unfolding sparse_evaluate_def by (simp only: if_False not_True_eq_False result_bind.simps simp_thms)
  qed
  moreover have "(\<Sum>(i', j', x)\<leftarrow>coo_entries M. of_bool (i' = i \<and> j' = j) * x) = (\<Sum>(x, j')\<leftarrow>(if i < length M then M ! i else []). of_bool (j' = j) * x)"
    using coo_row_sum [of 0 i "\<lambda>j'. j' = j" M] by (simp add: coo_entries_def)
  ultimately show ?thesis using sm_new_csr [OF assms(1)] by auto
qed

lemma matrix_to_mle_values_witness:
  "\<exists>A p. sm_new [[(5 :: rat, 0), (7, 2)], [(3, 1)]] 2 3 = Ok A \<and> matrix_to_mle 2 3 A = Ok p
    \<and> sparse_evaluate p (map of_bool (get_bits 2 2 @ get_bits 0 1)) = Ok 7"
proof -
  have "safe_loglike 2 = 1" "safe_loglike 3 = 2" by (simp_all add: safe_loglike_def bit_len.simps)
  then show ?thesis using matrix_to_mle_values [of 2 3 "[[(5 :: rat, 0), (7, 2)], [(3, 1)]]" 0 2] by (simp add: rows_ok_def)
qed

end
