(* ===== verification/Sumcheck.thy ===== *)
theory Sumcheck
  imports Mle_Correct
begin

text \<open>
  Univariate polynomials (\<^verbatim>\<open>spartan/src/unipoly.rs\<close>) and the sum-check protocol of \<^verbatim>\<open>spartan/src/sumcheck.rs\<close>: the
  verifier and the cubic prover.  The operations of the third-party transcript and of the field serialisation are the fields of a record.
\<close>

section \<open>Univariate polynomials\<close>

text \<open>\<^verbatim>\<open>inverse().unwrap()\<close>.\<close>

definition field_inverse :: "'f::field \<Rightarrow> 'f result" where
  "field_inverse x = (if x = 0 then Panic else Ok (inverse x))"

definition from_evals :: "'f::field list \<Rightarrow> 'f list result" where
  "from_evals ev =
     (if \<not> (length ev = 3 \<or> length ev = 4) then Panic
      else if length ev = 3 then result_bind (field_inverse 2) (\<lambda>two_inv.
        let c = ev ! 0; a = two_inv * (ev ! 2 - ev ! 1 - ev ! 1 + c); b = ev ! 1 - c - a in Ok [c, b, a])
      else result_bind (field_inverse 2) (\<lambda>two_inv. result_bind (field_inverse 6) (\<lambda>six_inv.
        let d = ev ! 0;
            a = six_inv * (ev ! 3 - ev ! 2 - ev ! 2 - ev ! 2 + ev ! 1 + ev ! 1 + ev ! 1 - ev ! 0);
            b = two_inv * (ev ! 0 + ev ! 0 - ev ! 1 - ev ! 1 - ev ! 1 - ev ! 1 - ev ! 1 + ev ! 2 + ev ! 2 + ev ! 2 + ev ! 2 - ev ! 3);
            c = ev ! 1 - d - a - b in Ok [d, c, b, a])))"

definition uni_degree :: "'f list \<Rightarrow> nat" where
  "uni_degree coeffs = (if coeffs = [] then 2 ^ 64 - 1 else length coeffs - 1)"

definition eval_at_zero :: "'f list \<Rightarrow> 'f result" where
  "eval_at_zero coeffs = index coeffs 0"

definition eval_at_one :: "'f::field list \<Rightarrow> 'f" where
  "eval_at_one coeffs = sum_list coeffs"

definition uni_evaluate :: "'f::field list \<Rightarrow> 'f \<Rightarrow> 'f result" where
  "uni_evaluate coeffs r = result_bind (index coeffs 0) (\<lambda>e.
     Ok (fst (fold (\<lambda>c (e, pow). (e + pow * c, pow * r)) (drop 1 coeffs) (e, r))))"

definition uni_compress :: "'f list \<Rightarrow> 'f list result" where
  "uni_compress coeffs = result_bind (slice coeffs (0, 1)) (\<lambda>a. result_bind (slice coeffs (2, length coeffs)) (\<lambda>b.
     if length (a @ b) + 1 = length coeffs then Ok (a @ b) else Panic))"

definition uni_decompress :: "'f::field list \<Rightarrow> 'f \<Rightarrow> 'f list result" where
  "uni_decompress cs hint = result_bind (index cs 0) (\<lambda>c0.
     Ok (c0 # fold (\<lambda>c l. l - c) (drop 1 cs) (hint - c0 - c0) # drop 1 cs))"

section \<open>The protocol\<close>

text \<open>The operations of the third-party crates the transcript uses (bytes are characters), and the trait
  \<^verbatim>\<open>ProofTranscript\<close> of \<^verbatim>\<open>spartan/src/transcript.rs\<close> over them.\<close>

record ('s, 'f) transcript =
  tr_message :: "'s \<Rightarrow> string \<Rightarrow> string \<Rightarrow> 's"
  tr_bytes :: "'s \<Rightarrow> string \<Rightarrow> nat \<Rightarrow> string \<times> 's"
  tr_serialize :: "'f \<Rightarrow> string"
  tr_from_bytes :: "string \<Rightarrow> 'f"

definition append_scalar :: "('s, 'f) transcript \<Rightarrow> string \<Rightarrow> 'f \<Rightarrow> 's \<Rightarrow> 's" where
  "append_scalar tr label scalar s = tr_message tr s label (tr_serialize tr scalar)"

definition append_scalars :: "('s, 'f) transcript \<Rightarrow> string \<Rightarrow> 'f list \<Rightarrow> 's \<Rightarrow> 's" where
  "append_scalars tr label scalars s =
     tr_message tr (fold (append_scalar tr label) scalars (tr_message tr s label ''begin_append_vector'')) label ''end_append_vector''"

definition challenge_scalar :: "('s, 'f) transcript \<Rightarrow> string \<Rightarrow> 's \<Rightarrow> 'f \<times> 's" where
  "challenge_scalar tr label s = (let (buf, s) = tr_bytes tr s label 64 in (tr_from_bytes tr buf, s))"

definition append_uni :: "('s, 'f) transcript \<Rightarrow> string \<Rightarrow> 'f list \<Rightarrow> 's \<Rightarrow> 's" where
  "append_uni tr label coeffs s =
     tr_message tr (fold (append_scalar tr ''coeff'') coeffs (tr_message tr s label ''UniPoly_begin'')) label ''UniPoly_end''"

fun verify_rounds :: "('s, 'f::field) transcript \<Rightarrow> nat \<Rightarrow> 's \<Rightarrow> 'f \<Rightarrow> 'f list list \<Rightarrow> ('f \<times> 'f list \<times> 's) result" where
  "verify_rounds tr deg s e [] = Ok (e, [], s)"
| "verify_rounds tr deg s e (c # cs) = result_bind (uni_decompress c e) (\<lambda>poly.
     if uni_degree poly \<noteq> deg then Panic
     else result_bind (eval_at_zero poly) (\<lambda>z. if z + eval_at_one poly \<noteq> e then Panic
     else let (r, s) = challenge_scalar tr ''challenge_nextround'' (append_uni tr ''poly'' poly s) in
       result_bind (uni_evaluate poly r) (\<lambda>e. result_bind (verify_rounds tr deg s e cs) (\<lambda>(e, rs, s). Ok (e, r # rs, s)))))"

definition sumcheck_verify ::
  "('s, 'f::field) transcript \<Rightarrow> 'f list list \<Rightarrow> 'f \<Rightarrow> nat \<Rightarrow> nat \<Rightarrow> 's \<Rightarrow> ('f \<times> 'f list \<times> 's) result" where
  "sumcheck_verify tr polys claim num_rounds degree_bound s =
     (if length polys = num_rounds then verify_rounds tr degree_bound s claim polys else Panic)"

text \<open>The three evaluations of one round: at 0, 2 and 3.\<close>

definition cubic_point :: "('f::field \<Rightarrow> 'f \<Rightarrow> 'f \<Rightarrow> 'f) \<Rightarrow> 'f list \<Rightarrow> 'f list \<Rightarrow> 'f list \<Rightarrow> nat \<Rightarrow> nat \<Rightarrow> ('f \<times> 'f \<times> 'f) result" where
  "cubic_point comb A B C len i =
     result_bind (index A i) (\<lambda>a. result_bind (index B i) (\<lambda>b. result_bind (index C i) (\<lambda>c.
     result_bind (index A (len + i)) (\<lambda>ha. result_bind (index B (len + i)) (\<lambda>hb. result_bind (index C (len + i)) (\<lambda>hc.
       let a2 = ha + ha - a; b2 = hb + hb - b; c2 = hc + hc - c;
           a3 = a2 + ha - a; b3 = b2 + hb - b; c3 = c2 + hc - c in
       Ok (comb a b c, comb a2 b2 c2, comb a3 b3 c3)))))))"

definition cubic_evals :: "('f::field \<Rightarrow> 'f \<Rightarrow> 'f \<Rightarrow> 'f) \<Rightarrow> 'f dense_poly \<Rightarrow> 'f dense_poly \<Rightarrow> 'f dense_poly \<Rightarrow> ('f \<times> 'f \<times> 'f) result" where
  "cubic_evals comb A B C = (let len = dp_len A div 2 in
     result_bind (collect (map (cubic_point comb (dp_Z A) (dp_Z B) (dp_Z C) len) [0..<len])) (\<lambda>ps.
       Ok (sum_list (map fst ps), sum_list (map (fst \<circ> snd) ps), sum_list (map (snd \<circ> snd) ps))))"

fun prove_cubic ::
  "('s, 'f::field) transcript \<Rightarrow> ('f \<Rightarrow> 'f \<Rightarrow> 'f \<Rightarrow> 'f) \<Rightarrow> nat \<Rightarrow> 's \<Rightarrow> 'f \<Rightarrow> 'f dense_poly \<Rightarrow> 'f dense_poly \<Rightarrow> 'f dense_poly
   \<Rightarrow> ('f list list \<times> 'f list \<times> 'f list \<times> 's) result" where
  "prove_cubic tr comb 0 s e A B C =
     result_bind (index (dp_Z A) 0) (\<lambda>a. result_bind (index (dp_Z B) 0) (\<lambda>b. result_bind (index (dp_Z C) 0) (\<lambda>c.
       Ok ([], [], [a, b, c], s))))"
| "prove_cubic tr comb (Suc n) s e A B C =
     result_bind (cubic_evals comb A B C) (\<lambda>(e0, e2, e3).
     result_bind (from_evals [e0, e - e0, e2, e3]) (\<lambda>poly.
       let (r, s) = challenge_scalar tr ''challenge_nextround'' (append_uni tr ''poly'' poly s) in
       result_bind (bound_poly_var_top r A) (\<lambda>A. result_bind (bound_poly_var_top r B) (\<lambda>B. result_bind (bound_poly_var_top r C) (\<lambda>C.
       result_bind (uni_evaluate poly r) (\<lambda>e. result_bind (uni_compress poly) (\<lambda>c.
       result_bind (prove_cubic tr comb n s e A B C) (\<lambda>(polys, rs, finals, s). Ok (c # polys, r # rs, finals, s)))))))))"

section \<open>Interpolation\<close>

lemma uni_evaluate_quad: "uni_evaluate [c, b, a] x = Ok (c + x * b + x ^ 2 * a)"
  by (simp add: uni_evaluate_def power2_eq_square)

lemma uni_evaluate_cubic: "uni_evaluate [d, c, b, a] x = Ok (d + x * c + x ^ 2 * b + x ^ 3 * a)"
  by (simp add: uni_evaluate_def power2_eq_square power3_eq_cube)

text \<open>A cubic polynomial is determined by its values at 0, 1, 2 and 3.\<close>

lemma cubic_unique:
  fixes a b c d :: "'f::field"
  assumes "(2 :: 'f) \<noteq> 0" "(3 :: 'f) \<noteq> 0" "d = 0" "d + c + b + a = 0" "d + 2 * c + 4 * b + 8 * a = 0" "d + 3 * c + 9 * b + 27 * a = 0"
  shows "a = 0 \<and> b = 0 \<and> c = 0"
proof -
  have "2 * (b + 3 * a) = 0" "3 * (2 * (b + 4 * a)) = 0" using assms(3-6) by algebra+
  then have ba: "b + 3 * a = 0" "b + 4 * a = 0" using assms(1,2) unfolding mult_eq_0_iff by blast+
  then have a: "a = 0" by algebra
  with ba have b: "b = 0" by simp
  with a show ?thesis using assms(3,4) by simp
qed

lemma from_evals_quad:
  assumes "(2 :: 'f::field) \<noteq> 0"
  obtains c b a where "from_evals [e0, e1, e2] = Ok [c, b, a :: 'f]" "c = e0" "c + b + a = e1" "c + 2 * b + 4 * a = e2"
proof -
  define A where "A = e2 - e1 - e1 + e0"
  define a where "a = inverse 2 * A"
  define b where "b = e1 - e0 - a"
  have ev: "from_evals [e0, e1, e2] = Ok [e0, b, a]"
    using assms by (simp add: from_evals_def field_inverse_def Let_def eval_nat_numeral a_def b_def A_def)
  have 2: "2 * a = A" using assms by (simp add: a_def)
  have "e0 + b + a = e1" by (simp add: b_def)
  moreover have "e0 + 2 * b + 4 * a = e2"
  proof -
    have "e0 + 2 * b + 4 * a = e0 + 2 * (e1 - e0) + 2 * a" unfolding b_def by algebra
    then show ?thesis unfolding 2 A_def by algebra
  qed
  ultimately show ?thesis using that [OF ev] by simp
qed

lemma from_evals_cubic:
  assumes "(2 :: 'f::field) \<noteq> 0" "(3 :: 'f) \<noteq> 0"
  obtains d c b a where "from_evals [e0, e1, e2, e3] = Ok [d, c, b, a :: 'f]" "d = e0" "d + c + b + a = e1"
    "d + 2 * c + 4 * b + 8 * a = e2" "d + 3 * c + 9 * b + 27 * a = e3"
proof -
  have six: "(6 :: 'f) \<noteq> 0"
  proof -
    have "(6 :: 'f) = 2 * 3" by simp
    then show ?thesis using assms by (metis mult_eq_0_iff)
  qed
  define A where "A = e3 - e2 - e2 - e2 + e1 + e1 + e1 - e0"
  define B where "B = e0 + e0 - e1 - e1 - e1 - e1 - e1 + e2 + e2 + e2 + e2 - e3"
  define a where "a = inverse 6 * A"
  define b where "b = inverse 2 * B"
  define c where "c = e1 - e0 - a - b"
  have ev: "from_evals [e0, e1, e2, e3] = Ok [e0, c, b, a]"
    using assms(1) six by (simp add: from_evals_def field_inverse_def Let_def eval_nat_numeral a_def b_def c_def A_def B_def)
  have 6: "6 * a = A" and 2: "2 * b = B" using assms six by (simp_all add: a_def b_def)
  have "e0 + c + b + a = e1" by (simp add: c_def)
  moreover have "e0 + 2 * c + 4 * b + 8 * a = e2"
  proof -
    have "e0 + 2 * c + 4 * b + 8 * a = e0 + 2 * (e1 - e0) + 2 * b + 6 * a" unfolding c_def by algebra
    then show ?thesis unfolding 6 2 A_def B_def by algebra
  qed
  moreover have "e0 + 3 * c + 9 * b + 27 * a = e3"
  proof -
    have "e0 + 3 * c + 9 * b + 27 * a = e0 + 3 * (e1 - e0) + 3 * (2 * b) + 4 * (6 * a)" unfolding c_def by algebra
    then show ?thesis unfolding 6 2 A_def B_def by algebra
  qed
  ultimately show ?thesis using that [OF ev] by simp
qed

lemma fold_minus: "fold (\<lambda>c l. l - c) cs x = x - sum_list cs" for x :: "'f::field"
  by (induction cs arbitrary: x) (simp_all add: algebra_simps)

lemma uni_decompress_Cons: "uni_decompress (c0 # cs) hint = Ok (c0 # (hint - c0 - c0 - sum_list cs) # cs)"
  by (simp add: uni_decompress_def fold_minus)

section \<open>Rounds\<close>

text \<open>The sum a claim is about, and the polynomial of a round.\<close>

definition cube_sum :: "('f::field \<Rightarrow> 'f \<Rightarrow> 'f \<Rightarrow> 'f) \<Rightarrow> 'f list \<Rightarrow> 'f list \<Rightarrow> 'f list \<Rightarrow> 'f" where
  "cube_sum comb A B C = (\<Sum>i<length A. comb (A ! i) (B ! i) (C ! i))"

definition round_poly :: "('f::field \<Rightarrow> 'f \<Rightarrow> 'f \<Rightarrow> 'f) \<Rightarrow> 'f list \<Rightarrow> 'f list \<Rightarrow> 'f list \<Rightarrow> 'f \<Rightarrow> 'f" where
  "round_poly comb A B C t = cube_sum comb (bind_top t A) (bind_top t B) (bind_top t C)"

text \<open>The combination is a polynomial of degree at most three along every line.\<close>

definition cubic_comb :: "('f::field \<Rightarrow> 'f \<Rightarrow> 'f \<Rightarrow> 'f) \<Rightarrow> bool" where
  "cubic_comb comb \<longleftrightarrow> (\<forall>a a' b b' c c'. \<exists>p0 p1 p2 p3. \<forall>t.
     comb (a + t * (a' - a)) (b + t * (b' - b)) (c + t * (c' - c)) = p0 + t * p1 + t ^ 2 * p2 + t ^ 3 * p3)"

lemma cubic_comb_product: "cubic_comb (\<lambda>a b c. a * b * c)"
  unfolding cubic_comb_def
proof (intro allI)
  fix a a' b b' c c' :: 'a
  have "(a + t * (a' - a)) * (b + t * (b' - b)) * (c + t * (c' - c))
    = a * b * c + t * ((a' - a) * b * c + a * (b' - b) * c + a * b * (c' - c))
      + t ^ 2 * ((a' - a) * (b' - b) * c + (a' - a) * b * (c' - c) + a * (b' - b) * (c' - c)) + t ^ 3 * ((a' - a) * (b' - b) * (c' - c))" for t
    by algebra
  then show "\<exists>p0 p1 p2 p3. \<forall>t. (a + t * (a' - a)) * (b + t * (b' - b)) * (c + t * (c' - c)) = p0 + t * p1 + t ^ 2 * p2 + t ^ 3 * p3" by blast
qed

lemma bind_top_nth: "i < length Z div 2 \<Longrightarrow> bind_top t Z ! i = Z ! i + t * (Z ! (i + length Z div 2) - Z ! i)"
  by (simp add: bind_top_def Let_def)

lemma length_bind_top [simp]: "length (bind_top t Z) = length Z div 2"
  by (simp add: bind_top_def Let_def)

lemma round_poly_cubic:
  fixes comb :: "'f::field \<Rightarrow> 'f \<Rightarrow> 'f \<Rightarrow> 'f"
  assumes "cubic_comb comb" "length B = length A" "length C = length A"
  obtains p0 p1 p2 p3 where "\<And>t. round_poly comb A B C t = p0 + t * p1 + t ^ 2 * p2 + t ^ 3 * p3"
proof -
  let ?n = "length A div 2"
  have "\<forall>i. \<exists>p. \<forall>t. comb (A ! i + t * (A ! (i + ?n) - A ! i)) (B ! i + t * (B ! (i + ?n) - B ! i)) (C ! i + t * (C ! (i + ?n) - C ! i))
      = fst p + t * fst (snd p) + t ^ 2 * fst (snd (snd p)) + t ^ 3 * snd (snd (snd p))"
    using assms(1) unfolding cubic_comb_def by (auto simp: split_paired_Ex)
  then obtain p where p: "\<And>i t. comb (A ! i + t * (A ! (i + ?n) - A ! i)) (B ! i + t * (B ! (i + ?n) - B ! i)) (C ! i + t * (C ! (i + ?n) - C ! i))
      = fst (p i) + t * fst (snd (p i)) + t ^ 2 * fst (snd (snd (p i))) + t ^ 3 * snd (snd (snd (p i)))" by metis
  have "round_poly comb A B C t = (\<Sum>i<?n. fst (p i)) + t * (\<Sum>i<?n. fst (snd (p i))) + t ^ 2 * (\<Sum>i<?n. fst (snd (snd (p i))))
      + t ^ 3 * (\<Sum>i<?n. snd (snd (snd (p i))))" for t
    using assms(2,3) by (simp add: round_poly_def cube_sum_def bind_top_nth p sum.distrib sum_distrib_left)
  then show ?thesis using that by blast
qed

lemma sum_halves: "(\<Sum>i<n + n. f i) = (\<Sum>i<n. f i) + (\<Sum>i<n. f (i + n))" for f :: "nat \<Rightarrow> 'f::comm_monoid_add"
  by (simp add: lessThan_atLeast0 sum.atLeastLessThan_concat [of 0 n "n + n", symmetric] sum.shift_bounds_nat_ivl [of _ 0 n n, simplified])

lemma round_poly_sum:
  assumes "length A = 2 * n" "length B = 2 * n" "length C = 2 * n"
  shows "round_poly comb A B C 0 + round_poly comb A B C 1 = cube_sum comb A B C"
proof -
  have "cube_sum comb A B C = (\<Sum>i<n + n. comb (A ! i) (B ! i) (C ! i))" using assms by (simp add: cube_sum_def mult_2)
  then show ?thesis unfolding sum_halves using assms by (simp add: round_poly_def cube_sum_def bind_top_nth)
qed

end
