(* ===== verification/Sumcheck_Correct.thy ===== *)
theory Sumcheck_Correct
  imports Sumcheck
begin

text \<open>
  Completeness and soundness of the sum-check protocol, and the representation of univariate polynomials by their
  values and without their linear term.
\<close>

section \<open>The number of roots\<close>

fun horner :: "'f::field list \<Rightarrow> 'f \<Rightarrow> 'f" where
  "horner [] x = 0"
| "horner (c # cs) x = c + x * horner cs x"

lemma horner_divide: "\<exists>ds. length ds = length cs - 1 \<and> (\<forall>x. horner cs x = (x - z) * horner ds x + horner cs z)"
proof (induction cs)
  case (Cons c cs)
  then obtain ds where ds: "length ds = length cs - 1" "\<And>x. horner cs x = (x - z) * horner ds x + horner cs z" by blast
  show ?case
  proof (cases "cs = []")
    case False
    have "horner (c # cs) x = (x - z) * horner (horner cs z # ds) x + horner (c # cs) z" for x
      unfolding horner.simps ds(2) [of x] by algebra
    moreover have "length (horner cs z # ds) = length (c # cs) - 1" using ds(1) False by (cases cs) simp_all
    ultimately show ?thesis by blast
  qed (auto intro: exI [of _ "[]"])
qed simp

lemma horner_roots: "horner cs y \<noteq> 0 \<Longrightarrow> finite {x. horner cs x = 0} \<and> card {x. horner cs x = 0} \<le> length cs - 1"
proof (induction "length cs" arbitrary: cs)
  case (Suc n)
  show ?case
  proof (cases "\<exists>z. horner cs z = 0")
    case True
    then obtain z ds where ds: "horner cs z = 0" "length ds = n" "\<And>x. horner cs x = (x - z) * horner ds x"
      using horner_divide Suc.hyps(2) by (metis add.right_neutral diff_Suc_1)
    have nz: "horner ds y \<noteq> 0" using Suc.prems ds(3) by auto
    have n: "n \<noteq> 0" using nz ds(2) by (cases ds) auto
    have IH: "finite {x. horner ds x = 0}" "card {x. horner ds x = 0} \<le> n - 1" using Suc.hyps(1) [of ds] ds(2) nz by auto
    have "{x. horner cs x = 0} \<subseteq> insert z {x. horner ds x = 0}" using ds(3) by auto
    then have "finite {x. horner cs x = 0}" "card {x. horner cs x = 0} \<le> card (insert z {x. horner ds x = 0})"
      using IH(1) by (auto intro: finite_subset card_mono)
    moreover have "card (insert z {x. horner ds x = 0}) \<le> Suc (n - 1)" using IH by (simp add: card_insert_if)
    ultimately show ?thesis using n Suc.hyps(2) by simp
  qed simp
qed simp

lemma length_four: "length xs = 4 \<Longrightarrow> \<exists>a b c d. xs = [a, b, c, d]"
  by (auto simp: eval_nat_numeral length_Suc_conv)

text \<open>Two cubic polynomials that differ somewhere agree at three points at most.\<close>

lemma cubic_agree:
  fixes q :: "'f::field \<Rightarrow> 'f"
  assumes "length poly = 4" "\<And>t. q t = p0 + t * p1 + t ^ 2 * p2 + t ^ 3 * p3" "uni_evaluate poly y \<noteq> Ok (q y)"
  shows "finite {x. uni_evaluate poly x = Ok (q x)} \<and> card {x. uni_evaluate poly x = Ok (q x)} \<le> 3"
proof -
  obtain a b c d where poly: "poly = [a, b, c, d]" using length_four [OF assms(1)] by blast
  have iff: "uni_evaluate poly x = Ok (q x) \<longleftrightarrow> horner [a - p0, b - p1, c - p2, d - p3] x = 0" for x
    unfolding poly uni_evaluate_cubic assms(2) by (simp add: algebra_simps power2_eq_square power3_eq_cube)
  then show ?thesis using horner_roots [of "[a - p0, b - p1, c - p2, d - p3]" y] assms(3) by simp
qed

section \<open>Rounds of the verifier\<close>

lemma verify_rounds_length: "verify_rounds tr deg s e polys = Ok (e', rs, s') \<Longrightarrow> length rs = length polys"
  by (induction tr deg s e polys arbitrary: e' rs s' rule: verify_rounds.induct)
    (auto simp: result_bind_Ok_iff Let_def split: if_splits prod.splits)

lemma verify_rounds_ConsD:
  assumes "verify_rounds tr 3 s e (c # cs) = Ok (e', rs, s')"
  obtains poly r s1 e1 rs' where "uni_decompress c e = Ok poly" "length poly = 4"
    "hd poly + sum_list poly = e" "challenge_scalar tr ''challenge_nextround'' (append_uni tr ''poly'' poly s) = (r, s1)"
    "uni_evaluate poly r = Ok e1" "verify_rounds tr 3 s1 e1 cs = Ok (e', rs', s')" "rs = r # rs'"
  using assms
  by (auto simp: result_bind_Ok_iff Let_def uni_degree_def eval_at_zero_def eval_at_one_def index_def hd_conv_nth
      split: if_splits prod.splits intro!: that)

section \<open>Rounds of the prover\<close>

lemma cubic_point_values:
  assumes "length ZA = 2 * m" "length ZB = 2 * m" "length ZC = 2 * m" "i < m"
  shows "cubic_point comb ZA ZB ZC m i = Ok (comb (bind_top 0 ZA ! i) (bind_top 0 ZB ! i) (bind_top 0 ZC ! i),
    comb (bind_top 2 ZA ! i) (bind_top 2 ZB ! i) (bind_top 2 ZC ! i), comb (bind_top 3 ZA ! i) (bind_top 3 ZB ! i) (bind_top 3 ZC ! i))"
proof -
  have 2: "h + h - a = a + 2 * (h - a)" and 3: "h + h - a + h - a = a + 3 * (h - a)" for a h :: 'a by algebra+
  have idx: "index Z i = Ok (Z ! i)" "index Z (m + i) = Ok (Z ! (m + i))" "bind_top t Z ! i = Z ! i + t * (Z ! (m + i) - Z ! i)"
    if "length Z = 2 * m" for Z :: "'a list" and t
    using that assms(4) by (simp_all add: index_def bind_top_nth add.commute)
  show ?thesis unfolding cubic_point_def idx [OF assms(1)] idx [OF assms(2)] idx [OF assms(3)] result_bind.simps Let_def 3 2 by simp
qed

lemma cubic_evals_values:
  assumes "length (dp_Z A) = dp_len A" "dp_len A = 2 * m" "length (dp_Z B) = 2 * m" "length (dp_Z C) = 2 * m"
  shows "cubic_evals comb A B C = (let p = round_poly comb (dp_Z A) (dp_Z B) (dp_Z C) in Ok (p 0, p 2, p 3))"
proof -
  let ?v = "\<lambda>t i. comb (bind_top t (dp_Z A) ! i) (bind_top t (dp_Z B) ! i) (bind_top t (dp_Z C) ! i)"
  have "collect (map (cubic_point comb (dp_Z A) (dp_Z B) (dp_Z C) m) [0..<m]) = Ok (map (\<lambda>i. (?v 0 i, ?v 2 i, ?v 3 i)) [0..<m])"
    using assms by (intro collect_map_Ok) (simp add: cubic_point_values)
  moreover have "round_poly comb (dp_Z A) (dp_Z B) (dp_Z C) t = (\<Sum>i<m. ?v t i)" for t
    using assms by (simp add: round_poly_def cube_sum_def)
  ultimately show ?thesis
    using assms(2) by (simp add: cubic_evals_def Let_def comp_def interv_sum_list_conv_sum_set_nat atLeast0LessThan)
qed

text \<open>A cubic polynomial from its values.\<close>

lemma cubic_interpolation:
  fixes P :: "'f::field \<Rightarrow> 'f"
  assumes "(2 :: 'f) \<noteq> 0" "(3 :: 'f) \<noteq> 0" "\<And>t. P t = p0 + t * p1 + t ^ 2 * p2 + t ^ 3 * p3" "P 0 + P 1 = e"
  obtains d c b a where "from_evals [P 0, e - P 0, P 2, P 3] = Ok [d, c, b, a]" "\<And>t. uni_evaluate [d, c, b, a] t = Ok (P t)"
    "d + (d + c + b + a) = e" "uni_compress [d, c, b, a] = Ok [d, b, a]" "uni_decompress [d, b, a] e = Ok [d, c, b, a]"
proof -
  have one: "e - P 0 = P 1" using assms(4) by (simp add: algebra_simps)
  obtain d c b a where q: "from_evals [P 0, P 1, P 2, P 3] = Ok [d, c, b, a]" "d = P 0" "d + c + b + a = P 1"
    "d + 2 * c + 4 * b + 8 * a = P 2" "d + 3 * c + 9 * b + 27 * a = P 3"
    using from_evals_cubic [OF assms(1,2)] by metis
  have "d - p0 = 0" using q(2) by (simp add: assms(3))
  moreover have "(d - p0) + (c - p1) + (b - p2) + (a - p3) = 0" using q(3) by (simp add: assms(3) algebra_simps)
  moreover have "(d - p0) + 2 * (c - p1) + 4 * (b - p2) + 8 * (a - p3) = 0" using q(4) by (simp add: assms(3) algebra_simps)
  moreover have "(d - p0) + 3 * (c - p1) + 9 * (b - p2) + 27 * (a - p3) = 0" using q(5) by (simp add: assms(3) algebra_simps)
  ultimately have "a - p3 = 0 \<and> b - p2 = 0 \<and> c - p1 = 0" by (intro cubic_unique [OF assms(1,2)])
  then have eq: "d = p0" "c = p1" "b = p2" "a = p3" using q(2) by (simp_all add: assms(3))
  have e: "d + (d + c + b + a) = e" using q(2,3) assms(4) by simp
  have "e - d - d - sum_list [b, a] = c" using e [symmetric] by simp
  then have dec: "uni_decompress [d, b, a] e = Ok [d, c, b, a]" unfolding uni_decompress_Cons by (rule arg_cong)
  have comp: "uni_compress [d, c, b, a] = Ok [d, b, a]" by (simp add: uni_compress_def slice_def eval_nat_numeral)
  show ?thesis using that [of d c b a, OF _ _ e comp dec] q(1) unfolding one by (simp add: uni_evaluate_cubic assms(3) eq)
qed

lemma round_interpolation:
  fixes comb :: "'f::field \<Rightarrow> 'f \<Rightarrow> 'f \<Rightarrow> 'f"
  assumes "(2 :: 'f) \<noteq> 0" "(3 :: 'f) \<noteq> 0" "cubic_comb comb" "length A = 2 * m" "length B = 2 * m" "length C = 2 * m"
  obtains d c b a where
    "from_evals [round_poly comb A B C 0, cube_sum comb A B C - round_poly comb A B C 0, round_poly comb A B C 2, round_poly comb A B C 3]
      = Ok [d, c, b, a]" "\<And>t. uni_evaluate [d, c, b, a] t = Ok (round_poly comb A B C t)" "d + (d + c + b + a) = cube_sum comb A B C"
    "uni_compress [d, c, b, a] = Ok [d, b, a]" "uni_decompress [d, b, a] (cube_sum comb A B C) = Ok [d, c, b, a]"
proof -
  obtain p0 p1 p2 p3 where p: "\<And>t. round_poly comb A B C t = p0 + t * p1 + t ^ 2 * p2 + t ^ 3 * p3"
    using assms by (elim round_poly_cubic [of comb B A C]) auto
  show ?thesis by (rule cubic_interpolation [OF assms(1,2) p round_poly_sum [OF assms(4-6)]]) (rule that)
qed

lemma prove_cubic_rounds:
  fixes comb :: "'f::field \<Rightarrow> 'f \<Rightarrow> 'f \<Rightarrow> 'f"
  assumes "(2 :: 'f) \<noteq> 0" "(3 :: 'f) \<noteq> 0" "cubic_comb comb"
  shows "dense_ok A \<Longrightarrow> dense_ok B \<Longrightarrow> dense_ok C \<Longrightarrow> dp_num_vars A = n \<Longrightarrow> dp_num_vars B = n \<Longrightarrow> dp_num_vars C = n \<Longrightarrow>
    \<exists>polys rs s'. prove_cubic tr comb n s (cube_sum comb (dp_Z A) (dp_Z B) (dp_Z C)) A B C
        = Ok (polys, rs, [mle (dp_Z A) rs, mle (dp_Z B) rs, mle (dp_Z C) rs], s') \<and> length polys = n \<and> length rs = n
      \<and> verify_rounds tr 3 s (cube_sum comb (dp_Z A) (dp_Z B) (dp_Z C)) polys
        = Ok (comb (mle (dp_Z A) rs) (mle (dp_Z B) rs) (mle (dp_Z C) rs), rs, s')"
proof (induction n arbitrary: s A B C)
  case 0
  have one: "\<exists>z. Z = [z]" if "length Z = Suc 0" for Z :: "'f list" using that by (simp add: length_Suc_conv)
  have "length (dp_Z A) = Suc 0" "length (dp_Z B) = Suc 0" "length (dp_Z C) = Suc 0" using 0 by (simp_all add: dense_ok_def)
  then obtain a b c where "dp_Z A = [a]" "dp_Z B = [b]" "dp_Z C = [c]" using one by metis
  then show ?case by (simp add: index_def mle_Nil cube_sum_def)
next
  case (Suc n)
  let ?A = "dp_Z A" and ?B = "dp_Z B" and ?C = "dp_Z C"
  have len: "length ?A = 2 * 2 ^ n" "length ?B = 2 * 2 ^ n" "length ?C = 2 * 2 ^ n" "length ?A = dp_len A" "length ?B = dp_len B" "length ?C = dp_len C"
    using Suc.prems by (simp_all add: dense_ok_def)
  obtain d c b a where q: "from_evals [round_poly comb ?A ?B ?C 0, cube_sum comb ?A ?B ?C - round_poly comb ?A ?B ?C 0,
      round_poly comb ?A ?B ?C 2, round_poly comb ?A ?B ?C 3] = Ok [d, c, b, a]"
      "\<And>t. uni_evaluate [d, c, b, a] t = Ok (round_poly comb ?A ?B ?C t)" "d + (d + c + b + a) = cube_sum comb ?A ?B ?C"
      "uni_compress [d, c, b, a] = Ok [d, b, a]" "uni_decompress [d, b, a] (cube_sum comb ?A ?B ?C) = Ok [d, c, b, a]"
    using round_interpolation [OF assms len(1-3)] by blast
  obtain r s1 where ch: "challenge_scalar tr ''challenge_nextround'' (append_uni tr ''poly'' [d, c, b, a] s) = (r, s1)"
    by (metis surj_pair)
  define bd where "bd P = \<lparr>dp_num_vars = n, dp_len = 2 ^ n, dp_Z = bind_top r (dp_Z P)\<rparr>" for P :: "'f dense_poly"
  have top: "bound_poly_var_top r A = Ok (bd A)" "bound_poly_var_top r B = Ok (bd B)" "bound_poly_var_top r C = Ok (bd C)"
    using len Suc.prems(4-6) by (simp_all add: top_list bd_def pred64_def)
  have "dense_ok (bd A)" "dense_ok (bd B)" "dense_ok (bd C)" using len by (simp_all add: dense_ok_def bd_def)
  from Suc.IH [OF this, of s1] obtain polys rs s' where IH:
    "prove_cubic tr comb n s1 (round_poly comb ?A ?B ?C r) (bd A) (bd B) (bd C)
      = Ok (polys, rs, [mle (bind_top r ?A) rs, mle (bind_top r ?B) rs, mle (bind_top r ?C) rs], s')" "length polys = n" "length rs = n"
    "verify_rounds tr 3 s1 (round_poly comb ?A ?B ?C r) polys
      = Ok (comb (mle (bind_top r ?A) rs) (mle (bind_top r ?B) rs) (mle (bind_top r ?C) rs), rs, s')"
    by (auto simp: bd_def round_poly_def)
  have step: "mle (bind_top r Z) rs = mle Z (r # rs)" if "length Z = 2 * 2 ^ n" for Z using that IH(3) by (intro mle_bind_top) simp
  have "prove_cubic tr comb (Suc n) s (cube_sum comb ?A ?B ?C) A B C
      = Ok ([d, b, a] # polys, r # rs, [mle ?A (r # rs), mle ?B (r # rs), mle ?C (r # rs)], s')"
    using cubic_evals_values [of A "2 ^ n" B C comb] len q(1) by (simp add: ch top q(2,4) IH(1) step Let_def)
  moreover have "verify_rounds tr 3 s (cube_sum comb ?A ?B ?C) ([d, b, a] # polys) = Ok (comb (mle ?A (r # rs)) (mle ?B (r # rs)) (mle ?C (r # rs)), r # rs, s')"
    using q(3) by (simp add: q(5) uni_degree_def eval_at_zero_def eval_at_one_def index_def ch q(2) IH(4) step [OF len(1)] step [OF len(2)] step [OF len(3)] add.assoc)
  ultimately show ?case using IH(2,3) by (intro exI [of _ "[d, b, a] # polys"] exI [of _ "r # rs"] exI [of _ s']) simp
qed

section \<open>Soundness\<close>

lemma verify_rounds_sound:
  fixes comb :: "'f::field \<Rightarrow> 'f \<Rightarrow> 'f \<Rightarrow> 'f"
  assumes "cubic_comb comb"
  shows "verify_rounds tr 3 s claim polys = Ok (comb (mle A rs) (mle B rs) (mle C rs), rs, s') \<Longrightarrow>
    length A = 2 ^ length polys \<Longrightarrow> length B = 2 ^ length polys \<Longrightarrow> length C = 2 ^ length polys \<Longrightarrow> claim \<noteq> cube_sum comb A B C \<Longrightarrow>
    \<exists>k<length polys. \<exists>ck sk poly. verify_rounds tr 3 s claim (take k polys) = Ok (ck, take k rs, sk)
      \<and> uni_decompress (polys ! k) ck = Ok poly
      \<and> rs ! k = fst (challenge_scalar tr ''challenge_nextround'' (append_uni tr ''poly'' poly sk))
      \<and> (let lucky = {x. uni_evaluate poly x = Ok (round_poly comb (fold bind_top (take k rs) A) (fold bind_top (take k rs) B) (fold bind_top (take k rs) C) x)}
         in rs ! k \<in> lucky \<and> finite lucky \<and> card lucky \<le> 3)"
proof (induction polys arbitrary: s claim A B C rs)
  case Nil
  then obtain a b c where "A = [a]" "B = [b]" "C = [c]" by (auto simp: length_Suc_conv)
  then show ?case using Nil by (simp add: mle_Nil cube_sum_def)
next
  case (Cons c polys)
  obtain poly r s1 e1 rs' where v: "uni_decompress c claim = Ok poly" "length poly = 4" "hd poly + sum_list poly = claim"
    "challenge_scalar tr ''challenge_nextround'' (append_uni tr ''poly'' poly s) = (r, s1)" "uni_evaluate poly r = Ok e1"
    "verify_rounds tr 3 s1 e1 polys = Ok (comb (mle A rs) (mle B rs) (mle C rs), rs', s')" "rs = r # rs'"
    using verify_rounds_ConsD [OF Cons.prems(1)] by metis
  have rs': "length rs' = length polys" using verify_rounds_length [OF v(6)] by simp
  have len: "length A = 2 * 2 ^ length polys" "length B = 2 * 2 ^ length polys" "length C = 2 * 2 ^ length polys" using Cons.prems by simp_all
  let ?P = "round_poly comb A B C" and ?L = "{x. uni_evaluate poly x = Ok (round_poly comb A B C x)}"
  obtain p0 p1 p2 p3 where p: "\<And>t. ?P t = p0 + t * p1 + t ^ 2 * p2 + t ^ 3 * p3"
    using assms len by (elim round_poly_cubic [of comb B A C]) auto
  obtain d' c' b' a' where q: "poly = [d', c', b', a']" using length_four [OF v(2)] by blast
  have "\<not> (uni_evaluate poly 0 = Ok (?P 0) \<and> uni_evaluate poly 1 = Ok (?P 1))"
    using v(3) Cons.prems(5) unfolding round_poly_sum [OF len, of comb, symmetric] by (auto simp: q uni_evaluate_cubic add.assoc)
  then obtain y where "uni_evaluate poly y \<noteq> Ok (?P y)" by blast
  then have lucky: "finite ?L \<and> card ?L \<le> 3" using cubic_agree [OF v(2) p] by blast
  show ?case
  proof (cases "r \<in> ?L")
    case True
    then show ?thesis using v(1,4,7) lucky by (intro exI [of _ 0]) simp
  next
    case False
    have e1: "e1 \<noteq> cube_sum comb (bind_top r A) (bind_top r B) (bind_top r C)" using False v(5) by (simp add: round_poly_def)
    have bind: "mle (bind_top r Z) rs' = mle Z rs" if "length Z = 2 * 2 ^ length polys" for Z
      unfolding v(7) using that rs' by (intro mle_bind_top) simp
    have half: "length (bind_top r A) = 2 ^ length polys" "length (bind_top r B) = 2 ^ length polys" "length (bind_top r C) = 2 ^ length polys"
      using len by simp_all
    have "verify_rounds tr 3 s1 e1 polys = Ok (comb (mle (bind_top r A) rs') (mle (bind_top r B) rs') (mle (bind_top r C) rs'), rs', s')"
      using v(6) unfolding bind [OF len(1)] bind [OF len(2)] bind [OF len(3)] .
    from Cons.IH [OF this half e1] obtain k ck sk q where k: "k < length polys" "verify_rounds tr 3 s1 e1 (take k polys) = Ok (ck, take k rs', sk)"
      "uni_decompress (polys ! k) ck = Ok q" "rs' ! k = fst (challenge_scalar tr ''challenge_nextround'' (append_uni tr ''poly'' q sk))"
      "let lucky = {x. uni_evaluate q x = Ok (round_poly comb (fold bind_top (take k rs') (bind_top r A)) (fold bind_top (take k rs') (bind_top r B))
          (fold bind_top (take k rs') (bind_top r C)) x)} in rs' ! k \<in> lucky \<and> finite lucky \<and> card lucky \<le> 3" by blast
    have "verify_rounds tr 3 s claim (take (Suc k) (c # polys)) = Ok (ck, take (Suc k) rs, sk)"
      using v(1-5,7) k(2) by (simp add: uni_degree_def eval_at_zero_def eval_at_one_def index_def q)
    then show ?thesis using k v(7) by (intro exI [of _ "Suc k"] conjI exI [of _ ck] exI [of _ sk] exI [of _ q]) simp_all
  qed
qed

section \<open>Properties\<close>

text \<open>C31: three or four values give a polynomial of degree two or three that takes them at 0, 1, 2 and 3.\<close>

theorem from_evals_interpolates:
  fixes ev :: "'f::field list"
  assumes "(2 :: 'f) \<noteq> 0" "(3 :: 'f) \<noteq> 0" "length ev = 3 \<or> length ev = 4"
  shows "\<exists>p. from_evals ev = Ok p \<and> uni_degree p = length ev - 1 \<and> (\<forall>i<length ev. uni_evaluate p (of_nat i) = Ok (ev ! i))"
  using assms(3)
proof
  assume "length ev = 3"
  then obtain e0 e1 e2 where ev: "ev = [e0, e1, e2]" by (auto simp: numeral_3_eq_3 length_Suc_conv)
  obtain c b a where "from_evals [e0, e1, e2] = Ok [c, b, a]" "c = e0" "c + b + a = e1" "c + 2 * b + 4 * a = e2"
    using from_evals_quad [OF assms(1)] by metis
  then show ?thesis by (simp add: ev uni_degree_def uni_evaluate_quad less_Suc_eq)
next
  assume "length ev = 4"
  then obtain e0 e1 e2 e3 where ev: "ev = [e0, e1, e2, e3]" using length_four by blast
  obtain d c b a where "from_evals [e0, e1, e2, e3] = Ok [d, c, b, a]" "d = e0" "d + c + b + a = e1"
    "d + 2 * c + 4 * b + 8 * a = e2" "d + 3 * c + 9 * b + 27 * a = e3"
    using from_evals_cubic [OF assms(1,2)] by metis
  then show ?thesis by (simp add: ev uni_degree_def uni_evaluate_cubic less_Suc_eq)
qed

lemma from_evals_interpolates_witness:
  "\<exists>p. from_evals [1, 4, 11, 40 :: rat] = Ok p \<and> uni_degree p = 3 \<and> (\<forall>i<4. uni_evaluate p (of_nat i) = Ok ([1, 4, 11, 40] ! i))"
  using from_evals_interpolates [of "[1, 4, 11, 40 :: rat]"] by (simp add: eval_nat_numeral)

text \<open>A polynomial sent without its linear term is recovered from the sum of its values at 0 and 1.\<close>

theorem uni_compress_roundtrip:
  assumes "2 \<le> length p"
  shows "result_bind (uni_compress p) (\<lambda>c. result_bind (eval_at_zero p) (\<lambda>z. uni_decompress c (z + eval_at_one p))) = Ok p"
proof -
  obtain d c cs where p: "p = d # c # cs" using assms by (cases p; cases "tl p") auto
  have "uni_compress p = Ok (d # cs)" by (simp add: p uni_compress_def slice_def numeral_2_eq_2)
  then show ?thesis by (simp add: p eval_at_zero_def eval_at_one_def index_def uni_decompress_Cons)
qed

lemma uni_compress_roundtrip_witness:
  "result_bind (uni_compress [3, 4, 1 :: rat]) (\<lambda>c. result_bind (eval_at_zero [3, 4, 1]) (\<lambda>z. uni_decompress c (z + eval_at_one [3, 4, 1])))
    = Ok [3, 4, 1]"
  by (rule uni_compress_roundtrip) simp

text \<open>C30: completeness of sum-check: for a combination that is cubic along lines and three dense polynomials in \<open>n\<close>
  variables, the prover on the true sum produces a proof the verifier accepts at the same challenges, and the claim
  left is the combination of the evaluations of the polynomials at the challenges, which the prover returns.\<close>

theorem sumcheck_complete:
  fixes A :: "'f::field dense_poly"
  assumes "(2 :: 'f) \<noteq> 0" "(3 :: 'f) \<noteq> 0" "cubic_comb comb" "dense_ok A" "dense_ok B" "dense_ok C"
    "dp_num_vars A = n" "dp_num_vars B = n" "dp_num_vars C = n"
  shows "\<exists>polys rs a b c s'. prove_cubic tr comb n s (cube_sum comb (dp_Z A) (dp_Z B) (dp_Z C)) A B C = Ok (polys, rs, [a, b, c], s')
    \<and> sumcheck_verify tr polys (cube_sum comb (dp_Z A) (dp_Z B) (dp_Z C)) n 3 s = Ok (comb a b c, rs, s')
    \<and> dense_evaluate A rs = Ok a \<and> dense_evaluate B rs = Ok b \<and> dense_evaluate C rs = Ok c"
proof -
  obtain polys rs s' where p: "prove_cubic tr comb n s (cube_sum comb (dp_Z A) (dp_Z B) (dp_Z C)) A B C
      = Ok (polys, rs, [mle (dp_Z A) rs, mle (dp_Z B) rs, mle (dp_Z C) rs], s')" "length polys = n" "length rs = n"
    "verify_rounds tr 3 s (cube_sum comb (dp_Z A) (dp_Z B) (dp_Z C)) polys = Ok (comb (mle (dp_Z A) rs) (mle (dp_Z B) rs) (mle (dp_Z C) rs), rs, s')"
    using prove_cubic_rounds [OF assms, of tr s] by (elim exE conjE)
  then show ?thesis using assms by (simp add: sumcheck_verify_def dense_evaluate_mle)
qed

lemma sumcheck_complete_witness:
  "\<exists>polys rs a b c s'. prove_cubic \<lparr>tr_message = \<lambda>s _ _. s + 1, tr_bytes = \<lambda>s _ _. ([], s), tr_serialize = \<lambda>_. [], tr_from_bytes = \<lambda>_. 5 :: rat\<rparr>
      (\<lambda>a b c. a * b * c) 1 (0 :: nat) 11 \<lparr>dp_num_vars = 1, dp_len = 2, dp_Z = [1, 2]\<rparr> \<lparr>dp_num_vars = 1, dp_len = 2, dp_Z = [3, 4]\<rparr>
      \<lparr>dp_num_vars = 1, dp_len = 2, dp_Z = [1, 1]\<rparr> = Ok (polys, rs, [a, b, c], s')
    \<and> sumcheck_verify \<lparr>tr_message = \<lambda>s _ _. s + 1, tr_bytes = \<lambda>s _ _. ([], s), tr_serialize = \<lambda>_. [], tr_from_bytes = \<lambda>_. 5\<rparr> polys 11 1 3 0
      = Ok (a * b * c, rs, s')"
  using sumcheck_complete [of "\<lambda>a b c. a * b * c" "\<lparr>dp_num_vars = 1, dp_len = 2, dp_Z = [1, 2 :: rat]\<rparr>" "\<lparr>dp_num_vars = 1, dp_len = 2, dp_Z = [3, 4]\<rparr>"
      "\<lparr>dp_num_vars = 1, dp_len = 2, dp_Z = [1, 1]\<rparr>" 1
      "\<lparr>tr_message = \<lambda>s _ _. s + 1, tr_bytes = \<lambda>s _ _. ([], s), tr_serialize = \<lambda>_. [], tr_from_bytes = \<lambda>_. 5\<rparr>" "0 :: nat"]
  by (simp add: cubic_comb_product dense_ok_def cube_sum_def numeral_2_eq_2) blast

text \<open>C29: soundness of sum-check: when the verifier accepts a claim that is not the sum, and the claim left is the
  combination of the polynomials at the challenges, then in some round the challenge, drawn after the message of the
  round was fixed, falls in a set of at most three points: those where the message agrees with the true polynomial
  of the round.\<close>

theorem sumcheck_sound:
  fixes A :: "'f::field dense_poly"
  assumes "cubic_comb comb" "dense_ok A" "dense_ok B" "dense_ok C" "dp_num_vars A = n" "dp_num_vars B = n" "dp_num_vars C = n"
    "sumcheck_verify tr polys claim n 3 s = Ok (comb a b c, rs, s')"
    "dense_evaluate A rs = Ok a" "dense_evaluate B rs = Ok b" "dense_evaluate C rs = Ok c"
    "claim \<noteq> cube_sum comb (dp_Z A) (dp_Z B) (dp_Z C)"
  shows "\<exists>k<n. \<exists>ck sk poly. verify_rounds tr 3 s claim (take k polys) = Ok (ck, take k rs, sk)
    \<and> uni_decompress (polys ! k) ck = Ok poly
    \<and> rs ! k = fst (challenge_scalar tr ''challenge_nextround'' (append_uni tr ''poly'' poly sk))
    \<and> (let lucky = {x. uni_evaluate poly x = Ok (round_poly comb (fold bind_top (take k rs) (dp_Z A))
          (fold bind_top (take k rs) (dp_Z B)) (fold bind_top (take k rs) (dp_Z C)) x)}
       in rs ! k \<in> lucky \<and> finite lucky \<and> card lucky \<le> 3)"
proof -
  have v: "length polys = n" "verify_rounds tr 3 s claim polys = Ok (comb a b c, rs, s')"
    using assms(8) by (auto simp: sumcheck_verify_def split: if_splits)
  then have "length rs = n" using verify_rounds_length by metis
  then have "a = mle (dp_Z A) rs" "b = mle (dp_Z B) rs" "c = mle (dp_Z C) rs" using assms by (simp_all add: dense_evaluate_mle)
  then show ?thesis
    using verify_rounds_sound [OF assms(1), of tr s claim polys "dp_Z A" rs "dp_Z B" "dp_Z C" s'] v assms by (simp add: dense_ok_def)
qed

lemma sumcheck_sound_witness:
  "\<exists>k<1. \<exists>ck sk poly. verify_rounds \<lparr>tr_message = \<lambda>s _ _. s + 1, tr_bytes = \<lambda>s _ _. ([], s), tr_serialize = \<lambda>_. [], tr_from_bytes = \<lambda>_. 5 :: rat\<rparr>
      3 (0 :: nat) 2 (take k [[- 2, 1, 0]]) = Ok (ck, take k [5], sk) \<and> uni_decompress ([[- 2, 1, 0]] ! k) ck = Ok poly"
proof -
  let ?tr = "\<lparr>tr_message = \<lambda>s _ _. (s :: nat) + 1, tr_bytes = \<lambda>s _ _. ([], s), tr_serialize = \<lambda>_. [], tr_from_bytes = \<lambda>_. 5 :: rat\<rparr>"
  have "sumcheck_verify ?tr [[- 2, 1, 0]] 2 1 3 0 = Ok (6 * 8 * 1, [5], 6 :: nat)"
    by (simp add: sumcheck_verify_def uni_decompress_def uni_degree_def eval_at_zero_def eval_at_one_def index_def challenge_scalar_def
        append_uni_def append_scalar_def uni_evaluate_def)
  then show ?thesis
    using sumcheck_sound [of "\<lambda>a b c. a * b * c" "\<lparr>dp_num_vars = 1, dp_len = 2, dp_Z = [1, 2 :: rat]\<rparr>" "\<lparr>dp_num_vars = 1, dp_len = 2, dp_Z = [3, 4]\<rparr>"
      "\<lparr>dp_num_vars = 1, dp_len = 2, dp_Z = [1, 1]\<rparr>" 1 ?tr "[[- 2, 1, 0]]" 2 0 6 8 1 "[5]" 6]
    by (simp add: cubic_comb_product dense_ok_def cube_sum_def dense_evaluate_mle mle_def numeral_2_eq_2) blast
qed

end
