(* ===== verification/Product_Tree.thy ===== *)
theory Product_Tree
  imports Sumcheck_Correct
begin

text \<open>
  Grand products (\<^verbatim>\<open>spartan/src/product_tree.rs\<close>): the product circuit, a binary tree of products over the table of a
  dense polynomial, the dot-product circuit, and the layered proof that reduces the value of the product to one
  evaluation of the polynomial.  The prover binds the variables of the tables of the circuit in place and does not
  read them again; the bound tables are not returned.
\<close>

section \<open>Circuits\<close>

record 'f product_circuit =
  pc_left :: "'f dense_poly list"
  pc_right :: "'f dense_poly list"

definition compute_layer :: "'f::field dense_poly \<Rightarrow> 'f dense_poly \<Rightarrow> ('f dense_poly \<times> 'f dense_poly) result" where
  "compute_layer l r =
     (let len = dp_len l + dp_len r;
          mul = \<lambda>i. result_bind (index (dp_Z l) i) (\<lambda>a. result_bind (index (dp_Z r) i) (\<lambda>b. Ok (a * b))) in
      result_bind (collect (map mul [0..<len div 4])) (\<lambda>ol. result_bind (collect (map mul [len div 4..<len div 2])) (\<lambda>or.
      result_bind (dense_new ol) (\<lambda>ol. result_bind (dense_new or) (\<lambda>or. Ok (ol, or))))))"

fun product_layers :: "nat \<Rightarrow> 'f::field dense_poly \<Rightarrow> 'f dense_poly \<Rightarrow> ('f dense_poly \<times> 'f dense_poly) list result" where
  "product_layers 0 l r = Ok [(l, r)]"
| "product_layers (Suc n) l r = result_bind (compute_layer l r) (\<lambda>(l', r').
     result_bind (product_layers n l' r') (\<lambda>ls. Ok ((l, r) # ls)))"

definition product_new :: "'f::field dense_poly \<Rightarrow> 'f product_circuit result" where
  "product_new poly = result_bind (log_2 (dp_len poly)) (\<lambda>num_layers.
     result_bind (dense_split poly (dp_len poly div 2)) (\<lambda>(l, r).
     result_bind (product_layers (num_layers - 1) l r) (\<lambda>ls. Ok \<lparr>pc_left = map fst ls, pc_right = map snd ls\<rparr>)))"

definition product_evaluate :: "'f::field product_circuit \<Rightarrow> 'f result" where
  "product_evaluate c = (let len = length (pc_left c) in if len = 0 then Panic else
     result_bind (index (pc_left c) (len - 1)) (\<lambda>l. if dp_num_vars l \<noteq> 0 then Panic else
     result_bind (index (pc_right c) (len - 1)) (\<lambda>r. if dp_num_vars r \<noteq> 0 then Panic else
     result_bind (index (dp_Z l) 0) (\<lambda>a. result_bind (index (dp_Z r) 0) (\<lambda>b. Ok (a * b))))))"

record 'f dotp_circuit =
  dc_left :: "'f dense_poly"
  dc_right :: "'f dense_poly"
  dc_weight :: "'f dense_poly"

definition dotp_new :: "'f dense_poly \<Rightarrow> 'f dense_poly \<Rightarrow> 'f dense_poly \<Rightarrow> 'f dotp_circuit result" where
  "dotp_new l r w = (if dp_len l \<noteq> dp_len r \<or> dp_len l \<noteq> dp_len w then Panic
     else Ok \<lparr>dc_left = l, dc_right = r, dc_weight = w\<rparr>)"

definition dotp_evaluate :: "'f::field dotp_circuit \<Rightarrow> 'f result" where
  "dotp_evaluate c = result_bind (collect (map (\<lambda>i. result_bind (index (dp_Z (dc_left c)) i) (\<lambda>l.
       result_bind (index (dp_Z (dc_right c)) i) (\<lambda>r. result_bind (index (dp_Z (dc_weight c)) i) (\<lambda>w. Ok (l * r * w)))))
       [0..<dp_len (dc_left c)])) (\<lambda>ts. Ok (sum_list ts))"

definition dotp_split :: "'f dotp_circuit \<Rightarrow> ('f dotp_circuit \<times> 'f dotp_circuit) result" where
  "dotp_split c = (let idx = dp_len (dc_left c) div 2 in if idx * 2 \<noteq> dp_len (dc_left c) then Panic else
     result_bind (dense_split (dc_left c) idx) (\<lambda>(l1, l2). result_bind (dense_split (dc_right c) idx) (\<lambda>(r1, r2).
     result_bind (dense_split (dc_weight c) idx) (\<lambda>(w1, w2).
       Ok (\<lparr>dc_left = l1, dc_right = r1, dc_weight = w1\<rparr>, \<lparr>dc_left = l2, dc_right = r2, dc_weight = w2\<rparr>)))))"

section \<open>The layered proof\<close>

record 'f layer_proof =
  lp_proof :: "'f list list"
  lp_claims :: "'f list"

definition layer_verify :: "('s, 'f::field) transcript \<Rightarrow> 'f layer_proof \<Rightarrow> 'f \<Rightarrow> nat \<Rightarrow> nat \<Rightarrow> 's \<Rightarrow> ('f \<times> 'f list \<times> 's) result" where
  "layer_verify tr p claim num_rounds degree_bound s = sumcheck_verify tr (lp_proof p) claim num_rounds degree_bound s"

definition append_claims :: "('s, 'f) transcript \<Rightarrow> 'f \<Rightarrow> 'f \<Rightarrow> 's \<Rightarrow> 's" where
  "append_claims tr a b s = append_scalar tr ''claim_prod_right'' b (append_scalar tr ''claim_prod_left'' a s)"

text \<open>One layer of the prover, and the loop over \<^verbatim>\<open>(0..num_layers).rev()\<close>.\<close>

definition prove_layer ::
  "('s, 'f::field) transcript \<Rightarrow> 'f dense_poly \<times> 'f dense_poly \<Rightarrow> 'f \<Rightarrow> 'f list \<Rightarrow> 's \<Rightarrow> ('f layer_proof \<times> 'f \<times> 'f list \<times> 's) result" where
  "prove_layer tr lr claim rand s = (case lr of (l, r) \<Rightarrow> (let len = dp_len l + dp_len r in
     result_bind (dense_new (eq_evals rand)) (\<lambda>c. if dp_len c \<noteq> len div 2 then Panic else
     result_bind (log_2 (dp_len c)) (\<lambda>num_rounds.
     result_bind (prove_cubic tr (\<lambda>a b c. a * b * c) num_rounds s claim l r c) (\<lambda>(proof, rand_prod, claims, s).
     result_bind (index claims 0) (\<lambda>a. result_bind (index claims 1) (\<lambda>b.
     let s = append_claims tr a b s; (r_layer, s) = challenge_scalar tr ''challenge_r_layer'' s in
     Ok (\<lparr>lp_proof = proof, lp_claims = take (length claims - 1) claims\<rparr>, a + r_layer * (b - a), r_layer # rand_prod, s))))))))"

fun prove_layers ::
  "('s, 'f::field) transcript \<Rightarrow> ('f dense_poly \<times> 'f dense_poly) list \<Rightarrow> 'f \<Rightarrow> 'f list \<Rightarrow> 's
   \<Rightarrow> ('f layer_proof list \<times> 'f \<times> 'f list \<times> 's) result" where
  "prove_layers tr [] claim rand s = Ok ([], claim, rand, s)"
| "prove_layers tr (lr # lrs) claim rand s = result_bind (prove_layer tr lr claim rand s) (\<lambda>(p, claim, rand, s).
     result_bind (prove_layers tr lrs claim rand s) (\<lambda>(ps, claim, rand, s). Ok (p # ps, claim, rand, s)))"

definition product_prove :: "('s, 'f::field) transcript \<Rightarrow> 'f product_circuit \<Rightarrow> 's \<Rightarrow> ('f layer_proof list \<times> 'f \<times> 'f list \<times> 's) result" where
  "product_prove tr c s = result_bind (product_evaluate c) (\<lambda>claim.
     if length (pc_right c) < length (pc_left c) then Panic
     else prove_layers tr (rev (zip (pc_left c) (pc_right c))) claim [] s)"

definition verify_layer ::
  "('s, 'f::field) transcript \<Rightarrow> 'f layer_proof \<Rightarrow> nat \<Rightarrow> 'f \<Rightarrow> 'f list \<Rightarrow> 's \<Rightarrow> ('f \<times> 'f list \<times> 's) result" where
  "verify_layer tr p num_rounds claim rand s =
     result_bind (layer_verify tr p claim num_rounds 3 s) (\<lambda>(claim_last, rand_prod, s).
     result_bind (index (lp_claims p) 0) (\<lambda>a. result_bind (index (lp_claims p) 1) (\<lambda>b.
     let s = append_claims tr a b s in if length rand \<noteq> length rand_prod then Panic else
     let eq = prod_list (map (\<lambda>i. rand ! i * rand_prod ! i + (1 - rand ! i) * (1 - rand_prod ! i)) [0..<length rand]) in
     if a * b * eq \<noteq> claim_last then Panic else
     let (r_layer, s) = challenge_scalar tr ''challenge_r_layer'' s in
     Ok ((1 - r_layer) * a + r_layer * b, r_layer # rand_prod, s))))"

fun verify_layers ::
  "('s, 'f::field) transcript \<Rightarrow> nat \<Rightarrow> 'f layer_proof list \<Rightarrow> 'f \<Rightarrow> 'f list \<Rightarrow> 's \<Rightarrow> ('f \<times> 'f list \<times> 's) result" where
  "verify_layers tr num_rounds [] claim rand s = Ok (claim, rand, s)"
| "verify_layers tr num_rounds (p # ps) claim rand s = result_bind (verify_layer tr p num_rounds claim rand s) (\<lambda>(claim, rand, s).
     verify_layers tr (Suc num_rounds) ps claim rand s)"

definition product_verify :: "('s, 'f::field) transcript \<Rightarrow> 'f layer_proof list \<Rightarrow> 'f \<Rightarrow> nat \<Rightarrow> 's \<Rightarrow> ('f \<times> 'f list \<times> 's) result" where
  "product_verify tr ps eval len s = result_bind (log_2 len) (\<lambda>num_layers.
     if length ps \<noteq> num_layers then Panic else verify_layers tr 0 ps eval [] s)"

end
