(* ===== verification/Product_Correct.thy ===== *)
theory Product_Correct
  imports Product_Tree
begin

text \<open>
  The product circuit computes the product of the table, and the verifier of the layered proof accepts what the prover
  produces for it, with the evaluation of the polynomial as the claim left.
\<close>

section \<open>Layers\<close>

definition halves :: "nat \<Rightarrow> 'f list \<Rightarrow> 'f dense_poly \<times> 'f dense_poly" where
  "halves k Z = (\<lparr>dp_num_vars = k, dp_len = 2 ^ k, dp_Z = take (2 ^ k) Z\<rparr>, \<lparr>dp_num_vars = k, dp_len = 2 ^ k, dp_Z = drop (2 ^ k) Z\<rparr>)"

definition pair_products :: "nat \<Rightarrow> 'f::field list \<Rightarrow> 'f list" where
  "pair_products k Z = map2 (*) (take (2 ^ k) Z) (drop (2 ^ k) Z)"

fun tree_layers :: "nat \<Rightarrow> 'f::field list \<Rightarrow> ('f dense_poly \<times> 'f dense_poly) list" where
  "tree_layers 0 Z = [halves 0 Z]"
| "tree_layers (Suc k) Z = halves (Suc k) Z # tree_layers k (pair_products (Suc k) Z)"

lemma length_tree_layers [simp]: "length (tree_layers k Z) = Suc k"
  by (induction k arbitrary: Z) simp_all

lemma tree_layers_ne [simp]: "tree_layers k Z \<noteq> []"
  by (cases k) simp_all

lemma length_pair_products [simp]: "length Z = 2 ^ Suc k \<Longrightarrow> length (pair_products k Z) = 2 ^ k"
  by (simp add: pair_products_def)

lemma prod_list_map2: "length xs = length ys \<Longrightarrow> prod_list (map2 (*) xs ys) = prod_list xs * prod_list ys" for xs :: "'f::field list"
  by (induction xs ys rule: list_induct2) (simp_all add: algebra_simps)

lemma prod_pair_products: "length Z = 2 ^ Suc k \<Longrightarrow> prod_list (pair_products k Z) = prod_list Z"
proof -
  assume "length Z = 2 ^ Suc k"
  then have "prod_list (pair_products k Z) = prod_list (take (2 ^ k) Z) * prod_list (drop (2 ^ k) Z)"
    unfolding pair_products_def by (intro prod_list_map2) simp
  then show ?thesis by (metis append_take_drop_id prod_list.append)
qed

lemma compute_layer_halves:
  assumes "length Z = 2 ^ Suc (Suc k)"
  shows "compute_layer (fst (halves (Suc k) Z)) (snd (halves (Suc k) Z)) = Ok (halves k (pair_products (Suc k) Z))"
proof -
  let ?n = "2 ^ k :: nat" and ?L = "take (2 ^ Suc k) Z" and ?R = "drop (2 ^ Suc k) Z"
  let ?mul = "\<lambda>i. result_bind (index ?L i) (\<lambda>a. result_bind (index ?R i) (\<lambda>b. Ok (a * b)))"
  have len: "(2 ^ Suc k + 2 ^ Suc k) div 4 = ?n" "(2 ^ Suc k + 2 ^ Suc k) div 2 = 2 * ?n" by simp_all
  have mul: "?mul i = Ok (pair_products (Suc k) Z ! i)" if "i < 2 * ?n" for i
    using that assms by (simp add: pair_products_def)
  have lo: "collect (map ?mul [0..<?n]) = Ok (take ?n (pair_products (Suc k) Z))"
  proof -
    have "collect (map ?mul [0..<?n]) = Ok (map (\<lambda>i. pair_products (Suc k) Z ! i) [0..<?n])" by (intro collect_map_Ok mul) simp
    also have "map (\<lambda>i. pair_products (Suc k) Z ! i) [0..<?n] = take ?n (pair_products (Suc k) Z)"
      using assms by (intro nth_equalityI) (simp_all add: pair_products_def)
    finally show ?thesis .
  qed
  have hi: "collect (map ?mul [?n..<2 * ?n]) = Ok (drop ?n (pair_products (Suc k) Z))"
  proof -
    have "collect (map ?mul [?n..<2 * ?n]) = Ok (map (\<lambda>i. pair_products (Suc k) Z ! i) [?n..<2 * ?n])" by (intro collect_map_Ok mul) simp
    also have "map (\<lambda>i. pair_products (Suc k) Z ! i) [?n..<2 * ?n] = drop ?n (pair_products (Suc k) Z)"
      using assms by (intro nth_equalityI) (simp_all add: pair_products_def)
    finally show ?thesis .
  qed
  have lens: "length (take ?n (pair_products (Suc k) Z)) = 2 ^ k" "length (drop ?n (pair_products (Suc k) Z)) = 2 ^ k"
    using assms by (simp_all add: length_pair_products [of Z "Suc k"])
  show ?thesis
    unfolding compute_layer_def halves_def Let_def fst_conv snd_conv dense_poly.simps len lo hi result_bind.simps
    using dense_new_ok [OF lens(1)] dense_new_ok [OF lens(2)] by simp
qed

lemma product_layers_tree:
  "length Z = 2 ^ Suc k \<Longrightarrow> product_layers k (fst (halves k Z)) (snd (halves k Z)) = Ok (tree_layers k Z)"
proof (induction k arbitrary: Z)
  case (Suc k)
  have "length (pair_products (Suc k) Z) = 2 ^ Suc k" using Suc.prems by simp
  from Suc.IH [OF this] show ?case
    unfolding product_layers.simps compute_layer_halves [OF Suc.prems] by (simp add: case_prod_beta)
qed simp

lemma product_new_tree:
  assumes "dense_ok p" "dp_num_vars p = Suc k"
  shows "product_new p = Ok \<lparr>pc_left = map fst (tree_layers k (dp_Z p)), pc_right = map snd (tree_layers k (dp_Z p))\<rparr>"
proof -
  have len: "length (dp_Z p) = 2 ^ Suc k" "dp_len p = 2 ^ Suc k" using assms by (simp_all add: dense_ok_def)
  have half: "dp_len p div 2 = 2 ^ k" "dp_len p div 2 < dp_len p" using len by simp_all
  have lens: "length (take (2 ^ k) (dp_Z p)) = 2 ^ k" "length (drop (2 ^ k) (dp_Z p)) = 2 ^ k" using len by simp_all
  have sl: "slice (dp_Z p) (0, 2 ^ k) = Ok (take (2 ^ k) (dp_Z p))" "slice (dp_Z p) (2 ^ k, 2 * 2 ^ k) = Ok (drop (2 ^ k) (dp_Z p))"
    using len by (simp_all add: slice_def)
  have "dense_split p (dp_len p div 2) = Ok (halves k (dp_Z p))"
    unfolding dense_split_def half sl result_bind.simps dense_new_ok [OF lens(1)] dense_new_ok [OF lens(2)] halves_def using len by simp
  then show ?thesis
    unfolding product_new_def len(2) log_2_pow2 result_bind.simps using product_layers_tree [OF len(1)] len(2) by (simp add: case_prod_beta)
qed

lemma last_tree_layers: "length Z = 2 ^ Suc k \<Longrightarrow> \<exists>a b. last (tree_layers k Z) = halves 0 [a, b] \<and> a * b = prod_list Z"
proof (induction k arbitrary: Z)
  case 0
  then obtain a b where "Z = [a, b]" by (auto simp: length_Suc_conv eval_nat_numeral)
  then show ?case by auto
next
  case (Suc k)
  have "length (pair_products (Suc k) Z) = 2 ^ Suc k" using Suc.prems by simp
  from Suc.IH [OF this] show ?case using prod_pair_products [OF Suc.prems] by simp
qed

lemma product_evaluate_tree:
  assumes "length Z = 2 ^ Suc k"
  shows "product_evaluate \<lparr>pc_left = map fst (tree_layers k Z), pc_right = map snd (tree_layers k Z)\<rparr> = Ok (prod_list Z)"
proof -
  obtain a b where ab: "last (tree_layers k Z) = halves 0 [a, b]" "a * b = prod_list Z" using last_tree_layers [OF assms] by blast
  have "tree_layers k Z ! k = halves 0 [a, b]" using ab(1) last_conv_nth [of "tree_layers k Z"] length_tree_layers [of k Z] by (cases "tree_layers k Z") auto
  then show ?thesis using ab(2) by (simp add: product_evaluate_def halves_def)
qed

section \<open>One layer of the proof\<close>

lemma mle_eq_table: "length r = length s \<Longrightarrow> mle (eq_table r) s = prod_list (map (\<lambda>i. r ! i * s ! i + (1 - r ! i) * (1 - s ! i)) [0..<length r])"
  for r :: "'f::field list"
proof (induction r s rule: list_induct2)
  case (Cons x r y s)
  have scale: "mle (map ((*) c) t) s = c * mle t s" for c t
  proof -
    have "sum_list (map2 (*) (map ((*) c) t) u) = c * sum_list (map2 (*) t u)" for u
    proof (induction t arbitrary: u)
      case (Cons a t)
      then show ?case by (cases u) (simp_all add: algebra_simps)
    qed simp
    then show ?thesis by (simp add: mle_def)
  qed
  have upt: "[0..<Suc (length r)] = 0 # map Suc [0..<length r]" by (simp add: map_Suc_upt upt_conv_Cons del: upt_Suc)
  have "mle (eq_table (x # r)) (y # s) = (x * y + (1 - x) * (1 - y)) * mle (eq_table r) s"
    using Cons.hyps by (simp add: mle_Cons scale algebra_simps)
  then show ?case using Cons.IH by (simp add: upt comp_def del: upt_Suc)
qed (simp add: mle_Nil)

lemma cube_sum_layer:
  assumes "length Z = 2 ^ Suc k" "length rand = k"
  shows "cube_sum (\<lambda>a b c. a * b * c) (take (2 ^ k) Z) (drop (2 ^ k) Z) (eq_table rand) = mle (pair_products k Z) rand"
proof -
  have "mle (pair_products k Z) rand = sum_list (map (\<lambda>i. take (2 ^ k) Z ! i * drop (2 ^ k) Z ! i * eq_table rand ! i) [0..<2 ^ k])"
    unfolding mle_def using assms by (intro arg_cong [of _ _ sum_list] nth_equalityI) (simp_all add: pair_products_def)
  then show ?thesis using assms by (simp add: cube_sum_def interv_sum_list_conv_sum_set_nat atLeast0LessThan)
qed

lemma layer_complete:
  fixes Z :: "'f::field list"
  assumes "(2 :: 'f) \<noteq> 0" "(3 :: 'f) \<noteq> 0" "length Z = 2 ^ Suc k" "length rand = k"
  obtains p rand' s' where "prove_layer tr (halves k Z) (mle (pair_products k Z) rand) rand s = Ok (p, mle Z rand', rand', s')"
    "length rand' = Suc k" "verify_layer tr p k (mle (pair_products k Z) rand) rand s = Ok (mle Z rand', rand', s')"
proof -
  define A where "A = \<lparr>dp_num_vars = k, dp_len = 2 ^ k, dp_Z = take (2 ^ k) Z\<rparr>"
  define B where "B = \<lparr>dp_num_vars = k, dp_len = 2 ^ k, dp_Z = drop (2 ^ k) Z\<rparr>"
  define C where "C = \<lparr>dp_num_vars = k, dp_len = 2 ^ k, dp_Z = eq_table rand\<rparr>"
  let ?comb = "\<lambda>a b c. a * b * c :: 'f" and ?claim = "mle (pair_products k Z) rand"
  have ok: "dense_ok A" "dense_ok B" "dense_ok C" "dp_num_vars A = k" "dp_num_vars B = k" "dp_num_vars C = k"
    using assms(3,4) by (simp_all add: dense_ok_def A_def B_def C_def)
  have claim: "cube_sum ?comb (dp_Z A) (dp_Z B) (dp_Z C) = ?claim" using cube_sum_layer [OF assms(3,4)] by (simp add: A_def B_def C_def)
  from prove_cubic_rounds [OF assms(1,2) cubic_comb_product ok, of tr s, unfolded claim] obtain polys rs s1 where
    p: "prove_cubic tr ?comb k s ?claim A B C = Ok (polys, rs, [mle (dp_Z A) rs, mle (dp_Z B) rs, mle (dp_Z C) rs], s1)"
      "length polys = k" "length rs = k"
      "verify_rounds tr 3 s ?claim polys = Ok (mle (dp_Z A) rs * mle (dp_Z B) rs * mle (dp_Z C) rs, rs, s1)"
    by (elim exE conjE)
  let ?a = "mle (dp_Z A) rs" and ?b = "mle (dp_Z B) rs"
  obtain r s' where ch: "challenge_scalar tr ''challenge_r_layer'' (append_claims tr ?a ?b s1) = (r, s')" by (metis surj_pair)
  have C: "dense_new (eq_evals rand) = Ok C" using dense_new_ok [of "eq_evals rand" k] assms(4) by (simp add: C_def eq_evals_table)
  have eq: "mle (dp_Z C) rs = prod_list (map (\<lambda>i. rand ! i * rs ! i + (1 - rand ! i) * (1 - rs ! i)) [0..<k])"
    using mle_eq_table [of rand rs] p(3) assms(4) by (simp add: C_def)
  have mle: "(1 - r) * ?a + r * ?b = mle Z (r # rs)"
    using mle_Cons [of "take (2 ^ k) Z" rs "drop (2 ^ k) Z" r] assms(3) p(3) by (simp add: A_def B_def)
  then have mle': "?a + r * (?b - ?a) = mle Z (r # rs)" by (simp add: algebra_simps)
  have halves: "halves k Z = (A, B)" by (simp add: halves_def A_def B_def)
  have lens: "(dp_len A + dp_len B) div 2 = 2 ^ k" "dp_len C = 2 ^ k" by (simp_all add: A_def B_def C_def)
  have "prove_layer tr (halves k Z) ?claim rand s = Ok (\<lparr>lp_proof = polys, lp_claims = [?a, ?b]\<rparr>, mle Z (r # rs), r # rs, s')"
    unfolding prove_layer_def halves prod.case Let_def C result_bind.simps lens log_2_pow2
    using p(1) by (simp add: ch mle' index_def eval_nat_numeral)
  moreover have "verify_layer tr \<lparr>lp_proof = polys, lp_claims = [?a, ?b]\<rparr> k ?claim rand s = Ok (mle Z (r # rs), r # rs, s')"
    unfolding verify_layer_def layer_verify_def sumcheck_verify_def Let_def
    using p(2-4) assms(4) by (simp add: ch mle index_def eq)
  ultimately show ?thesis using that p(3) by fastforce
qed

lemma prove_layers_append: "prove_layers tr (xs @ ys) claim rand s = result_bind (prove_layers tr xs claim rand s) (\<lambda>(ps, claim, rand, s).
    result_bind (prove_layers tr ys claim rand s) (\<lambda>(qs, claim, rand, s). Ok (ps @ qs, claim, rand, s)))"
proof (induction xs arbitrary: claim rand s)
  case Nil
  then show ?case by (cases "prove_layers tr ys claim rand s") auto
next
  case (Cons x xs)
  show ?case
  proof (cases "prove_layer tr x claim rand s")
    case (Ok a)
    obtain p claim' rand' s' where a: "a = (p, claim', rand', s')" by (metis surj_pair)
    show ?thesis using Cons.IH [of claim' rand' s'] Ok a
      by (cases "prove_layers tr xs claim' rand' s'"; cases "result_bind (prove_layers tr xs claim' rand' s') (\<lambda>(ps, c, r, s). prove_layers tr ys c r s)")
        (auto simp: case_prod_beta intro: result.exhaust split: result.splits)
  qed simp_all
qed

lemma verify_layers_append: "verify_layers tr n (xs @ ys) claim rand s = result_bind (verify_layers tr n xs claim rand s) (\<lambda>(claim, rand, s).
    verify_layers tr (n + length xs) ys claim rand s)"
proof (induction xs arbitrary: n claim rand s)
  case (Cons x xs)
  then show ?case by (cases "verify_layer tr x n claim rand s") (auto simp: case_prod_beta)
qed simp

lemma layers_complete:
  fixes Z :: "'f::field list"
  assumes "(2 :: 'f) \<noteq> 0" "(3 :: 'f) \<noteq> 0"
  shows "length Z = 2 ^ Suc k \<Longrightarrow> \<exists>ps rand s'. prove_layers tr (rev (tree_layers k Z)) (prod_list Z) [] s = Ok (ps, mle Z rand, rand, s')
    \<and> length ps = Suc k \<and> length rand = Suc k \<and> verify_layers tr 0 ps (prod_list Z) [] s = Ok (mle Z rand, rand, s')"
proof (induction k arbitrary: Z)
  case 0
  then obtain a b where Z: "Z = [a, b]" by (auto simp: length_Suc_conv eval_nat_numeral)
  have claim: "mle (pair_products 0 Z) [] = prod_list Z" by (simp add: Z pair_products_def mle_Nil)
  obtain p rand s' where "prove_layer tr (halves 0 Z) (prod_list Z) [] s = Ok (p, mle Z rand, rand, s')"
    "length rand = Suc 0" "verify_layer tr p 0 (prod_list Z) [] s = Ok (mle Z rand, rand, s')"
    using layer_complete [OF assms 0, of "[]" tr s] unfolding claim by auto
  then show ?case by (intro exI [of _ "[p]"] exI [of _ rand] exI [of _ s']) simp
next
  case (Suc k)
  let ?Y = "pair_products (Suc k) Z"
  have Y: "length ?Y = 2 ^ Suc k" using Suc.prems by simp
  obtain ps rand s1 where IH: "prove_layers tr (rev (tree_layers k ?Y)) (prod_list Z) [] s = Ok (ps, mle ?Y rand, rand, s1)"
    "length ps = Suc k" "length rand = Suc k" "verify_layers tr 0 ps (prod_list Z) [] s = Ok (mle ?Y rand, rand, s1)"
    using Suc.IH [OF Y] unfolding prod_pair_products [OF Suc.prems] by blast
  obtain p rand' s' where "prove_layer tr (halves (Suc k) Z) (mle ?Y rand) rand s1 = Ok (p, mle Z rand', rand', s')"
    "length rand' = Suc (Suc k)" "verify_layer tr p (Suc k) (mle ?Y rand) rand s1 = Ok (mle Z rand', rand', s')"
    using layer_complete [OF assms Suc.prems IH(3)] by metis
  then show ?case using IH
    by (intro exI [of _ "ps @ [p]"] exI [of _ rand'] exI [of _ s']) (simp add: prove_layers_append verify_layers_append)
qed

section \<open>Dot products\<close>

lemma dotp_evaluate_sum:
  assumes "dense_ok l" "dense_ok r" "dense_ok w" "dp_len r = dp_len l" "dp_len w = dp_len l"
  shows "dotp_evaluate \<lparr>dc_left = l, dc_right = r, dc_weight = w\<rparr> = Ok (\<Sum>i<dp_len l. dp_Z l ! i * dp_Z r ! i * dp_Z w ! i)"
proof -
  have "collect (map (\<lambda>i. result_bind (index (dp_Z l) i) (\<lambda>a. result_bind (index (dp_Z r) i) (\<lambda>b. result_bind (index (dp_Z w) i) (\<lambda>c. Ok (a * b * c)))))
      [0..<dp_len l]) = Ok (map (\<lambda>i. dp_Z l ! i * dp_Z r ! i * dp_Z w ! i) [0..<dp_len l])"
    using assms by (intro collect_map_Ok) (simp add: dense_ok_def)
  then show ?thesis by (simp add: dotp_evaluate_def interv_sum_list_conv_sum_set_nat atLeast0LessThan)
qed

section \<open>Properties\<close>

text \<open>C40: the product circuit of a table of at least two values, a power of two, evaluates to the product of the table.\<close>

theorem product_circuit_correct:
  assumes "dense_ok p" "0 < dp_num_vars p"
  shows "\<exists>c. product_new p = Ok c \<and> length (pc_left c) = dp_num_vars p \<and> product_evaluate c = Ok (prod_list (dp_Z p))"
proof -
  obtain k where k: "dp_num_vars p = Suc k" using assms(2) gr0_implies_Suc by blast
  then have "length (dp_Z p) = 2 ^ Suc k" using assms(1) by (simp add: dense_ok_def)
  then show ?thesis using product_new_tree [OF assms(1) k] product_evaluate_tree [of "dp_Z p" k] k by simp
qed

lemma product_circuit_correct_witness:
  "\<exists>c. product_new \<lparr>dp_num_vars = 2, dp_len = 4, dp_Z = [2, 3, 5, 7 :: rat]\<rparr> = Ok c \<and> length (pc_left c) = 2 \<and> product_evaluate c = Ok 210"
  using product_circuit_correct [of "\<lparr>dp_num_vars = 2, dp_len = 4, dp_Z = [2, 3, 5, 7 :: rat]\<rparr>"] by (simp add: dense_ok_def)

text \<open>Completeness of the layered proof: the prover succeeds on the circuit of a table, the verifier accepts its proof
  of the product of the table, and both end with the same claim, the evaluation of the polynomial at the point they
  reach.\<close>

theorem product_proof_complete:
  fixes p :: "'f::field dense_poly"
  assumes "(2 :: 'f) \<noteq> 0" "(3 :: 'f) \<noteq> 0" "dense_ok p" "0 < dp_num_vars p"
  shows "\<exists>c ps claim rand s'. product_new p = Ok c \<and> product_prove tr c s = Ok (ps, claim, rand, s')
    \<and> product_verify tr ps (prod_list (dp_Z p)) (dp_len p) s = Ok (claim, rand, s') \<and> dense_evaluate p rand = Ok claim"
proof -
  obtain k where k: "dp_num_vars p = Suc k" using assms(4) gr0_implies_Suc by blast
  then have len: "length (dp_Z p) = 2 ^ Suc k" "dp_len p = 2 ^ Suc k" using assms(3) by (simp_all add: dense_ok_def)
  obtain ps rand s' where l: "prove_layers tr (rev (tree_layers k (dp_Z p))) (prod_list (dp_Z p)) [] s = Ok (ps, mle (dp_Z p) rand, rand, s')"
    "length ps = Suc k" "length rand = Suc k" "verify_layers tr 0 ps (prod_list (dp_Z p)) [] s = Ok (mle (dp_Z p) rand, rand, s')"
    using layers_complete [OF assms(1,2) len(1)] by metis
  have "product_verify tr ps (prod_list (dp_Z p)) (dp_len p) s = Ok (mle (dp_Z p) rand, rand, s')"
    unfolding product_verify_def len(2) log_2_pow2 using l(2,4) by simp
  moreover have "dense_evaluate p rand = Ok (mle (dp_Z p) rand)" using dense_evaluate_mle [OF assms(3)] k l(3) by simp
  moreover have "product_prove tr \<lparr>pc_left = map fst (tree_layers k (dp_Z p)), pc_right = map snd (tree_layers k (dp_Z p))\<rparr> s
      = Ok (ps, mle (dp_Z p) rand, rand, s')"
    using product_evaluate_tree [OF len(1)] l(1) by (simp add: product_prove_def zip_map_fst_snd)
  ultimately show ?thesis using product_new_tree [OF assms(3) k] by blast
qed

lemma product_proof_complete_witness:
  "\<exists>c ps claim rand s'. product_new \<lparr>dp_num_vars = 2, dp_len = 4, dp_Z = [2, 3, 5, 7 :: rat]\<rparr> = Ok c
    \<and> product_prove \<lparr>tr_message = \<lambda>s _ _. s + 1, tr_bytes = \<lambda>s _ _. ([], s), tr_serialize = \<lambda>_. [], tr_from_bytes = \<lambda>_. 5\<rparr> c (0 :: nat) = Ok (ps, claim, rand, s')
    \<and> product_verify \<lparr>tr_message = \<lambda>s _ _. s + 1, tr_bytes = \<lambda>s _ _. ([], s), tr_serialize = \<lambda>_. [], tr_from_bytes = \<lambda>_. 5\<rparr> ps 210 4 0 = Ok (claim, rand, s')"
  using product_proof_complete [of "\<lparr>dp_num_vars = 2, dp_len = 4, dp_Z = [2, 3, 5, 7 :: rat]\<rparr>"
      "\<lparr>tr_message = \<lambda>s _ _. s + 1, tr_bytes = \<lambda>s _ _. ([], s), tr_serialize = \<lambda>_. [], tr_from_bytes = \<lambda>_. 5\<rparr>" "0 :: nat"]
  by (simp add: dense_ok_def) blast

end
