(* ===== verification/Batched.thy ===== *)
theory Batched
  imports Product_Correct
begin

text \<open>
  Batched sum-check and batched grand products (\<^verbatim>\<open>prove_cubic_batched\<close> of \<^verbatim>\<open>spartan/src/sumcheck.rs\<close>, and
  \<^verbatim>\<open>ProductCircuitEvalProofBatched\<close> of \<^verbatim>\<open>spartan/src/product_tree.rs\<close>): random combinations of product circuits
  that share the table of the equality polynomial and, in the last layer, of dot-product circuits.  The vectors of
  polynomials that the code iterates over together are lists of pairs and triples, as the callers fill them.
\<close>

section \<open>Sum-check\<close>

fun challenge_vector :: "('s, 'f) transcript \<Rightarrow> string \<Rightarrow> nat \<Rightarrow> 's \<Rightarrow> 'f list \<times> 's" where
  "challenge_vector tr label 0 s = ([], s)"
| "challenge_vector tr label (Suc n) s = (let (x, s) = challenge_scalar tr label s; (xs, s) = challenge_vector tr label n s in (x # xs, s))"

type_synonym 'f poly_pair = "'f dense_poly \<times> 'f dense_poly"
type_synonym 'f poly_triple = "'f dense_poly \<times> 'f dense_poly \<times> 'f dense_poly"

definition batched_evals ::
  "('f::field \<Rightarrow> 'f \<Rightarrow> 'f \<Rightarrow> 'f) \<Rightarrow> 'f poly_pair list \<Rightarrow> 'f dense_poly \<Rightarrow> 'f poly_triple list \<Rightarrow> 'f list \<Rightarrow> ('f \<times> 'f \<times> 'f) result" where
  "batched_evals comb par C sq coeffs =
     result_bind (collect (map (\<lambda>(A, B). cubic_evals comb A B C) par @ map (\<lambda>(A, B, C). cubic_evals comb A B C) sq)) (\<lambda>evs.
     if length coeffs < length evs then Panic
     else Ok (sum_list (map (\<lambda>i. fst (evs ! i) * coeffs ! i) [0..<length evs]),
              sum_list (map (\<lambda>i. fst (snd (evs ! i)) * coeffs ! i) [0..<length evs]),
              sum_list (map (\<lambda>i. snd (snd (evs ! i)) * coeffs ! i) [0..<length evs])))"

definition bind_pair :: "'f::field \<Rightarrow> 'f poly_pair \<Rightarrow> 'f poly_pair result" where
  "bind_pair r p = result_bind (bound_poly_var_top r (fst p)) (\<lambda>A. result_bind (bound_poly_var_top r (snd p)) (\<lambda>B. Ok (A, B)))"

definition bind_triple :: "'f::field \<Rightarrow> 'f poly_triple \<Rightarrow> 'f poly_triple result" where
  "bind_triple r p = result_bind (bound_poly_var_top r (fst p)) (\<lambda>A. result_bind (bound_poly_var_top r (fst (snd p))) (\<lambda>B.
     result_bind (bound_poly_var_top r (snd (snd p))) (\<lambda>C. Ok (A, B, C))))"

fun prove_cubic_batched ::
  "('s, 'f::field) transcript \<Rightarrow> ('f \<Rightarrow> 'f \<Rightarrow> 'f \<Rightarrow> 'f) \<Rightarrow> 'f list \<Rightarrow> nat \<Rightarrow> 's \<Rightarrow> 'f \<Rightarrow> 'f poly_pair list \<Rightarrow> 'f dense_poly \<Rightarrow> 'f poly_triple list
   \<Rightarrow> ('f list list \<times> 'f list \<times> ('f list \<times> 'f list \<times> 'f) \<times> ('f list \<times> 'f list \<times> 'f list) \<times> 's) result" where
  "prove_cubic_batched tr comb coeffs 0 s e par C sq =
     result_bind (collect (map (\<lambda>(A, B). index (dp_Z A) 0) par)) (\<lambda>pa. result_bind (collect (map (\<lambda>(A, B). index (dp_Z B) 0) par)) (\<lambda>pb.
     result_bind (index (dp_Z C) 0) (\<lambda>pc. result_bind (collect (map (\<lambda>(A, B, C). index (dp_Z A) 0) sq)) (\<lambda>sa.
     result_bind (collect (map (\<lambda>(A, B, C). index (dp_Z B) 0) sq)) (\<lambda>sb. result_bind (collect (map (\<lambda>(A, B, C). index (dp_Z C) 0) sq)) (\<lambda>sc.
       Ok ([], [], (pa, pb, pc), (sa, sb, sc), s)))))))"
| "prove_cubic_batched tr comb coeffs (Suc n) s e par C sq =
     result_bind (batched_evals comb par C sq coeffs) (\<lambda>(e0, e2, e3). result_bind (from_evals [e0, e - e0, e2, e3]) (\<lambda>poly.
     let (r, s) = challenge_scalar tr ''challenge_nextround'' (append_uni tr ''poly'' poly s) in
     result_bind (collect (map (bind_pair r) par)) (\<lambda>par. result_bind (bound_poly_var_top r C) (\<lambda>C. result_bind (collect (map (bind_triple r) sq)) (\<lambda>sq.
     result_bind (uni_evaluate poly r) (\<lambda>e. result_bind (uni_compress poly) (\<lambda>c.
     result_bind (prove_cubic_batched tr comb coeffs n s e par C sq) (\<lambda>(polys, rs, prod, dotp, s). Ok (c # polys, r # rs, prod, dotp, s)))))))))"

section \<open>Grand products\<close>

record 'f batched_layer =
  bl_proof :: "'f list list"
  bl_left :: "'f list"
  bl_right :: "'f list"

record 'f batched_proof =
  bp_layers :: "'f batched_layer list"
  bp_dotp :: "'f list \<times> 'f list \<times> 'f list"

text \<open>The claims of a layer, in the order they are absorbed.\<close>

definition append_prods :: "('s, 'f) transcript \<Rightarrow> 'f list \<Rightarrow> 'f list \<Rightarrow> 's \<Rightarrow> 's" where
  "append_prods tr ls rs s = fold (\<lambda>(a, b). append_claims tr a b) (zip ls rs) s"

definition append_dotps :: "('s, 'f) transcript \<Rightarrow> 'f list \<Rightarrow> 'f list \<Rightarrow> 'f list \<Rightarrow> 's \<Rightarrow> 's" where
  "append_dotps tr ls rs ws s = fold (\<lambda>(a, b, c) s. append_scalar tr ''claim_dotp_weight'' c (append_scalar tr ''claim_dotp_right'' b
     (append_scalar tr ''claim_dotp_left'' a s))) (zip ls (zip rs ws)) s"

definition condense :: "'f::field \<Rightarrow> 'f \<Rightarrow> 'f \<Rightarrow> 'f" where
  "condense r a b = a + r * (b - a)"

definition prove_batched_layer ::
  "('s, 'f::field) transcript \<Rightarrow> 'f product_circuit list \<Rightarrow> 'f dotp_circuit list \<Rightarrow> nat \<Rightarrow> 'f list \<Rightarrow> 'f list \<Rightarrow> 's
   \<Rightarrow> ('f batched_layer \<times> ('f list \<times> 'f list \<times> 'f list) \<times> 'f list \<times> 'f list \<times> 's) result" where
  "prove_batched_layer tr circuits dotps layer_id claims rand s =
     result_bind (collect (map (\<lambda>c. result_bind (index (pc_left c) layer_id) (\<lambda>l. result_bind (index (pc_right c) layer_id) (\<lambda>r. Ok (l, r)))) circuits)) (\<lambda>par.
     result_bind (index par 0) (\<lambda>(l, r). let len = dp_len l + dp_len r in
     result_bind (dense_new (eq_evals rand)) (\<lambda>C. if dp_len C \<noteq> len div 2 then Panic else
     result_bind (log_2 (dp_len C)) (\<lambda>num_rounds.
     let sq = (if layer_id = 0 then dotps else []) in
     result_bind (collect (map (\<lambda>d. result_bind (dotp_evaluate d) (\<lambda>v.
       if dp_len (dc_left d) = len div 2 \<and> dp_len (dc_right d) = len div 2 \<and> dp_len (dc_weight d) = len div 2 then Ok v else Panic)) sq)) (\<lambda>dotp_claims.
     let claims = claims @ dotp_claims; (coeffs, s) = challenge_vector tr ''rand_coeffs_next_layer'' (length claims) s;
         claim = sum_list (map (\<lambda>i. claims ! i * coeffs ! i) [0..<length claims]) in
     result_bind (prove_cubic_batched tr (\<lambda>a b c. a * b * c) coeffs num_rounds s claim par C (map (\<lambda>d. (dc_left d, dc_right d, dc_weight d)) sq))
       (\<lambda>(proof, rand_prod, (ls, rs, _), (dl, dr, dw), s).
     let s = append_prods tr ls rs s; s = append_dotps tr dl dr dw s; (r_layer, s) = challenge_scalar tr ''challenge_r_layer'' s in
     Ok (\<lparr>bl_proof = proof, bl_left = ls, bl_right = rs\<rparr>, (dl, dr, dw), map2 (condense r_layer) ls rs, r_layer # rand_prod, s)))))))"

fun prove_batched_layers ::
  "('s, 'f::field) transcript \<Rightarrow> 'f product_circuit list \<Rightarrow> 'f dotp_circuit list \<Rightarrow> nat list \<Rightarrow> 'f list \<Rightarrow> 'f list \<Rightarrow> 's
   \<Rightarrow> ('f batched_proof \<times> 'f list \<times> 's) result" where
  "prove_batched_layers tr circuits dotps [] claims rand s = Ok (\<lparr>bp_layers = [], bp_dotp = ([], [], [])\<rparr>, rand, s)"
| "prove_batched_layers tr circuits dotps (i # is) claims rand s =
     result_bind (prove_batched_layer tr circuits dotps i claims rand s) (\<lambda>(p, d, claims, rand, s).
     result_bind (prove_batched_layers tr circuits dotps is claims rand s) (\<lambda>(ps, rand, s).
       Ok (\<lparr>bp_layers = p # bp_layers ps, bp_dotp = (if is = [] then d else bp_dotp ps)\<rparr>, rand, s)))"

definition batched_prove ::
  "('s, 'f::field) transcript \<Rightarrow> 'f product_circuit list \<Rightarrow> 'f dotp_circuit list \<Rightarrow> 's \<Rightarrow> ('f batched_proof \<times> 'f list \<times> 's) result" where
  "batched_prove tr circuits dotps s = (if circuits = [] then Panic else
     result_bind (collect (map product_evaluate circuits)) (\<lambda>claims.
       prove_batched_layers tr circuits dotps (rev [0..<length (pc_left (hd circuits))]) claims [] s))"

definition verify_batched_layer ::
  "('s, 'f::field) transcript \<Rightarrow> nat \<Rightarrow> 'f list \<times> 'f list \<times> 'f list \<Rightarrow> 'f list \<Rightarrow> bool \<Rightarrow> 'f batched_layer \<Rightarrow> nat \<Rightarrow> 'f list \<Rightarrow> 'f list \<Rightarrow> 's
   \<Rightarrow> ('f list \<times> 'f list \<times> 'f list \<times> 's) result" where
  "verify_batched_layer tr num_prods dotp dotp_claims is_last p num_rounds claims rand s = (case dotp of (dl, dr, dw) \<Rightarrow>
     let claims = (if is_last then claims @ dotp_claims else claims);
         (coeffs, s) = challenge_vector tr ''rand_coeffs_next_layer'' (length claims) s;
         claim = sum_list (map (\<lambda>i. claims ! i * coeffs ! i) [0..<length claims]) in
     result_bind (sumcheck_verify tr (bl_proof p) claim num_rounds 3 s) (\<lambda>(claim_last, rand_prod, s).
     if length (bl_left p) \<noteq> num_prods \<or> length (bl_right p) \<noteq> num_prods then Panic else
     let s = append_prods tr (bl_left p) (bl_right p) s in if length rand \<noteq> length rand_prod then Panic else
     let eq = prod_list (map (\<lambda>i. rand ! i * rand_prod ! i + (1 - rand ! i) * (1 - rand_prod ! i)) [0..<length rand]) in
     if length coeffs < num_prods then Panic else
     let expected = sum_list (map (\<lambda>i. coeffs ! i * (bl_left p ! i * bl_right p ! i * eq)) [0..<num_prods]);
         n = (if is_last then length dl else 0) in
     if length dr < n \<or> length dw < n \<or> length coeffs < n + num_prods then Panic else
     let s = (if is_last then append_dotps tr dl dr dw s else s);
         expected = expected + sum_list (map (\<lambda>i. coeffs ! (i + num_prods) * dl ! i * dr ! i * dw ! i) [0..<n]) in
     if expected \<noteq> claim_last then Panic else
     let (r_layer, s) = challenge_scalar tr ''challenge_r_layer'' s;
         m = (if is_last then length dotp_claims div 2 else 0) in
     if length dl < 2 * m \<or> length dr < 2 * m \<or> length dw < 2 * m then Panic else
     Ok (map2 (condense r_layer) (bl_left p) (bl_right p),
         concat (map (\<lambda>i. [condense r_layer (dl ! (2 * i)) (dl ! (2 * i + 1)), condense r_layer (dr ! (2 * i)) (dr ! (2 * i + 1)),
           condense r_layer (dw ! (2 * i)) (dw ! (2 * i + 1))]) [0..<m]),
         r_layer # rand_prod, s)))"

fun verify_batched_layers ::
  "('s, 'f::field) transcript \<Rightarrow> nat \<Rightarrow> 'f list \<times> 'f list \<times> 'f list \<Rightarrow> 'f list \<Rightarrow> nat \<Rightarrow> 'f batched_layer list \<Rightarrow> 'f list \<Rightarrow> 'f list \<Rightarrow> 'f list \<Rightarrow> 's
   \<Rightarrow> ('f list \<times> 'f list \<times> 'f list \<times> 's) result" where
  "verify_batched_layers tr num_prods dotp dotp_claims num_rounds [] claims dclaims rand s = Ok (claims, dclaims, rand, s)"
| "verify_batched_layers tr num_prods dotp dotp_claims num_rounds (p # ps) claims dclaims rand s =
     result_bind (verify_batched_layer tr num_prods dotp dotp_claims (ps = []) p num_rounds claims rand s) (\<lambda>(claims, ds, rand, s).
     verify_batched_layers tr num_prods dotp dotp_claims (Suc num_rounds) ps claims (dclaims @ ds) rand s)"

definition batched_verify ::
  "('s, 'f::field) transcript \<Rightarrow> 'f batched_proof \<Rightarrow> 'f list \<Rightarrow> 'f list \<Rightarrow> nat \<Rightarrow> 's \<Rightarrow> ('f list \<times> 'f list \<times> 'f list \<times> 's) result" where
  "batched_verify tr proof claims_prod claims_dotp len s = result_bind (log_2 len) (\<lambda>num_layers.
     if length (bp_layers proof) \<noteq> num_layers then Panic
     else verify_batched_layers tr (length claims_prod) (bp_dotp proof) claims_dotp 0 (bp_layers proof) claims_prod [] [] s)"

end
