(* ===== verification/Batched_Correct.thy ===== *)
theory Batched_Correct
  imports Batched
begin

text \<open>
  Completeness of batched sum-check and of the batched grand-product argument: the verifier accepts what the prover
  produces, and the claims left are the evaluations of the tables at the point of the last layer.
\<close>

section \<open>Weighted sums\<close>

definition weighted :: "('a \<Rightarrow> 'f::field) \<Rightarrow> 'f list \<Rightarrow> 'a list \<Rightarrow> 'f" where
  "weighted f coeffs T = sum_list (map (\<lambda>i. f (T ! i) * coeffs ! i) [0..<length T])"

lemma weighted_cong: "(\<And>x. x \<in> set T \<Longrightarrow> f x = g x) \<Longrightarrow> weighted f coeffs T = weighted g coeffs T"
  unfolding weighted_def by (intro arg_cong [of _ _ sum_list] map_cong) auto

lemma weighted_map: "weighted f coeffs (map g T) = weighted (\<lambda>x. f (g x)) coeffs T"
  unfolding weighted_def by (intro arg_cong [of _ _ sum_list] map_cong) auto

lemma weighted_list: "weighted (\<lambda>x. x) coeffs xs = sum_list (map (\<lambda>i. xs ! i * coeffs ! i) [0..<length xs])"
  by (simp add: weighted_def)

lemma weighted_add: "weighted (\<lambda>x. f x + g x) coeffs T = weighted f coeffs T + weighted g coeffs T"
  unfolding weighted_def by (simp add: distrib_right sum_list_addf)

lemma weighted_append:
  "weighted f coeffs (xs @ ys) = sum_list (map (\<lambda>i. f (xs ! i) * coeffs ! i) [0..<length xs])
    + sum_list (map (\<lambda>i. f (ys ! i) * coeffs ! (i + length xs)) [0..<length ys])"
proof -
  have "[0..<length xs + length ys] = [0..<length xs] @ map (\<lambda>i. i + length xs) [0..<length ys]"
    by (simp add: map_add_upt add.commute upt_add_eq_append [of 0 "length xs" "length ys"])
  then have "weighted f coeffs (xs @ ys) = sum_list (map (\<lambda>i. f ((xs @ ys) ! i) * coeffs ! i) [0..<length xs])
      + sum_list (map (\<lambda>i. f ((xs @ ys) ! (i + length xs)) * coeffs ! (i + length xs)) [0..<length ys])"
    by (simp add: weighted_def comp_def)
  also have "\<dots> = sum_list (map (\<lambda>i. f (xs ! i) * coeffs ! i) [0..<length xs])
      + sum_list (map (\<lambda>i. f (ys ! i) * coeffs ! (i + length xs)) [0..<length ys])"
    by (intro arg_cong2 [of _ _ _ _ "(+)"] arg_cong [of _ _ sum_list] map_cong) (simp_all add: nth_append)
  finally show ?thesis .
qed

definition cubic :: "('f::field \<Rightarrow> 'f) \<Rightarrow> bool" where
  "cubic P \<longleftrightarrow> (\<exists>p0 p1 p2 p3. \<forall>t. P t = p0 + t * p1 + t ^ 2 * p2 + t ^ 3 * p3)"

lemma cubic_zero: "cubic (\<lambda>t. 0)"
  unfolding cubic_def by (intro exI [of _ 0]) simp

lemma cubic_add: "cubic P \<Longrightarrow> cubic Q \<Longrightarrow> cubic (\<lambda>t. P t + Q t)"
proof -
  assume "cubic P" "cubic Q"
  then obtain p0 p1 p2 p3 q0 q1 q2 q3 where "\<And>t. P t = p0 + t * p1 + t ^ 2 * p2 + t ^ 3 * p3" "\<And>t. Q t = q0 + t * q1 + t ^ 2 * q2 + t ^ 3 * q3"
    unfolding cubic_def by blast
  then have "\<And>t. P t + Q t = (p0 + q0) + t * (p1 + q1) + t ^ 2 * (p2 + q2) + t ^ 3 * (p3 + q3)" by (simp add: algebra_simps)
  then show ?thesis unfolding cubic_def by blast
qed

lemma cubic_scale: "cubic P \<Longrightarrow> cubic (\<lambda>t. P t * c)"
proof -
  assume "cubic P"
  then obtain p0 p1 p2 p3 where "\<And>t. P t = p0 + t * p1 + t ^ 2 * p2 + t ^ 3 * p3" unfolding cubic_def by blast
  then have "\<And>t. P t * c = p0 * c + t * (p1 * c) + t ^ 2 * (p2 * c) + t ^ 3 * (p3 * c)" by (simp add: algebra_simps)
  then show ?thesis unfolding cubic_def by blast
qed

lemma cubic_weighted: "(\<And>x. x \<in> set T \<Longrightarrow> cubic (f x)) \<Longrightarrow> cubic (\<lambda>t. weighted (\<lambda>x. f x t) coeffs T)"
proof -
  assume f: "\<And>x. x \<in> set T \<Longrightarrow> cubic (f x)"
  have "cubic (\<lambda>t. sum_list (map (\<lambda>i. f (T ! i) t * coeffs ! i) [0..<n]))" if "n \<le> length T" for n
    using that by (induction n) (auto intro!: cubic_zero cubic_add cubic_scale f simp: cubic_zero)
  then show ?thesis unfolding weighted_def by simp
qed

section \<open>Rounds\<close>

type_synonym 'f tables = "'f list \<times> 'f list \<times> 'f list"

definition batch_tables :: "'f poly_pair list \<Rightarrow> 'f dense_poly \<Rightarrow> 'f poly_triple list \<Rightarrow> 'f tables list" where
  "batch_tables par C sq = map (\<lambda>(A, B). (dp_Z A, dp_Z B, dp_Z C)) par @ map (\<lambda>(A, B, C). (dp_Z A, dp_Z B, dp_Z C)) sq"

definition batch_sum :: "('f::field \<Rightarrow> 'f \<Rightarrow> 'f \<Rightarrow> 'f) \<Rightarrow> 'f list \<Rightarrow> 'f tables list \<Rightarrow> 'f" where
  "batch_sum comb coeffs T = weighted (\<lambda>x. cube_sum comb (fst x) (fst (snd x)) (snd (snd x))) coeffs T"

definition batch_round :: "('f::field \<Rightarrow> 'f \<Rightarrow> 'f \<Rightarrow> 'f) \<Rightarrow> 'f list \<Rightarrow> 'f tables list \<Rightarrow> 'f \<Rightarrow> 'f" where
  "batch_round comb coeffs T t = weighted (\<lambda>x. round_poly comb (fst x) (fst (snd x)) (snd (snd x)) t) coeffs T"

definition ok_vars :: "nat \<Rightarrow> 'f dense_poly \<Rightarrow> bool" where
  "ok_vars n P \<longleftrightarrow> dense_ok P \<and> dp_num_vars P = n"

definition batch_ok :: "nat \<Rightarrow> 'f poly_pair list \<Rightarrow> 'f dense_poly \<Rightarrow> 'f poly_triple list \<Rightarrow> bool" where
  "batch_ok n par C sq \<longleftrightarrow> (\<forall>x\<in>set par. ok_vars n (fst x) \<and> ok_vars n (snd x)) \<and> ok_vars n C
     \<and> (\<forall>x\<in>set sq. ok_vars n (fst x) \<and> ok_vars n (fst (snd x)) \<and> ok_vars n (snd (snd x)))"

lemma ok_vars_length: "ok_vars n P \<Longrightarrow> length (dp_Z P) = 2 ^ n \<and> dp_len P = 2 ^ n"
  by (simp add: ok_vars_def dense_ok_def)

lemma batch_tables_length: "batch_ok n par C sq \<Longrightarrow> (A', B', C') \<in> set (batch_tables par C sq) \<Longrightarrow> length A' = 2 ^ n \<and> length B' = 2 ^ n \<and> length C' = 2 ^ n"
  by (fastforce simp: batch_ok_def batch_tables_def dest: ok_vars_length)

lemma batch_round_cubic:
  assumes "cubic_comb comb" "batch_ok (Suc n) par C sq"
  shows "cubic (batch_round comb coeffs (batch_tables par C sq))"
  unfolding batch_round_def
proof (rule cubic_weighted)
  fix x assume x: "x \<in> set (batch_tables par C sq)"
  obtain A' B' C' where x': "x = (A', B', C')" by (metis surj_pair)
  then have "length A' = length B'" "length A' = length C'" using batch_tables_length [OF assms(2)] x by fastforce+
  then show "cubic (\<lambda>t. round_poly comb (fst x) (fst (snd x)) (snd (snd x)) t)"
    unfolding x' fst_conv snd_conv cubic_def using round_poly_cubic [OF assms(1), of B' A' C'] by metis
qed

lemma batch_round_sum:
  assumes "batch_ok (Suc n) par C sq"
  shows "batch_round comb coeffs (batch_tables par C sq) 0 + batch_round comb coeffs (batch_tables par C sq) 1 = batch_sum comb coeffs (batch_tables par C sq)"
  unfolding batch_round_def batch_sum_def weighted_add [symmetric]
proof (rule weighted_cong)
  fix x assume x: "x \<in> set (batch_tables par C sq)"
  obtain A' B' C' where x': "x = (A', B', C')" by (metis surj_pair)
  then have "length A' = 2 * 2 ^ n" "length B' = 2 * 2 ^ n" "length C' = 2 * 2 ^ n" using batch_tables_length [OF assms] x by fastforce+
  then show "round_poly comb (fst x) (fst (snd x)) (snd (snd x)) 0 + round_poly comb (fst x) (fst (snd x)) (snd (snd x)) 1
      = cube_sum comb (fst x) (fst (snd x)) (snd (snd x))"
    unfolding x' by (simp add: round_poly_sum)
qed

lemma batched_evals_values:
  assumes "batch_ok (Suc n) par C sq" "length coeffs = length par + length sq"
  shows "batched_evals comb par C sq coeffs = (let P = batch_round comb coeffs (batch_tables par C sq) in Ok (P 0, P 2, P 3))"
proof -
  define v where "v x = (round_poly comb (fst x) (fst (snd x)) (snd (snd x)) 0, round_poly comb (fst x) (fst (snd x)) (snd (snd x)) 2,
    round_poly comb (fst x) (fst (snd x)) (snd (snd x)) 3)" for x
  define T where "T = batch_tables par C sq"
  have par: "cubic_evals comb A B C = Ok (v (dp_Z A, dp_Z B, dp_Z C))" if "(A, B) \<in> set par" for A B
    using that assms(1) by (subst cubic_evals_values [where m = "2 ^ n"]) (auto simp: batch_ok_def Let_def v_def dest!: bspec ok_vars_length)
  have sq: "cubic_evals comb A B C = Ok (v (dp_Z A, dp_Z B, dp_Z C))" if "(A, B, C) \<in> set sq" for A B C
    using that assms(1) by (subst cubic_evals_values [where m = "2 ^ n"]) (auto simp: batch_ok_def Let_def v_def dest!: bspec ok_vars_length)
  have "map (\<lambda>(A, B). cubic_evals comb A B C) par @ map (\<lambda>(A, B, C). cubic_evals comb A B C) sq = map (\<lambda>x. Ok (v x)) T"
    unfolding T_def batch_tables_def using par sq by auto
  then have ev: "collect (map (\<lambda>(A, B). cubic_evals comb A B C) par @ map (\<lambda>(A, B, C). cubic_evals comb A B C) sq) = Ok (map v T)"
    by (simp only: collect_map_Ok)
  have "length T = length coeffs" using assms(2) by (simp add: T_def batch_tables_def)
  moreover have "sum_list (map (\<lambda>i. g (map v T ! i) * coeffs ! i) [0..<length T]) = weighted (\<lambda>x. g (v x)) coeffs T" for g :: "_ \<Rightarrow> 'a"
    unfolding weighted_def by (intro arg_cong [of _ _ sum_list] map_cong) auto
  note this [of fst] this [of "\<lambda>x. fst (snd x)"] this [of "\<lambda>x. snd (snd x)"]
  ultimately show ?thesis
    unfolding batched_evals_def ev batch_round_def T_def [symmetric] Let_def result_bind.simps length_map by (simp add: v_def)
qed

definition bound :: "'f::field \<Rightarrow> 'f dense_poly \<Rightarrow> 'f dense_poly" where
  "bound r P = \<lparr>dp_num_vars = dp_num_vars P - 1, dp_len = dp_len P div 2, dp_Z = bind_top r (dp_Z P)\<rparr>"

lemma bound_top: "ok_vars (Suc n) P \<Longrightarrow> bound_poly_var_top r P = Ok (bound r P)"
  by (subst top_list) (simp_all add: ok_vars_def dense_ok_def bound_def pred64_def)

lemma bound_ok: "ok_vars (Suc n) P \<Longrightarrow> ok_vars n (bound r P)"
  by (simp add: ok_vars_def dense_ok_def bound_def)

lemma bound_batch:
  assumes "batch_ok (Suc n) par C sq"
  shows "collect (map (bind_pair r) par) = Ok (map (map_prod (bound r) (bound r)) par)"
    "collect (map (bind_triple r) sq) = Ok (map (map_prod (bound r) (map_prod (bound r) (bound r))) sq)"
    "bound_poly_var_top r C = Ok (bound r C)"
    "batch_ok n (map (map_prod (bound r) (bound r)) par) (bound r C) (map (map_prod (bound r) (map_prod (bound r) (bound r))) sq)"
    "batch_round comb coeffs (batch_tables par C sq) r
      = batch_sum comb coeffs (batch_tables (map (map_prod (bound r) (bound r)) par) (bound r C) (map (map_prod (bound r) (map_prod (bound r) (bound r))) sq))"
proof -
  show "collect (map (bind_pair r) par) = Ok (map (map_prod (bound r) (bound r)) par)"
    using assms by (intro collect_map_Ok) (auto simp: batch_ok_def bind_pair_def bound_top dest!: bspec)
  show "collect (map (bind_triple r) sq) = Ok (map (map_prod (bound r) (map_prod (bound r) (bound r))) sq)"
    using assms by (intro collect_map_Ok) (auto simp: batch_ok_def bind_triple_def bound_top dest!: bspec)
  show "bound_poly_var_top r C = Ok (bound r C)" using assms by (auto simp: batch_ok_def intro: bound_top)
  show "batch_ok n (map (map_prod (bound r) (bound r)) par) (bound r C) (map (map_prod (bound r) (map_prod (bound r) (bound r))) sq)"
    using assms by (auto simp: batch_ok_def bound_ok)
  have "batch_tables (map (map_prod (bound r) (bound r)) par) (bound r C) (map (map_prod (bound r) (map_prod (bound r) (bound r))) sq)
      = map (map_prod (bind_top r) (map_prod (bind_top r) (bind_top r))) (batch_tables par C sq)"
    by (auto simp: batch_tables_def bound_def)
  then show "batch_round comb coeffs (batch_tables par C sq) r
      = batch_sum comb coeffs (batch_tables (map (map_prod (bound r) (bound r)) par) (bound r C) (map (map_prod (bound r) (map_prod (bound r) (bound r))) sq))"
    by (simp add: batch_round_def batch_sum_def weighted_map case_prod_beta round_poly_def)
qed

lemma batched_rounds:
  fixes comb :: "'f::field \<Rightarrow> 'f \<Rightarrow> 'f \<Rightarrow> 'f"
  assumes "(2 :: 'f) \<noteq> 0" "(3 :: 'f) \<noteq> 0" "cubic_comb comb"
  shows "batch_ok n par C sq \<Longrightarrow> length coeffs = length par + length sq \<Longrightarrow>
    \<exists>polys rs s'. prove_cubic_batched tr comb coeffs n s (batch_sum comb coeffs (batch_tables par C sq)) par C sq
        = Ok (polys, rs, (map (\<lambda>x. mle (dp_Z (fst x)) rs) par, map (\<lambda>x. mle (dp_Z (snd x)) rs) par, mle (dp_Z C) rs),
            (map (\<lambda>x. mle (dp_Z (fst x)) rs) sq, map (\<lambda>x. mle (dp_Z (fst (snd x))) rs) sq, map (\<lambda>x. mle (dp_Z (snd (snd x))) rs) sq), s')
      \<and> length polys = n \<and> length rs = n
      \<and> verify_rounds tr 3 s (batch_sum comb coeffs (batch_tables par C sq)) polys
        = Ok (weighted (\<lambda>x. comb (mle (fst x) rs) (mle (fst (snd x)) rs) (mle (snd (snd x)) rs)) coeffs (batch_tables par C sq), rs, s')"
proof (induction n arbitrary: s par C sq)
  case 0
  have one: "\<exists>z. dp_Z P = [z]" if "ok_vars 0 P" for P :: "'f dense_poly"
    using ok_vars_length [OF that] by (simp add: length_Suc_conv)
  have idx: "index (dp_Z P) 0 = Ok (mle (dp_Z P) [])" if "ok_vars 0 P" for P :: "'f dense_poly"
    using one [OF that] by (auto simp: index_def mle_Nil)
  have par: "collect (map (\<lambda>(A, B). index (dp_Z A) 0) par) = Ok (map (\<lambda>x. mle (dp_Z (fst x)) []) par)"
      "collect (map (\<lambda>(A, B). index (dp_Z B) 0) par) = Ok (map (\<lambda>x. mle (dp_Z (snd x)) []) par)"
      "collect (map (\<lambda>(A, B, C). index (dp_Z A) 0) sq) = Ok (map (\<lambda>x. mle (dp_Z (fst x)) []) sq)"
      "collect (map (\<lambda>(A, B, C). index (dp_Z B) 0) sq) = Ok (map (\<lambda>x. mle (dp_Z (fst (snd x))) []) sq)"
      "collect (map (\<lambda>(A, B, C). index (dp_Z C) 0) sq) = Ok (map (\<lambda>x. mle (dp_Z (snd (snd x))) []) sq)"
      "index (dp_Z C) 0 = Ok (mle (dp_Z C) [])"
    using 0 by (auto simp: batch_ok_def case_prod_beta intro!: collect_map_Ok idx)
  have "batch_sum comb coeffs (batch_tables par C sq)
      = weighted (\<lambda>x. comb (mle (fst x) []) (mle (fst (snd x)) []) (mle (snd (snd x)) [])) coeffs (batch_tables par C sq)"
    unfolding batch_sum_def
  proof (rule weighted_cong)
    fix x assume x: "x \<in> set (batch_tables par C sq)"
    obtain A' B' C' where x': "x = (A', B', C')" by (metis surj_pair)
    then have "length A' = Suc 0" "length B' = Suc 0" "length C' = Suc 0" using batch_tables_length [OF 0(1)] x by fastforce+
    then obtain a b c where "A' = [a]" "B' = [b]" "C' = [c]" by (auto simp: length_Suc_conv)
    then show "cube_sum comb (fst x) (fst (snd x)) (snd (snd x)) = comb (mle (fst x) []) (mle (fst (snd x)) []) (mle (snd (snd x)) [])"
      by (simp add: x' cube_sum_def mle_Nil)
  qed
  then show ?case by (simp add: par)
next
  case (Suc n)
  let ?T = "batch_tables par C sq" and ?P = "batch_round comb coeffs (batch_tables par C sq)"
  obtain p0 p1 p2 p3 where p: "\<And>t. ?P t = p0 + t * p1 + t ^ 2 * p2 + t ^ 3 * p3"
    using batch_round_cubic [OF assms(3) Suc.prems(1)] unfolding cubic_def by blast
  obtain d c b a where q: "from_evals [?P 0, batch_sum comb coeffs ?T - ?P 0, ?P 2, ?P 3] = Ok [d, c, b, a]"
    "\<And>t. uni_evaluate [d, c, b, a] t = Ok (?P t)" "d + (d + c + b + a) = batch_sum comb coeffs ?T" "uni_compress [d, c, b, a] = Ok [d, b, a]"
    "uni_decompress [d, b, a] (batch_sum comb coeffs ?T) = Ok [d, c, b, a]"
    by (rule cubic_interpolation [OF assms(1,2) p batch_round_sum [OF Suc.prems(1)]]) (rule that)
  obtain r s1 where ch: "challenge_scalar tr ''challenge_nextround'' (append_uni tr ''poly'' [d, c, b, a] s) = (r, s1)"
    by (metis surj_pair)
  define par' where "par' = map (map_prod (bound r) (bound r)) par"
  define sq' where "sq' = map (map_prod (bound r) (map_prod (bound r) (bound r))) sq"
  note bd = bound_batch [OF Suc.prems(1), where r = r, folded par'_def sq'_def]
  have "length coeffs = length par' + length sq'" using Suc.prems(2) by (simp add: par'_def sq'_def)
  from Suc.IH [OF bd(4) this, of s1, folded bd(5)] obtain polys rs s' where IH:
    "prove_cubic_batched tr comb coeffs n s1 (?P r) par' (bound r C) sq'
        = Ok (polys, rs, (map (\<lambda>x. mle (dp_Z (fst x)) rs) par', map (\<lambda>x. mle (dp_Z (snd x)) rs) par', mle (dp_Z (bound r C)) rs),
            (map (\<lambda>x. mle (dp_Z (fst x)) rs) sq', map (\<lambda>x. mle (dp_Z (fst (snd x))) rs) sq', map (\<lambda>x. mle (dp_Z (snd (snd x))) rs) sq'), s')"
    "length polys = n" "length rs = n"
    "verify_rounds tr 3 s1 (?P r) polys
        = Ok (weighted (\<lambda>x. comb (mle (fst x) rs) (mle (fst (snd x)) rs) (mle (snd (snd x)) rs)) coeffs (batch_tables par' (bound r C) sq'), rs, s')"
    by (elim exE conjE)
  have mle: "mle (dp_Z (bound r P)) rs = mle (dp_Z P) (r # rs)" if "ok_vars (Suc n) P" for P
    using ok_vars_length [OF that] IH(3) by (simp add: bound_def mle_bind_top)
  have fin: "map (\<lambda>x. mle (dp_Z (fst x)) rs) par' = map (\<lambda>x. mle (dp_Z (fst x)) (r # rs)) par"
      "map (\<lambda>x. mle (dp_Z (snd x)) rs) par' = map (\<lambda>x. mle (dp_Z (snd x)) (r # rs)) par"
      "mle (dp_Z (bound r C)) rs = mle (dp_Z C) (r # rs)"
      "map (\<lambda>x. mle (dp_Z (fst x)) rs) sq' = map (\<lambda>x. mle (dp_Z (fst x)) (r # rs)) sq"
      "map (\<lambda>x. mle (dp_Z (fst (snd x))) rs) sq' = map (\<lambda>x. mle (dp_Z (fst (snd x))) (r # rs)) sq"
      "map (\<lambda>x. mle (dp_Z (snd (snd x))) rs) sq' = map (\<lambda>x. mle (dp_Z (snd (snd x))) (r # rs)) sq"
    using Suc.prems(1) by (auto simp: par'_def sq'_def batch_ok_def mle)
  have tab: "batch_tables par' (bound r C) sq' = map (map_prod (bind_top r) (map_prod (bind_top r) (bind_top r))) ?T"
    by (auto simp: batch_tables_def bound_def par'_def sq'_def)
  have last: "weighted (\<lambda>x. comb (mle (fst x) rs) (mle (fst (snd x)) rs) (mle (snd (snd x)) rs)) coeffs (batch_tables par' (bound r C) sq')
      = weighted (\<lambda>x. comb (mle (fst x) (r # rs)) (mle (fst (snd x)) (r # rs)) (mle (snd (snd x)) (r # rs))) coeffs ?T"
    unfolding tab weighted_map
  proof (rule weighted_cong)
    fix x assume x: "x \<in> set ?T"
    obtain A' B' C' where x': "x = (A', B', C')" by (metis surj_pair)
    then have "length A' = 2 ^ Suc n" "length B' = 2 ^ Suc n" "length C' = 2 ^ Suc n" using batch_tables_length [OF Suc.prems(1)] x by fastforce+
    then show "comb (mle (fst (map_prod (bind_top r) (map_prod (bind_top r) (bind_top r)) x)) rs)
        (mle (fst (snd (map_prod (bind_top r) (map_prod (bind_top r) (bind_top r)) x))) rs)
        (mle (snd (snd (map_prod (bind_top r) (map_prod (bind_top r) (bind_top r)) x))) rs)
      = comb (mle (fst x) (r # rs)) (mle (fst (snd x)) (r # rs)) (mle (snd (snd x)) (r # rs))"
      using IH(3) by (simp add: x' mle_bind_top)
  qed
  have "prove_cubic_batched tr comb coeffs (Suc n) s (batch_sum comb coeffs ?T) par C sq = Ok ([d, b, a] # polys, r # rs,
      (map (\<lambda>x. mle (dp_Z (fst x)) (r # rs)) par, map (\<lambda>x. mle (dp_Z (snd x)) (r # rs)) par, mle (dp_Z C) (r # rs)),
      (map (\<lambda>x. mle (dp_Z (fst x)) (r # rs)) sq, map (\<lambda>x. mle (dp_Z (fst (snd x))) (r # rs)) sq, map (\<lambda>x. mle (dp_Z (snd (snd x))) (r # rs)) sq), s')"
    unfolding fin [symmetric] using batched_evals_values [OF Suc.prems, of comb] q(1) by (simp add: Let_def ch bd(1-3) q(2,4) IH(1))
  moreover have "verify_rounds tr 3 s (batch_sum comb coeffs ?T) ([d, b, a] # polys)
      = Ok (weighted (\<lambda>x. comb (mle (fst x) (r # rs)) (mle (fst (snd x)) (r # rs)) (mle (snd (snd x)) (r # rs))) coeffs ?T, r # rs, s')"
    unfolding last [symmetric]
    using q(3) by (simp add: q(5) uni_degree_def eval_at_zero_def eval_at_one_def index_def ch q(2) IH(4) add.assoc)
  ultimately show ?case using IH(2,3) by (intro exI [of _ "[d, b, a] # polys"] exI [of _ "r # rs"] exI [of _ s']) simp
qed

section \<open>Layers of the trees\<close>

fun level :: "nat \<Rightarrow> nat \<Rightarrow> 'f::field list \<Rightarrow> 'f list" where
  "level k 0 Z = Z"
| "level k (Suc i) Z = pair_products (k - i) (level k i Z)"

lemma level_Suc_arg: "level (Suc k) (Suc i) Z = level k i (pair_products (Suc k) Z)"
  by (induction i) simp_all

lemma length_level: "length Z = 2 ^ Suc k \<Longrightarrow> i \<le> k \<Longrightarrow> length (level k i Z) = 2 ^ Suc (k - i)"
proof (induction i)
  case (Suc i)
  have eq: "Suc (k - Suc i) = k - i" using Suc.prems by linarith
  have "length (level k i Z) = 2 ^ Suc (k - i)" using Suc by simp
  then show ?case unfolding eq level.simps by (rule length_pair_products)
qed simp

lemma tree_layers_nth: "i \<le> k \<Longrightarrow> tree_layers k Z ! i = halves (k - i) (level k i Z)"
proof (induction k arbitrary: Z i)
  case (Suc k)
  then show ?case by (cases i) (simp_all add: level_Suc_arg del: level.simps(2))
qed simp

lemma prod_level: "length Z = 2 ^ Suc k \<Longrightarrow> i \<le> k \<Longrightarrow> prod_list (level k i Z) = prod_list Z"
proof (induction i)
  case (Suc i)
  then show ?case using prod_pair_products [OF length_level [OF Suc.prems(1), of i]] by simp
qed simp

definition circuit_of :: "nat \<Rightarrow> 'f::field list \<Rightarrow> 'f product_circuit" where
  "circuit_of k Z = \<lparr>pc_left = map fst (tree_layers k Z), pc_right = map snd (tree_layers k Z)\<rparr>"

definition dotp_value :: "'f::field dotp_circuit \<Rightarrow> 'f" where
  "dotp_value d = cube_sum (\<lambda>a b c. a * b * c) (dp_Z (dc_left d)) (dp_Z (dc_right d)) (dp_Z (dc_weight d))"

definition dotp_ok :: "nat \<Rightarrow> 'f dotp_circuit \<Rightarrow> bool" where
  "dotp_ok n d \<longleftrightarrow> ok_vars n (dc_left d) \<and> ok_vars n (dc_right d) \<and> ok_vars n (dc_weight d)"

lemma dotp_evaluate_value: "dotp_ok n d \<Longrightarrow> dotp_evaluate d = Ok (dotp_value d)"
  using dotp_evaluate_sum [of "dc_left d" "dc_right d" "dc_weight d"]
  by (cases d) (simp add: dotp_ok_def ok_vars_def dense_ok_def dotp_value_def cube_sum_def)

text \<open>The claims on the dot products, combined in pairs.\<close>

definition dotp_claims :: "'f::field dotp_circuit list \<Rightarrow> 'f list \<Rightarrow> 'f list" where
  "dotp_claims D rand = concat (map (\<lambda>i. [mle (dp_Z (dc_left (D ! (2 * i))) @ dp_Z (dc_left (D ! (2 * i + 1)))) rand,
     mle (dp_Z (dc_right (D ! (2 * i))) @ dp_Z (dc_right (D ! (2 * i + 1)))) rand,
     mle (dp_Z (dc_weight (D ! (2 * i))) @ dp_Z (dc_weight (D ! (2 * i + 1)))) rand]) [0..<length D div 2])"

lemma challenge_vector_length: "challenge_vector tr label n s = (xs, s') \<Longrightarrow> length xs = n"
  by (induction n arbitrary: s xs s') (auto simp: Let_def split: prod.splits)

lemma condense_mle: "length A = 2 ^ length rs \<Longrightarrow> condense r (mle A rs) (mle B rs) = mle (A @ B) (r # rs)"
  unfolding condense_def by (subst mle_Cons) (simp_all add: algebra_simps)

lemma layer_batch:
  fixes Zs :: "'f::field list list"
  assumes "\<forall>Z\<in>set Zs. length Z = 2 ^ Suc k" "i \<le> k" "length rand = k - i" "\<forall>d\<in>set D. dotp_ok (k - i) d" "length coeffs = length Zs + length D"
  defines "par \<equiv> map (\<lambda>Z. halves (k - i) (level k i Z)) Zs" and "sq \<equiv> map (\<lambda>d. (dc_left d, dc_right d, dc_weight d)) D"
    and "C \<equiv> \<lparr>dp_num_vars = k - i, dp_len = 2 ^ (k - i), dp_Z = eq_table rand\<rparr>"
    and "claims \<equiv> map (\<lambda>Z. mle (pair_products (k - i) (level k i Z)) rand) Zs @ map dotp_value D"
  shows "batch_ok (k - i) par C sq"
    "batch_sum (\<lambda>a b c. a * b * c) coeffs (batch_tables par C sq) = sum_list (map (\<lambda>i. claims ! i * coeffs ! i) [0..<length claims])"
proof -
  have "ok_vars (k - i) (fst (halves (k - i) (level k i Z))) \<and> ok_vars (k - i) (snd (halves (k - i) (level k i Z)))" if "Z \<in> set Zs" for Z
  proof -
    have "length Z = 2 ^ Suc k" using assms(1) that by blast
    from length_level [OF this assms(2)] show ?thesis by (simp add: ok_vars_def dense_ok_def halves_def)
  qed
  then show ok: "batch_ok (k - i) par C sq"
    unfolding batch_ok_def par_def sq_def C_def using assms(3,4) by (auto simp: ok_vars_def dense_ok_def dotp_ok_def)
  have "map (\<lambda>x. cube_sum (\<lambda>a b c. a * b * c) (fst x) (fst (snd x)) (snd (snd x))) (batch_tables par C sq) = claims"
  proof -
    have "cube_sum (\<lambda>a b c. a * b * c) (dp_Z (fst (halves (k - i) (level k i Z)))) (dp_Z (snd (halves (k - i) (level k i Z)))) (eq_table rand)
        = mle (pair_products (k - i) (level k i Z)) rand" if "Z \<in> set Zs" for Z
    proof -
      have "length Z = 2 ^ Suc k" using assms(1) that by blast
      from cube_sum_layer [OF length_level [OF this assms(2)] assms(3)] show ?thesis unfolding halves_def fst_conv snd_conv dense_poly.simps .
    qed
    then show ?thesis by (simp add: batch_tables_def par_def sq_def C_def claims_def comp_def case_prod_beta dotp_value_def)
  qed
  note claims = this
  show "batch_sum (\<lambda>a b c. a * b * c) coeffs (batch_tables par C sq) = sum_list (map (\<lambda>i. claims ! i * coeffs ! i) [0..<length claims])"
    unfolding batch_sum_def claims [symmetric] weighted_list [symmetric] weighted_map ..
qed

text \<open>One layer: the sum-check on the batch, and what prover and verifier make of it.\<close>

lemma batched_layer_complete:
  fixes Zs :: "'f::field list list"
  assumes two: "(2 :: 'f) \<noteq> 0" "(3 :: 'f) \<noteq> 0" and Zs: "Zs \<noteq> []" "\<forall>Z\<in>set Zs. length Z = 2 ^ Suc k" and i: "i \<le> k" "length rand = k - i"
    and D: "\<forall>d\<in>set D. dotp_ok k d"
  obtains p d rand' s' where
    "prove_batched_layer tr (map (circuit_of k) Zs) D i (map (\<lambda>Z. mle (pair_products (k - i) (level k i Z)) rand) Zs) rand s
      = Ok (p, d, map (\<lambda>Z. mle (level k i Z) rand') Zs, rand', s')"
    "length rand' = Suc (k - i)"
    "verify_batched_layer tr (length Zs) (if i = 0 then d else dd) (map dotp_value D) (i = 0) p (k - i)
        (map (\<lambda>Z. mle (pair_products (k - i) (level k i Z)) rand) Zs) rand s
      = Ok (map (\<lambda>Z. mle (level k i Z) rand') Zs, if i = 0 then dotp_claims D rand' else [], rand', s')"
proof -
  let ?m = "k - i" and ?comb = "\<lambda>a b c. a * b * c :: 'f"
  define D' where "D' = (if i = 0 then D else [])"
  define par where "par = map (\<lambda>Z. halves ?m (level k i Z)) Zs"
  define sq where "sq = map (\<lambda>d. (dc_left d, dc_right d, dc_weight d)) D'"
  define C where "C = \<lparr>dp_num_vars = ?m, dp_len = 2 ^ ?m, dp_Z = eq_table rand\<rparr>"
  define prods where "prods = map (\<lambda>Z. mle (pair_products ?m (level k i Z)) rand) Zs"
  define claims where "claims = prods @ map dotp_value D'"
  have D': "\<forall>d\<in>set D'. dotp_ok ?m d" using D by (simp add: D'_def)
  obtain coeffs s1 where co: "challenge_vector tr ''rand_coeffs_next_layer'' (length claims) s = (coeffs, s1)" by (metis surj_pair)
  have "length claims = length Zs + length D'" by (simp add: claims_def prods_def)
  then have lc: "length coeffs = length Zs + length D'" using challenge_vector_length [OF co] by simp
  note batch = layer_batch [OF Zs(2) i D' lc, folded par_def sq_def C_def claims_def prods_def]
  have lc': "length coeffs = length par + length sq" using lc by (simp add: par_def sq_def)
  from batched_rounds [OF two cubic_comb_product batch(1) lc', of tr s1, unfolded batch(2)] obtain polys rs s2 where R:
    "prove_cubic_batched tr ?comb coeffs ?m s1 (sum_list (map (\<lambda>i. claims ! i * coeffs ! i) [0..<length claims])) par C sq
      = Ok (polys, rs, (map (\<lambda>x. mle (dp_Z (fst x)) rs) par, map (\<lambda>x. mle (dp_Z (snd x)) rs) par, mle (dp_Z C) rs),
          (map (\<lambda>x. mle (dp_Z (fst x)) rs) sq, map (\<lambda>x. mle (dp_Z (fst (snd x))) rs) sq, map (\<lambda>x. mle (dp_Z (snd (snd x))) rs) sq), s2)"
    "length polys = ?m" "length rs = ?m"
    "verify_rounds tr 3 s1 (sum_list (map (\<lambda>i. claims ! i * coeffs ! i) [0..<length claims])) polys
      = Ok (weighted (\<lambda>x. mle (fst x) rs * mle (fst (snd x)) rs * mle (snd (snd x)) rs) coeffs (batch_tables par C sq), rs, s2)"
    by (elim exE conjE)
  define ls where "ls = map (\<lambda>x. mle (dp_Z (fst x)) rs) par"
  define rs' where "rs' = map (\<lambda>x. mle (dp_Z (snd x)) rs) par"
  define dl where "dl = map (\<lambda>x. mle (dp_Z (fst x)) rs) sq"
  define dr where "dr = map (\<lambda>x. mle (dp_Z (fst (snd x))) rs) sq"
  define dw where "dw = map (\<lambda>x. mle (dp_Z (snd (snd x))) rs) sq"
  note R = R [folded ls_def rs'_def dl_def dr_def dw_def]
  have lens: "length ls = length Zs" "length rs' = length Zs" "length dl = length D'" "length dr = length D'" "length dw = length D'"
    by (simp_all add: ls_def rs'_def dl_def dr_def dw_def par_def sq_def)
  obtain r s' where ch: "challenge_scalar tr ''challenge_r_layer'' (append_dotps tr dl dr dw (append_prods tr ls rs' s2)) = (r, s')"
    by (metis surj_pair)
  have eq: "mle (dp_Z C) rs = prod_list (map (\<lambda>i. rand ! i * rs ! i + (1 - rand ! i) * (1 - rs ! i)) [0..<?m])"
    using mle_eq_table [of rand rs] R(3) i(2) by (simp add: C_def)
  have halves_len: "length (level k i Z) = 2 ^ Suc ?m" if "Z \<in> set Zs" for Z using Zs(2) that i(1) length_level by blast
  have out: "map2 (condense r) ls rs' = map (\<lambda>Z. mle (level k i Z) (r # rs)) Zs"
  proof (rule nth_equalityI)
    fix j assume "j < length (map2 (condense r) ls rs')"
    then have j: "j < length Zs" using lens by simp
    then have "length (level k i (Zs ! j)) = 2 ^ Suc ?m" by (intro halves_len) simp
    then show "map2 (condense r) ls rs' ! j = map (\<lambda>Z. mle (level k i Z) (r # rs)) Zs ! j"
      using j lens R(3) by (simp add: ls_def rs'_def par_def halves_def condense_mle)
  qed (simp add: lens)
  have dout: "concat (map (\<lambda>i. [condense r (dl ! (2 * i)) (dl ! (2 * i + 1)), condense r (dr ! (2 * i)) (dr ! (2 * i + 1)),
      condense r (dw ! (2 * i)) (dw ! (2 * i + 1))]) [0..<length D' div 2]) = dotp_claims D' (r # rs)"
  proof -
    have "condense r (dl ! (2 * j)) (dl ! (2 * j + 1)) = mle (dp_Z (dc_left (D' ! (2 * j))) @ dp_Z (dc_left (D' ! (2 * j + 1)))) (r # rs)
        \<and> condense r (dr ! (2 * j)) (dr ! (2 * j + 1)) = mle (dp_Z (dc_right (D' ! (2 * j))) @ dp_Z (dc_right (D' ! (2 * j + 1)))) (r # rs)
        \<and> condense r (dw ! (2 * j)) (dw ! (2 * j + 1)) = mle (dp_Z (dc_weight (D' ! (2 * j))) @ dp_Z (dc_weight (D' ! (2 * j + 1)))) (r # rs)"
      if "j < length D' div 2" for j
    proof -
      have "2 * j < length D'" "2 * j + 1 < length D'" using that by linarith+
      then have j: "2 * j < length D'" "Suc (2 * j) < length D'" "dotp_ok ?m (D' ! (2 * j))" using D' by simp_all
      then have "length (dp_Z (dc_left (D' ! (2 * j)))) = 2 ^ length rs" "length (dp_Z (dc_right (D' ! (2 * j)))) = 2 ^ length rs"
        "length (dp_Z (dc_weight (D' ! (2 * j)))) = 2 ^ length rs"
        using ok_vars_length R(3) unfolding dotp_ok_def by metis+
      then show ?thesis using j by (simp add: dl_def dr_def dw_def sq_def condense_mle)
    qed
    then show ?thesis unfolding dotp_claims_def by (intro arg_cong [of _ _ concat] map_cong) simp_all
  qed
  define exp1 where "exp1 = sum_list (map (\<lambda>i. coeffs ! i * (ls ! i * rs' ! i * mle (dp_Z C) rs)) [0..<length Zs])"
  define exp2 where "exp2 = sum_list (map (\<lambda>i. coeffs ! (i + length Zs) * dl ! i * dr ! i * dw ! i) [0..<length D'])"
  have expected: "weighted (\<lambda>x. mle (fst x) rs * mle (fst (snd x)) rs * mle (snd (snd x)) rs) coeffs (batch_tables par C sq) = exp1 + exp2"
    unfolding batch_tables_def weighted_append exp1_def exp2_def length_map
    by (intro arg_cong2 [of _ _ _ _ "(+)"] arg_cong [of _ _ sum_list] map_cong)
      (simp_all add: par_def sq_def ls_def rs'_def dl_def dr_def dw_def case_prod_beta mult.commute mult.left_commute)
  have lr: "collect (map (\<lambda>c. result_bind (index (pc_left c) i) (\<lambda>l. result_bind (index (pc_right c) i) (\<lambda>r. Ok (l, r)))) (map (circuit_of k) Zs)) = Ok par"
    unfolding par_def map_map comp_def circuit_of_def product_circuit.simps
    by (rule collect_map_Ok) (use i(1) in \<open>simp add: index_def tree_layers_nth\<close>)
  obtain l r0 where hd: "index par 0 = Ok (l, r0)" "dp_len l + dp_len r0 = 2 * 2 ^ ?m"
    using Zs(1) by (cases Zs) (auto simp: par_def halves_def index_def)
  have C: "dense_new (eq_evals rand) = Ok C" using dense_new_ok [of "eq_evals rand" ?m] i(2) by (simp add: C_def eq_evals_table)
  have Clen: "dp_len C = 2 ^ ?m" by (simp add: C_def)
  have half: "(dp_len l + dp_len r0) div 2 = 2 ^ ?m" using hd(2) by simp
  have dv: "collect (map (\<lambda>d. result_bind (dotp_evaluate d) (\<lambda>v.
      if dp_len (dc_left d) = 2 ^ ?m \<and> dp_len (dc_right d) = 2 ^ ?m \<and> dp_len (dc_weight d) = 2 ^ ?m then Ok v else Panic)) D') = Ok (map dotp_value D')"
    by (rule collect_map_Ok) (use D' in \<open>auto simp: dotp_evaluate_value dotp_ok_def ok_vars_length dest!: bspec\<close>)
  define p where "p = \<lparr>bl_proof = polys, bl_left = ls, bl_right = rs'\<rparr>"
  have P: "prove_batched_layer tr (map (circuit_of k) Zs) D i prods rand s = Ok (p, (dl, dr, dw), map (\<lambda>Z. mle (level k i Z) (r # rs)) Zs, r # rs, s')"
    unfolding prove_batched_layer_def lr result_bind.simps hd(1) prod.case Let_def C half Clen log_2_pow2 D'_def [symmetric] dv claims_def [symmetric] co
      sq_def [symmetric] R(1)
    by (simp add: ch out p_def)
  have V: "verify_batched_layer tr (length Zs) (if i = 0 then (dl, dr, dw) else dd) (map dotp_value D) (i = 0) p ?m prods rand s
      = Ok (map (\<lambda>Z. mle (level k i Z) (r # rs)) Zs, if i = 0 then dotp_claims D (r # rs) else [], r # rs, s')"
  proof (cases "i = 0")
    case True
    then have D'': "D' = D" by (simp add: D'_def)
    show ?thesis
      using True R(2,3,4) i(2) lens lc co ch out dout
      unfolding verify_batched_layer_def claims_def D'' p_def expected exp1_def exp2_def sumcheck_verify_def Let_def
      by (simp add: eq)
  next
    case False
    then have D'': "D' = []" by (simp add: D'_def)
    have "append_dotps tr dl dr dw = (\<lambda>s. s)" using lens D'' by (simp add: append_dotps_def fun_eq_iff)
    then show ?thesis
      using False R(2,3,4) i(2) lens lc co ch out
      unfolding verify_batched_layer_def claims_def D'' p_def expected exp1_def exp2_def sumcheck_verify_def Let_def
      by (cases dd) (simp add: eq)
  qed
  show ?thesis by (rule that [OF P [unfolded prods_def] _ V [unfolded prods_def]]) (simp add: R(3))
qed

section \<open>The whole argument\<close>

lemma verify_batched_layers_Cons:
  assumes "verify_batched_layer tr n dotp dvals (ps = []) p m claims rand s = Ok (claims', ds, rand', s')"
  shows "verify_batched_layers tr n dotp dvals m (p # ps) claims dclaims rand s
    = verify_batched_layers tr n dotp dvals (Suc m) ps claims' (dclaims @ ds) rand' s'"
  using assms by simp

lemma batched_layers_complete:
  fixes Zs :: "'f::field list list"
  assumes two: "(2 :: 'f) \<noteq> 0" "(3 :: 'f) \<noteq> 0" and Zs: "Zs \<noteq> []" "\<forall>Z\<in>set Zs. length Z = 2 ^ Suc k" and D: "\<forall>d\<in>set D. dotp_ok k d"
  shows "j \<le> k \<Longrightarrow> length rand = k - j \<Longrightarrow>
    \<exists>ps rand' s'. prove_batched_layers tr (map (circuit_of k) Zs) D (rev [0..<Suc j])
          (map (\<lambda>Z. mle (pair_products (k - j) (level k j Z)) rand) Zs) rand s = Ok (ps, rand', s')
      \<and> length rand' = Suc k \<and> length (bp_layers ps) = Suc j
      \<and> verify_batched_layers tr (length Zs) (bp_dotp ps) (map dotp_value D) (k - j) (bp_layers ps)
          (map (\<lambda>Z. mle (pair_products (k - j) (level k j Z)) rand) Zs) ds rand s
        = Ok (map (\<lambda>Z. mle Z rand') Zs, ds @ dotp_claims D rand', rand', s')"
proof (induction j arbitrary: rand s ds)
  case 0
  obtain p d rand' s' where l:
    "prove_batched_layer tr (map (circuit_of k) Zs) D 0 (map (\<lambda>Z. mle (pair_products (k - 0) (level k 0 Z)) rand) Zs) rand s
      = Ok (p, d, map (\<lambda>Z. mle (level k 0 Z) rand') Zs, rand', s')"
    "length rand' = Suc (k - 0)"
    "verify_batched_layer tr (length Zs) d (map dotp_value D) True p (k - 0)
        (map (\<lambda>Z. mle (pair_products (k - 0) (level k 0 Z)) rand) Zs) rand s
      = Ok (map (\<lambda>Z. mle (level k 0 Z) rand') Zs, dotp_claims D rand', rand', s')"
    using batched_layer_complete [OF two Zs 0 D, where dd = "([], [], [])" and tr = tr and s = s] unfolding simp_thms(6) if_True by metis
  then show ?case
    by (intro exI [of _ "\<lparr>bp_layers = [p], bp_dotp = d\<rparr>"] exI [of _ rand'] exI [of _ s']) simp
next
  case (Suc j)
  let ?cl = "\<lambda>j r. map (\<lambda>Z. mle (pair_products (k - j) (level k j Z)) r) Zs"
  have kj: "Suc (k - Suc j) = k - j" using Suc.prems(1) by linarith
  have j: "j \<le> k" using Suc.prems(1) by simp
  have ne: "Suc j \<noteq> 0" "(Suc j = 0) = False" by simp_all
  have each: "\<exists>p d rand' s'. prove_batched_layer tr (map (circuit_of k) Zs) D (Suc j) (?cl (Suc j) rand) rand s
      = Ok (p, d, map (\<lambda>Z. mle (level k (Suc j) Z) rand') Zs, rand', s') \<and> length rand' = k - j
    \<and> verify_batched_layer tr (length Zs) dd (map dotp_value D) False p (k - Suc j) (?cl (Suc j) rand) rand s
      = Ok (map (\<lambda>Z. mle (level k (Suc j) Z) rand') Zs, [], rand', s')" for dd
    using batched_layer_complete [OF two Zs Suc.prems D, where dd = dd and tr = tr and s = s] unfolding ne if_False kj by metis
  then obtain p d rand1 s1 where l1: "prove_batched_layer tr (map (circuit_of k) Zs) D (Suc j) (?cl (Suc j) rand) rand s
      = Ok (p, d, map (\<lambda>Z. mle (level k (Suc j) Z) rand1) Zs, rand1, s1)" "length rand1 = k - j" by blast
  have v1: "verify_batched_layer tr (length Zs) dd (map dotp_value D) False p (k - Suc j) (?cl (Suc j) rand) rand s
      = Ok (map (\<lambda>Z. mle (level k (Suc j) Z) rand1) Zs, [], rand1, s1)" for dd
    using each [of dd] l1(1) by auto
  have next_cl: "map (\<lambda>Z. mle (level k (Suc j) Z) rand1) Zs = ?cl j rand1" by simp
  obtain ps rand' s' where IH: "prove_batched_layers tr (map (circuit_of k) Zs) D (rev [0..<Suc j]) (?cl j rand1) rand1 s1 = Ok (ps, rand', s')"
    "length rand' = Suc k" "length (bp_layers ps) = Suc j"
    "verify_batched_layers tr (length Zs) (bp_dotp ps) (map dotp_value D) (k - j) (bp_layers ps) (?cl j rand1) (ds @ []) rand1 s1
      = Ok (map (\<lambda>Z. mle Z rand') Zs, ds @ dotp_claims D rand', rand', s')"
    using Suc.IH [OF j l1(2), of s1 ds] by auto
  have ids: "rev [0..<Suc (Suc j)] = Suc j # rev [0..<Suc j]" by simp
  have nonempty: "bp_layers ps \<noteq> []" "rev [0..<Suc j] \<noteq> []" using IH(3) by auto
  have "prove_batched_layers tr (map (circuit_of k) Zs) D (rev [0..<Suc (Suc j)]) (?cl (Suc j) rand) rand s
      = Ok (\<lparr>bp_layers = p # bp_layers ps, bp_dotp = bp_dotp ps\<rparr>, rand', s')"
    unfolding ids prove_batched_layers.simps l1(1) result_bind.simps prod.case next_cl IH(1) using nonempty(2) by simp
  moreover have "verify_batched_layers tr (length Zs) (bp_dotp ps) (map dotp_value D) (k - Suc j) (p # bp_layers ps) (?cl (Suc j) rand) ds rand s
      = Ok (map (\<lambda>Z. mle Z rand') Zs, ds @ dotp_claims D rand', rand', s')"
  proof -
    have "verify_batched_layer tr (length Zs) (bp_dotp ps) (map dotp_value D) (bp_layers ps = []) p (k - Suc j) (?cl (Suc j) rand) rand s
        = Ok (?cl j rand1, [], rand1, s1)" using v1 nonempty(1) by simp
    from verify_batched_layers_Cons [OF this] show ?thesis unfolding kj using IH(4) by simp
  qed
  ultimately show ?case using IH(2,3) by (intro exI [of _ "\<lparr>bp_layers = p # bp_layers ps, bp_dotp = bp_dotp ps\<rparr>"] exI [of _ rand'] exI [of _ s']) simp
qed

lemma batched_complete:
  fixes Zs :: "'f::field list list"
  assumes two: "(2 :: 'f) \<noteq> 0" "(3 :: 'f) \<noteq> 0" and Zs: "Zs \<noteq> []" "\<forall>Z\<in>set Zs. length Z = 2 ^ Suc k" and D: "\<forall>d\<in>set D. dotp_ok k d"
  obtains ps rand s' where "batched_prove tr (map (circuit_of k) Zs) D s = Ok (ps, rand, s')" "length rand = Suc k"
    "batched_verify tr ps (map prod_list Zs) (map dotp_value D) (2 ^ Suc k) s = Ok (map (\<lambda>Z. mle Z rand) Zs, dotp_claims D rand, rand, s')"
proof -
  have top: "mle (pair_products (k - k) (level k k Z)) [] = prod_list Z" if "Z \<in> set Zs" for Z
  proof -
    have Z: "length Z = 2 ^ Suc k" using that Zs(2) by blast
    have "length (level k k Z) = 2" using length_level [OF Z order_refl] by simp
    then obtain a b where ab: "level k k Z = [a, b]" by (auto simp: length_Suc_conv eval_nat_numeral)
    have "prod_list (level k k Z) = prod_list Z" using prod_level [OF Z order_refl] .
    then show ?thesis by (simp add: ab pair_products_def mle_Nil)
  qed
  then have cl: "map (\<lambda>Z. mle (pair_products (k - k) (level k k Z)) []) Zs = map prod_list Zs" by simp
  have ev: "collect (map product_evaluate (map (circuit_of k) Zs)) = Ok (map prod_list Zs)"
    unfolding map_map comp_def circuit_of_def using Zs(2) by (intro collect_map_Ok product_evaluate_tree) blast
  have len: "length (pc_left (hd (map (circuit_of k) Zs))) = Suc k" using Zs(1) by (cases Zs) (simp_all add: circuit_of_def)
  from batched_layers_complete [OF two Zs D order_refl, of "[]" tr s "[]", unfolded cl] obtain ps rand s' where
    L: "prove_batched_layers tr (map (circuit_of k) Zs) D (rev [0..<Suc k]) (map prod_list Zs) [] s = Ok (ps, rand, s')"
      "length rand = Suc k" "length (bp_layers ps) = Suc k"
      "verify_batched_layers tr (length Zs) (bp_dotp ps) (map dotp_value D) (k - k) (bp_layers ps) (map prod_list Zs) [] [] s
        = Ok (map (\<lambda>Z. mle Z rand) Zs, [] @ dotp_claims D rand, rand, s')"
    by (auto simp del: upt_Suc)
  have "batched_prove tr (map (circuit_of k) Zs) D s = Ok (ps, rand, s')"
    unfolding batched_prove_def ev len result_bind.simps using Zs(1) L(1) by simp
  moreover have "batched_verify tr ps (map prod_list Zs) (map dotp_value D) (2 ^ Suc k) s = Ok (map (\<lambda>Z. mle Z rand) Zs, dotp_claims D rand, rand, s')"
    unfolding batched_verify_def log_2_pow2 result_bind.simps using L(3,4) by simp
  ultimately show ?thesis using that L(2) by blast
qed

section \<open>Property\<close>

text \<open>C39: completeness of the batched argument: for tables of one size and dot-product circuits of half that size, the
  circuits build and the prover succeeds; the verifier accepts the products and the dot products, and ends with the
  evaluations of the tables, and of the dot-product tables joined in pairs, at the point of the last layer.\<close>

theorem batched_proof_complete:
  fixes ps :: "'f::field dense_poly list"
  assumes "(2 :: 'f) \<noteq> 0" "(3 :: 'f) \<noteq> 0" "ps \<noteq> []" "\<forall>p\<in>set ps. dense_ok p \<and> dp_num_vars p = Suc k" "\<forall>d\<in>set D. dotp_ok k d"
  shows "\<exists>cs vals pf claims rand s'. collect (map product_new ps) = Ok cs \<and> collect (map dotp_evaluate D) = Ok vals
    \<and> batched_prove tr cs D s = Ok (pf, rand, s')
    \<and> batched_verify tr pf (map (\<lambda>p. prod_list (dp_Z p)) ps) vals (2 ^ Suc k) s = Ok (claims, dotp_claims D rand, rand, s')
    \<and> collect (map (\<lambda>p. dense_evaluate p rand) ps) = Ok claims"
proof -
  have ne: "map dp_Z ps \<noteq> []" and len: "\<forall>Z\<in>set (map dp_Z ps). length Z = 2 ^ Suc k" using assms(3,4) by (auto simp: dense_ok_def)
  obtain pf rand s' where b: "batched_prove tr (map (circuit_of k) (map dp_Z ps)) D s = Ok (pf, rand, s')" "length rand = Suc k"
    "batched_verify tr pf (map prod_list (map dp_Z ps)) (map dotp_value D) (2 ^ Suc k) s
      = Ok (map (\<lambda>Z. mle Z rand) (map dp_Z ps), dotp_claims D rand, rand, s')"
    using batched_complete [OF assms(1,2) ne len assms(5), of tr s] by metis
  have "collect (map product_new ps) = Ok (map (\<lambda>p. circuit_of k (dp_Z p)) ps)"
    using assms(4) by (intro collect_map_Ok) (simp add: product_new_tree circuit_of_def)
  moreover have "collect (map dotp_evaluate D) = Ok (map dotp_value D)"
    using assms(5) by (intro collect_map_Ok dotp_evaluate_value) blast
  moreover have "collect (map (\<lambda>p. dense_evaluate p rand) ps) = Ok (map (\<lambda>p. mle (dp_Z p) rand) ps)"
    using assms(4) b(2) by (intro collect_map_Ok dense_evaluate_mle) simp_all
  ultimately show ?thesis using b by (simp add: comp_def)
qed

lemma batched_proof_complete_witness:
  "\<exists>cs vals pf claims rand s'. collect (map product_new [\<lparr>dp_num_vars = 2, dp_len = 4, dp_Z = [2, 3, 5, 7 :: rat]\<rparr>]) = Ok cs
    \<and> collect (map dotp_evaluate [\<lparr>dc_left = \<lparr>dp_num_vars = 1, dp_len = 2, dp_Z = [1, 2]\<rparr>, dc_right = \<lparr>dp_num_vars = 1, dp_len = 2, dp_Z = [3, 4]\<rparr>,
        dc_weight = \<lparr>dp_num_vars = 1, dp_len = 2, dp_Z = [1, 1]\<rparr>\<rparr>]) = Ok vals
    \<and> batched_prove \<lparr>tr_message = \<lambda>s _ _. s + 1, tr_bytes = \<lambda>s _ _. ([], s), tr_serialize = \<lambda>_. [], tr_from_bytes = \<lambda>_. 5\<rparr> cs [\<lparr>dc_left = \<lparr>dp_num_vars = 1, dp_len = 2, dp_Z = [1, 2]\<rparr>, dc_right = \<lparr>dp_num_vars = 1, dp_len = 2, dp_Z = [3, 4]\<rparr>,
        dc_weight = \<lparr>dp_num_vars = 1, dp_len = 2, dp_Z = [1, 1]\<rparr>\<rparr>] (0 :: nat) = Ok (pf, rand, s')
    \<and> batched_verify \<lparr>tr_message = \<lambda>s _ _. s + 1, tr_bytes = \<lambda>s _ _. ([], s), tr_serialize = \<lambda>_. [], tr_from_bytes = \<lambda>_. 5\<rparr> pf (map (\<lambda>p. prod_list (dp_Z p)) [\<lparr>dp_num_vars = 2, dp_len = 4, dp_Z = [2, 3, 5, 7 :: rat]\<rparr>]) vals (2 ^ Suc 1) 0
      = Ok (claims, dotp_claims [\<lparr>dc_left = \<lparr>dp_num_vars = 1, dp_len = 2, dp_Z = [1, 2]\<rparr>, dc_right = \<lparr>dp_num_vars = 1, dp_len = 2, dp_Z = [3, 4]\<rparr>,
        dc_weight = \<lparr>dp_num_vars = 1, dp_len = 2, dp_Z = [1, 1]\<rparr>\<rparr>] rand, rand, s')
    \<and> collect (map (\<lambda>p. dense_evaluate p rand) [\<lparr>dp_num_vars = 2, dp_len = 4, dp_Z = [2, 3, 5, 7 :: rat]\<rparr>]) = Ok claims"
  by (rule batched_proof_complete) (simp_all add: dense_ok_def dotp_ok_def ok_vars_def)

end
