(* ===== verification/Sparse_Mat.thy ===== *)
theory Sparse_Mat
  imports Batched_Correct
begin

text \<open>
  Sparse matrix polynomials with a memory-checked evaluation (\<^verbatim>\<open>spartan/src/sparse_mlpoly.rs\<close>, the data): matrices as
  lists of entries, their representation by vectors of addresses, timestamps and values, the dereferenced tables, the
  hashed memory, and the network of product circuits over it.
\<close>

section \<open>Addresses and timestamps\<close>

record 'f addr_timestamps =
  at_addr_usize :: "nat list list"
  at_addr :: "'f dense_poly list"
  at_read :: "'f dense_poly list"
  at_audit :: "'f dense_poly"

text \<open>One pass over the operations: the read timestamps, and the timestamps of the cells after it.\<close>

fun ts_ops :: "nat \<Rightarrow> nat list \<Rightarrow> nat list \<Rightarrow> (nat list \<times> nat list) result" where
  "ts_ops num_cells [] audit = Ok ([], audit)"
| "ts_ops num_cells (a # as) audit = (if a < num_cells then
     result_bind (index audit a) (\<lambda>r_ts. result_bind (ts_ops num_cells as (audit[a := r_ts + 1])) (\<lambda>(rs, audit). Ok (r_ts # rs, audit)))
   else Panic)"

fun ts_insts :: "nat \<Rightarrow> nat list list \<Rightarrow> nat list \<Rightarrow> (nat list list \<times> nat list) result" where
  "ts_insts num_cells [] audit = Ok ([], audit)"
| "ts_insts num_cells (ops # rest) audit = result_bind (ts_ops num_cells ops audit) (\<lambda>(rs, audit).
     result_bind (ts_insts num_cells rest audit) (\<lambda>(rss, audit). Ok (rs # rss, audit)))"

definition addr_new :: "nat \<Rightarrow> nat \<Rightarrow> nat list list \<Rightarrow> 'f::field addr_timestamps result" where
  "addr_new num_cells num_ops ops_addr = (if \<exists>item\<in>set ops_addr. length item \<noteq> num_ops then Panic else
     result_bind (ts_insts num_cells ops_addr (replicate num_cells 0)) (\<lambda>(read_ts, audit_ts).
     result_bind (collect (map dense_from_usize ops_addr)) (\<lambda>addrs. result_bind (collect (map dense_from_usize read_ts)) (\<lambda>reads.
     result_bind (dense_from_usize audit_ts) (\<lambda>audit.
       Ok \<lparr>at_addr_usize = ops_addr, at_addr = addrs, at_read = reads, at_audit = audit\<rparr>)))))"

definition deref_mem :: "nat list \<Rightarrow> 'f list \<Rightarrow> 'f dense_poly result" where
  "deref_mem addr mem_val = result_bind (collect (map (index mem_val) addr)) dense_new"

definition deref :: "'f addr_timestamps \<Rightarrow> 'f list \<Rightarrow> 'f dense_poly list result" where
  "deref ts mem_val = collect (map (\<lambda>i. result_bind (index (at_addr_usize ts) i) (\<lambda>addr. deref_mem addr mem_val)) [0..<length (at_addr ts)])"

record 'f derefs =
  de_row :: "'f dense_poly list"
  de_col :: "'f dense_poly list"
  de_comb :: "'f dense_poly"

definition derefs_new :: "'f::field dense_poly list \<Rightarrow> 'f dense_poly list \<Rightarrow> 'f derefs result" where
  "derefs_new row col = (if length row \<noteq> length col then Panic
     else result_bind (dense_merge (row @ col)) (\<lambda>comb. Ok \<lparr>de_row = row, de_col = col, de_comb = comb\<rparr>))"

section \<open>Matrices\<close>

record 'f sparse_entry =
  se_row :: nat
  se_col :: nat
  se_val :: 'f

record 'f sparse_mat =
  mp_num_vars_x :: nat
  mp_num_vars_y :: nat
  mp_M :: "'f sparse_entry list"

record 'f multi_dense =
  md_batch_size :: nat
  md_val :: "'f dense_poly list"
  md_row :: "'f addr_timestamps"
  md_col :: "'f addr_timestamps"
  md_comb_ops :: "'f dense_poly"
  md_comb_mem :: "'f dense_poly"

definition get_num_nz_entries :: "'f sparse_mat \<Rightarrow> nat" where
  "get_num_nz_entries p = next_power_of_two (length (mp_M p))"

definition sparse_to_dense_vecs :: "'f::field sparse_mat \<Rightarrow> nat \<Rightarrow> (nat list \<times> nat list \<times> 'f list) result" where
  "sparse_to_dense_vecs p N = (if N < get_num_nz_entries p then Panic
     else Ok (resize N 0 (map se_row (mp_M p)), resize N 0 (map se_col (mp_M p)), resize N 0 (map se_val (mp_M p))))"

definition multi_sparse_to_dense_rep :: "'f::field sparse_mat list \<Rightarrow> 'f multi_dense result" where
  "multi_sparse_to_dense_rep polys = (case polys of [] \<Rightarrow> Panic | any_poly # _ \<Rightarrow>
     if \<exists>p\<in>set polys. mp_num_vars_x p \<noteq> mp_num_vars_x any_poly \<or> mp_num_vars_y p \<noteq> mp_num_vars_y any_poly then Panic else
     let N = next_power_of_two (Max (get_num_nz_entries ` set polys)) in
     result_bind (collect (map (\<lambda>p. sparse_to_dense_vecs p N) polys)) (\<lambda>vecs.
     result_bind (collect (map (\<lambda>v. dense_new (snd (snd v))) vecs)) (\<lambda>val_vec.
     let num_mem_cells = (if mp_num_vars_x any_poly > mp_num_vars_y any_poly then 2 ^ mp_num_vars_x any_poly else 2 ^ mp_num_vars_y any_poly) in
     result_bind (addr_new num_mem_cells N (map fst vecs)) (\<lambda>row. result_bind (addr_new num_mem_cells N (map (fst \<circ> snd) vecs)) (\<lambda>col.
     result_bind (dense_merge (at_addr row @ at_read row @ at_addr col @ at_read col @ val_vec)) (\<lambda>comb_ops.
     result_bind (dense_extend (at_audit row) (at_audit col)) (\<lambda>comb_mem.
       Ok \<lparr>md_batch_size = length polys, md_val = val_vec, md_row = row, md_col = col, md_comb_ops = comb_ops, md_comb_mem = comb_mem\<rparr>)))))))"

definition evaluate_with_tables :: "'f::field sparse_mat \<Rightarrow> 'f list \<Rightarrow> 'f list \<Rightarrow> 'f result" where
  "evaluate_with_tables p tx ty = (if 2 ^ mp_num_vars_x p \<noteq> length tx \<or> 2 ^ mp_num_vars_y p \<noteq> length ty then Panic
     else result_bind (collect (map (\<lambda>e. result_bind (index tx (se_row e)) (\<lambda>a. result_bind (index ty (se_col e)) (\<lambda>b. Ok (a * b * se_val e)))) (mp_M p)))
       (\<lambda>ts. Ok (sum_list ts)))"

definition multi_evaluate :: "'f::field sparse_mat list \<Rightarrow> 'f list \<Rightarrow> 'f list \<Rightarrow> 'f list result" where
  "multi_evaluate polys rx ry = collect (map (\<lambda>p. evaluate_with_tables p (eq_evals rx) (eq_evals ry)) polys)"

text \<open>Adding to an entry of a vector.\<close>

definition add_at :: "nat \<Rightarrow> 'f::field \<Rightarrow> 'f list \<Rightarrow> 'f list result" where
  "add_at i v xs = result_bind (index xs i) (\<lambda>x. Ok (xs[i := x + v]))"

fun add_all :: "(nat \<times> 'f::field) list \<Rightarrow> 'f list \<Rightarrow> 'f list result" where
  "add_all [] xs = Ok xs"
| "add_all ((i, v) # ivs) xs = result_bind (add_at i v xs) (add_all ivs)"

definition spm_multiply_vec :: "'f::field sparse_mat \<Rightarrow> nat \<Rightarrow> nat \<Rightarrow> 'f list \<Rightarrow> 'f list result" where
  "spm_multiply_vec p num_rows num_cols z = (if length z \<noteq> num_cols then Panic else
     result_bind (collect (map (\<lambda>e. result_bind (index z (se_col e)) (\<lambda>y. Ok (se_row e, se_val e * y))) (mp_M p)))
       (\<lambda>ivs. add_all ivs (replicate num_rows 0)))"

definition compute_eval_table_sparse :: "'f::field sparse_mat \<Rightarrow> 'f list \<Rightarrow> nat \<Rightarrow> nat \<Rightarrow> 'f list result" where
  "compute_eval_table_sparse p rx num_rows num_cols = (if length rx \<noteq> num_rows then Panic else
     result_bind (collect (map (\<lambda>e. result_bind (index rx (se_row e)) (\<lambda>x. Ok (se_col e, x * se_val e))) (mp_M p)))
       (\<lambda>ivs. add_all ivs (replicate num_cols 0)))"

definition multi_deref :: "'f::field multi_dense \<Rightarrow> 'f list \<Rightarrow> 'f list \<Rightarrow> 'f derefs result" where
  "multi_deref md row_mem_val col_mem_val = result_bind (deref (md_row md) row_mem_val) (\<lambda>row.
     result_bind (deref (md_col md) col_mem_val) (\<lambda>col. derefs_new row col))"

section \<open>The hashed memory\<close>

record 'f product_layer =
  pl_init :: "'f product_circuit"
  pl_read :: "'f product_circuit list"
  pl_write :: "'f product_circuit list"
  pl_audit :: "'f product_circuit"

definition hash_func :: "'f::field \<Rightarrow> 'f \<Rightarrow> 'f \<Rightarrow> 'f \<Rightarrow> 'f" where
  "hash_func r_hash addr val ts = ts * (r_hash * r_hash) + val * r_hash + addr"

text \<open>The hash of a read (\<open>inc\<close> is 0) or a write (\<open>inc\<close> is 1) of every operation of an instance.\<close>

definition hash_ops :: "'f::field \<Rightarrow> 'f \<Rightarrow> 'f \<Rightarrow> 'f dense_poly \<Rightarrow> 'f dense_poly \<Rightarrow> 'f dense_poly \<Rightarrow> 'f dense_poly result" where
  "hash_ops r_hash r_multiset inc addrs derefs ts = (if dp_len addrs \<noteq> dp_len derefs \<or> dp_len addrs \<noteq> dp_len ts then Panic else
     result_bind (collect (map (\<lambda>i. result_bind (index (dp_Z addrs) i) (\<lambda>a. result_bind (index (dp_Z derefs) i) (\<lambda>v. result_bind (index (dp_Z ts) i) (\<lambda>t.
       Ok (hash_func r_hash a v (t + inc) - r_multiset))))) [0..<dp_len addrs])) dense_new)"

definition build_hash_layer ::
  "'f::field list \<Rightarrow> 'f dense_poly list \<Rightarrow> 'f dense_poly list \<Rightarrow> 'f dense_poly list \<Rightarrow> 'f dense_poly \<Rightarrow> 'f \<times> 'f
   \<Rightarrow> ('f dense_poly \<times> 'f dense_poly list \<times> 'f dense_poly list \<times> 'f dense_poly) result" where
  "build_hash_layer eval_table addrs_vec derefs_vec read_ts_vec audit_ts rs = (case rs of (r_hash, r_multiset) \<Rightarrow>
     result_bind (dense_new (map (\<lambda>i. hash_func r_hash (of_nat i) (eval_table ! i) 0 - r_multiset) [0..<length eval_table])) (\<lambda>init.
     result_bind (result_bind (collect (map (\<lambda>i. result_bind (index (dp_Z audit_ts) i) (\<lambda>t.
       Ok (hash_func r_hash (of_nat i) (eval_table ! i) t - r_multiset))) [0..<length eval_table])) dense_new) (\<lambda>audit.
     result_bind (collect (map (\<lambda>i. result_bind (index addrs_vec i) (\<lambda>a. result_bind (index derefs_vec i) (\<lambda>d. result_bind (index read_ts_vec i) (\<lambda>t.
       result_bind (hash_ops r_hash r_multiset 0 a d t) (\<lambda>r. result_bind (hash_ops r_hash r_multiset 1 a d t) (\<lambda>w. Ok (r, w))))))) [0..<length addrs_vec])) (\<lambda>rw.
     Ok (init, map fst rw, map snd rw, audit)))))"

definition layers_new :: "'f::field list \<Rightarrow> 'f addr_timestamps \<Rightarrow> 'f dense_poly list \<Rightarrow> 'f \<times> 'f \<Rightarrow> 'f product_layer result" where
  "layers_new eval_table ts poly_ops_val r_mem_check =
     result_bind (build_hash_layer eval_table (at_addr ts) poly_ops_val (at_read ts) (at_audit ts) r_mem_check) (\<lambda>(init, reads, writes, audit).
     result_bind (product_new init) (\<lambda>pi. result_bind (collect (map product_new reads)) (\<lambda>pr. result_bind (collect (map product_new writes)) (\<lambda>pw.
     result_bind (product_new audit) (\<lambda>pa.
     result_bind (collect (map product_evaluate pw)) (\<lambda>_. result_bind (product_evaluate pi) (\<lambda>_.
     result_bind (collect (map product_evaluate pr)) (\<lambda>_. result_bind (product_evaluate pa) (\<lambda>_.
       Ok \<lparr>pl_init = pi, pl_read = pr, pl_write = pw, pl_audit = pa\<rparr>)))))))))"

record 'f eval_network =
  en_row :: "'f product_layer"
  en_col :: "'f product_layer"

definition network_new :: "'f::field multi_dense \<Rightarrow> 'f derefs \<Rightarrow> 'f list \<Rightarrow> 'f list \<Rightarrow> 'f \<times> 'f \<Rightarrow> 'f eval_network result" where
  "network_new dense derefs mem_rx mem_ry r_mem_check =
     result_bind (layers_new mem_rx (md_row dense) (de_row derefs) r_mem_check) (\<lambda>row.
     result_bind (layers_new mem_ry (md_col dense) (de_col derefs) r_mem_check) (\<lambda>col. Ok \<lparr>en_row = row, en_col = col\<rparr>))"

definition equalize :: "'f::field list \<Rightarrow> 'f list \<Rightarrow> 'f list \<times> 'f list" where
  "equalize rx ry =
     (if length rx < length ry then (replicate (length ry - length rx) 0 @ rx, ry)
      else if length ry < length rx then (rx, replicate (length rx - length ry) 0 @ ry)
      else (rx, ry))"

end
