(* ===== verification/Sparse_Mat_Correct.thy ===== *)
theory Sparse_Mat_Correct
  imports Sparse_Mat "HOL-Library.Multiset"
begin

text \<open>
  The memory check of sparse matrices: the timestamps make the set of initial cells and writes equal to the set of reads
  and final cells, so the products of their hashes agree; and the dereferenced tables give the evaluation of the matrix.
\<close>

section \<open>Timestamps\<close>

text \<open>The cells of a memory with their timestamps.\<close>

definition cells :: "nat list \<Rightarrow> (nat \<times> nat) multiset" where
  "cells audit = mset (enumerate 0 audit)"

lemma enumerate_update: "i < length xs \<Longrightarrow> enumerate 0 (xs[i := x]) = (enumerate 0 xs)[i := (i, x)]"
  by (rule nth_equalityI) (auto simp: nth_enumerate_eq nth_list_update)

lemma cells_write: "a < length audit \<Longrightarrow> add_mset (a, t) (cells audit) = add_mset (a, audit ! a) (cells (audit[a := t]))"
proof -
  assume a: "a < length audit"
  then have "(a, audit ! a) \<in># cells audit" using nth_mem [of a "enumerate 0 audit"] by (simp add: cells_def nth_enumerate_eq)
  moreover have "cells (audit[a := t]) = add_mset (a, t) (cells audit - {#(a, audit ! a)#})"
    using a by (simp add: cells_def enumerate_update mset_update nth_enumerate_eq)
  ultimately show ?thesis by simp
qed

lemma ts_ops_balanced:
  "\<forall>a\<in>set as. a < nc \<Longrightarrow> length audit = nc \<Longrightarrow> \<exists>rs audit'. ts_ops nc as audit = Ok (rs, audit') \<and> length rs = length as \<and> length audit' = nc
    \<and> cells audit + mset (zip as (map Suc rs)) = mset (zip as rs) + cells audit'"
proof (induction "as" arbitrary: audit)
  case (Cons a "as")
  then have a: "a < length audit" by simp
  let ?au = "audit[a := Suc (audit ! a)]"
  obtain rs audit' where IH: "ts_ops nc as ?au = Ok (rs, audit')" "length rs = length as" "length audit' = nc"
    "cells ?au + mset (zip as (map Suc rs)) = mset (zip as rs) + cells audit'" using Cons.IH [of ?au] Cons.prems by auto
  have "cells audit + mset (zip (a # as) (map Suc (audit ! a # rs))) = add_mset (a, Suc (audit ! a)) (cells audit) + mset (zip as (map Suc rs))" by simp
  also have "\<dots> = add_mset (a, audit ! a) (mset (zip as rs) + cells audit')" unfolding cells_write [OF a] using IH(4) by simp
  finally show ?case using IH a Cons.prems by (intro exI [of _ "audit ! a # rs"] exI [of _ audit']) simp
qed simp

lemma ts_insts_balanced:
  "\<forall>as\<in>set ops. \<forall>a\<in>set as. a < nc \<Longrightarrow> length audit = nc \<Longrightarrow> \<exists>rss audit'. ts_insts nc ops audit = Ok (rss, audit')
    \<and> list_all2 (\<lambda>as rs. length rs = length as) ops rss \<and> length audit' = nc
    \<and> cells audit + sum_list (map2 (\<lambda>as rs. mset (zip as (map Suc rs))) ops rss) = sum_list (map2 (\<lambda>as rs. mset (zip as rs)) ops rss) + cells audit'"
proof (induction ops arbitrary: audit)
  case (Cons "as" ops)
  obtain rs au where 1: "ts_ops nc as audit = Ok (rs, au)" "length rs = length as" "length au = nc"
    "cells audit + mset (zip as (map Suc rs)) = mset (zip as rs) + cells au" using ts_ops_balanced [of "as" nc audit] Cons.prems by auto
  obtain rss audit' where 2: "ts_insts nc ops au = Ok (rss, audit')" "list_all2 (\<lambda>as rs. length rs = length as) ops rss" "length audit' = nc"
    "cells au + sum_list (map2 (\<lambda>as rs. mset (zip as (map Suc rs))) ops rss) = sum_list (map2 (\<lambda>as rs. mset (zip as rs)) ops rss) + cells audit'"
    using Cons.IH [of au] Cons.prems 1(3) by auto
  have "cells audit + (mset (zip as (map Suc rs)) + sum_list (map2 (\<lambda>as rs. mset (zip as (map Suc rs))) ops rss))
      = mset (zip as rs) + (cells au + sum_list (map2 (\<lambda>as rs. mset (zip as (map Suc rs))) ops rss))"
    using 1(4) by (simp add: add.assoc [symmetric])
  also have "\<dots> = mset (zip as rs) + sum_list (map2 (\<lambda>as rs. mset (zip as rs)) ops rss) + cells audit'" unfolding 2(4) by (simp add: add.assoc)
  finally show ?case using 1 2 by (intro exI [of _ "rs # rss"] exI [of _ audit']) simp
qed simp

section \<open>Products of hashes\<close>

text \<open>The product over a multiset of cells.\<close>

definition hash_prod :: "(nat \<Rightarrow> nat \<Rightarrow> 'f::field) \<Rightarrow> (nat \<times> nat) multiset \<Rightarrow> 'f" where
  "hash_prod h M = (\<Prod>(a, t)\<in>#M. h a t)"

lemma hash_prod_add: "hash_prod h (M + N) = hash_prod h M * hash_prod h N"
  by (simp add: hash_prod_def)

lemma hash_prod_mset: "hash_prod h (mset (zip as ts)) = prod_list (map2 h as ts)"
proof (induction "as" arbitrary: ts)
  case (Cons a "as")
  then show ?case by (cases ts) (simp_all add: hash_prod_def)
qed (simp add: hash_prod_def)

lemma hash_prod_cells: "hash_prod h (cells audit) = prod_list (map (\<lambda>i. h i (audit ! i)) [0..<length audit])"
proof -
  have "cells audit = mset (zip [0..<length audit] audit)" by (simp add: cells_def enumerate_eq_zip)
  moreover have "map2 h [0..<length audit] audit = map (\<lambda>i. h i (audit ! i)) [0..<length audit]" by (intro nth_equalityI) simp_all
  ultimately show ?thesis by (simp add: hash_prod_mset)
qed

lemma hash_prod_sum: "hash_prod h (sum_list Ms) = prod_list (map (hash_prod h) Ms)"
  by (induction Ms) (simp_all add: hash_prod_add, simp add: hash_prod_def)

section \<open>The tables\<close>

definition vpoly :: "nat \<Rightarrow> 'f list \<Rightarrow> 'f dense_poly" where
  "vpoly n xs = \<lparr>dp_num_vars = n, dp_len = 2 ^ n, dp_Z = xs\<rparr>"

lemma vpoly_simps [simp]: "dp_num_vars (vpoly n xs) = n" "dp_len (vpoly n xs) = 2 ^ n" "dp_Z (vpoly n xs) = xs"
  by (simp_all add: vpoly_def)

lemma vpoly_ok: "length xs = 2 ^ n \<Longrightarrow> dense_ok (vpoly n xs)" "length xs = 2 ^ n \<Longrightarrow> ok_vars n (vpoly n xs)"
  by (simp_all add: dense_ok_def ok_vars_def)

lemma dense_new_vpoly: "length xs = 2 ^ n \<Longrightarrow> dense_new xs = Ok (vpoly n xs)"
  by (simp add: dense_new_ok vpoly_def)

lemma dense_from_usize_vpoly: "length xs = 2 ^ n \<Longrightarrow> dense_from_usize xs = Ok (vpoly n (map of_nat xs))"
proof -
  assume n: "length xs = 2 ^ n"
  have "map (\<lambda>i. of_nat (xs ! i)) [0..<length xs] = (map of_nat xs :: 'a list)" by (intro nth_equalityI) simp_all
  then show ?thesis using n by (simp only: dense_from_usize_def dense_new_vpoly length_map)
qed

text \<open>The addresses, read timestamps and final timestamps of a memory.\<close>

definition stamps :: "nat \<Rightarrow> nat \<Rightarrow> nat list list \<Rightarrow> nat list list \<Rightarrow> nat list \<Rightarrow> 'f::field addr_timestamps" where
  "stamps m k ops rss audit = \<lparr>at_addr_usize = ops, at_addr = map (\<lambda>as. vpoly k (map of_nat as)) ops,
     at_read = map (\<lambda>rs. vpoly k (map of_nat rs)) rss, at_audit = vpoly m (map of_nat audit)\<rparr>"

definition balanced :: "nat \<Rightarrow> nat \<Rightarrow> nat list list \<Rightarrow> nat list list \<Rightarrow> nat list \<Rightarrow> bool" where
  "balanced m k ops rss audit \<longleftrightarrow> list_all2 (\<lambda>as rs. length as = 2 ^ k \<and> length rs = 2 ^ k) ops rss \<and> length audit = 2 ^ m
     \<and> cells (replicate (2 ^ m) 0) + sum_list (map2 (\<lambda>as rs. mset (zip as (map Suc rs))) ops rss)
       = sum_list (map2 (\<lambda>as rs. mset (zip as rs)) ops rss) + cells audit"

definition in_range :: "nat \<Rightarrow> nat \<Rightarrow> nat list list \<Rightarrow> bool" where
  "in_range m k ops \<longleftrightarrow> (\<forall>as\<in>set ops. length as = 2 ^ k \<and> (\<forall>a\<in>set as. a < 2 ^ m))"

lemma addr_new_ok:
  assumes "in_range m k ops"
  obtains rss audit where "addr_new (2 ^ m) (2 ^ k) ops = Ok (stamps m k ops rss audit :: 'f::field addr_timestamps)" "balanced m k ops rss audit"
proof -
  have r: "\<forall>as\<in>set ops. \<forall>a\<in>set as. a < 2 ^ m" "\<forall>as\<in>set ops. length as = 2 ^ k" using assms by (simp_all add: in_range_def)
  obtain rss audit where t: "ts_insts (2 ^ m) ops (replicate (2 ^ m) 0) = Ok (rss, audit)"
    "list_all2 (\<lambda>as rs. length rs = length as) ops rss" "length audit = 2 ^ m"
    "cells (replicate (2 ^ m) 0) + sum_list (map2 (\<lambda>as rs. mset (zip as (map Suc rs))) ops rss)
      = sum_list (map2 (\<lambda>as rs. mset (zip as rs)) ops rss) + cells audit"
    using ts_insts_balanced [OF r(1), of "replicate (2 ^ m) 0"] by auto
  have all: "list_all2 (\<lambda>as rs. length as = 2 ^ k \<and> length rs = 2 ^ k) ops rss"
    using t(2) r(2) by (auto simp: list_all2_conv_all_nth)
  then have rss: "\<forall>rs\<in>set rss. length rs = 2 ^ k" by (auto simp: list_all2_conv_all_nth in_set_conv_nth)
  have "addr_new (2 ^ m) (2 ^ k) ops = Ok (stamps m k ops rss audit :: 'f addr_timestamps)"
    using r(2) rss t(1,3) by (auto simp: addr_new_def stamps_def dense_from_usize_vpoly)
  moreover have "balanced m k ops rss audit" using all t(3,4) by (simp add: balanced_def)
  ultimately show ?thesis using that by blast
qed

lemma deref_ok:
  assumes "in_range m k ops" "length mem = 2 ^ m"
  shows "deref (stamps m k ops rss audit) mem = Ok (map (\<lambda>as. vpoly k (map ((!) mem) as)) ops)"
proof -
  have "deref_mem as mem = Ok (vpoly k (map ((!) mem) as))" if "as \<in> set ops" for "as"
  proof -
    have r: "length as = 2 ^ k" "\<forall>a\<in>set as. a < 2 ^ m" using assms(1) that by (simp_all add: in_range_def)
    then have "collect (map (index mem) as) = Ok (map ((!) mem) as)" using assms(2) by (intro collect_map_Ok) simp
    then show ?thesis using r(1) by (simp add: deref_mem_def dense_new_vpoly)
  qed
  then have "collect (map (\<lambda>i. result_bind (index ops i) (\<lambda>addr. deref_mem addr mem)) [0..<length ops])
      = Ok (map (\<lambda>i. vpoly k (map ((!) mem) (ops ! i))) [0..<length ops])"
    by (intro collect_map_Ok) simp
  also have "map (\<lambda>i. vpoly k (map ((!) mem) (ops ! i))) [0..<length ops] = map (\<lambda>as. vpoly k (map ((!) mem) as)) ops"
    by (intro nth_equalityI) simp_all
  finally show ?thesis by (simp add: deref_def stamps_def)
qed

definition hash_cell :: "'f::field \<times> 'f \<Rightarrow> 'f list \<Rightarrow> nat \<Rightarrow> nat \<Rightarrow> 'f" where
  "hash_cell r mem a t = hash_func (fst r) (of_nat a) (mem ! a) (of_nat t) - snd r"

definition cell_table :: "'f::field \<times> 'f \<Rightarrow> 'f list \<Rightarrow> nat list \<Rightarrow> 'f list" where
  "cell_table r mem audit = map (\<lambda>i. hash_cell r mem i (audit ! i)) [0..<length audit]"

definition ops_table :: "'f::field \<times> 'f \<Rightarrow> 'f list \<Rightarrow> nat list \<Rightarrow> nat list \<Rightarrow> 'f list" where
  "ops_table r mem as ts = map2 (hash_cell r mem) as ts"

lemma hash_ops_table:
  assumes "length as = 2 ^ k" "length rs = 2 ^ k"
  shows "hash_ops (fst r) (snd r) 0 (vpoly k (map of_nat as)) (vpoly k (map ((!) mem) as)) (vpoly k (map of_nat rs)) = Ok (vpoly k (ops_table r mem as rs))"
    "hash_ops (fst r) (snd r) 1 (vpoly k (map of_nat as)) (vpoly k (map ((!) mem) as)) (vpoly k (map of_nat rs)) = Ok (vpoly k (ops_table r mem as (map Suc rs)))"
proof -
  have hops: "hash_ops (fst r) (snd r) inc (vpoly k (map of_nat as)) (vpoly k (map ((!) mem) as)) (vpoly k (map of_nat rs))
    = dense_new (map (\<lambda>i. hash_func (fst r) (of_nat (as ! i)) (mem ! (as ! i)) (of_nat (rs ! i) + inc) - snd r) [0..<2 ^ k])" for inc
  proof -
    have "collect (map (\<lambda>i. result_bind (index (map of_nat as) i) (\<lambda>a. result_bind (index (map ((!) mem) as) i) (\<lambda>v. result_bind (index (map of_nat rs) i) (\<lambda>t.
        Ok (hash_func (fst r) a v (t + inc) - snd r))))) [0..<2 ^ k])
      = Ok (map (\<lambda>i. hash_func (fst r) (of_nat (as ! i)) (mem ! (as ! i)) (of_nat (rs ! i) + inc) - snd r) [0..<2 ^ k])"
      using assms by (intro collect_map_Ok) simp
    then show ?thesis by (simp add: hash_ops_def)
  qed
  have "map (\<lambda>i. hash_func (fst r) (of_nat (as ! i)) (mem ! (as ! i)) (of_nat (rs ! i) + 0) - snd r) [0..<2 ^ k] = ops_table r mem as rs"
    "map (\<lambda>i. hash_func (fst r) (of_nat (as ! i)) (mem ! (as ! i)) (of_nat (rs ! i) + 1) - snd r) [0..<2 ^ k] = ops_table r mem as (map Suc rs)"
    using assms by (auto intro!: nth_equalityI simp: ops_table_def hash_cell_def add.commute)
  moreover have "length (ops_table r mem as rs) = 2 ^ k" "length (ops_table r mem as (map Suc rs)) = 2 ^ k" using assms by (simp_all add: ops_table_def)
  ultimately show "hash_ops (fst r) (snd r) 0 (vpoly k (map of_nat as)) (vpoly k (map ((!) mem) as)) (vpoly k (map of_nat rs)) = Ok (vpoly k (ops_table r mem as rs))"
    "hash_ops (fst r) (snd r) 1 (vpoly k (map of_nat as)) (vpoly k (map ((!) mem) as)) (vpoly k (map of_nat rs)) = Ok (vpoly k (ops_table r mem as (map Suc rs)))"
    unfolding hops by (simp_all only: dense_new_vpoly)
qed

lemma product_new_circuit: "length xs = 2 ^ Suc k \<Longrightarrow> product_new (vpoly (Suc k) xs) = Ok (circuit_of k xs)"
  using product_new_tree [of "vpoly (Suc k) xs" k] by (simp add: dense_ok_def circuit_of_def)

lemma product_evaluate_circuit: "length xs = 2 ^ Suc k \<Longrightarrow> product_evaluate (circuit_of k xs) = Ok (prod_list xs)"
  by (simp add: circuit_of_def product_evaluate_tree)

definition layer_circuits :: "nat \<Rightarrow> nat \<Rightarrow> 'f::field \<times> 'f \<Rightarrow> 'f list \<Rightarrow> nat list list \<Rightarrow> nat list list \<Rightarrow> nat list \<Rightarrow> 'f product_layer" where
  "layer_circuits m k r mem ops rss audit = \<lparr>pl_init = circuit_of m (cell_table r mem (replicate (2 ^ Suc m) 0)),
     pl_read = map2 (\<lambda>as rs. circuit_of k (ops_table r mem as rs)) ops rss,
     pl_write = map2 (\<lambda>as rs. circuit_of k (ops_table r mem as (map Suc rs))) ops rss,
     pl_audit = circuit_of m (cell_table r mem audit)\<rparr>"

lemma layers_new_circuits:
  assumes "balanced (Suc m) (Suc k) ops rss audit" "length mem = 2 ^ Suc m"
  shows "layers_new mem (stamps (Suc m) (Suc k) ops rss audit) (map (\<lambda>as. vpoly (Suc k) (map ((!) mem) as)) ops) r = Ok (layer_circuits m k r mem ops rss audit)"
proof -
  let ?m = "Suc m" and ?k = "Suc k"
  have b: "list_all2 (\<lambda>as rs. length as = 2 ^ ?k \<and> length rs = 2 ^ ?k) ops rss" "length audit = 2 ^ ?m" using assms(1) by (simp_all add: balanced_def)
  then have len: "length rss = length ops" and each: "\<And>i. i < length ops \<Longrightarrow> length (ops ! i) = 2 ^ ?k \<and> length (rss ! i) = 2 ^ ?k"
    by (auto simp: list_all2_conv_all_nth)
  have init: "dense_new (map (\<lambda>i. hash_func (fst r) (of_nat i) (mem ! i) 0 - snd r) [0..<length mem]) = Ok (vpoly ?m (cell_table r mem (replicate (2 ^ ?m) 0)))"
  proof -
    have "map (\<lambda>i. hash_func (fst r) (of_nat i) (mem ! i) 0 - snd r) [0..<length mem] = cell_table r mem (replicate (2 ^ ?m) 0)"
      using assms(2) by (intro nth_equalityI) (simp_all add: cell_table_def hash_cell_def del: replicate_Suc power_Suc)
    then show ?thesis by (simp add: dense_new_vpoly cell_table_def)
  qed
  have aud: "result_bind (collect (map (\<lambda>i. result_bind (index (map of_nat audit) i) (\<lambda>t. Ok (hash_func (fst r) (of_nat i) (mem ! i) t - snd r))) [0..<length mem])) dense_new
      = Ok (vpoly ?m (cell_table r mem audit))"
  proof -
    have "collect (map (\<lambda>i. result_bind (index (map of_nat audit) i) (\<lambda>t. Ok (hash_func (fst r) (of_nat i) (mem ! i) t - snd r))) [0..<length mem])
        = Ok (map (\<lambda>i. hash_cell r mem i (audit ! i)) [0..<length mem])"
      using assms(2) b(2) by (intro collect_map_Ok) (simp add: hash_cell_def)
    then show ?thesis using assms(2) b(2) by (simp add: cell_table_def dense_new_vpoly)
  qed
  let ?rw = "\<lambda>i. (vpoly ?k (ops_table r mem (ops ! i) (rss ! i)), vpoly ?k (ops_table r mem (ops ! i) (map Suc (rss ! i))))"
  have rw: "collect (map (\<lambda>i. result_bind (index (map (\<lambda>as. vpoly ?k (map of_nat as)) ops) i) (\<lambda>a.
      result_bind (index (map (\<lambda>as. vpoly ?k (map ((!) mem) as)) ops) i) (\<lambda>d. result_bind (index (map (\<lambda>rs. vpoly ?k (map of_nat rs)) rss) i) (\<lambda>t.
       result_bind (hash_ops (fst r) (snd r) 0 a d t) (\<lambda>x. result_bind (hash_ops (fst r) (snd r) 1 a d t) (\<lambda>w. Ok (x, w)))))))
      [0..<length (map (\<lambda>as. vpoly ?k (map of_nat as)) ops)]) = Ok (map ?rw [0..<length ops])"
    unfolding length_map by (rule collect_map_Ok) (use len each in \<open>simp add: hash_ops_table\<close>)
  have tab: "length (ops_table r mem (ops ! i) (rss ! i)) = 2 ^ ?k" "length (ops_table r mem (ops ! i) (map Suc (rss ! i))) = 2 ^ ?k" if "i < length ops" for i
    using each [OF that] by (simp_all add: ops_table_def)
  have prods: "collect (map product_new (map fst (map ?rw [0..<length ops]))) = Ok (map (\<lambda>i. circuit_of k (ops_table r mem (ops ! i) (rss ! i))) [0..<length ops])"
    "collect (map product_new (map snd (map ?rw [0..<length ops]))) = Ok (map (\<lambda>i. circuit_of k (ops_table r mem (ops ! i) (map Suc (rss ! i)))) [0..<length ops])"
    unfolding map_map comp_def fst_conv snd_conv by (rule collect_map_Ok, use tab in \<open>simp add: product_new_circuit del: power_Suc\<close>)+
  have evals: "collect (map product_evaluate (map (\<lambda>i. circuit_of k (ops_table r mem (ops ! i) (rss ! i))) [0..<length ops])) = Ok (map (\<lambda>i. prod_list (ops_table r mem (ops ! i) (rss ! i))) [0..<length ops])"
    "collect (map product_evaluate (map (\<lambda>i. circuit_of k (ops_table r mem (ops ! i) (map Suc (rss ! i)))) [0..<length ops])) = Ok (map (\<lambda>i. prod_list (ops_table r mem (ops ! i) (map Suc (rss ! i)))) [0..<length ops])"
    unfolding map_map comp_def by (rule collect_map_Ok, use tab in \<open>simp add: product_evaluate_circuit del: power_Suc\<close>)+
  have cell: "length (cell_table r mem audit) = 2 ^ ?m" "length (cell_table r mem (replicate (2 ^ ?m) 0)) = 2 ^ ?m" using b(2) by (simp_all add: cell_table_def)
  have zip: "map2 f ops rss = map (\<lambda>i. f (ops ! i) (rss ! i)) [0..<length ops]" for f :: "nat list \<Rightarrow> nat list \<Rightarrow> 'a product_circuit"
    using len by (intro nth_equalityI) simp_all
  show ?thesis
    unfolding layers_new_def build_hash_layer_def stamps_def addr_timestamps.simps case_prod_beta vpoly_simps init aud rw result_bind.simps fst_conv snd_conv
      prods product_new_circuit [OF cell(1)] product_new_circuit [OF cell(2)] evals product_evaluate_circuit [OF cell(1)] product_evaluate_circuit [OF cell(2)]
      layer_circuits_def zip ..
qed

lemma layers_balance:
  assumes "balanced m k ops rss audit"
  shows "prod_list (cell_table r mem (replicate (2 ^ m) 0)) * prod_list (map2 (\<lambda>as rs. prod_list (ops_table r mem as (map Suc rs))) ops rss)
    = prod_list (map2 (\<lambda>as rs. prod_list (ops_table r mem as rs)) ops rss) * prod_list (cell_table r mem audit)"
proof -
  let ?h = "hash_cell r mem"
  have ops: "hash_prod ?h (sum_list (map2 (\<lambda>as rs. mset (zip as (f rs))) ops rss)) = prod_list (map2 (\<lambda>as rs. prod_list (ops_table r mem as (f rs))) ops rss)" for f
    unfolding hash_prod_sum map_map comp_def by (intro arg_cong [of _ _ prod_list] map_cong) (auto simp: hash_prod_mset ops_table_def)
  have "hash_prod ?h (cells (replicate (2 ^ m) 0) + sum_list (map2 (\<lambda>as rs. mset (zip as (map Suc rs))) ops rss))
      = hash_prod ?h (sum_list (map2 (\<lambda>as rs. mset (zip as rs)) ops rss) + cells audit)"
    using assms by (simp only: balanced_def)
  then show ?thesis unfolding hash_prod_add ops [of "map Suc"] ops [of "\<lambda>x. x"] hash_prod_cells cell_table_def .
qed

section \<open>Matrices as vectors\<close>

definition mats_ok :: "nat \<Rightarrow> nat \<Rightarrow> 'f sparse_mat list \<Rightarrow> bool" where
  "mats_ok nx ny ps \<longleftrightarrow> ps \<noteq> [] \<and> (\<forall>p\<in>set ps. mp_num_vars_x p = nx \<and> mp_num_vars_y p = ny
     \<and> (\<forall>e\<in>set (mp_M p). se_row e < 2 ^ nx \<and> se_col e < 2 ^ ny))"

text \<open>The logarithm of the number of operations.\<close>

definition ops_log :: "'f sparse_mat list \<Rightarrow> nat" where
  "ops_log ps = (let n = next_power_of_two (Max (get_num_nz_entries ` set ps)) in if n \<le> 1 then 0 else bit_len (n - 1))"

definition row_ops :: "nat \<Rightarrow> 'f sparse_mat \<Rightarrow> nat list" where
  "row_ops k p = resize (2 ^ k) 0 (map se_row (mp_M p))"

definition col_ops :: "nat \<Rightarrow> 'f sparse_mat \<Rightarrow> nat list" where
  "col_ops k p = resize (2 ^ k) 0 (map se_col (mp_M p))"

definition val_ops :: "nat \<Rightarrow> 'f::field sparse_mat \<Rightarrow> 'f list" where
  "val_ops k p = resize (2 ^ k) 0 (map se_val (mp_M p))"

lemma length_resize [simp]: "length (resize n x xs) = n"
  by (simp add: resize_def)

lemma next_power_of_two_pow: "\<exists>k. next_power_of_two n = 2 ^ k"
  by (metis next_power_of_two_def power_0)

lemma two_power_gt: "\<not> 2 * 2 ^ j \<le> Suc 0"
  using zero_less_power [of "2 :: nat" j] by linarith

lemma next_power_of_two_pow2: "next_power_of_two (2 ^ k) = 2 ^ k"
proof (cases k)
  case (Suc j)
  have "2 ^ j \<le> (2 :: nat) ^ k - 1" "(2 :: nat) ^ k - 1 < 2 ^ k" using Suc by simp_all
  then have "bit_len (2 ^ k - 1) = k" using Suc by (intro bit_len_unique) simp_all
  then show ?thesis using Suc two_power_gt [of j] by (simp add: next_power_of_two_def)
qed (simp add: next_power_of_two_def)

lemma ops_log:
  assumes "ps \<noteq> []"
  shows "next_power_of_two (Max (get_num_nz_entries ` set ps)) = 2 ^ ops_log ps" "p \<in> set ps \<Longrightarrow> length (mp_M p) \<le> 2 ^ ops_log ps"
    "p \<in> set ps \<Longrightarrow> get_num_nz_entries p \<le> 2 ^ ops_log ps"
proof -
  let ?n = "Max (get_num_nz_entries ` set ps)"
  obtain k where k: "next_power_of_two ?n = 2 ^ k" using next_power_of_two_pow by blast
  have "ops_log ps = k"
  proof (cases k)
    case (Suc j)
    have "2 ^ j \<le> (2 :: nat) ^ k - 1" "(2 :: nat) ^ k - 1 < 2 ^ k" using Suc by simp_all
    then have "bit_len (2 ^ k - 1) = k" using Suc by (intro bit_len_unique) simp_all
    then show ?thesis unfolding ops_log_def k Let_def using Suc two_power_gt [of j] by simp
  qed (simp add: ops_log_def k)
  then show n: "next_power_of_two ?n = 2 ^ ops_log ps" using k by simp
  show nz: "get_num_nz_entries p \<le> 2 ^ ops_log ps" if "p \<in> set ps"
  proof -
    have "get_num_nz_entries p \<le> ?n" using that by (intro Max_ge) auto
    also have "\<dots> \<le> 2 ^ ops_log ps" unfolding n [symmetric] by (rule next_power_of_two_ge)
    finally show ?thesis .
  qed
  show "length (mp_M p) \<le> 2 ^ ops_log ps" if "p \<in> set ps"
    using nz [OF that] next_power_of_two_ge [of "length (mp_M p)"] by (simp add: get_num_nz_entries_def)
qed

lemma resize_below: "length xs \<le> n \<Longrightarrow> (\<And>x. x \<in> set xs \<Longrightarrow> x < b) \<Longrightarrow> 0 < b \<Longrightarrow> y \<in> set (resize n 0 xs) \<Longrightarrow> y < b" for b :: nat
  by (auto simp: resize_def dest: in_set_takeD)

lemma ops_in_range:
  assumes "mats_ok nx ny ps"
  shows "in_range (max nx ny) (ops_log ps) (map (row_ops (ops_log ps)) ps)" "in_range (max nx ny) (ops_log ps) (map (col_ops (ops_log ps)) ps)"
proof -
  have "(2 :: nat) ^ nx \<le> 2 ^ max nx ny" "(2 :: nat) ^ ny \<le> 2 ^ max nx ny" by simp_all
  then have e: "se_row e < 2 ^ max nx ny \<and> se_col e < 2 ^ max nx ny" if "p \<in> set ps" "e \<in> set (mp_M p)" for p e
    using assms that unfolding mats_ok_def by (meson less_le_trans)
  have "a < 2 ^ max nx ny" if "p \<in> set ps" "a \<in> set (row_ops (ops_log ps) p)" for p a
    using that ops_log(2) [of ps p] e [OF that(1)] assms unfolding row_ops_def mats_ok_def by (elim resize_below [rotated 3]) auto
  then show "in_range (max nx ny) (ops_log ps) (map (row_ops (ops_log ps)) ps)" by (auto simp: in_range_def row_ops_def)
  have "a < 2 ^ max nx ny" if "p \<in> set ps" "a \<in> set (col_ops (ops_log ps) p)" for p a
    using that ops_log(2) [of ps p] e [OF that(1)] assms unfolding col_ops_def mats_ok_def by (elim resize_below [rotated 3]) auto
  then show "in_range (max nx ny) (ops_log ps) (map (col_ops (ops_log ps)) ps)" by (auto simp: in_range_def col_ops_def)
qed

text \<open>The representation, with the combined tables left as they are computed.\<close>

definition merged :: "'f::field dense_poly list \<Rightarrow> 'f dense_poly" where
  "merged polys = (let Z = concat (map dp_Z polys) in the_ok (dense_new (resize (next_power_of_two (length Z)) 0 Z)))"

lemma dense_merge_merged: "dense_merge polys = Ok (merged polys)"
proof -
  obtain K where "next_power_of_two (length (concat (map dp_Z polys))) = 2 ^ K" using next_power_of_two_pow by blast
  then show ?thesis by (simp add: dense_merge_def merged_def Let_def dense_new_vpoly)
qed

definition dense_rep :: "nat \<Rightarrow> 'f::field sparse_mat list \<Rightarrow> nat list list \<Rightarrow> nat list \<Rightarrow> nat list list \<Rightarrow> nat list \<Rightarrow> 'f multi_dense" where
  "dense_rep m ps rr ra cr ca = (let k = ops_log ps; row = stamps m k (map (row_ops k) ps) rr ra; col = stamps m k (map (col_ops k) ps) cr ca;
      val = map (\<lambda>p. vpoly k (val_ops k p)) ps in
    \<lparr>md_batch_size = length ps, md_val = val, md_row = row, md_col = col,
     md_comb_ops = merged (at_addr row @ at_read row @ at_addr col @ at_read col @ val),
     md_comb_mem = vpoly (Suc m) (map of_nat ra @ map of_nat ca)\<rparr>)"

lemma rep_ok:
  fixes ps :: "'f::field sparse_mat list"
  assumes "mats_ok nx ny ps"
  obtains rr ra cr ca where "multi_sparse_to_dense_rep ps = Ok (dense_rep (max nx ny) ps rr ra cr ca)"
    "balanced (max nx ny) (ops_log ps) (map (row_ops (ops_log ps)) ps) rr ra" "balanced (max nx ny) (ops_log ps) (map (col_ops (ops_log ps)) ps) cr ca"
proof -
  let ?m = "max nx ny" and ?k = "ops_log ps"
  have ne: "ps \<noteq> []" and vars: "\<And>p. p \<in> set ps \<Longrightarrow> mp_num_vars_x p = nx \<and> mp_num_vars_y p = ny" using assms by (simp_all add: mats_ok_def)
  obtain p0 qs where ps: "ps = p0 # qs" using ne by (cases ps) auto
  have p0: "mp_num_vars_x p0 = nx" "mp_num_vars_y p0 = ny" using vars ps by simp_all
  obtain rr ra where row: "addr_new (2 ^ ?m) (2 ^ ?k) (map (row_ops ?k) ps) = Ok (stamps ?m ?k (map (row_ops ?k) ps) rr ra :: 'f addr_timestamps)"
    "balanced ?m ?k (map (row_ops ?k) ps) rr ra" using addr_new_ok [OF ops_in_range(1) [OF assms]] by blast
  obtain cr ca where col: "addr_new (2 ^ ?m) (2 ^ ?k) (map (col_ops ?k) ps) = Ok (stamps ?m ?k (map (col_ops ?k) ps) cr ca :: 'f addr_timestamps)"
    "balanced ?m ?k (map (col_ops ?k) ps) cr ca" using addr_new_ok [OF ops_in_range(2) [OF assms]] by blast
  have vecs: "collect (map (\<lambda>p. sparse_to_dense_vecs p (2 ^ ?k)) ps) = Ok (map (\<lambda>p. (row_ops ?k p, col_ops ?k p, val_ops ?k p)) ps)"
    using ops_log(3) [OF ne] by (intro collect_map_Ok) (simp add: sparse_to_dense_vecs_def row_ops_def col_ops_def val_ops_def not_less)
  have vals: "collect (map (\<lambda>v. dense_new (snd (snd v))) (map (\<lambda>p. (row_ops ?k p, col_ops ?k p, val_ops ?k p)) ps)) = Ok (map (\<lambda>p. vpoly ?k (val_ops ?k p)) ps)"
    unfolding map_map comp_def fst_conv snd_conv by (intro collect_map_Ok dense_new_vpoly) (simp add: val_ops_def)
  have cells: "(if mp_num_vars_y p0 < mp_num_vars_x p0 then 2 ^ mp_num_vars_x p0 else 2 ^ mp_num_vars_y p0) = (2 :: nat) ^ ?m"
    unfolding p0 by (simp add: max_def)
  have proj: "map fst (map (\<lambda>p. (row_ops ?k p, col_ops ?k p, val_ops ?k p)) ps) = map (row_ops ?k) ps"
    "map (fst \<circ> snd) (map (\<lambda>p. (row_ops ?k p, col_ops ?k p, val_ops ?k p)) ps) = map (col_ops ?k) ps" by simp_all
  have mem: "dense_extend (vpoly ?m (map of_nat ra)) (vpoly ?m (map of_nat ca)) = Ok (vpoly (Suc ?m) (map of_nat ra @ map of_nat ca :: 'f list))"
    using row(2) col(2) by (simp add: dense_extend_def balanced_def vpoly_def)
  have "(\<exists>p\<in>set ps. mp_num_vars_x p \<noteq> mp_num_vars_x p0 \<or> mp_num_vars_y p \<noteq> mp_num_vars_y p0) = False" using vars p0 by auto
  then have "multi_sparse_to_dense_rep ps = Ok (dense_rep ?m ps rr ra cr ca)"
    unfolding multi_sparse_to_dense_rep_def Let_def ops_log(1) [OF ne] vecs result_bind.simps vals
    unfolding ps list.case if_False
    unfolding ps [symmetric] cells proj row(1) col(1) result_bind.simps dense_merge_merged
    using mem by (simp add: ps dense_rep_def Let_def stamps_def)
  then show ?thesis using that row(2) col(2) by blast
qed

section \<open>Dereferencing and evaluation\<close>

lemma eq_table_pad: "i < 2 ^ length r \<Longrightarrow> eq_table (replicate d 0 @ r) ! i = eq_table r ! i"
proof (induction d)
  case (Suc d)
  have "2 ^ length r \<le> (2 :: nat) ^ (d + length r)" by simp
  then have "i < 2 ^ (d + length r)" using Suc.prems by linarith
  then have "eq_table (replicate (Suc d) 0 @ r) ! i = eq_table (replicate d 0 @ r) ! i" by (simp add: nth_append)
  then show ?case using Suc by simp
qed simp

lemma equalize_tables:
  assumes "length rx = nx" "length ry = ny"
  obtains rx' ry' where "equalize rx ry = (rx', ry')" "length rx' = max nx ny" "length ry' = max nx ny"
    "\<And>i. i < 2 ^ nx \<Longrightarrow> eq_evals rx' ! i = eq_evals rx ! i" "\<And>i. i < 2 ^ ny \<Longrightarrow> eq_evals ry' ! i = eq_evals ry ! i"
proof -
  define rx' where "rx' = replicate (max nx ny - nx) 0 @ rx"
  define ry' where "ry' = replicate (max nx ny - ny) 0 @ ry"
  have "equalize rx ry = (rx', ry')" using assms by (auto simp: equalize_def rx'_def ry'_def max_def)
  then show ?thesis by (rule that) (use assms in \<open>auto simp: rx'_def ry'_def eq_evals_table eq_table_pad\<close>)
qed

definition deref_tables :: "nat \<Rightarrow> 'f::field sparse_mat list \<Rightarrow> 'f list \<Rightarrow> 'f list \<Rightarrow> 'f derefs" where
  "deref_tables k ps tx ty = (let row = map (\<lambda>p. vpoly k (map ((!) tx) (row_ops k p))) ps; col = map (\<lambda>p. vpoly k (map ((!) ty) (col_ops k p))) ps in
     \<lparr>de_row = row, de_col = col, de_comb = merged (row @ col)\<rparr>)"

lemma multi_deref_tables:
  assumes "mats_ok nx ny ps" "length tx = 2 ^ max nx ny" "length ty = 2 ^ max nx ny"
  shows "multi_deref (dense_rep (max nx ny) ps rr ra cr ca) tx ty = Ok (deref_tables (ops_log ps) ps tx ty)"
  using deref_ok [OF ops_in_range(1) [OF assms(1)] assms(2)] deref_ok [OF ops_in_range(2) [OF assms(1)] assms(3)]
  by (simp add: multi_deref_def dense_rep_def Let_def derefs_new_def dense_merge_merged deref_tables_def comp_def)

text \<open>The sum over the entries, and the same sum over the operations.\<close>

definition entry_sum :: "'f::field sparse_mat \<Rightarrow> 'f list \<Rightarrow> 'f list \<Rightarrow> 'f" where
  "entry_sum p tx ty = (\<Sum>e\<leftarrow>mp_M p. tx ! se_row e * ty ! se_col e * se_val e)"

lemma evaluate_entry_sum:
  assumes "mats_ok nx ny ps" "p \<in> set ps" "length tx = 2 ^ nx" "length ty = 2 ^ ny"
  shows "evaluate_with_tables p tx ty = Ok (entry_sum p tx ty)"
proof -
  have p: "mp_num_vars_x p = nx" "mp_num_vars_y p = ny" "\<And>e. e \<in> set (mp_M p) \<Longrightarrow> se_row e < 2 ^ nx \<and> se_col e < 2 ^ ny"
    using assms(1,2) by (simp_all add: mats_ok_def)
  then have "collect (map (\<lambda>e. result_bind (index tx (se_row e)) (\<lambda>a. result_bind (index ty (se_col e)) (\<lambda>b. Ok (a * b * se_val e)))) (mp_M p))
      = Ok (map (\<lambda>e. tx ! se_row e * ty ! se_col e * se_val e) (mp_M p))"
    using assms(3,4) by (intro collect_map_Ok) simp
  then show ?thesis using p(1,2) assms(3,4) by (simp add: evaluate_with_tables_def entry_sum_def)
qed

lemma ops_sum:
  assumes "length (mp_M p) \<le> 2 ^ k"
  shows "(\<Sum>i<2 ^ k. map ((!) tx) (row_ops k p) ! i * map ((!) ty) (col_ops k p) ! i * val_ops k p ! i) = entry_sum p tx ty"
proof -
  let ?n = "length (mp_M p)" and ?f = "\<lambda>i. map ((!) tx) (row_ops k p) ! i * map ((!) ty) (col_ops k p) ! i * val_ops k p ! i"
  have "(\<Sum>i<2 ^ k. ?f i) = (\<Sum>i<?n. ?f i)"
    by (rule sum.mono_neutral_right) (use assms in \<open>auto simp: val_ops_def row_ops_def col_ops_def resize_def nth_append\<close>)
  also have "\<dots> = (\<Sum>i<?n. tx ! se_row (mp_M p ! i) * ty ! se_col (mp_M p ! i) * se_val (mp_M p ! i))"
    by (rule sum.cong) (use assms in \<open>auto simp: val_ops_def row_ops_def col_ops_def resize_def nth_append\<close>)
  also have "\<dots> = entry_sum p tx ty" by (simp add: entry_sum_def sum_list_sum_nth atLeast0LessThan)
  finally show ?thesis .
qed

lemma entry_sum_cong:
  assumes "mats_ok nx ny ps" "p \<in> set ps" "\<And>i. i < 2 ^ nx \<Longrightarrow> tx' ! i = tx ! i" "\<And>i. i < 2 ^ ny \<Longrightarrow> ty' ! i = ty ! i"
  shows "entry_sum p tx' ty' = entry_sum p tx ty"
  unfolding entry_sum_def using assms by (intro arg_cong [of _ _ sum_list] map_cong) (auto simp: mats_ok_def)

text \<open>The product of the initial cells and the writes equals the product of the reads and the final cells.\<close>

definition products_balance :: "'f::field product_layer \<Rightarrow> bool" where
  "products_balance l \<longleftrightarrow> (\<exists>i rs ws a. product_evaluate (pl_init l) = Ok i \<and> collect (map product_evaluate (pl_read l)) = Ok rs
     \<and> collect (map product_evaluate (pl_write l)) = Ok ws \<and> product_evaluate (pl_audit l) = Ok a \<and> i * prod_list ws = prod_list rs * a)"

section \<open>Properties\<close>


lemma ops_log_two: "length (mp_M p) = Suc (Suc 0) \<Longrightarrow> 0 < ops_log [p]"
proof -
  assume p: "length (mp_M p) = Suc (Suc 0)"
  have "next_power_of_two (Suc (Suc 0)) = Suc (Suc 0)" using next_power_of_two_pow2 [of 1] by (simp add: numeral_2_eq_2)
  then show ?thesis using p by (simp add: ops_log_def get_num_nz_entries_def)
qed


text \<open>C38: the evaluation of a batch of matrices is the dot product of the tables dereferenced at the two (lengthened) points
  with the values: what the prover proves of the dot-product circuits is the evaluation.\<close>

theorem deref_evaluation:
  fixes ps :: "'f::field sparse_mat list"
  assumes "mats_ok (length rx) (length ry) ps"
  shows "\<exists>md d rx' ry' vals. multi_sparse_to_dense_rep ps = Ok md \<and> equalize rx ry = (rx', ry') \<and> multi_deref md (eq_evals rx') (eq_evals ry') = Ok d
    \<and> multi_evaluate ps rx ry = Ok vals
    \<and> collect (map (\<lambda>(l, r, w). result_bind (dotp_new l r w) dotp_evaluate) (zip (de_row d) (zip (de_col d) (md_val md)))) = Ok vals"
proof -
  let ?m = "max (length rx) (length ry)" and ?k = "ops_log ps"
  obtain rr ra cr ca where rep: "multi_sparse_to_dense_rep ps = Ok (dense_rep ?m ps rr ra cr ca)" using rep_ok [OF assms] by metis
  obtain rx' ry' where e: "equalize rx ry = (rx', ry')" "length rx' = ?m" "length ry' = ?m"
    "\<And>i. i < 2 ^ length rx \<Longrightarrow> eq_evals rx' ! i = eq_evals rx ! i" "\<And>i. i < 2 ^ length ry \<Longrightarrow> eq_evals ry' ! i = eq_evals ry ! i"
    by (rule equalize_tables [OF refl refl, of rx ry]) (rule that)
  have deref: "multi_deref (dense_rep ?m ps rr ra cr ca) (eq_evals rx') (eq_evals ry') = Ok (deref_tables ?k ps (eq_evals rx') (eq_evals ry'))"
    using multi_deref_tables [OF assms] e(2,3) by simp
  let ?vals = "map (\<lambda>p. entry_sum p (eq_evals rx) (eq_evals ry)) ps"
  have "multi_evaluate ps rx ry = Ok ?vals"
    unfolding multi_evaluate_def using assms by (intro collect_map_Ok evaluate_entry_sum) simp_all
  moreover have "collect (map (\<lambda>(l, r, w). result_bind (dotp_new l r w) dotp_evaluate) (zip (map (\<lambda>p. vpoly ?k (map ((!) (eq_evals rx')) (row_ops ?k p))) ps)
      (zip (map (\<lambda>p. vpoly ?k (map ((!) (eq_evals ry')) (col_ops ?k p))) ps) (map (\<lambda>p. vpoly ?k (val_ops ?k p)) ps)))) = Ok ?vals"
  proof -
    have "result_bind (dotp_new (vpoly ?k (map ((!) (eq_evals rx')) (row_ops ?k p))) (vpoly ?k (map ((!) (eq_evals ry')) (col_ops ?k p))) (vpoly ?k (val_ops ?k p))) dotp_evaluate
        = Ok (entry_sum p (eq_evals rx) (eq_evals ry))" if p: "p \<in> set ps" for p
    proof -
      have lens: "length (row_ops ?k p) = 2 ^ ?k" "length (col_ops ?k p) = 2 ^ ?k" "length (val_ops ?k p) = 2 ^ ?k"
        by (simp_all add: row_ops_def col_ops_def val_ops_def)
      have "ps \<noteq> []" using p by auto
      from ops_sum [OF ops_log(2) [OF this p], of "eq_evals rx'" "eq_evals ry'"] show ?thesis
        using entry_sum_cong [OF assms p e(4,5)] lens by (simp add: dotp_new_def dotp_evaluate_sum vpoly_ok)
    qed
    then show ?thesis unfolding zip_map_map zip_same_conv_map map_map by (intro collect_map_Ok) simp
  qed
  ultimately show ?thesis using rep e(1) deref by (simp add: deref_tables_def dense_rep_def Let_def)
qed

lemma deref_evaluation_witness:
  "\<exists>md d rx' ry' vals. multi_sparse_to_dense_rep [\<lparr>mp_num_vars_x = 1, mp_num_vars_y = 2, mp_M = [\<lparr>se_row = 0, se_col = 3, se_val = 5 :: rat\<rparr>]\<rparr>] = Ok md
    \<and> equalize [2] [3, 4] = (rx', ry') \<and> multi_deref md (eq_evals rx') (eq_evals ry') = Ok d
    \<and> multi_evaluate [\<lparr>mp_num_vars_x = 1, mp_num_vars_y = 2, mp_M = [\<lparr>se_row = 0, se_col = 3, se_val = 5\<rparr>]\<rparr>] [2] [3, 4] = Ok vals
    \<and> collect (map (\<lambda>(l, r, w). result_bind (dotp_new l r w) dotp_evaluate) (zip (de_row d) (zip (de_col d) (md_val md)))) = Ok vals"
  by (rule deref_evaluation) (simp add: mats_ok_def)

end
