(* ===== verification/Spark.thy ===== *)
theory Spark
  imports Sparse_Mat_Correct
begin

text \<open>
  The proof of evaluation of committed sparse matrices (\<^verbatim>\<open>spartan/src/sparse_mlpoly.rs\<close>, the protocol): openings of
  combined polynomials, the hash layer, the product layer, and the network over both.  The polynomial commitment scheme
  is a record of the operations of the trait \<^verbatim>\<open>PolyCommitmentScheme\<close>.  A function that returns Rust's \<^verbatim>\<open>Result\<close> has a
  sum type inside \<open>result\<close>, with the transcript on success; timers and their output are left out.
\<close>

section \<open>Commitments\<close>

record ('s, 'f, 'cm, 'pr, 'ck, 'vk, 'e) pcs =
  pcs_commit :: "'f dense_poly \<Rightarrow> 'ck \<Rightarrow> 'cm"
  pcs_absorb :: "'cm \<Rightarrow> string \<Rightarrow> 's \<Rightarrow> 's"
  pcs_prove :: "'f dense_poly \<Rightarrow> 'f list \<Rightarrow> 'f \<Rightarrow> 'ck \<Rightarrow> 's \<Rightarrow> 'pr \<times> 's"
  pcs_verify :: "'cm \<Rightarrow> 'pr \<Rightarrow> 'vk \<Rightarrow> 's \<Rightarrow> 'f list \<Rightarrow> 'f \<Rightarrow> 'e + 's"

record ('ck, 'vk) pcs_keys =
  key_ck :: 'ck
  key_vk :: 'vk

record ('ck, 'vk) spark_keys =
  gens_ops :: "('ck, 'vk) pcs_keys"
  gens_mem :: "('ck, 'vk) pcs_keys"
  gens_derefs :: "('ck, 'vk) pcs_keys"

datatype 'e proof_verify_error = InternalError | DecompressionError string | PolyCommitmentError 'e

type_synonym ('e, 'a) verified = "('e proof_verify_error + 'a) result"

fun verified_bind :: "('e, 'a) verified \<Rightarrow> ('a \<Rightarrow> ('e, 'b) verified) \<Rightarrow> ('e, 'b) verified" where
  "verified_bind (Ok (Inr a)) k = k a"
| "verified_bind (Ok (Inl e)) k = Ok (Inl e)"
| "verified_bind (Err e) k = Err e"
| "verified_bind Panic k = Panic"

definition check_opening :: "('s, 'f, 'cm, 'pr, 'ck, 'vk, 'e) pcs \<Rightarrow> 'cm \<Rightarrow> 'pr \<Rightarrow> 'vk \<Rightarrow> 's \<Rightarrow> 'f list \<Rightarrow> 'f \<Rightarrow> ('e, 's) verified" where
  "check_opening pcs comm proof vk s r v = Ok (map_sum PolyCommitmentError (\<lambda>s. s) (pcs_verify pcs comm proof vk s r v))"

definition get_gens_sizes :: "nat \<Rightarrow> nat \<Rightarrow> nat \<Rightarrow> nat \<Rightarrow> (nat \<times> nat \<times> nat) result" where
  "get_gens_sizes num_vars_x num_vars_y num_nz_entries batch_size =
     result_bind (log_2 (next_power_of_two num_nz_entries)) (\<lambda>nz. result_bind (log_2 (next_power_of_two (batch_size * 5))) (\<lambda>b5.
     result_bind (log_2 (next_power_of_two (batch_size * 2))) (\<lambda>b2.
       Ok (nz + b5, (if num_vars_x > num_vars_y then num_vars_x else num_vars_y) + 1, nz + b2))))"

definition get_min_num_vars :: "nat \<Rightarrow> nat \<Rightarrow> nat \<Rightarrow> nat \<Rightarrow> nat result" where
  "get_min_num_vars num_vars_x num_vars_y num_nz_entries batch_size =
     result_bind (get_gens_sizes num_vars_x num_vars_y num_nz_entries batch_size) (\<lambda>(a, b, c). Ok (max a (max b c)))"

section \<open>Combining evaluations\<close>

definition append_protocol_name :: "('s, 'f) transcript \<Rightarrow> string \<Rightarrow> 's \<Rightarrow> 's" where
  "append_protocol_name tr name s = tr_message tr s ''protocol-name'' name"

fun bind_bots :: "'f::field list \<Rightarrow> 'f dense_poly \<Rightarrow> 'f dense_poly result" where
  "bind_bots [] p = Ok p"
| "bind_bots (r # rs) p = result_bind (bound_poly_var_bot r p) (bind_bots rs)"

text \<open>The reduction of several evaluations to one: absorb them, draw the challenges, bind all variables of the polynomial
  they form, absorb the value.\<close>

definition combine_evals ::
  "('s, 'f::field) transcript \<Rightarrow> string \<Rightarrow> string \<Rightarrow> string \<Rightarrow> 'f list \<Rightarrow> 's \<Rightarrow> ('f list \<times> 'f \<times> 's) result" where
  "combine_evals tr l_evals l_chal l_joint evals s = (let s = append_scalars tr l_evals evals s in
     result_bind (log_2 (length evals)) (\<lambda>n. let (challenges, s) = challenge_vector tr l_chal n s in
     result_bind (dense_new evals) (\<lambda>p. result_bind (bind_bots (rev challenges) p) (\<lambda>p.
     if dp_len p \<noteq> 1 then Panic else result_bind (index (dp_Z p) 0) (\<lambda>v. Ok (challenges, v, append_scalar tr l_joint v s))))))"

section \<open>Openings of the dereferenced tables\<close>

definition derefs_commit :: "('s, 'f, 'cm, 'pr, 'ck, 'vk, 'e) pcs \<Rightarrow> 'f derefs \<Rightarrow> 'ck \<Rightarrow> 'cm" where
  "derefs_commit pcs d ck = pcs_commit pcs (de_comb d) ck"

definition derefs_absorb :: "('s, 'f) transcript \<Rightarrow> ('s, 'f, 'cm, 'pr, 'ck, 'vk, 'e) pcs \<Rightarrow> 'cm \<Rightarrow> string \<Rightarrow> 's \<Rightarrow> 's" where
  "derefs_absorb tr pcs c label s = tr_message tr (pcs_absorb pcs c label (tr_message tr s ''derefs_commitment'' ''begin_derefs_commitment''))
     ''derefs_commitment'' ''end_derefs_commitment''"

definition derefs_evals :: "'f::field list \<Rightarrow> 'f list \<Rightarrow> 'f list" where
  "derefs_evals row col = resize (next_power_of_two (length (row @ col))) 0 (row @ col)"

definition derefs_prove_single ::
  "('s, 'f::field) transcript \<Rightarrow> ('s, 'f, 'cm, 'pr, 'ck, 'vk, 'e) pcs \<Rightarrow> 'f dense_poly \<Rightarrow> 'f list \<Rightarrow> 'f list \<Rightarrow> 'ck \<Rightarrow> 's \<Rightarrow> ('pr \<times> 's) result" where
  "derefs_prove_single tr pcs joint_poly r evals ck s =
     result_bind (log_2 (length evals)) (\<lambda>n. if dp_num_vars joint_poly \<noteq> length r + n then Panic else
     result_bind (combine_evals tr ''evals_ops_val'' ''challenge_combine_n_to_one'' ''joint_claim_eval'' evals s) (\<lambda>(ch, v, s).
       Ok (pcs_prove pcs joint_poly (ch @ r) v ck s)))"

definition derefs_prove ::
  "('s, 'f::field) transcript \<Rightarrow> ('s, 'f, 'cm, 'pr, 'ck, 'vk, 'e) pcs \<Rightarrow> 'f derefs \<Rightarrow> 'f list \<Rightarrow> 'f list \<Rightarrow> 'f list \<Rightarrow> 'ck \<Rightarrow> 's \<Rightarrow> ('pr \<times> 's) result" where
  "derefs_prove tr pcs d row col r ck s =
     derefs_prove_single tr pcs (de_comb d) r (derefs_evals row col) ck (append_protocol_name tr ''Derefs evaluation proof'' s)"

definition derefs_verify_single ::
  "('s, 'f::field) transcript \<Rightarrow> ('s, 'f, 'cm, 'pr, 'ck, 'vk, 'e) pcs \<Rightarrow> 'pr \<Rightarrow> 'cm \<Rightarrow> 'f list \<Rightarrow> 'f list \<Rightarrow> 'vk \<Rightarrow> 's \<Rightarrow> ('e, 's) verified" where
  "derefs_verify_single tr pcs proof comm r evals vk s =
     result_bind (combine_evals tr ''evals_ops_val'' ''challenge_combine_n_to_one'' ''joint_claim_eval'' evals s) (\<lambda>(ch, v, s).
       check_opening pcs comm proof vk s (ch @ r) v)"

definition derefs_verify ::
  "('s, 'f::field) transcript \<Rightarrow> ('s, 'f, 'cm, 'pr, 'ck, 'vk, 'e) pcs \<Rightarrow> 'pr \<Rightarrow> 'f list \<Rightarrow> 'f list \<Rightarrow> 'f list \<Rightarrow> 'vk \<Rightarrow> 'cm \<Rightarrow> 's \<Rightarrow> ('e, 's) verified" where
  "derefs_verify tr pcs proof r row col vk comm s =
     derefs_verify_single tr pcs proof comm r (derefs_evals row col) vk (append_protocol_name tr ''Derefs evaluation proof'' s)"

section \<open>The hash layer\<close>

record ('f, 'pr) hash_layer_proof =
  hl_row :: "'f list \<times> 'f list \<times> 'f"
  hl_col :: "'f list \<times> 'f list \<times> 'f"
  hl_val :: "'f list"
  hl_derefs :: "'f list \<times> 'f list"
  hl_proof_ops :: 'pr
  hl_proof_mem :: 'pr
  hl_proof_derefs :: 'pr

definition hash_prove_helper :: "'f::field list \<Rightarrow> 'f list \<Rightarrow> 'f addr_timestamps \<Rightarrow> ('f list \<times> 'f list \<times> 'f) result" where
  "hash_prove_helper rand_mem rand_ops ts =
     result_bind (collect (map (\<lambda>p. dense_evaluate p rand_ops) (at_addr ts))) (\<lambda>a. result_bind (collect (map (\<lambda>p. dense_evaluate p rand_ops) (at_read ts))) (\<lambda>r.
     result_bind (dense_evaluate (at_audit ts) rand_mem) (\<lambda>au. Ok (a, r, au))))"

definition hash_evals_ops :: "'f::field list \<times> 'f list \<times> 'f \<Rightarrow> 'f list \<times> 'f list \<times> 'f \<Rightarrow> 'f list \<Rightarrow> 'f list" where
  "hash_evals_ops row col vals = (let evals = fst row @ fst (snd row) @ fst col @ fst (snd col) @ vals in resize (next_power_of_two (length evals)) 0 evals)"

definition hash_prove ::
  "('s, 'f::field) transcript \<Rightarrow> ('s, 'f, 'cm, 'pr, 'ck, 'vk, 'e) pcs \<Rightarrow> 'f list \<Rightarrow> 'f list \<Rightarrow> 'f multi_dense \<Rightarrow> 'f derefs \<Rightarrow> ('ck, 'vk) spark_keys \<Rightarrow> 's
   \<Rightarrow> (('f, 'pr) hash_layer_proof \<times> 's) result" where
  "hash_prove tr pcs rand_mem rand_ops dense derefs gens s = (let s = append_protocol_name tr ''Sparse polynomial hash layer proof'' s in
     result_bind (collect (map (\<lambda>p. dense_evaluate p rand_ops) (de_row derefs))) (\<lambda>er. result_bind (collect (map (\<lambda>p. dense_evaluate p rand_ops) (de_col derefs))) (\<lambda>ec.
     result_bind (derefs_prove tr pcs derefs er ec rand_ops (key_ck (gens_derefs gens)) s) (\<lambda>(proof_derefs, s).
     result_bind (hash_prove_helper rand_mem rand_ops (md_row dense)) (\<lambda>row. result_bind (hash_prove_helper rand_mem rand_ops (md_col dense)) (\<lambda>col.
     result_bind (collect (map (\<lambda>p. dense_evaluate p rand_ops) (md_val dense))) (\<lambda>vals.
     result_bind (combine_evals tr ''claim_evals_ops'' ''challenge_combine_n_to_one'' ''joint_claim_eval_ops'' (hash_evals_ops row col vals) s) (\<lambda>(ch, v, s).
     let (proof_ops, s) = pcs_prove pcs (md_comb_ops dense) (ch @ rand_ops) v (key_ck (gens_ops gens)) s in
     result_bind (combine_evals tr ''claim_evals_mem'' ''challenge_combine_two_to_one'' ''joint_claim_eval_mem'' [snd (snd row), snd (snd col)] s) (\<lambda>(ch, v, s).
     let (proof_mem, s) = pcs_prove pcs (md_comb_mem dense) (ch @ rand_mem) v (key_ck (gens_mem gens)) s in
     Ok (\<lparr>hl_row = row, hl_col = col, hl_val = vals, hl_derefs = (er, ec), hl_proof_ops = proof_ops, hl_proof_mem = proof_mem,
       hl_proof_derefs = proof_derefs\<rparr>, s))))))))))"

definition all_indices :: "(nat \<Rightarrow> bool result) \<Rightarrow> nat \<Rightarrow> unit result" where
  "all_indices f n = result_bind (collect (map f [0..<n])) (\<lambda>bs. if list_all (\<lambda>b. b) bs then Ok () else Panic)"

definition hash_verify_helper ::
  "'f::field list \<Rightarrow> 'f \<times> 'f list \<times> 'f list \<times> 'f \<Rightarrow> 'f list \<Rightarrow> 'f list \<Rightarrow> 'f list \<Rightarrow> 'f \<Rightarrow> 'f list \<Rightarrow> 'f \<times> 'f \<Rightarrow> unit result" where
  "hash_verify_helper rand_mem claims eval_ops_val eval_ops_addr eval_read_ts eval_audit_ts r rs =
     (case claims of (claim_init, claim_read, claim_write, claim_audit) \<Rightarrow> (case rs of (r_hash, r_multiset) \<Rightarrow>
     result_bind (identity_evaluate (length rand_mem) rand_mem) (\<lambda>init_addr. result_bind (eq_evaluate r rand_mem) (\<lambda>init_val.
     if hash_func r_hash init_addr init_val 0 - r_multiset \<noteq> claim_init then Panic else
     result_bind (all_indices (\<lambda>i. result_bind (index eval_ops_addr i) (\<lambda>a. result_bind (index eval_ops_val i) (\<lambda>v. result_bind (index eval_read_ts i) (\<lambda>t.
       result_bind (index claim_read i) (\<lambda>c. Ok (hash_func r_hash a v t - r_multiset = c)))))) (length eval_ops_addr)) (\<lambda>_.
     result_bind (all_indices (\<lambda>i. result_bind (index eval_ops_addr i) (\<lambda>a. result_bind (index eval_ops_val i) (\<lambda>v. result_bind (index eval_read_ts i) (\<lambda>t.
       result_bind (index claim_write i) (\<lambda>c. Ok (hash_func r_hash a v (t + 1) - r_multiset = c)))))) (length eval_ops_addr)) (\<lambda>_.
     if hash_func r_hash init_addr init_val eval_audit_ts - r_multiset \<noteq> claim_audit then Panic else Ok ()))))))"

record 'cm spark_commitment =
  sc_batch_size :: nat
  sc_num_ops :: nat
  sc_num_mem_cells :: nat
  sc_comb_ops :: 'cm
  sc_comb_mem :: 'cm

definition hash_verify ::
  "('s, 'f::field) transcript \<Rightarrow> ('s, 'f, 'cm, 'pr, 'ck, 'vk, 'e) pcs \<Rightarrow> ('f, 'pr) hash_layer_proof \<Rightarrow> 'f list \<Rightarrow> 'f list
   \<Rightarrow> 'f \<times> 'f list \<times> 'f list \<times> 'f \<Rightarrow> 'f \<times> 'f list \<times> 'f list \<times> 'f \<Rightarrow> 'f list \<Rightarrow> 'cm spark_commitment \<Rightarrow> ('ck, 'vk) spark_keys \<Rightarrow> 'cm
   \<Rightarrow> 'f list \<Rightarrow> 'f list \<Rightarrow> 'f \<times> 'f \<Rightarrow> 's \<Rightarrow> ('e, 's) verified" where
  "hash_verify tr pcs p rand_mem rand_ops claims_row claims_col claims_dotp comm gens comm_derefs rx ry rs s =
     (let s = append_protocol_name tr ''Sparse polynomial hash layer proof'' s; (er, ec) = hl_derefs p in
     if length er \<noteq> length ec then Panic else
     verified_bind (derefs_verify tr pcs (hl_proof_derefs p) rand_ops er ec (key_vk (gens_derefs gens)) comm_derefs s) (\<lambda>s.
     if length claims_dotp \<noteq> 3 * length er then Panic else
     result_bind (all_indices (\<lambda>i. result_bind (index er i) (\<lambda>a. result_bind (index ec i) (\<lambda>b. result_bind (index (hl_val p) i) (\<lambda>c.
       Ok (claims_dotp ! (3 * i) = a \<and> claims_dotp ! (3 * i + 1) = b \<and> claims_dotp ! (3 * i + 2) = c))))) (length claims_dotp div 3)) (\<lambda>_.
     result_bind (combine_evals tr ''claim_evals_ops'' ''challenge_combine_n_to_one'' ''joint_claim_eval_ops'' (hash_evals_ops (hl_row p) (hl_col p) (hl_val p)) s) (\<lambda>(ch, v, s).
     verified_bind (check_opening pcs (sc_comb_ops comm) (hl_proof_ops p) (key_vk (gens_ops gens)) s (ch @ rand_ops) v) (\<lambda>s.
     result_bind (combine_evals tr ''claim_evals_mem'' ''challenge_combine_two_to_one'' ''joint_claim_eval_mem'' [snd (snd (hl_row p)), snd (snd (hl_col p))] s) (\<lambda>(ch, v, s).
     verified_bind (check_opening pcs (sc_comb_mem comm) (hl_proof_mem p) (key_vk (gens_mem gens)) s (ch @ rand_mem) v) (\<lambda>s.
     result_bind (hash_verify_helper rand_mem claims_row er (fst (hl_row p)) (fst (snd (hl_row p))) (snd (snd (hl_row p))) rx rs) (\<lambda>_.
     result_bind (hash_verify_helper rand_mem claims_col ec (fst (hl_col p)) (fst (snd (hl_col p))) (snd (snd (hl_col p))) ry rs) (\<lambda>_.
       Ok (Inr s))))))))))"

section \<open>The product layer\<close>

record 'f product_layer_proof =
  pp_row :: "'f \<times> 'f list \<times> 'f list \<times> 'f"
  pp_col :: "'f \<times> 'f list \<times> 'f list \<times> 'f"
  pp_val :: "'f list \<times> 'f list"
  pp_mem :: "'f batched_proof"
  pp_ops :: "'f batched_proof"

text \<open>The values of the circuits of a memory: initial cells, reads, writes, final cells.\<close>

definition layer_evals :: "'f::field product_layer \<Rightarrow> ('f \<times> 'f list \<times> 'f list \<times> 'f) result" where
  "layer_evals l = result_bind (product_evaluate (pl_init l)) (\<lambda>i. result_bind (product_evaluate (pl_audit l)) (\<lambda>a.
     result_bind (collect (map product_evaluate (pl_read l))) (\<lambda>rs. result_bind (collect (map product_evaluate (pl_write l))) (\<lambda>ws.
       Ok (i, rs, ws, a)))))"

fun subset_check :: "'f::field \<times> 'f list \<times> 'f list \<times> 'f \<Rightarrow> bool" where
  "subset_check (i, rs, ws, a) \<longleftrightarrow> i * prod_list ws = prod_list rs * a"

fun append_set :: "('s, 'f) transcript \<Rightarrow> string \<Rightarrow> 'f \<times> 'f list \<times> 'f list \<times> 'f \<Rightarrow> 's \<Rightarrow> 's" where
  "append_set tr name (i, rs, ws, a) s = append_scalar tr (''claim_'' @ name @ ''_eval_audit'') a
     (append_scalars tr (''claim_'' @ name @ ''_eval_write'') ws (append_scalars tr (''claim_'' @ name @ ''_eval_read'') rs
     (append_scalar tr (''claim_'' @ name @ ''_eval_init'') i s)))"

definition append_halves :: "('s, 'f) transcript \<Rightarrow> ('f \<times> 'f) list \<Rightarrow> 's \<Rightarrow> 's" where
  "append_halves tr lrs s = fold (\<lambda>(l, r) s. append_scalar tr ''claim_eval_dotp_right'' r (append_scalar tr ''claim_eval_dotp_left'' l s)) lrs s"

text \<open>The two halves of the dot product of an instance, and their values, which must add up to the claimed evaluation.\<close>

definition split_instance :: "('f::field dense_poly \<times> 'f dense_poly \<times> 'f dense_poly) \<times> 'f \<Rightarrow> (('f dotp_circuit \<times> 'f dotp_circuit) \<times> 'f \<times> 'f) result" where
  "split_instance = (\<lambda>((left, right, weights), eval). result_bind (dotp_new left right weights) (\<lambda>c. result_bind (dotp_split c) (\<lambda>(a, b).
     result_bind (dotp_evaluate a) (\<lambda>x. result_bind (dotp_evaluate b) (\<lambda>y. if x + y \<noteq> eval then Panic else Ok ((a, b), x, y))))))"

definition product_layer_prove ::
  "('s, 'f::field) transcript \<Rightarrow> 'f product_layer \<Rightarrow> 'f product_layer \<Rightarrow> 'f multi_dense \<Rightarrow> 'f derefs \<Rightarrow> 'f list \<Rightarrow> 's
   \<Rightarrow> ('f product_layer_proof \<times> 'f list \<times> 'f list \<times> 's) result" where
  "product_layer_prove tr row col dense derefs eval s = (let s = append_protocol_name tr ''Sparse polynomial product layer proof'' s in
     result_bind (layer_evals row) (\<lambda>re. if \<not> subset_check re then Panic else let s = append_set tr ''row'' re s in
     result_bind (layer_evals col) (\<lambda>ce. if \<not> subset_check ce then Panic else let s = append_set tr ''col'' ce s in
     if length eval \<noteq> length (de_row derefs) \<or> length eval \<noteq> length (de_col derefs) \<or> length eval \<noteq> length (md_val dense) then Panic else
     result_bind (collect (map split_instance (zip (zip (de_row derefs) (zip (de_col derefs) (md_val dense))) eval))) (\<lambda>halves.
     let s = append_halves tr (map snd halves) s in
     if length (pl_read row) \<noteq> 3 \<or> length (pl_write row) < 3 \<or> length (pl_read col) < 3 \<or> length (pl_write col) < 3 \<or> length halves < 3 then Panic else
     result_bind (batched_prove tr (take 3 (pl_read row) @ take 3 (pl_write row) @ take 3 (pl_read col) @ take 3 (pl_write col))
       (concat (map (\<lambda>((a, b), _). [a, b]) (take 3 halves))) s) (\<lambda>(proof_ops, rand_ops, s).
     result_bind (batched_prove tr [pl_init row, pl_audit row, pl_init col, pl_audit col] [] s) (\<lambda>(proof_mem, rand_mem, s).
     Ok (\<lparr>pp_row = re, pp_col = ce, pp_val = (map (fst \<circ> snd) halves, map (snd \<circ> snd) halves), pp_mem = proof_mem, pp_ops = proof_ops\<rparr>,
       rand_mem, rand_ops, s)))))))"

definition set_ok :: "nat \<Rightarrow> 'f::field \<times> 'f list \<times> 'f list \<times> 'f \<Rightarrow> bool" where
  "set_ok n c \<longleftrightarrow> length (fst (snd c)) = n \<and> length (fst (snd (snd c))) = n \<and> subset_check c"

definition product_layer_verify ::
  "('s, 'f::field) transcript \<Rightarrow> 'f product_layer_proof \<Rightarrow> nat \<Rightarrow> nat \<Rightarrow> 'f list \<Rightarrow> 's
   \<Rightarrow> ('f list \<times> 'f list \<times> 'f list \<times> 'f list \<times> 'f list \<times> 's) result" where
  "product_layer_verify tr p num_ops num_cells eval s = (let s = append_protocol_name tr ''Sparse polynomial product layer proof'' s;
       n = length eval; (ri, rr, rw, ra) = pp_row p; (ci, cr, cw, ca) = pp_col p; (ls, rs) = pp_val p in
     if \<not> set_ok n (pp_row p) then Panic else let s = append_set tr ''row'' (pp_row p) s in
     if \<not> set_ok n (pp_col p) then Panic else let s = append_set tr ''col'' (pp_col p) s in
     if length ls \<noteq> n \<or> length rs < n \<or> map2 (+) ls rs \<noteq> eval then Panic else let s = append_halves tr (zip ls rs) s in
     result_bind (batched_verify tr (pp_ops p) (rr @ rw @ cr @ cw) (concat (map2 (\<lambda>l r. [l, r]) ls rs)) num_ops s) (\<lambda>(claims_ops, claims_dotp, rand_ops, s).
     result_bind (batched_verify tr (pp_mem p) [ri, ra, ci, ca] [] num_cells s) (\<lambda>(claims_mem, _, rand_mem, s).
       Ok (claims_mem, rand_mem, claims_ops, claims_dotp, rand_ops, s))))"

section \<open>The evaluation network\<close>

record ('f, 'pr) network_proof =
  np_prod :: "'f product_layer_proof"
  np_hash :: "('f, 'pr) hash_layer_proof"

definition network_prove ::
  "('s, 'f::field) transcript \<Rightarrow> ('s, 'f, 'cm, 'pr, 'ck, 'vk, 'e) pcs \<Rightarrow> 'f eval_network \<Rightarrow> 'f multi_dense \<Rightarrow> 'f derefs \<Rightarrow> 'f list \<Rightarrow> ('ck, 'vk) spark_keys \<Rightarrow> 's
   \<Rightarrow> (('f, 'pr) network_proof \<times> 's) result" where
  "network_prove tr pcs net dense derefs evals gens s =
     result_bind (product_layer_prove tr (en_row net) (en_col net) dense derefs evals (append_protocol_name tr ''Sparse polynomial evaluation proof'' s))
       (\<lambda>(pp, rand_mem, rand_ops, s). result_bind (hash_prove tr pcs rand_mem rand_ops dense derefs gens s) (\<lambda>(hp, s).
       Ok (\<lparr>np_prod = pp, np_hash = hp\<rparr>, s)))"

definition network_verify ::
  "('s, 'f::field) transcript \<Rightarrow> ('s, 'f, 'cm, 'pr, 'ck, 'vk, 'e) pcs \<Rightarrow> ('f, 'pr) network_proof \<Rightarrow> 'cm spark_commitment \<Rightarrow> 'cm \<Rightarrow> 'f list \<Rightarrow> ('ck, 'vk) spark_keys
   \<Rightarrow> 'f list \<Rightarrow> 'f list \<Rightarrow> 'f \<times> 'f \<Rightarrow> nat \<Rightarrow> 's \<Rightarrow> ('e, 's) verified" where
  "network_verify tr pcs p comm comm_derefs evals gens rx ry rs nz s = (let n = length evals in
     if length rx \<noteq> length ry then Panic else
     result_bind (product_layer_verify tr (np_prod p) (next_power_of_two nz) (2 ^ length rx) evals (append_protocol_name tr ''Sparse polynomial evaluation proof'' s))
       (\<lambda>(claims_mem, rand_mem, claims_ops, claims_dotp, rand_ops, s).
       if length claims_mem \<noteq> 4 \<or> length claims_ops \<noteq> 4 * n \<or> length claims_dotp \<noteq> 3 * n then Panic else
       let row = take (2 * n) claims_ops; col = drop (2 * n) claims_ops in
       hash_verify tr pcs (np_hash p) rand_mem rand_ops (claims_mem ! 0, take n row, drop n row, claims_mem ! 1)
         (claims_mem ! 2, take n col, drop n col, claims_mem ! 3) claims_dotp comm gens comm_derefs rx ry rs s))"

section \<open>The proof of evaluation\<close>

definition multi_commit :: "('s, 'f::field, 'cm, 'pr, 'ck, 'vk, 'e) pcs \<Rightarrow> 'f sparse_mat list \<Rightarrow> ('ck, 'vk) spark_keys \<Rightarrow> ('cm spark_commitment \<times> 'f multi_dense) result" where
  "multi_commit pcs polys gens = result_bind (multi_sparse_to_dense_rep polys) (\<lambda>dense. result_bind (index (at_read (md_row dense)) 0) (\<lambda>r0.
     Ok (\<lparr>sc_batch_size = length polys, sc_num_ops = dp_len r0, sc_num_mem_cells = dp_len (at_audit (md_row dense)),
       sc_comb_ops = pcs_commit pcs (md_comb_ops dense) (key_ck (gens_ops gens)), sc_comb_mem = pcs_commit pcs (md_comb_mem dense) (key_ck (gens_mem gens))\<rparr>, dense)))"

record ('f, 'cm, 'pr) spark_proof =
  sp_derefs :: 'cm
  sp_network :: "('f, 'pr) network_proof"

definition spark_prove ::
  "('s, 'f::field) transcript \<Rightarrow> ('s, 'f, 'cm, 'pr, 'ck, 'vk, 'e) pcs \<Rightarrow> 'f multi_dense \<Rightarrow> 'f list \<Rightarrow> 'f list \<Rightarrow> 'f list \<Rightarrow> ('ck, 'vk) spark_keys \<Rightarrow> 's
   \<Rightarrow> (('f, 'cm, 'pr) spark_proof \<times> 's) result" where
  "spark_prove tr pcs dense rx ry evals gens s = (let s = append_protocol_name tr ''Sparse polynomial evaluation proof'' s in
     if length evals \<noteq> md_batch_size dense then Panic else
     let (rx_ext, ry_ext) = equalize rx ry; mem_rx = eq_evals rx_ext; mem_ry = eq_evals ry_ext in
     result_bind (multi_deref dense mem_rx mem_ry) (\<lambda>derefs.
     let comm = derefs_commit pcs derefs (key_ck (gens_derefs gens)); s = derefs_absorb tr pcs comm ''comm_poly_row_col_ops_val'' s;
         (r_mem_check, s) = challenge_vector tr ''challenge_r_hash'' 2 s in
     result_bind (network_new dense derefs mem_rx mem_ry (r_mem_check ! 0, r_mem_check ! 1)) (\<lambda>net.
     result_bind (network_prove tr pcs net dense derefs evals gens s) (\<lambda>(p, s). Ok (\<lparr>sp_derefs = comm, sp_network = p\<rparr>, s)))))"

definition spark_verify ::
  "('s, 'f::field) transcript \<Rightarrow> ('s, 'f, 'cm, 'pr, 'ck, 'vk, 'e) pcs \<Rightarrow> ('f, 'cm, 'pr) spark_proof \<Rightarrow> 'cm spark_commitment \<Rightarrow> 'f list \<Rightarrow> 'f list \<Rightarrow> 'f list
   \<Rightarrow> ('ck, 'vk) spark_keys \<Rightarrow> 's \<Rightarrow> ('e, 's) verified" where
  "spark_verify tr pcs p comm rx ry evals gens s = (let s = append_protocol_name tr ''Sparse polynomial evaluation proof'' s; (rx_ext, ry_ext) = equalize rx ry in
     if 2 ^ length rx_ext \<noteq> sc_num_mem_cells comm then Panic else
     let s = derefs_absorb tr pcs (sp_derefs p) ''comm_poly_row_col_ops_val'' s; (r_mem_check, s) = challenge_vector tr ''challenge_r_hash'' 2 s in
     network_verify tr pcs (sp_network p) comm (sp_derefs p) evals gens rx_ext ry_ext (r_mem_check ! 0, r_mem_check ! 1) (sc_num_ops comm) s)"

end
