(* ===== verification/Spark_Mle.thy ===== *)
theory Spark_Mle
  imports Spark
begin

text \<open>
  Multilinear extensions of the tables of the memory check: the extension of a table of hashes is the hash of the
  extensions, the extension of several tables put one after the other is the extension of their values, and the
  reduction of several evaluations to one computes it.
\<close>

section \<open>Extensions as sums\<close>

lemma mle_sum: "length Z = 2 ^ length r \<Longrightarrow> mle Z r = (\<Sum>i<2 ^ length r. Z ! i * eq_table r ! i)"
proof -
  assume Z: "length Z = 2 ^ length r"
  have "map2 (*) Z (eq_table r) = map (\<lambda>i. Z ! i * eq_table r ! i) [0..<2 ^ length r]" using Z by (intro nth_equalityI) simp_all
  then show ?thesis by (simp add: mle_def interv_sum_list_conv_sum_set_nat atLeast0LessThan)
qed

lemma sum_eq_table: "sum_list (eq_table r) = 1"
proof (induction r)
  case (Cons x r)
  have "sum_list (map ((*) c) t) = c * sum_list t" for c :: 'a and t by (induction t) (simp_all add: distrib_left)
  then show ?case using Cons by simp
qed simp

lemma mle_replicate: "n = 2 ^ length r \<Longrightarrow> mle (replicate n c) r = c"
proof -
  assume n: "n = 2 ^ length r"
  have "(\<Sum>i<2 ^ length r. eq_table r ! i) = (1 :: 'a)" using sum_eq_table [of r] by (simp add: sum_list_sum_nth atLeast0LessThan)
  then show ?thesis using n by (simp add: mle_sum sum_distrib_left [symmetric])
qed

text \<open>The extension is linear, so it commutes with the hash.\<close>

lemma mle_hash:
  assumes "length A = 2 ^ length r" "length V = 2 ^ length r" "length T = 2 ^ length r" "length Z = 2 ^ length r"
    and Z: "\<And>i. i < 2 ^ length r \<Longrightarrow> Z ! i = hash_func h (A ! i) (V ! i) (T ! i) - e"
  shows "mle Z r = hash_func h (mle A r) (mle V r) (mle T r) - e"
proof -
  have "mle Z r = (\<Sum>i<2 ^ length r. T ! i * eq_table r ! i * (h * h) + V ! i * eq_table r ! i * h + A ! i * eq_table r ! i - e * eq_table r ! i)"
    unfolding mle_sum [OF assms(4)] by (intro sum.cong) (simp_all add: Z hash_func_def algebra_simps)
  also have "\<dots> = mle T r * (h * h) + mle V r * h + mle A r - e * mle (replicate (2 ^ length r) 1) r"
    using assms(1-3) by (simp add: mle_sum sum.distrib sum_subtractf sum_distrib_right sum_distrib_left)
  finally show ?thesis by (simp add: mle_replicate hash_func_def)
qed

lemma mle_add_one: "length A = 2 ^ length r \<Longrightarrow> mle (map (\<lambda>x. x + 1) A) r = mle A r + 1"
proof -
  assume A: "length A = 2 ^ length r"
  then have "mle (map (\<lambda>x. x + 1) A) r = (\<Sum>i<2 ^ length r. A ! i * eq_table r ! i + eq_table r ! i)" by (simp add: mle_sum algebra_simps)
  also have "\<dots> = mle A r + mle (replicate (2 ^ length r) 1) r" using A by (simp add: mle_sum sum.distrib)
  finally show ?thesis by (simp add: mle_replicate)
qed

section \<open>The tables of the memory check\<close>

lemma mle_ops_table:
  assumes "length as = 2 ^ length rand" "length ts = 2 ^ length rand"
  shows "mle (ops_table r mem as ts) rand
    = hash_func (fst r) (mle (map of_nat as) rand) (mle (map ((!) mem) as) rand) (mle (map of_nat ts) rand) - snd r"
  using assms by (intro mle_hash) (simp_all add: ops_table_def hash_cell_def)

lemma mle_cell_table:
  assumes "length mem = 2 ^ length rand" "length ts = 2 ^ length rand"
  shows "mle (cell_table r mem ts) rand
    = hash_func (fst r) (mle (map of_nat [0..<2 ^ length rand]) rand) (mle mem rand) (mle (map of_nat ts) rand) - snd r"
  using assms by (intro mle_hash) (simp_all add: cell_table_def hash_cell_def)

lemma mle_Suc: "length ts = 2 ^ length rand \<Longrightarrow> mle (map of_nat (map Suc ts)) rand = mle (map of_nat ts) rand + 1"
  using mle_add_one [of "map of_nat ts" rand] by (simp add: comp_def add.commute)

lemma identity_mle: "identity_evaluate (length r) r = Ok (mle (map of_nat [0..<2 ^ length r]) r)"
proof -
  have "mle (map of_nat [0..<2 ^ length r]) r = sum_list (map (\<lambda>i. of_nat (2 ^ (length r - i - 1)) * r ! i) [0..<length r])"
  proof (induction r)
    case Nil
    then show ?case by (simp add: mle_def)
  next
    case (Cons x r)
    let ?n = "2 ^ length r" and ?low = "map of_nat [0..<2 ^ length r]"
    have shift: "[?n..<?n + ?n] = map (\<lambda>i. i + ?n) [0..<?n]" by (simp add: map_add_upt)
    have "map of_nat [0..<2 ^ length (x # r)] = ?low @ map (\<lambda>y. y + of_nat ?n) (?low :: 'a list)"
      unfolding length_Cons power_Suc mult_2 upt_add_eq_append [OF le0] map_append shift by (simp add: comp_def)
    moreover have "mle (map (\<lambda>y. y + of_nat ?n) ?low) r = mle ?low r + of_nat ?n"
    proof -
      have "mle (map (\<lambda>y. y + of_nat ?n) ?low) r = mle ?low r + mle (replicate ?n (of_nat ?n)) r"
        by (simp add: mle_sum algebra_simps sum.distrib)
      then show ?thesis by (simp add: mle_replicate)
    qed
    ultimately have "mle (map of_nat [0..<2 ^ length (x # r)]) (x # r) = mle ?low r + x * of_nat ?n"
      by (simp add: mle_Cons algebra_simps)
    moreover have "[0..<Suc (length r)] = 0 # map Suc [0..<length r]" by (simp add: map_Suc_upt upt_conv_Cons del: upt_Suc)
    ultimately show ?case using Cons.IH by (simp add: comp_def mult.commute add.commute del: upt_Suc)
  qed
  then show ?thesis by (simp add: identity_evaluate_def)
qed

lemma eq_evaluate_mle: "length r = length s \<Longrightarrow> eq_evaluate r s = Ok (mle (eq_table r) s)"
  by (simp add: eq_evaluate_def mle_eq_table)

section \<open>Tables put together\<close>

lemma length_concat_same: "\<forall>Z\<in>set Zs. length Z = n \<Longrightarrow> length (concat Zs) = length Zs * n"
  by (induction Zs) simp_all

lemma mle_concat: "length Zs = 2 ^ length ch \<Longrightarrow> \<forall>Z\<in>set Zs. length Z = 2 ^ length r \<Longrightarrow> mle (concat Zs) (ch @ r) = mle (map (\<lambda>Z. mle Z r) Zs) ch"
proof (induction ch arbitrary: Zs)
  case Nil
  then obtain Z where "Zs = [Z]" by (auto simp: length_Suc_conv)
  then show ?case by (simp add: mle_Nil)
next
  case (Cons x ch)
  let ?n = "2 ^ length ch"
  have sz: "length (take ?n Zs) = ?n" "length (drop ?n Zs) = ?n" using Cons.prems(1) by simp_all
  have all: "\<forall>Z\<in>set (take ?n Zs). length Z = 2 ^ length r" "\<forall>Z\<in>set (drop ?n Zs). length Z = 2 ^ length r"
    using Cons.prems(2) by (auto dest: in_set_takeD in_set_dropD)
  have len: "length (concat (take ?n Zs)) = 2 ^ length (ch @ r)"
    unfolding length_concat_same [OF all(1)] sz(1) length_append power_add ..
  have "mle (concat Zs) ((x # ch) @ r) = mle (concat (take ?n Zs) @ concat (drop ?n Zs)) (x # (ch @ r))"
    unfolding concat_append [symmetric] by simp
  also have "\<dots> = (1 - x) * mle (concat (take ?n Zs)) (ch @ r) + x * mle (concat (drop ?n Zs)) (ch @ r)" by (rule mle_Cons [OF len])
  also have "\<dots> = (1 - x) * mle (map (\<lambda>Z. mle Z r) (take ?n Zs)) ch + x * mle (map (\<lambda>Z. mle Z r) (drop ?n Zs)) ch"
    unfolding Cons.IH [OF sz(1) all(1)] Cons.IH [OF sz(2) all(2)] ..
  also have "\<dots> = mle (map (\<lambda>Z. mle Z r) (take ?n Zs) @ map (\<lambda>Z. mle Z r) (drop ?n Zs)) (x # ch)"
    by (rule mle_Cons [symmetric]) (simp only: length_map sz)
  finally show ?case unfolding map_append [symmetric] by simp
qed

lemma bit_len_double: "0 < n \<Longrightarrow> bit_len (2 * n) = Suc (bit_len n)" "bit_len (Suc (2 * n)) = Suc (bit_len n)"
  by (subst bit_len.simps, simp)+

lemma bit_len_shift: "0 < n \<Longrightarrow> bit_len (n * 2 ^ k - 1) = k + bit_len (n - 1)"
proof (induction k)
  case (Suc k)
  have "0 < n * 2 ^ k" using Suc.prems by simp
  then have "n * 2 ^ Suc k - 1 = Suc (2 * (n * 2 ^ k - 1))" unfolding power_Suc mult.left_commute [of n 2] by linarith
  then show ?case using Suc by (simp add: bit_len_double)
qed simp

lemma next_power_shift: "0 < n \<Longrightarrow> next_power_of_two (n * 2 ^ k) = next_power_of_two n * 2 ^ k"
proof (cases "n = 1")
  case True
  then show ?thesis using next_power_of_two_pow2 [of k] next_power_of_two_pow2 [of 0] by simp
next
  case False
  moreover assume "0 < n"
  ultimately have "1 < n" by simp
  moreover have "1 < n * 2 ^ k" by (rule less_le_trans [OF \<open>1 < n\<close>]) simp
  ultimately show ?thesis using bit_len_shift [of n k] by (simp add: next_power_of_two_def power_add mult.commute)
qed

text \<open>Padding a list of tables with empty tables pads the concatenation.\<close>

lemma resize_concat:
  fixes Zs :: "'a::zero list list"
  assumes "\<forall>Z\<in>set Zs. length Z = m" "length Zs \<le> N"
  shows "resize (N * m) 0 (concat Zs) = concat (resize N (replicate m 0) Zs)"
proof -
  have "concat (replicate n (replicate m 0)) = replicate (n * m) (0 :: 'a)" for n by (induction n) (simp_all add: replicate_add)
  then show ?thesis using assms length_concat_same [OF assms(1)] by (simp add: resize_def diff_mult_distrib)
qed

lemma resize_map: "resize n (f x) (map f xs) = map f (resize n x xs)"
  by (simp add: resize_def take_map)

lemma set_resize: "y \<in> set (resize n x xs) \<Longrightarrow> y = x \<or> y \<in> set xs"
  by (auto simp: resize_def dest: in_set_takeD)

lemma merged_evaluate:
  fixes polys :: "'f::field dense_poly list"
  assumes polys: "polys \<noteq> []" "\<forall>p\<in>set polys. length (dp_Z p) = 2 ^ length r" and n: "next_power_of_two (length polys) = 2 ^ length ch"
  shows "merged polys = vpoly (length ch + length r) (concat (resize (2 ^ length ch) (replicate (2 ^ length r) 0) (map dp_Z polys)))"
    "dense_ok (merged polys)" "dense_evaluate (merged polys) (ch @ r) = Ok (mle (resize (2 ^ length ch) 0 (map (\<lambda>p. mle (dp_Z p) r) polys)) ch)"
proof -
  let ?Zs = "map dp_Z polys" and ?R = "resize (2 ^ length ch) (replicate (2 ^ length r) 0) (map dp_Z polys)"
  have all: "\<forall>Z\<in>set ?Zs. length Z = 2 ^ length r" using polys(2) by simp
  have le: "length ?Zs \<le> 2 ^ length ch" using n next_power_of_two_ge [of "length polys"] by simp
  have R: "\<forall>Z\<in>set ?R. length Z = 2 ^ length r" using all set_resize by fastforce
  have len: "length (concat ?R) = 2 ^ (length ch + length r)" using length_concat_same [OF R] by (simp add: power_add)
  have "next_power_of_two (length (concat ?Zs)) = 2 ^ length ch * 2 ^ length r"
    unfolding length_concat_same [OF all] using next_power_shift [of "length polys" "length r"] polys(1) n by simp
  then have "resize (next_power_of_two (length (concat ?Zs))) 0 (concat ?Zs) = concat ?R" using resize_concat [OF all le] by simp
  then show eq: "merged polys = vpoly (length ch + length r) (concat ?R)" using dense_new_vpoly [OF len] by (simp add: merged_def Let_def)
  show ok: "dense_ok (merged polys)" unfolding eq using len by (rule vpoly_ok)
  have "mle (concat ?R) (ch @ r) = mle (map (\<lambda>Z. mle Z r) ?R) ch" by (rule mle_concat [OF _ R]) simp
  also have "map (\<lambda>Z. mle Z r) ?R = resize (2 ^ length ch) 0 (map (\<lambda>p. mle (dp_Z p) r) polys)"
    using resize_map [of "2 ^ length ch" "\<lambda>Z. mle Z r" "replicate (2 ^ length r) 0" ?Zs] by (simp add: mle_replicate comp_def)
  finally show "dense_evaluate (merged polys) (ch @ r) = Ok (mle (resize (2 ^ length ch) 0 (map (\<lambda>p. mle (dp_Z p) r) polys)) ch)"
    using dense_evaluate_mle [OF ok, of "ch @ r"] by (simp add: eq)
qed

section \<open>Reducing evaluations\<close>

lemma bind_bots_mle: "length Z = 2 ^ length ch \<Longrightarrow> bind_bots (rev ch) (vpoly (length ch) Z) = Ok (vpoly 0 [mle Z ch])"
proof (induction ch arbitrary: Z rule: rev_induct)
  case Nil
  then obtain z where "Z = [z]" by (auto simp: length_Suc_conv)
  then show ?case by (simp add: mle_Nil)
next
  case (snoc x ch)
  have "bound_poly_var_bot x (vpoly (length (ch @ [x])) Z) = Ok (vpoly (length ch) (bind_bot x Z))"
    using snoc.prems by (subst bot_list) (simp_all add: pred64_def vpoly_def)
  moreover have "length (bind_bot x Z) = 2 ^ length ch" using snoc.prems by (simp add: bind_bot_def)
  ultimately show ?case using snoc.IH mle_bind_bot [of Z ch x] snoc.prems by simp
qed

lemma combine_evals_mle:
  assumes "length evals = 2 ^ n"
  obtains ch s' where "combine_evals tr le lc lj evals s = Ok (ch, mle evals ch, s')" "length ch = n"
proof -
  obtain ch s1 where ch: "challenge_vector tr lc n (append_scalars tr le evals s) = (ch, s1)" by (cases "challenge_vector tr lc n (append_scalars tr le evals s)")
  then have len: "length ch = n" by (rule challenge_vector_length)
  have "combine_evals tr le lc lj evals s = Ok (ch, mle evals ch, append_scalar tr lj (mle evals ch) s1)"
    unfolding combine_evals_def Let_def assms log_2_pow2 result_bind.simps ch prod.case dense_new_vpoly [OF assms]
    using bind_bots_mle [of evals ch] assms len by simp
  then show ?thesis using that len by blast
qed

end
