(* ===== verification/Spark_Correct.thy ===== *)
theory Spark_Correct
  imports Spark_Mle
begin

text \<open>
  Completeness of the proof of evaluation of committed sparse matrices: under a polynomial commitment scheme whose honest
  openings are accepted, the prover succeeds and the verifier accepts its proof of the evaluations of the matrices.
\<close>

section \<open>Openings\<close>

text \<open>What is asked of the commitment scheme: the opening of a polynomial at a point of its number of variables, to its
  value there, is accepted, and leaves the verifier with the transcript of the prover.\<close>

definition pcs_complete :: "('s, 'f::field, 'cm, 'pr, 'ck, 'vk, 'e) pcs \<Rightarrow> ('ck, 'vk) pcs_keys \<Rightarrow> bool" where
  "pcs_complete pcs k \<longleftrightarrow> (\<forall>p r v s. dense_ok p \<longrightarrow> length r = dp_num_vars p \<longrightarrow> dense_evaluate p r = Ok v \<longrightarrow>
     (case pcs_prove pcs p r v (key_ck k) s of (pf, s') \<Rightarrow> pcs_verify pcs (pcs_commit pcs p (key_ck k)) pf (key_vk k) s r v = Inr s'))"

definition keys_complete :: "('s, 'f::field, 'cm, 'pr, 'ck, 'vk, 'e) pcs \<Rightarrow> ('ck, 'vk) spark_keys \<Rightarrow> bool" where
  "keys_complete pcs g \<longleftrightarrow> pcs_complete pcs (gens_ops g) \<and> pcs_complete pcs (gens_mem g) \<and> pcs_complete pcs (gens_derefs g)"

lemma opened:
  assumes "pcs_complete pcs k" "dense_ok p" "length r = dp_num_vars p" "dense_evaluate p r = Ok v"
  obtains pf s' where "pcs_prove pcs p r v (key_ck k) s = (pf, s')"
    "check_opening pcs (pcs_commit pcs p (key_ck k)) pf (key_vk k) s r v = Ok (Inr s')"
proof -
  obtain pf s' where p: "pcs_prove pcs p r v (key_ck k) s = (pf, s')" by (cases "pcs_prove pcs p r v (key_ck k) s")
  then have "pcs_verify pcs (pcs_commit pcs p (key_ck k)) pf (key_vk k) s r v = Inr s'"
    using assms(1) [unfolded pcs_complete_def, rule_format, OF assms(2-4), of s] by simp
  then show ?thesis using that p by (simp add: check_opening_def)
qed

text \<open>The opening of several polynomials by one of the polynomial they form.\<close>

lemma merged_opening:
  fixes polys :: "'f::field dense_poly list"
  assumes "pcs_complete pcs k" "polys \<noteq> []" "\<forall>p\<in>set polys. length (dp_Z p) = 2 ^ length r"
  defines "evals \<equiv> resize (next_power_of_two (length polys)) 0 (map (\<lambda>p. mle (dp_Z p) r) polys)"
  obtains ch v s1 pf s' where "combine_evals tr le lc lj evals s = Ok (ch, v, s1)"
    "pcs_prove pcs (merged polys) (ch @ r) v (key_ck k) s1 = (pf, s')"
    "check_opening pcs (pcs_commit pcs (merged polys) (key_ck k)) pf (key_vk k) s1 (ch @ r) v = Ok (Inr s')"
    "log_2 (length evals) = Ok (length ch)" "dp_num_vars (merged polys) = length r + length ch"
proof -
  obtain n where n: "next_power_of_two (length polys) = 2 ^ n" using next_power_of_two_pow by blast
  then have len: "length evals = 2 ^ n" by (simp add: evals_def)
  obtain ch s1 where c: "combine_evals tr le lc lj evals s = Ok (ch, mle evals ch, s1)" "length ch = n" by (rule combine_evals_mle [OF len])
  have pow: "next_power_of_two (length polys) = 2 ^ length ch" using n c(2) by simp
  note m = merged_evaluate [OF assms(2,3) pow]
  have vars: "dp_num_vars (merged polys) = length r + length ch" by (simp add: m(1))
  have "dense_evaluate (merged polys) (ch @ r) = Ok (mle evals ch)" using m(3) pow by (simp add: evals_def)
  then obtain pf s' where o: "pcs_prove pcs (merged polys) (ch @ r) (mle evals ch) (key_ck k) s1 = (pf, s')"
    "check_opening pcs (pcs_commit pcs (merged polys) (key_ck k)) pf (key_vk k) s1 (ch @ r) (mle evals ch) = Ok (Inr s')"
    by (rule opened [OF assms(1) m(2), rotated 1]) (simp_all add: vars)
  have "log_2 (length evals) = Ok (length ch)" using len c(2) log_2_pow2 [of n] by simp
  then show ?thesis using that c(1) o vars by blast
qed

lemma pair_opening:
  fixes A B :: "'f::field list"
  assumes "pcs_complete pcs k" "length A = 2 ^ length r" "length B = 2 ^ length r"
  obtains ch v s1 pf s' where "combine_evals tr le lc lj [mle A r, mle B r] s = Ok (ch, v, s1)"
    "pcs_prove pcs (vpoly (Suc (length r)) (A @ B)) (ch @ r) v (key_ck k) s1 = (pf, s')"
    "check_opening pcs (pcs_commit pcs (vpoly (Suc (length r)) (A @ B)) (key_ck k)) pf (key_vk k) s1 (ch @ r) v = Ok (Inr s')"
proof -
  have two: "length [mle A r, mle B r] = 2 ^ 1" by simp
  obtain ch s1 where c: "combine_evals tr le lc lj [mle A r, mle B r] s = Ok (ch, mle [mle A r, mle B r] ch, s1)" "length ch = 1"
    by (rule combine_evals_mle [OF two])
  have ok: "dense_ok (vpoly (Suc (length r)) (A @ B))" using assms by (intro vpoly_ok) simp
  have "mle (A @ B) (ch @ r) = mle [mle A r, mle B r] ch" using mle_concat [of "[A, B]" ch r] assms c(2) by simp
  then have "dense_evaluate (vpoly (Suc (length r)) (A @ B)) (ch @ r) = Ok (mle [mle A r, mle B r] ch)"
    using dense_evaluate_mle [OF ok, of "ch @ r"] c(2) by simp
  then obtain pf s' where "pcs_prove pcs (vpoly (Suc (length r)) (A @ B)) (ch @ r) (mle [mle A r, mle B r] ch) (key_ck k) s1 = (pf, s')"
    "check_opening pcs (pcs_commit pcs (vpoly (Suc (length r)) (A @ B)) (key_ck k)) pf (key_vk k) s1 (ch @ r) (mle [mle A r, mle B r] ch) = Ok (Inr s')"
    by (rule opened [OF assms(1) ok, rotated 1]) (simp_all add: c(2))
  then show ?thesis using that c(1) by blast
qed

section \<open>The hash layer\<close>

definition ts_evals :: "nat list list \<Rightarrow> nat list list \<Rightarrow> nat list \<Rightarrow> 'f::field list \<Rightarrow> 'f list \<Rightarrow> 'f list \<times> 'f list \<times> 'f" where
  "ts_evals ops rss audit rm ro = (map (\<lambda>as. mle (map of_nat as) ro) ops, map (\<lambda>rs. mle (map of_nat rs) ro) rss, mle (map of_nat audit) rm)"

definition mem_claims :: "'f::field \<times> 'f \<Rightarrow> 'f list \<Rightarrow> nat list list \<Rightarrow> nat list list \<Rightarrow> nat list \<Rightarrow> 'f list \<Rightarrow> 'f list \<Rightarrow> 'f \<times> 'f list \<times> 'f list \<times> 'f" where
  "mem_claims h t ops rss audit rm ro = (mle (cell_table h t (replicate (length audit) 0)) rm,
     map2 (\<lambda>as rs. mle (ops_table h t as rs) ro) ops rss, map2 (\<lambda>as rs. mle (ops_table h t as (map Suc rs)) ro) ops rss,
     mle (cell_table h t audit) rm)"

lemma balanced_lengths:
  assumes "balanced m k ops rss audit"
  shows "length rss = length ops" "length audit = 2 ^ m" "\<And>i. i < length ops \<Longrightarrow> length (ops ! i) = 2 ^ k \<and> length (rss ! i) = 2 ^ k"
    "\<And>as. as \<in> set ops \<Longrightarrow> length as = 2 ^ k" "\<And>rs. rs \<in> set rss \<Longrightarrow> length rs = 2 ^ k"
proof -
  have l: "list_all2 (\<lambda>as rs. length as = 2 ^ k \<and> length rs = 2 ^ k) ops rss" and a: "length audit = 2 ^ m" using assms by (simp_all add: balanced_def)
  show "length rss = length ops" using list_all2_lengthD [OF l] by simp
  show "length audit = 2 ^ m" by (rule a)
  show nth: "length (ops ! i) = 2 ^ k \<and> length (rss ! i) = 2 ^ k" if "i < length ops" for i using list_all2_nthD [OF l that] .
  show "length as = 2 ^ k" if "as \<in> set ops" for "as" using that nth by (auto simp: in_set_conv_nth)
  show "length rs = 2 ^ k" if "rs \<in> set rss" for rs using that nth list_all2_lengthD [OF l] by (auto simp: in_set_conv_nth)
qed

lemma hash_helper_evals:
  assumes "balanced (length rm) (length ro) ops rss audit"
  shows "hash_prove_helper rm ro (stamps (length rm) (length ro) ops rss audit) = Ok (ts_evals ops rss audit rm ro)"
proof -
  have e: "dense_evaluate (vpoly (length r) (map of_nat xs)) r = Ok (mle (map of_nat xs) r)" if "length xs = 2 ^ length r" for xs and r :: "'a list"
    using that by (subst dense_evaluate_mle) (simp_all add: vpoly_ok)
  have "collect (map (\<lambda>p. dense_evaluate p ro) (map (\<lambda>as. vpoly (length ro) (map of_nat as)) xs)) = Ok (map (\<lambda>as. mle (map of_nat as) ro) xs)"
    if "\<And>x. x \<in> set xs \<Longrightarrow> length x = 2 ^ length ro" for xs
    unfolding map_map comp_def using that by (intro collect_map_Ok e)
  note this [OF balanced_lengths(4) [OF assms]] this [OF balanced_lengths(5) [OF assms]]
  then show ?thesis using e [OF balanced_lengths(2) [OF assms]] by (simp add: hash_prove_helper_def stamps_def ts_evals_def)
qed

lemma all_indices_Ok: "(\<And>i. i < n \<Longrightarrow> f i = Ok True) \<Longrightarrow> all_indices f n = Ok ()"
proof -
  assume "\<And>i. i < n \<Longrightarrow> f i = Ok True"
  then have "collect (map f [0..<n]) = Ok (map (\<lambda>_. True) [0..<n])" by (intro collect_map_Ok) simp
  then show ?thesis by (simp add: all_indices_def list_all_iff)
qed

lemma hash_helper_accepts:
  assumes b: "balanced (length rm) (length ro) ops rss audit" and r: "length r = length rm"
  shows "hash_verify_helper rm (mem_claims h (eq_evals r) ops rss audit rm ro) (map (\<lambda>as. mle (map ((!) (eq_evals r)) as) ro) ops)
    (fst (ts_evals ops rss audit rm ro)) (fst (snd (ts_evals ops rss audit rm ro))) (snd (snd (ts_evals ops rss audit rm ro))) r h = Ok ()"
proof -
  note len = balanced_lengths [OF b]
  obtain a e where h: "h = (a, e)" by (cases h)
  have t: "length (eq_evals r) = 2 ^ length rm" by (simp add: r)
  have zero: "mle (map of_nat (replicate (2 ^ length rm) 0)) rm = 0" by (simp add: mle_replicate)
  have ops: "mle (ops_table h (eq_evals r) (ops ! i) (rss ! i)) ro
      = hash_func a (mle (map of_nat (ops ! i)) ro) (mle (map ((!) (eq_evals r)) (ops ! i)) ro) (mle (map of_nat (rss ! i)) ro) - e"
    "mle (ops_table h (eq_evals r) (ops ! i) (map Suc (rss ! i))) ro
      = hash_func a (mle (map of_nat (ops ! i)) ro) (mle (map ((!) (eq_evals r)) (ops ! i)) ro) (mle (map of_nat (rss ! i)) ro + 1) - e"
    if "i < length ops" for i
    using len(3) [OF that] mle_Suc [of "rss ! i" ro] by (simp_all add: mle_ops_table h del: map_map)
  have cells: "mle (cell_table h (eq_evals r) ts) rm = hash_func a (mle (map of_nat [0..<2 ^ length rm]) rm) (mle (eq_table r) rm) (mle (map of_nat ts) rm) - e"
    if "length ts = 2 ^ length rm" for ts
    using mle_cell_table [OF t that, of h] by (simp add: h eq_evals_table)
  show ?thesis
    unfolding hash_verify_helper_def mem_claims_def ts_evals_def h prod.case identity_mle eq_evaluate_mle [OF r] result_bind.simps fst_conv snd_conv
    using cells [OF len(2)] cells [of "replicate (2 ^ length rm) 0"] zero len(1,2) ops
    by (simp add: h all_indices_Ok)
qed

section \<open>The product layer\<close>

text \<open>The two halves of a dot product.\<close>

definition low_dotp :: "nat \<Rightarrow> 'f list \<Rightarrow> 'f list \<Rightarrow> 'f list \<Rightarrow> 'f dotp_circuit" where
  "low_dotp k L R W = \<lparr>dc_left = vpoly k (take (2 ^ k) L), dc_right = vpoly k (take (2 ^ k) R), dc_weight = vpoly k (take (2 ^ k) W)\<rparr>"

definition high_dotp :: "nat \<Rightarrow> 'f list \<Rightarrow> 'f list \<Rightarrow> 'f list \<Rightarrow> 'f dotp_circuit" where
  "high_dotp k L R W = \<lparr>dc_left = vpoly k (drop (2 ^ k) L), dc_right = vpoly k (drop (2 ^ k) R), dc_weight = vpoly k (drop (2 ^ k) W)\<rparr>"

lemma sum_lessThan_add: "(\<Sum>i<m + n. f i) = (\<Sum>i<m. f i) + (\<Sum>i<n. f (m + i))" for f :: "nat \<Rightarrow> 'a::comm_monoid_add"
  by (induction n) (simp_all add: add.assoc)

lemma halves_ok:
  assumes "length L = 2 ^ Suc k" "length R = 2 ^ Suc k" "length W = 2 ^ Suc k"
  shows "dotp_ok k (low_dotp k L R W)" "dotp_ok k (high_dotp k L R W)"
    "dotp_value (low_dotp k L R W) + dotp_value (high_dotp k L R W) = (\<Sum>i<2 ^ Suc k. L ! i * R ! i * W ! i)"
proof -
  show "dotp_ok k (low_dotp k L R W)" "dotp_ok k (high_dotp k L R W)" using assms by (simp_all add: dotp_ok_def low_dotp_def high_dotp_def vpoly_ok)
  have "(\<Sum>i<2 ^ Suc k. L ! i * R ! i * W ! i) = (\<Sum>i<2 ^ k. L ! i * R ! i * W ! i) + (\<Sum>i<2 ^ k. L ! (2 ^ k + i) * R ! (2 ^ k + i) * W ! (2 ^ k + i))"
    unfolding power_Suc mult_2 by (rule sum_lessThan_add)
  then show "dotp_value (low_dotp k L R W) + dotp_value (high_dotp k L R W) = (\<Sum>i<2 ^ Suc k. L ! i * R ! i * W ! i)"
    using assms by (simp add: dotp_value_def low_dotp_def high_dotp_def cube_sum_def)
qed

lemma dense_split_vpoly: "length Z = 2 ^ Suc k \<Longrightarrow> dense_split (vpoly (Suc k) Z) (2 ^ k) = Ok (vpoly k (take (2 ^ k) Z), vpoly k (drop (2 ^ k) Z))"
proof -
  assume Z: "length Z = 2 ^ Suc k"
  then have "dense_new (take (2 ^ k) Z) = Ok (vpoly k (take (2 ^ k) Z))" "dense_new (drop (2 ^ k) Z) = Ok (vpoly k (drop (2 ^ k) Z))"
    by (intro dense_new_vpoly; simp)+
  then show ?thesis using Z by (simp add: dense_split_def slice_def)
qed

lemma split_instance_halves:
  assumes "length L = 2 ^ Suc k" "length R = 2 ^ Suc k" "length W = 2 ^ Suc k" "(\<Sum>i<2 ^ Suc k. L ! i * R ! i * W ! i) = v"
  shows "split_instance ((vpoly (Suc k) L, vpoly (Suc k) R, vpoly (Suc k) W), v)
    = Ok ((low_dotp k L R W, high_dotp k L R W), dotp_value (low_dotp k L R W), dotp_value (high_dotp k L R W))"
proof -
  have "dotp_new (vpoly (Suc k) L) (vpoly (Suc k) R) (vpoly (Suc k) W)
      = Ok \<lparr>dc_left = vpoly (Suc k) L, dc_right = vpoly (Suc k) R, dc_weight = vpoly (Suc k) W\<rparr>" by (simp add: dotp_new_def)
  moreover have "dotp_split \<lparr>dc_left = vpoly (Suc k) L, dc_right = vpoly (Suc k) R, dc_weight = vpoly (Suc k) W\<rparr>
      = Ok (low_dotp k L R W, high_dotp k L R W)"
    using dense_split_vpoly [OF assms(1)] dense_split_vpoly [OF assms(2)] dense_split_vpoly [OF assms(3)]
    by (simp add: dotp_split_def low_dotp_def high_dotp_def Let_def)
  moreover note halves_ok [OF assms(1-3)] assms(4)
  ultimately show ?thesis by (simp add: split_instance_def dotp_evaluate_value)
qed

lemma length_pairs: "length (concat (map (\<lambda>x. [f x, g x]) xs)) = 2 * length xs"
  by (induction xs) simp_all

lemma nth_pairs: "i < length xs \<Longrightarrow> concat (map (\<lambda>x. [f x, g x]) xs) ! (2 * i) = f (xs ! i) \<and> concat (map (\<lambda>x. [f x, g x]) xs) ! Suc (2 * i) = g (xs ! i)"
proof (induction xs arbitrary: i)
  case (Cons x xs)
  then show ?case by (cases i) simp_all
qed simp

lemma dotp_claims_halves:
  assumes "\<And>x. x \<in> set xs \<Longrightarrow> length (L x) = 2 ^ Suc k \<and> length (R x) = 2 ^ Suc k \<and> length (W x) = 2 ^ Suc k"
  shows "dotp_claims (concat (map (\<lambda>x. [low_dotp k (L x) (R x) (W x), high_dotp k (L x) (R x) (W x)]) xs)) rand
    = concat (map (\<lambda>x. [mle (L x) rand, mle (R x) rand, mle (W x) rand]) xs)"
proof -
  let ?D = "concat (map (\<lambda>x. [low_dotp k (L x) (R x) (W x), high_dotp k (L x) (R x) (W x)]) xs)"
  have "dotp_claims ?D rand = concat (map (\<lambda>i. [mle (L (xs ! i)) rand, mle (R (xs ! i)) rand, mle (W (xs ! i)) rand]) [0..<length xs])"
    unfolding dotp_claims_def length_pairs
    by (intro arg_cong [of _ _ concat] map_cong) (simp_all add: nth_pairs, simp add: low_dotp_def high_dotp_def)
  also have "\<dots> = concat (map (\<lambda>x. [mle (L x) rand, mle (R x) rand, mle (W x) rand]) (map ((!) xs) [0..<length xs]))" by (simp add: comp_def)
  finally show ?thesis by (simp add: map_nth)
qed

definition layer_values :: "'f::field \<times> 'f \<Rightarrow> 'f list \<Rightarrow> nat list list \<Rightarrow> nat list list \<Rightarrow> nat list \<Rightarrow> 'f \<times> 'f list \<times> 'f list \<times> 'f" where
  "layer_values h t ops rss audit = (prod_list (cell_table h t (replicate (length audit) 0)),
     map2 (\<lambda>as rs. prod_list (ops_table h t as rs)) ops rss, map2 (\<lambda>as rs. prod_list (ops_table h t as (map Suc rs))) ops rss,
     prod_list (cell_table h t audit))"

lemma layer_evals_values:
  assumes "balanced (Suc m) (Suc k) ops rss audit"
  shows "layer_evals (layer_circuits m k h t ops rss audit) = Ok (layer_values h t ops rss audit)" "subset_check (layer_values h t ops rss audit)"
    "length (fst (snd (layer_values h t ops rss audit))) = length ops" "length (fst (snd (snd (layer_values h t ops rss audit)))) = length ops"
proof -
  note len = balanced_lengths [OF assms]
  have "collect (map product_evaluate (map2 (\<lambda>as rs. circuit_of k (ops_table h t as (f rs))) ops rss)) = Ok (map2 (\<lambda>as rs. prod_list (ops_table h t as (f rs))) ops rss)"
    if f: "\<And>rs. length (f rs) = length rs" for f
    unfolding map_map comp_def
    by (rule collect_map_Ok) (use len(4,5) f in \<open>force simp: product_evaluate_circuit ops_table_def dest: set_zip_leftD set_zip_rightD simp del: power_Suc\<close>)
  from this [of "\<lambda>x. x"] this [of "map Suc"] show "layer_evals (layer_circuits m k h t ops rss audit) = Ok (layer_values h t ops rss audit)"
    using len(2) product_evaluate_circuit [of "cell_table h t audit" m] product_evaluate_circuit [of "cell_table h t (replicate (2 ^ Suc m) 0)" m]
    by (simp add: layer_evals_def layer_circuits_def layer_values_def cell_table_def del: power_Suc replicate_Suc)
  show "subset_check (layer_values h t ops rss audit)" using layers_balance [OF assms, of h t] len(2) by (simp add: layer_values_def)
qed (use balanced_lengths(1) [OF assms] in \<open>simp_all add: layer_values_def\<close>)

text \<open>The tables whose products are proved, and what the verifier is left with.\<close>

definition ops_tables :: "'f::field \<times> 'f \<Rightarrow> 'f list \<Rightarrow> nat list list \<Rightarrow> nat list list \<Rightarrow> 'f list list" where
  "ops_tables h t ops rss = map2 (ops_table h t) ops rss @ map2 (\<lambda>as rs. ops_table h t as (map Suc rs)) ops rss"

lemma ops_tables_length:
  assumes "balanced m k ops rss audit" "Z \<in> set (ops_tables h t ops rss)"
  shows "length Z = 2 ^ k"
proof -
  obtain as rs where z: "(as, rs) \<in> set (zip ops rss)" "Z = ops_table h t as rs \<or> Z = ops_table h t as (map Suc rs)"
    using assms(2) by (auto simp: ops_tables_def)
  have "length as = 2 ^ k" "length rs = 2 ^ k"
    using balanced_lengths(4) [OF assms(1) set_zip_leftD [OF z(1)]] balanced_lengths(5) [OF assms(1) set_zip_rightD [OF z(1)]] by simp_all
  then show ?thesis using z(2) by (auto simp: ops_table_def)
qed

lemma ops_tables_count: "balanced m k ops rss audit \<Longrightarrow> length (ops_tables h t ops rss) = 2 * length ops"
  by (simp add: ops_tables_def balanced_lengths(1))

lemma ops_tables_circuits:
  assumes "balanced (Suc m) (Suc k) ops rss audit" "length ops = 3"
  shows "take 3 (pl_read (layer_circuits m k h t ops rss audit)) @ take 3 (pl_write (layer_circuits m k h t ops rss audit)) = map (circuit_of k) (ops_tables h t ops rss)"
    "length (pl_read (layer_circuits m k h t ops rss audit)) = 3" "length (pl_write (layer_circuits m k h t ops rss audit)) = 3"
  using assms(2) balanced_lengths(1) [OF assms(1)] by (simp_all add: layer_circuits_def ops_tables_def split_def comp_def)

lemma ops_tables_products:
  "fst (snd (layer_values h t ops rss audit)) @ fst (snd (snd (layer_values h t ops rss audit))) = map prod_list (ops_tables h t ops rss)"
  "fst (snd (mem_claims h t ops rss audit rm ro)) @ fst (snd (snd (mem_claims h t ops rss audit rm ro))) = map (\<lambda>Z. mle Z ro) (ops_tables h t ops rss)"
  by (simp_all add: layer_values_def mem_claims_def ops_tables_def split_def comp_def)

definition mem_tables :: "'f::field \<times> 'f \<Rightarrow> 'f list \<Rightarrow> nat list \<Rightarrow> 'f list list" where
  "mem_tables h t audit = [cell_table h t (replicate (length audit) 0), cell_table h t audit]"

text \<open>The dot products of the instances: pairs of halves.\<close>

definition dotp_halves :: "nat \<Rightarrow> 'f::field list \<Rightarrow> 'f list \<Rightarrow> 'f list \<Rightarrow> ('f dotp_circuit \<times> 'f dotp_circuit) \<times> 'f \<times> 'f" where
  "dotp_halves k L R W = ((low_dotp k L R W, high_dotp k L R W), dotp_value (low_dotp k L R W), dotp_value (high_dotp k L R W))"

lemma product_layer_complete:
  fixes t t' :: "'f::field list" and ps :: "'x list"
  assumes two: "(2 :: 'f) \<noteq> 0" "(3 :: 'f) \<noteq> 0"
    and row: "balanced (Suc m) (Suc k) ops rss audit" "length ops = 3" and col: "balanced (Suc m) (Suc k) ops' rss' audit'" "length ops' = 3"
    and ps: "length ps = 3" "\<And>x. x \<in> set ps \<Longrightarrow> length (L x) = 2 ^ Suc k \<and> length (R x) = 2 ^ Suc k \<and> length (W x) = 2 ^ Suc k"
      "\<And>x. x \<in> set ps \<Longrightarrow> (\<Sum>i<2 ^ Suc k. L x ! i * R x ! i * W x ! i) = v x"
    and tables: "de_row d = map (\<lambda>x. vpoly (Suc k) (L x)) ps" "de_col d = map (\<lambda>x. vpoly (Suc k) (R x)) ps" "md_val dense = map (\<lambda>x. vpoly (Suc k) (W x)) ps"
  obtains pf rm ro s' where
    "product_layer_prove tr (layer_circuits m k h t ops rss audit) (layer_circuits m k h t' ops' rss' audit') dense d (map v ps) s = Ok (pf, rm, ro, s')"
    "length rm = Suc m" "length ro = Suc k"
    "product_layer_verify tr pf (2 ^ Suc k) (2 ^ Suc m) (map v ps) s
       = Ok (map (\<lambda>Z. mle Z rm) (mem_tables h t audit @ mem_tables h t' audit'), rm, map (\<lambda>Z. mle Z ro) (ops_tables h t ops rss @ ops_tables h t' ops' rss'),
           concat (map (\<lambda>x. [mle (L x) ro, mle (R x) ro, mle (W x) ro]) ps), ro, s')"
proof -
  let ?row = "layer_circuits m k h t ops rss audit" and ?col = "layer_circuits m k h t' ops' rss' audit'"
  let ?rv = "layer_values h t ops rss audit" and ?cv = "layer_values h t' ops' rss' audit'"
  let ?H = "\<lambda>x. dotp_halves k (L x) (R x) (W x)"
  let ?lo = "\<lambda>x. low_dotp k (L x) (R x) (W x)" and ?hi = "\<lambda>x. high_dotp k (L x) (R x) (W x)"
  let ?D = "concat (map (\<lambda>x. [?lo x, ?hi x]) ps)" and ?Zs = "ops_tables h t ops rss @ ops_tables h t' ops' rss'"
  let ?Ms = "mem_tables h t audit @ mem_tables h t' audit'"
  define s1 where "s1 = append_set tr ''row'' ?rv (append_protocol_name tr ''Sparse polynomial product layer proof'' s)"
  define s2 where "s2 = append_halves tr (map (\<lambda>x. (dotp_value (?lo x), dotp_value (?hi x))) ps) (append_set tr ''col'' ?cv s1)"
  note R = layer_evals_values [OF row(1), of h t] and C = layer_evals_values [OF col(1), of h t']
  have D: "\<forall>d\<in>set ?D. dotp_ok k d" using ps(2) halves_ok by fastforce
  have Zs: "?Zs \<noteq> []" "\<forall>Z\<in>set ?Zs. length Z = 2 ^ Suc k"
  proof -
    show "?Zs \<noteq> []" using ops_tables_count [OF row(1), of h t] row(2) by auto
    show "\<forall>Z\<in>set ?Zs. length Z = 2 ^ Suc k" unfolding set_append ball_Un
      using ops_tables_length [OF row(1), of _ h t] ops_tables_length [OF col(1), of _ h t'] by blast
  qed
  have Ms: "?Ms \<noteq> []" "\<forall>Z\<in>set ?Ms. length Z = 2 ^ Suc m"
    using balanced_lengths(2) [OF row(1)] balanced_lengths(2) [OF col(1)] by (auto simp: mem_tables_def cell_table_def)
  obtain po ro s3 where ops: "batched_prove tr (map (circuit_of k) ?Zs) ?D s2 = Ok (po, ro, s3)" "length ro = Suc k"
    "batched_verify tr po (map prod_list ?Zs) (map dotp_value ?D) (2 ^ Suc k) s2 = Ok (map (\<lambda>Z. mle Z ro) ?Zs, dotp_claims ?D ro, ro, s3)"
    by (rule batched_complete [OF two Zs D])
  have nil: "\<forall>d\<in>set ([] :: 'f dotp_circuit list). dotp_ok m d" by simp
  obtain pm rm s4 where mem: "batched_prove tr (map (circuit_of m) ?Ms) [] s3 = Ok (pm, rm, s4)" "length rm = Suc m"
    "batched_verify tr pm (map prod_list ?Ms) (map dotp_value []) (2 ^ Suc m) s3 = Ok (map (\<lambda>Z. mle Z rm) ?Ms, dotp_claims [] rm, rm, s4)"
    by (rule batched_complete [OF two Ms nil])
  define pf where "pf = \<lparr>pp_row = ?rv, pp_col = ?cv, pp_val = (map (\<lambda>x. dotp_value (?lo x)) ps, map (\<lambda>x. dotp_value (?hi x)) ps), pp_mem = pm, pp_ops = po\<rparr>"
  have halves: "collect (map split_instance (zip (zip (de_row d) (zip (de_col d) (md_val dense))) (map v ps))) = Ok (map ?H ps)"
    unfolding tables zip_map_map zip_same_conv_map map_map comp_def prod.case
    using ps(2,3) by (intro collect_map_Ok) (simp add: split_instance_halves dotp_halves_def del: power_Suc sum.lessThan_Suc)
  have circuits: "take 3 (pl_read ?row) @ take 3 (pl_write ?row) @ take 3 (pl_read ?col) @ take 3 (pl_write ?col) = map (circuit_of k) ?Zs"
    using ops_tables_circuits(1) [OF row, of h t] ops_tables_circuits(1) [OF col, of h t'] by simp
  have dots: "concat (map (\<lambda>((a, b), _). [a, b]) (take 3 (map ?H ps))) = ?D" using ps(1) by (simp add: dotp_halves_def comp_def)
  have cells: "[pl_init ?row, pl_audit ?row, pl_init ?col, pl_audit ?col] = map (circuit_of m) ?Ms"
    using balanced_lengths(2) [OF row(1)] balanced_lengths(2) [OF col(1)] by (simp add: layer_circuits_def mem_tables_def del: replicate_Suc power_Suc)
  have "product_layer_prove tr ?row ?col dense d (map v ps) s = Ok (pf, rm, ro, s4)"
    unfolding product_layer_prove_def Let_def R(1) C(1) result_bind.simps halves circuits dots cells s1_def [symmetric]
    using R(2) C(2) ps(1) tables ops_tables_circuits(2,3) [OF row, of h t] ops_tables_circuits(2,3) [OF col, of h t'] ops(1) mem(1)
    by (simp add: s2_def [symmetric] dotp_halves_def comp_def pf_def)
  moreover have "product_layer_verify tr pf (2 ^ Suc k) (2 ^ Suc m) (map v ps) s
       = Ok (map (\<lambda>Z. mle Z rm) ?Ms, rm, map (\<lambda>Z. mle Z ro) ?Zs, concat (map (\<lambda>x. [mle (L x) ro, mle (R x) ro, mle (W x) ro]) ps), ro, s4)"
  proof -
    obtain ri rr rw ra where rv: "?rv = (ri, rr, rw, ra)" by (cases ?rv)
    obtain ci cr cw ca where cv: "?cv = (ci, cr, cw, ca)" by (cases ?cv)
    have prods: "rr @ rw @ cr @ cw = map prod_list ?Zs" "[ri, ra, ci, ca] = map prod_list ?Ms"
      using ops_tables_products(1) [of h t ops rss audit] ops_tables_products(1) [of h t' ops' rss' audit'] rv cv
      by (simp_all add: mem_tables_def layer_values_def)
    have oks: "set_ok 3 ?rv" "set_ok 3 ?cv" using R C row(2) col(2) by (simp_all add: set_ok_def)
    let ?both = "map (\<lambda>x. (dotp_value (?lo x), dotp_value (?hi x))) ps"
    have sums: "map (\<lambda>(x, y). x + y) ?both = map v ps"
    proof -
      have "dotp_value (?lo x) + dotp_value (?hi x) = v x" if "x \<in> set ps" for x using halves_ok(3) [of "L x" k "R x" "W x"] ps(2,3) [OF that] by simp
      then show ?thesis by simp
    qed
    have zips: "zip (map (\<lambda>x. dotp_value (?lo x)) ps) (map (\<lambda>x. dotp_value (?hi x)) ps) = ?both"
      by (simp add: zip_map_map zip_same_conv_map)
    have vals: "concat (map (\<lambda>(l, r). [l, r]) ?both) = map dotp_value ?D" by (simp add: comp_def map_concat)
    have s2: "s2 = append_halves tr ?both (append_set tr ''col'' (ci, cr, cw, ca) s1)" by (simp add: s2_def cv)
    have s1: "s1 = append_set tr ''row'' (ri, rr, rw, ra) (append_protocol_name tr ''Sparse polynomial product layer proof'' s)" by (simp add: s1_def rv)
    show ?thesis
      unfolding product_layer_verify_def Let_def length_map ps(1) pf_def product_layer_proof.simps rv cv prod.case zips sums vals prods s1 [symmetric]
        s2 [symmetric] ops(3) result_bind.simps mem(3) [unfolded list.map(1)]
      using oks [unfolded rv cv] dotp_claims_halves [of ps L k R W ro] ps(2) by simp
  qed
  ultimately show ?thesis using that ops(2) mem(2) by blast
qed

section \<open>Completeness\<close>

lemma length_triples: "length (concat (map (\<lambda>x. [f x, g x, h x]) xs)) = 3 * length xs"
  by (induction xs) simp_all

lemma nth_triples: "i < length xs \<Longrightarrow> concat (map (\<lambda>x. [f x, g x, h x]) xs) ! (3 * i) = f (xs ! i)
  \<and> concat (map (\<lambda>x. [f x, g x, h x]) xs) ! Suc (3 * i) = g (xs ! i) \<and> concat (map (\<lambda>x. [f x, g x, h x]) xs) ! Suc (Suc (3 * i)) = h (xs ! i)"
proof (induction xs arbitrary: i)
  case (Cons x xs)
  then show ?case by (cases i) simp_all
qed simp

lemma evaluate_vpolys:
  assumes "\<And>x. x \<in> set xs \<Longrightarrow> length (f x) = 2 ^ length r"
  shows "collect (map (\<lambda>p. dense_evaluate p r) (map (\<lambda>x. vpoly (length r) (f x)) xs)) = Ok (map (\<lambda>x. mle (f x) r) xs)"
  unfolding map_map comp_def
proof (rule collect_map_Ok)
  show "dense_evaluate (vpoly (length r) (f x)) r = Ok (mle (f x) r)" if "x \<in> set xs" for x
    using assms [OF that] dense_evaluate_mle [of "vpoly (length r) (f x)" r] by (simp add: vpoly_ok)
qed

lemma hash_layer_complete:
  fixes ps :: "'f::field sparse_mat list" and tr :: "('s, 'f) transcript"
  assumes keys: "keys_complete pcs gens" and ne: "ps \<noteq> []" and k: "length ro = ops_log ps" and r: "length rx = length rm" "length ry = length rm"
    and row: "balanced (length rm) (ops_log ps) (map (row_ops (ops_log ps)) ps) rr ra" and col: "balanced (length rm) (ops_log ps) (map (col_ops (ops_log ps)) ps) cr ca"
  defines "dense \<equiv> dense_rep (length rm) ps rr ra cr ca" and "d \<equiv> deref_tables (ops_log ps) ps (eq_evals rx) (eq_evals ry)"
  assumes comm: "sc_comb_ops comm = pcs_commit pcs (md_comb_ops dense) (key_ck (gens_ops gens))" "sc_comb_mem comm = pcs_commit pcs (md_comb_mem dense) (key_ck (gens_mem gens))"
  obtains hp s' where "hash_prove tr pcs rm ro dense d gens s = Ok (hp, s')"
    "hash_verify tr pcs hp rm ro (mem_claims h (eq_evals rx) (map (row_ops (ops_log ps)) ps) rr ra rm ro)
       (mem_claims h (eq_evals ry) (map (col_ops (ops_log ps)) ps) cr ca rm ro)
       (concat (map (\<lambda>p. [mle (map ((!) (eq_evals rx)) (row_ops (ops_log ps) p)) ro, mle (map ((!) (eq_evals ry)) (col_ops (ops_log ps) p)) ro, mle (val_ops (ops_log ps) p) ro]) ps))
       comm gens (derefs_commit pcs d (key_ck (gens_derefs gens))) rx ry h s = Ok (Inr s')"
proof -
  let ?k = "ops_log ps" and ?tx = "eq_evals rx" and ?ty = "eq_evals ry"
  let ?row = "stamps (length rm) ?k (map (row_ops ?k) ps) rr ra :: 'f addr_timestamps" and ?col = "stamps (length rm) ?k (map (col_ops ?k) ps) cr ca :: 'f addr_timestamps"
  let ?er = "map (\<lambda>p. mle (map ((!) ?tx) (row_ops ?k p)) ro) ps" and ?ec = "map (\<lambda>p. mle (map ((!) ?ty) (col_ops ?k p)) ro) ps" and ?ev = "map (\<lambda>p. mle (val_ops ?k p) ro) ps"
  let ?re = "ts_evals (map (row_ops ?k) ps) rr ra rm ro" and ?ce = "ts_evals (map (col_ops ?k) ps) cr ca rm ro"
  let ?dps = "de_row d @ de_col d" and ?ops = "at_addr ?row @ at_read ?row @ at_addr ?col @ at_read ?col @ md_val dense"
  have lens: "length (row_ops ?k p) = 2 ^ length ro" "length (col_ops ?k p) = 2 ^ length ro" "length (val_ops ?k p) = 2 ^ length ro" for p :: "'f sparse_mat"
    by (simp_all add: row_ops_def col_ops_def val_ops_def k)
  have kc: "pcs_complete pcs (gens_ops gens)" "pcs_complete pcs (gens_mem gens)" "pcs_complete pcs (gens_derefs gens)"
    using keys by (simp_all add: keys_complete_def)
  note rowlen = balanced_lengths [OF row] and collen = balanced_lengths [OF col]
  have dp: "de_row d = map (\<lambda>p. vpoly ?k (map ((!) ?tx) (row_ops ?k p))) ps" "de_col d = map (\<lambda>p. vpoly ?k (map ((!) ?ty) (col_ops ?k p))) ps" "de_comb d = merged ?dps"
    by (simp_all add: d_def deref_tables_def Let_def)
  have md: "md_row dense = ?row" "md_col dense = ?col" "md_val dense = map (\<lambda>p. vpoly ?k (val_ops ?k p)) ps" "md_comb_ops dense = merged ?ops"
    "md_comb_mem dense = vpoly (Suc (length rm)) (map of_nat ra @ map of_nat ca)"
    by (simp_all add: dense_def dense_rep_def Let_def)
  define s0 where "s0 = append_protocol_name tr ''Sparse polynomial hash layer proof'' s"
  have devals: "derefs_evals ?er ?ec = resize (next_power_of_two (length ?dps)) 0 (map (\<lambda>p. mle (dp_Z p) ro) ?dps)"
    by (simp add: derefs_evals_def dp comp_def)
  have d1: "?dps \<noteq> []" "\<forall>p\<in>set ?dps. length (dp_Z p) = 2 ^ length ro" using ne lens by (auto simp: dp)
  obtain ch1 v1 s1 pf1 s2 where o1: "combine_evals tr ''evals_ops_val'' ''challenge_combine_n_to_one'' ''joint_claim_eval'' (derefs_evals ?er ?ec)
      (append_protocol_name tr ''Derefs evaluation proof'' s0) = Ok (ch1, v1, s1)"
    "pcs_prove pcs (merged ?dps) (ch1 @ ro) v1 (key_ck (gens_derefs gens)) s1 = (pf1, s2)"
    "check_opening pcs (pcs_commit pcs (merged ?dps) (key_ck (gens_derefs gens))) pf1 (key_vk (gens_derefs gens)) s1 (ch1 @ ro) v1 = Ok (Inr s2)"
    "log_2 (length (derefs_evals ?er ?ec)) = Ok (length ch1)" "dp_num_vars (merged ?dps) = length ro + length ch1"
    unfolding devals by (rule merged_opening [OF kc(3) d1])
  have hevals: "hash_evals_ops ?re ?ce ?ev = resize (next_power_of_two (length ?ops)) 0 (map (\<lambda>p. mle (dp_Z p) ro) ?ops)"
    by (simp add: hash_evals_ops_def ts_evals_def stamps_def md(3) comp_def Let_def)
  have d2: "?ops \<noteq> []" "\<forall>p\<in>set ?ops. length (dp_Z p) = 2 ^ length ro"
    using ne lens rowlen(5) collen(5) by (auto simp: stamps_def md(3) k)
  obtain ch2 v2 s3 pf2 s4 where o2: "combine_evals tr ''claim_evals_ops'' ''challenge_combine_n_to_one'' ''joint_claim_eval_ops'' (hash_evals_ops ?re ?ce ?ev) s2 = Ok (ch2, v2, s3)"
    "pcs_prove pcs (merged ?ops) (ch2 @ ro) v2 (key_ck (gens_ops gens)) s3 = (pf2, s4)"
    "check_opening pcs (pcs_commit pcs (merged ?ops) (key_ck (gens_ops gens))) pf2 (key_vk (gens_ops gens)) s3 (ch2 @ ro) v2 = Ok (Inr s4)"
    unfolding hevals by (rule merged_opening [OF kc(1) d2])
  have aud: "length (map of_nat ra :: 'f list) = 2 ^ length rm" "length (map of_nat ca :: 'f list) = 2 ^ length rm" using rowlen(2) collen(2) by simp_all
  have mevals: "[snd (snd ?re), snd (snd ?ce)] = [mle (map of_nat ra) rm, mle (map of_nat ca) rm]" by (simp add: ts_evals_def)
  obtain ch3 v3 s5 pf3 s6 where o3: "combine_evals tr ''claim_evals_mem'' ''challenge_combine_two_to_one'' ''joint_claim_eval_mem'' [snd (snd ?re), snd (snd ?ce)] s4 = Ok (ch3, v3, s5)"
    "pcs_prove pcs (vpoly (Suc (length rm)) (map of_nat ra @ map of_nat ca)) (ch3 @ rm) v3 (key_ck (gens_mem gens)) s5 = (pf3, s6)"
    "check_opening pcs (pcs_commit pcs (vpoly (Suc (length rm)) (map of_nat ra @ map of_nat ca)) (key_ck (gens_mem gens))) pf3 (key_vk (gens_mem gens)) s5 (ch3 @ rm) v3 = Ok (Inr s6)"
    unfolding mevals by (rule pair_opening [OF kc(2) aud])
  define hp where "hp = \<lparr>hl_row = ?re, hl_col = ?ce, hl_val = ?ev, hl_derefs = (?er, ?ec), hl_proof_ops = pf2, hl_proof_mem = pf3, hl_proof_derefs = pf1\<rparr>"
  have ev: "collect (map (\<lambda>p. dense_evaluate p ro) (de_row d)) = Ok ?er" "collect (map (\<lambda>p. dense_evaluate p ro) (de_col d)) = Ok ?ec"
    "collect (map (\<lambda>p. dense_evaluate p ro) (md_val dense)) = Ok ?ev"
    unfolding dp(1,2) md(3) k [symmetric] by (intro evaluate_vpolys; simp add: lens [unfolded k [symmetric]])+
  have derefs: "derefs_prove tr pcs d ?er ?ec ro (key_ck (gens_derefs gens)) s0 = Ok (pf1, s2)"
    using o1 by (simp add: derefs_prove_def derefs_prove_single_def dp(3))
  have helpers: "hash_prove_helper rm ro ?row = Ok ?re" "hash_prove_helper rm ro ?col = Ok ?ce"
    using hash_helper_evals [of rm ro] row col k by simp_all
  have "hash_prove tr pcs rm ro dense d gens s = Ok (hp, s6)"
    unfolding hash_prove_def Let_def s0_def [symmetric] ev result_bind.simps derefs prod.case
    unfolding md(1,2,4,5) helpers result_bind.simps o2(1,2) o3(1,2) prod.case
    by (simp add: hp_def)
  moreover have "hash_verify tr pcs hp rm ro (mem_claims h ?tx (map (row_ops ?k) ps) rr ra rm ro) (mem_claims h ?ty (map (col_ops ?k) ps) cr ca rm ro)
       (concat (map (\<lambda>p. [mle (map ((!) ?tx) (row_ops ?k p)) ro, mle (map ((!) ?ty) (col_ops ?k p)) ro, mle (val_ops ?k p) ro]) ps))
       comm gens (derefs_commit pcs d (key_ck (gens_derefs gens))) rx ry h s = Ok (Inr s6)"
  proof -
    have dv: "derefs_verify tr pcs pf1 ro ?er ?ec (key_vk (gens_derefs gens)) (derefs_commit pcs d (key_ck (gens_derefs gens))) s0 = Ok (Inr s2)"
      using o1 by (simp add: derefs_verify_def derefs_verify_single_def derefs_commit_def dp(3))
    have acc: "hash_verify_helper rm (mem_claims h ?tx (map (row_ops ?k) ps) rr ra rm ro) ?er (fst ?re) (fst (snd ?re)) (snd (snd ?re)) rx h = Ok ()"
      "hash_verify_helper rm (mem_claims h ?ty (map (col_ops ?k) ps) cr ca rm ro) ?ec (fst ?ce) (fst (snd ?ce)) (snd (snd ?ce)) ry h = Ok ()"
      using hash_helper_accepts [of rm ro "map (row_ops ?k) ps" rr ra rx h] hash_helper_accepts [of rm ro "map (col_ops ?k) ps" cr ca ry h] row col k r
      by (simp_all add: comp_def)
    show ?thesis
      unfolding hash_verify_def Let_def s0_def [symmetric] hp_def hash_layer_proof.simps prod.case dv verified_bind.simps length_triples
      using o2(1,3) o3(1,3) acc comm(1) [unfolded md(4)] comm(2) [unfolded md(5)] by (simp add: all_indices_Ok nth_triples)
  qed
  ultimately show ?thesis using that by blast
qed

lemma take_drop_append: "length xs = n \<Longrightarrow> take n (xs @ ys) = xs" "length xs = n \<Longrightarrow> drop n (xs @ ys) = ys"
  by simp_all

lemma network_complete:
  fixes ps :: "'f::field sparse_mat list" and tr :: "('s, 'f) transcript" and h :: "'f \<times> 'f"
  assumes two: "(2 :: 'f) \<noteq> 0" "(3 :: 'f) \<noteq> 0" and keys: "keys_complete pcs gens" and ps: "length ps = 3"
    and m: "length rx = Suc m" "length ry = Suc m" and k: "ops_log ps = Suc k"
    and row: "balanced (Suc m) (Suc k) (map (row_ops (Suc k)) ps) rr ra" and col: "balanced (Suc m) (Suc k) (map (col_ops (Suc k)) ps) cr ca"
  defines "dense \<equiv> dense_rep (Suc m) ps rr ra cr ca" and "d \<equiv> deref_tables (Suc k) ps (eq_evals rx) (eq_evals ry)"
    and "net \<equiv> \<lparr>en_row = layer_circuits m k h (eq_evals rx) (map (row_ops (Suc k)) ps) rr ra, en_col = layer_circuits m k h (eq_evals ry) (map (col_ops (Suc k)) ps) cr ca\<rparr>"
  assumes comm: "sc_comb_ops comm = pcs_commit pcs (md_comb_ops dense) (key_ck (gens_ops gens))" "sc_comb_mem comm = pcs_commit pcs (md_comb_mem dense) (key_ck (gens_mem gens))"
  obtains np s' where "network_prove tr pcs net dense d (map (\<lambda>p. entry_sum p (eq_evals rx) (eq_evals ry)) ps) gens s = Ok (np, s')"
    "network_verify tr pcs np comm (derefs_commit pcs d (key_ck (gens_derefs gens))) (map (\<lambda>p. entry_sum p (eq_evals rx) (eq_evals ry)) ps) gens rx ry h (2 ^ Suc k) s = Ok (Inr s')"
proof -
  let ?tx = "eq_evals rx" and ?ty = "eq_evals ry" and ?ro = "map (row_ops (Suc k)) ps" and ?co = "map (col_ops (Suc k)) ps"
  let ?L = "\<lambda>p. map ((!) ?tx) (row_ops (Suc k) p)" and ?R = "\<lambda>p. map ((!) ?ty) (col_ops (Suc k) p)" and ?W = "val_ops (Suc k)"
  let ?evals = "map (\<lambda>p. entry_sum p ?tx ?ty) ps"
  have ne: "ps \<noteq> []" using ps by auto
  have lens: "length (?L p) = 2 ^ Suc k \<and> length (?R p) = 2 ^ Suc k \<and> length (?W p) = 2 ^ Suc k" for p
    by (simp add: row_ops_def col_ops_def val_ops_def)
  have sums: "(\<Sum>i<2 ^ Suc k. ?L p ! i * ?R p ! i * ?W p ! i) = entry_sum p ?tx ?ty" if "p \<in> set ps" for p
    by (rule ops_sum) (use ops_log(2) [OF ne that] k in simp)
  have d: "de_row d = map (\<lambda>p. vpoly (Suc k) (?L p)) ps" "de_col d = map (\<lambda>p. vpoly (Suc k) (?R p)) ps" by (simp_all add: d_def deref_tables_def Let_def)
  have v: "md_val dense = map (\<lambda>p. vpoly (Suc k) (?W p)) ps" by (simp add: dense_def dense_rep_def Let_def k)
  define s0 where "s0 = append_protocol_name tr ''Sparse polynomial evaluation proof'' s"
  have n3: "length ?ro = 3" "length ?co = 3" using ps by simp_all
  obtain pf rm ro s1 where p: "product_layer_prove tr (layer_circuits m k h ?tx ?ro rr ra) (layer_circuits m k h ?ty ?co cr ca) dense d ?evals s0 = Ok (pf, rm, ro, s1)"
    "length rm = Suc m" "length ro = Suc k"
    "product_layer_verify tr pf (2 ^ Suc k) (2 ^ Suc m) ?evals s0
       = Ok (map (\<lambda>Z. mle Z rm) (mem_tables h ?tx ra @ mem_tables h ?ty ca), rm, map (\<lambda>Z. mle Z ro) (ops_tables h ?tx ?ro rr @ ops_tables h ?ty ?co cr),
           concat (map (\<lambda>p. [mle (?L p) ro, mle (?R p) ro, mle (?W p) ro]) ps), ro, s1)"
    by (rule product_layer_complete [OF two row n3(1) col n3(2) ps lens sums d v])
  have lx: "length rx = length rm" "length ry = length rm" using m p(2) by simp_all
  have lo: "length ro = ops_log ps" using p(3) k by simp
  obtain hp s2 where hash: "hash_prove tr pcs rm ro dense d gens s1 = Ok (hp, s2)"
    "hash_verify tr pcs hp rm ro (mem_claims h ?tx ?ro rr ra rm ro) (mem_claims h ?ty ?co cr ca rm ro)
       (concat (map (\<lambda>p. [mle (?L p) ro, mle (?R p) ro, mle (?W p) ro]) ps)) comm gens (derefs_commit pcs d (key_ck (gens_derefs gens))) rx ry h s1 = Ok (Inr s2)"
    by (rule hash_layer_complete [OF keys ne lo lx, unfolded k p(2), OF row col,
          folded dense_def d_def, OF comm])
  have "network_prove tr pcs net dense d ?evals gens s = Ok (\<lparr>np_prod = pf, np_hash = hp\<rparr>, s2)"
    unfolding network_prove_def net_def eval_network.simps s0_def [symmetric] p(1) result_bind.simps prod.case hash(1) ..
  moreover have "network_verify tr pcs \<lparr>np_prod = pf, np_hash = hp\<rparr> comm (derefs_commit pcs d (key_ck (gens_derefs gens))) ?evals gens rx ry h (2 ^ Suc k) s = Ok (Inr s2)"
  proof -
    let ?A = "fst (snd (mem_claims h ?tx ?ro rr ra rm ro))" and ?B = "fst (snd (snd (mem_claims h ?tx ?ro rr ra rm ro)))"
    let ?C = "fst (snd (mem_claims h ?ty ?co cr ca rm ro))" and ?E = "fst (snd (snd (mem_claims h ?ty ?co cr ca rm ro)))"
    have claims: "map (\<lambda>Z. mle Z ro) (ops_tables h ?tx ?ro rr @ ops_tables h ?ty ?co cr) = (?A @ ?B) @ (?C @ ?E)"
      unfolding ops_tables_products(2) by simp
    have abce: "length ?A = 3" "length ?B = 3" "length ?C = 3" "length ?E = 3"
      using balanced_lengths(1) [OF row] balanced_lengths(1) [OF col] ps by (simp_all add: mem_claims_def)
    have mems: "map (\<lambda>Z. mle Z rm) (mem_tables h ?tx ra @ mem_tables h ?ty ca)
      = [fst (mem_claims h ?tx ?ro rr ra rm ro), snd (snd (snd (mem_claims h ?tx ?ro rr ra rm ro))), fst (mem_claims h ?ty ?co cr ca rm ro), snd (snd (snd (mem_claims h ?ty ?co cr ca rm ro)))]"
      by (simp add: mem_tables_def mem_claims_def)
    have split6: "take (2 * 3) ((?A @ ?B) @ (?C @ ?E)) = ?A @ ?B" "drop (2 * 3) ((?A @ ?B) @ (?C @ ?E)) = ?C @ ?E"
      using abce by (intro take_drop_append; simp)+
    have split3: "take 3 (?A @ ?B) = ?A" "drop 3 (?A @ ?B) = ?B" "take 3 (?C @ ?E) = ?C" "drop 3 (?C @ ?E) = ?E"
      using abce by (intro take_drop_append; simp)+
    have four: "length ((?A @ ?B) @ (?C @ ?E)) = 4 * 3" using abce by simp
    have pow: "next_power_of_two (2 ^ Suc k) = 2 ^ Suc k" by (rule next_power_of_two_pow2)
    show ?thesis
      unfolding network_verify_def Let_def network_proof.simps length_map ps pow m s0_def [symmetric] p(4) result_bind.simps prod.case claims split6 split3 mems
      using four hash(2) by (simp add: length_triples ps del: length_append)
  qed
  ultimately show ?thesis using that by blast
qed


lemma ops_log_replicate: "0 < n \<Longrightarrow> ops_log (replicate n p) = ops_log [p]"
  by (simp add: ops_log_def)

text \<open>A commitment scheme that sends the polynomial itself: its openings are checked by evaluation.\<close>

definition open_pcs :: "('s, 'f::field, 'f dense_poly, unit, unit, unit, unit) pcs" where
  "open_pcs = \<lparr>pcs_commit = (\<lambda>p _. p), pcs_absorb = (\<lambda>_ _ s. s), pcs_prove = (\<lambda>_ _ _ _ s. ((), s)),
     pcs_verify = (\<lambda>c _ _ s r v. if dense_evaluate c r = Ok v then Inr s else Inl ())\<rparr>"


end
