(* ===== verification/Spec2Isabelle.thy ===== *)
theory Spec2Isabelle
  imports Trace_Correct Circuit_Correct Relaxed_Correct Spark_Correct
begin

text \<open>
  A verification library for the Nexus zkVM.  It models the virtual machine and its step circuit (the crate
  \<^verbatim>\<open>vm\<close>), the folding scheme over R1CS (\<^verbatim>\<open>nova\<close>) and the multilinear and sum-check layer of the
  \<^verbatim>\<open>spartan\<close> backend.

  \<^bold>\<open>How the parts fit.\<close>  A program image is loaded into a memory controller and evaluated instruction by
  instruction (\<^verbatim>\<open>vm/src/eval.rs\<close>).  The memory is either a plain paged map or a Merkle trie that returns a path with
  every access.  A run is recorded as a trace of blocks; a block is expanded into one witness per step, and the witness
  of a step is the input of the step circuit, an R1CS that relates the state before and after.  Many steps are folded
  into one relaxed R1CS instance by the folding scheme, and the last instance is proved by sum-check over the multilinear
  extensions of its matrices and vectors.

  \<^bold>\<open>Conventions.\<close>  Prelude: the machine integers as words, the type \<open>result\<close> with \<open>Ok\<close>, \<open>Err\<close> and
  \<open>Panic\<close> (an index out of range, a failed assertion, an \<^verbatim>\<open>unwrap\<close> of nothing), the operator \<^verbatim>\<open>?\<close> as
  \<open>result_bind\<close>.  Arithmetic is that of the release profile: \<^verbatim>\<open>+\<close> and \<^verbatim>\<open>-\<close> wrap and \<^verbatim>\<open>debug_assert!\<close> is not
  evaluated.  A \<^verbatim>\<open>usize\<close> that only counts or indexes a vector in memory is a natural number.  Field elements are the
  elements of any field; where the characteristic matters it is a hypothesis (\<open>large_field\<close>, or 2 and 3 not zero).

  \<^bold>\<open>The virtual machine.\<close>
  \<^item> Rv32 (\<^verbatim>\<open>vm/src/rv32.rs\<close>), Parse (\<^verbatim>\<open>vm/src/rv32/parse.rs\<close>), Decode: instructions, the decoder, and an encoder for
    the formats of the RISC-V manual.  Decoding inverts encoding; a decoded instruction re-encodes to the word up to
    the bits the decoder ignores.
  \<^item> Cacheline, Memory, Paged, Path, Trie, Trie_Correct (\<^verbatim>\<open>vm/src/memory.rs\<close> and \<^verbatim>\<open>vm/src/memory/\<close>): cache lines over
    bytes; the locale \<open>memory_controller\<close>, the contract the evaluator relies on, interpreted for the paged memory
    and for the trie; authentication paths and their binding; the invariant of the trie, and queries and updates that
    return verifying paths.
  \<^item> Syscalls, Eval, Eval_Correct, Simulation (\<^verbatim>\<open>vm/src/syscalls.rs\<close>, \<^verbatim>\<open>vm/src/eval.rs\<close>): the evaluator; it refines a
    semantics of instructions over a program counter, a register file and the bytes of the memory, on every memory that
    meets the contract; when it fails and when it does not; the same run on both memories.
  \<^item> Machines, Vm_Lib, Trace, Trace_Correct (\<^verbatim>\<open>vm/src/machines.rs\<close>, \<^verbatim>\<open>vm/src/lib.rs\<close>, \<^verbatim>\<open>vm/src/trace.rs\<close>): test programs,
    loading and running, traces.  Loops that may run forever are partial functions into options; with a trace limit
    they return.  Replaying a block gives the states of the run.

  \<^bold>\<open>The step circuit.\<close>
  \<^item> R1cs (\<^verbatim>\<open>vm/src/circuit/r1cs.rs\<close>) and Riscv (\<^verbatim>\<open>vm/src/circuit/riscv.rs\<close>): the builder and the gadgets, as functions
    from a system to a system.  A closure that fills three rows is a triple of lists of writes.
  \<^item> Constraint_Logic, Gadgets, Alu_Gadgets, Decode_Gadgets, Step_Sound, Step_Isa: soundness.  What an arbitrary
    assignment of the columns that satisfies the rows must look like, gadget by gadget, up to the meaning of the
    instruction.  The columns the rows leave free are named by the predicate \<open>advice\<close>.
  \<^item> Honest, Runs, Names, Honest_Gadgets: completeness of the basic gadgets (the builder does not fail and its own
    values satisfy the rows), by a weakest-precondition calculus.
  \<^item> Shape: the rows do not depend on the step, and the witness-only mode computes the same witness; two instances of
    one locale.  Circuit_Correct states the results.

  \<^bold>\<open>Folding.\<close>
  \<^item> Sparse (\<^verbatim>\<open>nova/src/sparse.rs\<close>): compressed sparse row matrices against lists of rows.
  \<^item> Relaxed, Relaxed_Correct (\<^verbatim>\<open>nova/src/r1cs/mod.rs\<close>, \<^verbatim>\<open>nova/src/folding/nova/nifs.rs\<close>,
    \<^verbatim>\<open>nova/src/provider/pedersen.rs\<close>): relaxed R1CS and its folding.  The locale \<open>commitment_scheme\<close> is the contract of
    commitments (linear on vectors of one length), interpreted for Pedersen commitments.  Folding preserves
    satisfaction; three foldings of the same pairs that verify make the pairs satisfied.

  \<^bold>\<open>Sum-check.\<close>
  \<^item> Mle, Mle_Correct (\<^verbatim>\<open>spartan/src/math.rs\<close>, \<^verbatim>\<open>spartan/src/dense_mlpoly.rs\<close>, \<^verbatim>\<open>nova/src/ccs/mle.rs\<close>): tables of the
    equality polynomial, dense and sparse multilinear polynomials, conversions from vectors and matrices.
  \<^item> Sumcheck, Sumcheck_Correct (\<^verbatim>\<open>spartan/src/unipoly.rs\<close>, \<^verbatim>\<open>spartan/src/transcript.rs\<close>, \<^verbatim>\<open>spartan/src/sumcheck.rs\<close>): the
    round polynomials, the verifier and the cubic prover; completeness, and soundness with the bound of three bad
    challenges in a round.

  \<^bold>\<open>Committed sparse matrices.\<close>
  \<^item> Product_Tree, Product_Correct, Batched, Batched_Correct (\<^verbatim>\<open>spartan/src/product_tree.rs\<close>, the batched prover of
    \<^verbatim>\<open>spartan/src/sumcheck.rs\<close>): product and dot-product circuits, the layered proofs over them, single and batched;
    what the circuits compute, and completeness of the proofs.
  \<^item> Sparse_Mat, Sparse_Mat_Correct (\<^verbatim>\<open>spartan/src/sparse_mlpoly.rs\<close>): sparse matrices, their dense representation with
    timestamps, the hashed memory and its product circuits; the balance of the memory check and the evaluation as a dot
    product of dereferenced tables.
  \<^item> Spark, Spark_Mle, Spark_Correct (\<^verbatim>\<open>spartan/src/sparse_mlpoly.rs\<close>): the proof of evaluation of committed matrices, over a
    polynomial commitment scheme given as a record of operations; multilinear extensions of hashed and concatenated
    tables, and completeness of the proof.

  \<^bold>\<open>Parameters.\<close>  The hash functions of the Merkle trie, the ELF parser and the file system, the canonical
  representative of a field element, the sponge and the transcript, and the group of the commitments belong to other
  crates.  They are arguments of the definitions, or records of operations, and what a property needs of them is a
  hypothesis of the property.

  \<^bold>\<open>Bounds.\<close>  The trie has \<open>CACHE_LOG\<close> levels; its recursion counts them down.  No definition takes fuel: loops are
  structural recursions, recursions with a measure, or partial functions into options.

  \<^bold>\<open>Not modelled.\<close>  The glue to arkworks (\<^verbatim>\<open>vm/src/circuit/step.rs\<close> and the serde adapters); the gadgets of
  \<^verbatim>\<open>nova\<close> generated through the arkworks constraint-system front end (augmented circuits, non-native arithmetic, IVC and
  PCD drivers); the elliptic-curve commitments to polynomials and the proofs of their openings, with the
  zero-knowledge variants of sum-check that use them; the jolt and HyperKZG backends, which wrap other proof systems;
  the command line, the network and the SDK, which are input and output; the guest runtime, which is assembly and
  procedural macros.
\<close>

end
